(* ===== verification/Prelude.thy ===== *)
theory Prelude
  imports Main "HOL-Library.Multiset" "HOL-Library.Word"
begin

text \<open>
  Shared material of the development: the machine types of the C and C++ sources, the
  effect type used wherever the C++ code can throw (a state together with either an
  exception or a result), and the facts on lists that several components need.
\<close>

unbundle bit_operations_syntax

subsection \<open>Machine types\<close>

type_synonym u8 = "8 word"
type_synonym u16 = "16 word"
type_synonym u32 = "32 word"
type_synonym u64 = "64 word"

subsection \<open>Hint collections\<close>

named_theorems eff_simps \<open>evaluation rules of the effect type\<close>
named_theorems eff_elims \<open>elimination rules for results of effectful code\<close>

subsection \<open>C++ exceptions and state\<close>

text \<open>
  The exceptions that reach the modelled code: the three yaml-cpp exceptions its node
  accessors throw, \<open>std::out_of_range\<close> of \<open>std::map::at\<close>, and anything a caller's
  callback throws.
\<close>

datatype exn = InvalidNode | BadSubscript | BadConversion | OutOfRange | CallbackExn nat

text \<open>
  A computation on a state that returns a value or fails; the C++ code fails by an exception,
  the C code of the image decoder by an error return.
\<close>

type_synonym ('e, 's, 'a) comp = "'s \<Rightarrow> ('e + 'a) \<times> 's"
type_synonym ('s, 'a) eff = "(exn, 's, 'a) comp"

abbreviation returnE :: "'a \<Rightarrow> ('e, 's, 'a) comp" where
  "returnE a \<equiv> Pair (Inr a)"

abbreviation throwE :: "'e \<Rightarrow> ('e, 's, 'a) comp" where
  "throwE e \<equiv> Pair (Inl e)"

abbreviation liftE :: "'e + 'a \<Rightarrow> ('e, 's, 'a) comp" where
  "liftE r \<equiv> Pair r"

definition bindE :: "('e, 's, 'a) comp \<Rightarrow> ('a \<Rightarrow> ('e, 's, 'b) comp) \<Rightarrow> ('e, 's, 'b) comp" where
  "bindE m k s = (case m s of (Inl e, s') \<Rightarrow> (Inl e, s') | (Inr a, s') \<Rightarrow> k a s')"

text \<open>\<open>try m catch (...) h\<close>.\<close>

definition catchE :: "('e, 's, 'a) comp \<Rightarrow> ('e, 's, 'a) comp \<Rightarrow> ('e, 's, 'a) comp" where
  "catchE m h s = (case m s of (Inl e, s') \<Rightarrow> h s' | (Inr a, s') \<Rightarrow> (Inr a, s'))"

text \<open>A step that cannot fail, returning a value or changing the state.\<close>

definition runE :: "('s \<Rightarrow> 'a \<times> 's) \<Rightarrow> ('e, 's, 'a) comp" where
  "runE f s = (let (a, s') = f s in (Inr a, s'))"

lemma runE_apply [eff_simps]: "runE f s = (Inr (fst (f s)), snd (f s))"
  by (simp add: runE_def split: prod.split)

lemma bindE_runE [eff_simps]: "bindE (runE f) k s = k (fst (f s)) (snd (f s))"
  by (simp add: runE_def bindE_def split: prod.split)

definition modifyE :: "('s \<Rightarrow> 's) \<Rightarrow> ('e, 's, unit) comp" where
  "modifyE f s = (Inr (), f s)"

lemma modifyE_apply [eff_simps, simp]: "modifyE f s = (Inr (), f s)"
  by (simp add: modifyE_def)

lemma bindE_throw [eff_simps]: "m s = (Inl e, s') \<Longrightarrow> bindE m k s = (Inl e, s')"
  by (simp add: bindE_def)

lemma bindE_return [eff_simps]: "m s = (Inr a, s') \<Longrightarrow> bindE m k s = k a s'"
  by (simp add: bindE_def)

lemma catchE_throw [eff_simps]: "m s = (Inl e, s') \<Longrightarrow> catchE m h s = h s'"
  by (simp add: catchE_def)

lemma catchE_return [eff_simps]: "m s = (Inr a, s') \<Longrightarrow> catchE m h s = (Inr a, s')"
  by (simp add: catchE_def)

lemma bindE_Inr [simp]: "bindE (Pair (Inr a)) k = k a"
  by (rule ext) (simp add: bindE_def)

lemma bindE_Inl [simp]: "bindE (Pair (Inl e)) k = Pair (Inl e)"
  by (rule ext) (simp add: bindE_def)

lemma catchE_Inr [simp]: "catchE (Pair (Inr a)) h = Pair (Inr a)"
  by (rule ext) (simp add: catchE_def)

lemma catchE_Inl [simp]: "catchE (Pair (Inl e)) h = h"
  by (rule ext) (simp add: catchE_def)

lemma bindE_liftE: "bindE (Pair r) k = (case r of Inl e \<Rightarrow> Pair (Inl e) | Inr a \<Rightarrow> k a)"
  by (cases r) simp_all

lemma bindE_assoc: "bindE (bindE m k) l = bindE m (\<lambda>a. bindE (k a) l)"
  by (rule ext) (simp add: bindE_def split: prod.splits sum.splits)

lemma catchE_no_throw:
  assumes "\<And>s'. \<exists>a s''. h s' = (Inr a, s'')"
  shows "\<exists>a s''. catchE m h s = (Inr a, s'')"
  using assms by (auto simp: catchE_def split: prod.splits sum.splits)

text \<open>A range-based \<open>for\<close> over a list; a throw in the body leaves the loop.\<close>

fun forE :: "('a \<Rightarrow> ('e, 's, unit) comp) \<Rightarrow> 'a list \<Rightarrow> ('e, 's, unit) comp" where
  "forE f [] = returnE ()"
| "forE f (x # xs) = bindE (f x) (\<lambda>_. forE f xs)"

lemma forE_append: "forE f (xs @ ys) = bindE (forE f xs) (\<lambda>_. forE f ys)"
  by (induction xs) (simp_all add: bindE_assoc)

subsection \<open>Triples\<close>

text \<open>From \<open>s\<close> the computation returns, and its result satisfies \<open>Q\<close>.\<close>

definition ensures :: "('e, 's, 'a) comp \<Rightarrow> 's \<Rightarrow> ('a \<Rightarrow> 's \<Rightarrow> bool) \<Rightarrow> bool" where
  "ensures m s Q \<longleftrightarrow> (\<exists>a s'. m s = (Inr a, s') \<and> Q a s')"

named_theorems ensures_rules \<open>introduction rules for total triples\<close>

lemma ensures_bind [ensures_rules]: "ensures m t (\<lambda>a t'. ensures (f a) t' Q) \<Longrightarrow> ensures (bindE m f) t Q"
  by (auto simp: ensures_def bindE_def)

lemma ensures_return [ensures_rules]: "Q a t \<Longrightarrow> ensures (returnE a) t Q"
  by (simp add: ensures_def)

lemma ensures_mono: "ensures m t R \<Longrightarrow> (\<And>a t'. R a t' \<Longrightarrow> Q a t') \<Longrightarrow> ensures m t Q"
  by (auto simp: ensures_def)

lemma ensures_if [ensures_rules]:
  "(b \<Longrightarrow> ensures m t Q) \<Longrightarrow> (\<not> b \<Longrightarrow> ensures n t Q) \<Longrightarrow> ensures (if b then m else n) t Q"
  by simp

lemma ensures_prod [ensures_rules]: "ensures (f (fst p) (snd p)) t Q \<Longrightarrow> ensures (case p of (a, b) \<Rightarrow> f a b) t Q"
  by (simp add: case_prod_beta)

text \<open>
  From any state, the computation fails only with the failures \<open>ok\<close>, or it returns a value that
  satisfies \<open>Q\<close>.
\<close>

definition safely :: "('e \<Rightarrow> bool) \<Rightarrow> ('e, 's, 'a) comp \<Rightarrow> ('a \<Rightarrow> bool) \<Rightarrow> bool" where
  "safely ok m Q \<longleftrightarrow> (\<forall>s. case m s of (Inl e, s') \<Rightarrow> ok e | (Inr a, s') \<Rightarrow> Q a)"

named_theorems safely_rules \<open>introduction rules for safety\<close>

lemma safely_bind [safely_rules]:
  assumes "safely ok m R" and "\<And>a. R a \<Longrightarrow> safely ok (f a) Q"
  shows "safely ok (bindE m f) Q"
  unfolding safely_def
proof
  fix s
  obtain r s1 where m: "m s = (r, s1)" by (cases "m s")
  show "case bindE m f s of (Inl e, s') \<Rightarrow> ok e | (Inr a, s') \<Rightarrow> Q a"
  proof (cases r)
    case (Inr a)
    then have "R a" using assms(1) [unfolded safely_def, rule_format, of s] m by simp
    from assms(2) [OF this, unfolded safely_def, rule_format, of s1] show ?thesis using m Inr by (simp add: bindE_def)
  qed (use assms(1) [unfolded safely_def, rule_format, of s] m in \<open>simp add: bindE_def\<close>)
qed

lemma safely_return [safely_rules]: "Q a \<Longrightarrow> safely ok (returnE a) Q"
  and safely_throw [safely_rules]: "ok e \<Longrightarrow> safely ok (throwE e) Q"
  and safely_run [safely_rules]: "(\<And>a. Q a) \<Longrightarrow> safely ok (runE f) Q"
  by (simp_all add: safely_def runE_apply)

lemma safely_modify [safely_rules]: "Q () \<Longrightarrow> safely ok (modifyE g) Q"
  by (simp add: safely_def)

lemma safely_lift: "safely ok (liftE r) Q \<longleftrightarrow> (case r of Inl e \<Rightarrow> ok e | Inr a \<Rightarrow> Q a)"
  by (simp add: safely_def split: sum.split)

lemma safely_if [safely_rules]: "(b \<Longrightarrow> safely ok m Q) \<Longrightarrow> (\<not> b \<Longrightarrow> safely ok n Q) \<Longrightarrow> safely ok (if b then m else n) Q"
  by simp

lemma safely_prod [safely_rules]: "(\<And>a b. p = (a, b) \<Longrightarrow> safely ok (f a b) Q) \<Longrightarrow> safely ok (case p of (a, b) \<Rightarrow> f a b) Q"
  by (cases p) simp

lemma safely_mono: "safely ok m R \<Longrightarrow> (\<And>a. R a \<Longrightarrow> Q a) \<Longrightarrow> safely ok m Q"
  unfolding safely_def by (fastforce split: prod.splits sum.splits)

subsection \<open>Lists\<close>

lemma mset_update_last_butlast:
  assumes "i < length xs"
  shows "add_mset (xs ! i) (mset (butlast (xs[i := last xs]))) = mset xs"
proof (cases "i = length xs - 1")
  case True
  have ne: "xs \<noteq> []" using assms by auto
  then have "xs[i := last xs] = xs"
    using True by (simp add: last_conv_nth list_update_same_conv)
  then show ?thesis
    using True ne by (metis append_butlast_last_id last_conv_nth mset.simps(2) mset_append union_mset_add_mset_right add.right_neutral mset.simps(1))
next
  case False
  then have i: "i < length xs - 1" using assms by simp
  have ne: "xs \<noteq> []" using assms by auto
  obtain ys z where xs: "xs = ys @ [z]" using ne by (metis rev_exhaust)
  have iy: "i < length ys" using i xs by simp
  have "butlast (xs[i := last xs]) = ys[i := z]"
    using iy xs by (simp add: list_update_append butlast_append)
  moreover have "add_mset (ys ! i) (mset (ys[i := z])) = add_mset z (mset ys)"
    using iy by (simp add: mset_update)
  ultimately show ?thesis
    using xs iy by (simp add: nth_append)
qed

lemma nth_butlast_update:
  "j < length xs - 1 \<Longrightarrow> butlast (xs[i := v]) ! j = (if j = i then v else xs ! j)"
  by (simp add: nth_butlast nth_list_update)

subsection \<open>Lists of lists of one length\<close>

lemma chunk_of_concat:
  assumes "\<forall>xs \<in> set xss. length xs = n" and "i < length xss"
  shows "take n (drop (n * i) (concat xss)) = xss ! i"
  using assms by (induction xss arbitrary: i) (auto simp: nth_Cons' drop_Cons' algebra_simps gr0_conv_Suc)

lemma length_concat_chunks: "\<forall>xs \<in> set xss. length xs = n \<Longrightarrow> length (concat xss) = n * length xss"
  by (induction xss) simp_all

lemma nth_concat_chunks:
  assumes "\<forall>xs \<in> set xss. length xs = n" and "i < length xss" and "k < n"
  shows "concat xss ! (n * i + k) = xss ! i ! k"
proof -
  note length_concat_chunks [OF assms(1)]
  moreover have "n * i \<le> n * length xss" using assms(2) by (intro mult_le_mono) simp_all
  ultimately have "n * i \<le> length (concat xss)" by simp
  then have "take n (drop (n * i) (concat xss)) ! k = concat xss ! (n * i + k)" using assms(3) by simp
  then show ?thesis using chunk_of_concat [OF assms(1,2)] by simp
qed

lemma nth_rectangle:
  assumes "i < m" and "j < n"
  shows "concat (map (\<lambda>i. map (f i) [0..<n]) [0..<m]) ! (n * i + j) = f i j"
  using nth_concat_chunks [of "map (\<lambda>i. map (f i) [0..<n]) [0..<m]" n i j] assms by simp

lemma length_rectangle: "length (concat (map (\<lambda>i. map (f i) [0..<n]) [0..<m])) = m * n"
  by (simp add: length_concat sum_list_triv comp_def)

end
