(* ===== verification/Containers.thy ===== *)
theory Containers
  imports Prelude
begin

text \<open>
  The container templates of \<open>include/util/Helpers.h\<close>. A \<open>lib::vector\<close> is a list. An
  index that is not below the size makes the C++ code form an iterator past the end and
  read through it, which is undefined; the model returns \<open>None\<close> there.
\<close>

subsection \<open>The operations\<close>

definition remove_at :: "'a list \<Rightarrow> nat \<Rightarrow> 'a list option" where
  "remove_at container index =
     (if index < length container
      then let last_pos = length container - 1;
               container' = (if index \<noteq> last_pos
                             then container[index := container ! last_pos] else container)
           in Some (butlast container')
      else None)"

definition move_back_and_replace :: "'a list \<Rightarrow> nat \<Rightarrow> 'a \<Rightarrow> 'a list option" where
  "move_back_and_replace container index data =
     (if index < length container
      then let container' = container @ [container ! index]
           in Some (container'[index := data])
      else None)"

fun move_back :: "'a list \<Rightarrow> 'a list \<Rightarrow> 'a list" where
  "move_back [] out = out"
| "move_back (item # rest) out = move_back rest (out @ [item])"

function pad_with :: "'a list \<Rightarrow> nat \<Rightarrow> 'a \<Rightarrow> 'a list" where
  "pad_with container n value =
     (if length container < n then pad_with (container @ [value]) n value else container)"
  by pat_completeness auto
termination
  by (relation "measure (\<lambda>(c, n, v). n - length c)") auto

declare pad_with.simps [simp del]

subsection \<open>What they do\<close>

lemma remove_at_Some:
  assumes "index < length xs"
  shows "remove_at xs index = Some (butlast (xs[index := last xs]))"
proof -
  have "last xs = xs ! (length xs - 1)"
    using assms by (intro last_conv_nth) auto
  then show ?thesis
    using assms by (auto simp: remove_at_def Let_def list_update_same_conv)
qed

lemma remove_at_length: "remove_at xs index = Some ys \<Longrightarrow> length ys = length xs - 1"
  by (auto simp: remove_at_def Let_def split: if_splits)

lemma remove_at_mset:
  assumes "remove_at xs index = Some ys"
  shows "mset xs = add_mset (xs ! index) (mset ys)"
proof -
  have lt: "index < length xs" using assms by (simp add: remove_at_def split: if_splits)
  with assms have "ys = butlast (xs[index := last xs])"
    by (simp add: remove_at_Some)
  then show ?thesis using mset_update_last_butlast [OF lt] by simp
qed

lemma remove_at_nth:
  assumes "remove_at xs index = Some ys" and "j < length ys"
  shows "ys ! j = (if j = index then last xs else xs ! j)"
proof -
  have lt: "index < length xs" using assms(1) by (simp add: remove_at_def split: if_splits)
  have "j < length xs - 1" using assms remove_at_length by metis
  then show ?thesis
    using assms(1) lt by (auto simp: remove_at_Some nth_butlast_update)
qed

lemma move_back_append: "move_back xs out = out @ xs"
  by (induction xs arbitrary: out) auto

lemma pad_with_replicate: "pad_with xs n v = xs @ replicate (n - length xs) v"
proof (induction xs n v rule: pad_with.induct)
  case (1 xs n v)
  show ?case
  proof (cases "length xs < n")
    case True
    then have "n - length xs = Suc (n - length (xs @ [v]))" by simp
    with True "1.IH" show ?thesis
      by (subst pad_with.simps) (simp add: replicate_append_same)
  next
    case False
    then show ?thesis by (subst pad_with.simps) simp
  qed
qed

lemma pad_with_length: "length (pad_with xs n v) = max (length xs) n"
  by (simp add: pad_with_replicate)

lemma pad_with_nth_old: "i < length xs \<Longrightarrow> pad_with xs n v ! i = xs ! i"
  by (simp add: pad_with_replicate nth_append)

lemma move_back_and_replace_mset:
  "move_back_and_replace xs i d = Some ys \<Longrightarrow> mset ys = add_mset d (mset xs)"
  by (auto simp: move_back_and_replace_def Let_def mset_update nth_append split: if_splits)

end
