(* ===== verification/YamlNode.thy ===== *)
theory YamlNode
  imports Prelude
begin

text \<open>
  The part of the yaml-cpp node interface (\<open>depends/yaml-cpp/include/yaml-cpp/node\<close>) the
  engine calls. A document node is a null, a scalar, a sequence or a map; a \<open>YAML::Node\<close>
  handle either refers to one, or is a \<open>Zombie\<close>, which is what subscripting a
  \<open>const Node\<close> with an absent key yields, or an undefined node, which is what subscripting
  a mutable \<open>Node\<close> with an absent key creates. A zombie answers only \<open>IsDefined\<close>: asking
  its type throws \<open>InvalidNode\<close>.
\<close>

subsection \<open>Nodes and handles\<close>

datatype ynode = YNull | YScalar string | YSeq "ynode list" | YMap "(ynode \<times> ynode) list"

datatype yref = Zombie | Undef | Node ynode

datatype ytype = Undefined | Null | Scalar | Sequence | Map

definition node_type :: "yref \<Rightarrow> exn + ytype" where
  "node_type r =
     (case r of
        Zombie \<Rightarrow> Inl InvalidNode
      | Undef \<Rightarrow> Inr Undefined
      | Node n \<Rightarrow> Inr (case n of YNull \<Rightarrow> Null | YScalar s \<Rightarrow> Scalar | YSeq xs \<Rightarrow> Sequence | YMap ps \<Rightarrow> Map))"

definition has_type :: "ytype \<Rightarrow> yref \<Rightarrow> exn + bool" where
  "has_type t r = (case node_type r of Inl e \<Rightarrow> Inl e | Inr t' \<Rightarrow> Inr (t' = t))"

abbreviation is_scalar :: "yref \<Rightarrow> exn + bool" where "is_scalar \<equiv> has_type Scalar"
abbreviation is_sequence :: "yref \<Rightarrow> exn + bool" where "is_sequence \<equiv> has_type Sequence"
abbreviation is_map :: "yref \<Rightarrow> exn + bool" where "is_map \<equiv> has_type Map"

definition is_defined :: "yref \<Rightarrow> bool" where
  "is_defined r = (case r of Zombie \<Rightarrow> False | Undef \<Rightarrow> False | Node n \<Rightarrow> True)"

subsection \<open>Subscripting\<close>

text \<open>\<open>equals(key)\<close> decodes the stored key as a string, so only scalar keys can match.\<close>

fun key_equals :: "string \<Rightarrow> ynode \<Rightarrow> bool" where
  "key_equals key (YScalar s) = (s = key)"
| "key_equals key n = False"

fun find_pair :: "string \<Rightarrow> (ynode \<times> ynode) list \<Rightarrow> ynode option" where
  "find_pair key [] = None"
| "find_pair key ((k, v) # ps) = (if key_equals key k then Some v else find_pair key ps)"

text \<open>\<open>const Node Node::operator[](key) const\<close> with \<open>node_data::get(key) const\<close>.\<close>

definition get_const :: "yref \<Rightarrow> string \<Rightarrow> exn + yref" where
  "get_const r key =
     (case r of
        Zombie \<Rightarrow> Inl InvalidNode
      | Undef \<Rightarrow> Inr Zombie
      | Node n \<Rightarrow>
          (case n of
             YMap ps \<Rightarrow> Inr (case find_pair key ps of None \<Rightarrow> Zombie | Some v \<Rightarrow> Node v)
           | YNull \<Rightarrow> Inr Zombie
           | YSeq xs \<Rightarrow> Inr Zombie
           | YScalar s \<Rightarrow> Inl BadSubscript))"

text \<open>
  \<open>Node Node::operator[](key)\<close>: an absent key gets a fresh undefined value. The pair it
  inserts stays undefined, and iteration skips undefined pairs, so the engine, which
  subscripts a mutable handle only to read the \<open>type\<close> of a map, sees no other effect.
\<close>

definition get_mut :: "yref \<Rightarrow> string \<Rightarrow> exn + yref" where
  "get_mut r key =
     (case get_const r key of Inl e \<Rightarrow> Inl e | Inr r' \<Rightarrow> Inr (if is_defined r' then r' else Undef))"

subsection \<open>Decoding\<close>

text \<open>\<open>as<std::string>\<close>; other scalar types are decoded by iostreams and are parameters.\<close>

definition as_string :: "yref \<Rightarrow> exn + string" where
  "as_string r =
     (case r of
        Zombie \<Rightarrow> Inl InvalidNode
      | Undef \<Rightarrow> Inl BadConversion
      | Node n \<Rightarrow> (case n of YScalar s \<Rightarrow> Inr s | _ \<Rightarrow> Inl BadConversion))"

fun decode_all :: "(yref \<Rightarrow> exn + 'a) \<Rightarrow> ynode list \<Rightarrow> exn + 'a list" where
  "decode_all conv [] = Inr []"
| "decode_all conv (x # xs) =
     (case conv (Node x) of
        Inl e \<Rightarrow> Inl e
      | Inr v \<Rightarrow> (case decode_all conv xs of Inl e \<Rightarrow> Inl e | Inr vs \<Rightarrow> Inr (v # vs)))"

text \<open>\<open>as<std::vector<T>>\<close>: every element by \<open>as<T>\<close>, in order.\<close>

definition as_vector :: "(yref \<Rightarrow> exn + 'a) \<Rightarrow> yref \<Rightarrow> exn + 'a list" where
  "as_vector conv r =
     (case r of
        Zombie \<Rightarrow> Inl InvalidNode
      | Undef \<Rightarrow> Inl BadConversion
      | Node n \<Rightarrow> (case n of YSeq xs \<Rightarrow> decode_all conv xs | _ \<Rightarrow> Inl BadConversion))"

text \<open>Iteration over a sequence or over a map; other nodes have an empty range.\<close>

definition seq_elems :: "yref \<Rightarrow> ynode list" where
  "seq_elems r = (case r of Node (YSeq xs) \<Rightarrow> xs | _ \<Rightarrow> [])"

definition map_pairs :: "yref \<Rightarrow> (ynode \<times> ynode) list" where
  "map_pairs r = (case r of Node (YMap ps) \<Rightarrow> ps | _ \<Rightarrow> [])"

named_theorems yaml_simps \<open>evaluation of the node interface\<close>

lemma has_type_simps [simp, yaml_simps]:
  "has_type t Zombie = Inl InvalidNode"
  "has_type t Undef = Inr (t = Undefined)"
  "has_type t (Node YNull) = Inr (t = Null)"
  "has_type t (Node (YScalar s)) = Inr (t = Scalar)"
  "has_type t (Node (YSeq xs)) = Inr (t = Sequence)"
  "has_type t (Node (YMap ps)) = Inr (t = Map)"
  by (auto simp: has_type_def node_type_def)

lemma get_const_simps [simp, yaml_simps]:
  "get_const Zombie key = Inl InvalidNode"
  "get_const Undef key = Inr Zombie"
  "get_const (Node YNull) key = Inr Zombie"
  "get_const (Node (YScalar s)) key = Inl BadSubscript"
  "get_const (Node (YSeq xs)) key = Inr Zombie"
  "get_const (Node (YMap ps)) key =
     Inr (case find_pair key ps of None \<Rightarrow> Zombie | Some v \<Rightarrow> Node v)"
  by (simp_all add: get_const_def)

lemma as_string_simps [simp, yaml_simps]:
  "as_string Zombie = Inl InvalidNode"
  "as_string (Node (YScalar s)) = Inr s"
  by (simp_all add: as_string_def)

lemma is_defined_simps [simp, yaml_simps]:
  "\<not> is_defined Zombie" "\<not> is_defined Undef" "is_defined (Node n)"
  by (simp_all add: is_defined_def)

lemma ranges [simp, yaml_simps]:
  "seq_elems (Node (YSeq xs)) = xs" "map_pairs (Node (YMap ps)) = ps"
  by (simp_all add: seq_elems_def map_pairs_def)

lemma yref_cases [case_names Zombie Undef Null Scalar Seq Map]:
  obtains "r = Zombie" | "r = Undef" | "r = Node YNull" | s where "r = Node (YScalar s)"
  | xs where "r = Node (YSeq xs)" | ps where "r = Node (YMap ps)"
proof (cases r)
  case (Node n)
  then show ?thesis using that by (cases n) auto
qed (use that in auto)

lemma has_type_Node: "\<exists>b. has_type t (Node n) = Inr b"
  by (cases n) simp_all

lemma is_scalar_True_iff: "is_scalar r = Inr True \<longleftrightarrow> (\<exists>s. r = Node (YScalar s))"
  by (cases r rule: yref_cases) simp_all

lemma is_sequence_True_iff: "is_sequence r = Inr True \<longleftrightarrow> (\<exists>xs. r = Node (YSeq xs))"
  by (cases r rule: yref_cases) simp_all

lemma is_map_True_iff: "is_map r = Inr True \<longleftrightarrow> (\<exists>ps. r = Node (YMap ps))"
  by (cases r rule: yref_cases) simp_all

lemma has_type_Inl_iff: "has_type t r = Inl e \<longleftrightarrow> r = Zombie \<and> e = InvalidNode"
  by (cases r rule: yref_cases) auto

end
