(* ===== verification/ConfigParser.thy ===== *)
theory ConfigParser
  imports YamlNode
begin

text \<open>
  The configuration parser combinators of \<open>include/util/Config.h\<close> and
  \<open>src/util/Config.cpp\<close>. A \<open>Def\<close> is a closure that takes an error callback and a node; it
  writes to variables captured by reference and may throw. Its model takes the callback and
  the node and returns an effect on \<open>pstate\<close>: the captured output variables, the list of
  the error reports that reached the outermost callback, and the stack of the \<open>success\<close>
  locals of the active \<open>one_of\<close> calls, which their callbacks write through a reference.
\<close>

subsection \<open>State, errors and closures\<close>

datatype cfg_error =
  Success | NotScalar | NotSequence | NotMap | BadTypeConversion | AttributeMissing
  | InvalidValue | BadParse

record 'o pstate =
  out :: 'o
  errs :: "(cfg_error \<times> string) list"
  flags :: "bool list"

type_synonym 'o error_fn = "cfg_error \<Rightarrow> string \<Rightarrow> yref \<Rightarrow> ('o pstate, unit) eff"
type_synonym 'o def = "'o error_fn \<Rightarrow> yref \<Rightarrow> ('o pstate, unit) eff"

text \<open>\<open>Config::error_names\<close>: every error but \<open>Success\<close> has a name.\<close>

fun error_names :: "cfg_error \<Rightarrow> string option" where
  "error_names Success = None"
| "error_names NotScalar = Some ''Not Scalar''"
| "error_names NotSequence = Some ''Not A Sequence''"
| "error_names NotMap = Some ''Not A Map''"
| "error_names BadTypeConversion = Some ''Bad Type Conversion''"
| "error_names AttributeMissing = Some ''Attribute Missing''"
| "error_names InvalidValue = Some ''Invalid Or Unexpected Value''"
| "error_names BadParse = Some ''Failed To Parse''"

text \<open>
  The default callback looks the name up with \<open>at\<close>, which throws on \<open>Success\<close>, and logs.
\<close>

definition default_error_handler :: "'o error_fn" where
  "default_error_handler err name node =
     (case error_names err of
        None \<Rightarrow> throwE OutOfRange
      | Some nm \<Rightarrow> modifyE (\<lambda>s. s\<lparr>errs := errs s @ [(err, name)]\<rparr>))"

subsection \<open>Assembling parsers\<close>

text \<open>
  \<open>detail::make_parser\<close> runs the definitions in order and swallows whatever each throws.
  \<open>Config::make_parser\<close> without a callback uses the default one.
\<close>

definition make_parser :: "'o def list \<Rightarrow> 'o def" where
  "make_parser def_fns error_cb node =
     forE (\<lambda>fn. catchE (fn error_cb node) (returnE ())) def_fns"

definition parser :: "'o def list \<Rightarrow> yref \<Rightarrow> ('o pstate, unit) eff" where
  "parser def_fns node = make_parser def_fns default_error_handler node"

subsection \<open>Definitions for one attribute\<close>

definition fn :: "string \<Rightarrow> (yref \<Rightarrow> ('o pstate, cfg_error) eff) \<Rightarrow> 'o def" where
  "fn name func error_cb input =
     bindE (liftE (get_const input name)) (\<lambda>node.
       if is_defined node
       then bindE (func node) (\<lambda>err. if err \<noteq> Success then error_cb err name node else returnE ())
       else error_cb AttributeMissing name node)"

text \<open>
  \<open>conv\<close> is \<open>as<Type>\<close> and \<open>assign\<close> the assignment to the captured reference. An exception
  of \<open>as\<close> leaves the variable alone.
\<close>

definition scalar :: "string \<Rightarrow> (yref \<Rightarrow> exn + 'v) \<Rightarrow> ('v \<Rightarrow> 'o \<Rightarrow> 'o) \<Rightarrow> 'o def" where
  "scalar name conv assign error_cb input =
     bindE (liftE (get_const input name)) (\<lambda>node.
     bindE (liftE (is_scalar node)) (\<lambda>b.
       if b
       then catchE
              (bindE (liftE (conv node)) (\<lambda>v. modifyE (\<lambda>s. s\<lparr>out := assign v (out s)\<rparr>)))
              (error_cb BadTypeConversion name node)
       else error_cb NotScalar name node))"

definition choice ::
  "string \<Rightarrow> (yref \<Rightarrow> exn + 'k) \<Rightarrow> ('k \<rightharpoonup> 'v) \<Rightarrow> ('v \<Rightarrow> 'o \<Rightarrow> 'o) \<Rightarrow> 'o def" where
  "choice name conv options assign error_cb input =
     bindE (liftE (get_const input name)) (\<lambda>node.
     bindE (liftE (is_scalar node)) (\<lambda>b.
       if b
       then catchE
              (bindE (liftE (conv node)) (\<lambda>key.
                 case options key of
                   Some v \<Rightarrow> modifyE (\<lambda>s. s\<lparr>out := assign v (out s)\<rparr>)
                 | None \<Rightarrow> error_cb InvalidValue name node))
              (error_cb BadTypeConversion name node)
       else error_cb NotScalar name node))"

definition sequence :: "string \<Rightarrow> (yref \<Rightarrow> exn + 'v) \<Rightarrow> ('v \<Rightarrow> 'o \<Rightarrow> 'o) \<Rightarrow> 'o def" where
  "sequence name conv assign error_cb input =
     bindE (liftE (get_const input name)) (\<lambda>node.
     bindE (liftE (is_sequence node)) (\<lambda>b.
       if b
       then catchE
              (bindE (liftE (conv node)) (\<lambda>v. modifyE (\<lambda>s. s\<lparr>out := assign v (out s)\<rparr>)))
              (error_cb BadTypeConversion name node)
       else error_cb NotSequence name node))"

text \<open>The variant without a name, for a sequence inside a sequence.\<close>

definition sequence_here :: "(yref \<Rightarrow> exn + 'v) \<Rightarrow> ('v \<Rightarrow> 'o \<Rightarrow> 'o) \<Rightarrow> 'o def" where
  "sequence_here conv assign error_cb input =
     bindE (liftE (is_sequence input)) (\<lambda>b.
       if b
       then catchE
              (bindE (liftE (conv input)) (\<lambda>v. modifyE (\<lambda>s. s\<lparr>out := assign v (out s)\<rparr>)))
              (error_cb BadTypeConversion ''[...]'' input)
       else error_cb NotSequence ''[...]'' input)"

text \<open>
  The nested variant: every element is parsed into the captured \<open>temp\<close>, then \<open>temp\<close> is
  pushed to the captured output and reset; \<open>store\<close> is that push and reset.
\<close>

definition sequence_of :: "string \<Rightarrow> ('o \<Rightarrow> 'o) \<Rightarrow> 'o def list \<Rightarrow> 'o def" where
  "sequence_of name store children error_cb input =
     bindE (liftE (get_const input name)) (\<lambda>node.
     bindE (liftE (is_sequence node)) (\<lambda>b.
       if b
       then forE (\<lambda>child.
              catchE
                (bindE (make_parser children error_cb (Node child)) (\<lambda>_.
                   modifyE (\<lambda>s. s\<lparr>out := store (out s)\<rparr>)))
                (error_cb BadParse name (Node child)))
              (seq_elems node)
       else error_cb NotSequence name node))"

definition map_of_defs :: "string \<Rightarrow> 'o def list \<Rightarrow> 'o def" where
  "map_of_defs name children error_cb input =
     bindE (liftE (get_const input name)) (\<lambda>node.
     bindE (liftE (is_map node)) (\<lambda>b.
       if b
       then catchE (make_parser children error_cb node) (error_cb AttributeMissing name node)
       else error_cb NotMap name node))"

subsection \<open>Combinators over several definitions\<close>

definition soft_error :: "cfg_error \<Rightarrow> bool" where
  "soft_error err \<longleftrightarrow>
     \<not> (err \<noteq> NotScalar \<and> err \<noteq> NotSequence \<and> err \<noteq> NotMap \<and> err \<noteq> BadTypeConversion)"

text \<open>
  The callback \<open>one_of\<close> installs: an error of the wrong-shape kind clears the \<open>success\<close>
  local (cell \<open>idx\<close> of the flag stack), any other goes to the outer callback.
\<close>

definition one_of_cb :: "nat \<Rightarrow> 'o error_fn \<Rightarrow> 'o error_fn" where
  "one_of_cb idx error_cb err name node =
     (if \<not> soft_error err then error_cb err name node
      else modifyE (\<lambda>s. s\<lparr>flags := (flags s)[idx := False]\<rparr>))"

fun one_of_loop :: "nat \<Rightarrow> 'o def list \<Rightarrow> 'o error_fn \<Rightarrow> yref \<Rightarrow> ('o pstate, unit) eff" where
  "one_of_loop idx [] error_cb node = returnE ()"
| "one_of_loop idx (d # ds) error_cb node =
     bindE (modifyE (\<lambda>s. s\<lparr>flags := (flags s)[idx := True]\<rparr>)) (\<lambda>_.
     bindE (d (one_of_cb idx error_cb) node) (\<lambda>_ s.
       if flags s ! idx then (Inr (), s) else one_of_loop idx ds error_cb node s))"

text \<open>
  \<open>one_of\<close> pushes its \<open>success\<close> local, runs the loop and pops the local, whether the loop
  returns or throws: nothing here catches.
\<close>

definition one_of :: "'o def list \<Rightarrow> 'o def" where
  "one_of def_fns error_cb node s =
     (let idx = length (flags s);
          (r, s') = one_of_loop idx def_fns error_cb node (s\<lparr>flags := flags s @ [False]\<rparr>)
      in (r, s'\<lparr>flags := take idx (flags s')\<rparr>))"

definition optional_cb :: "'o error_fn \<Rightarrow> 'o error_fn" where
  "optional_cb error_cb err name node =
     (if err \<noteq> AttributeMissing then error_cb err name node else returnE ())"

definition optional :: "'o def list \<Rightarrow> 'o def" where
  "optional def_fns error_cb node =
     forE (\<lambda>fn. catchE (fn (optional_cb error_cb) node) (returnE ())) def_fns"

definition attempt_cb :: "'o error_fn" where
  "attempt_cb err name node = returnE ()"

definition attempt :: "'o def list \<Rightarrow> 'o def" where
  "attempt def_fns error_cb node =
     forE (\<lambda>fn. catchE (fn attempt_cb node) (returnE ())) def_fns"


subsection \<open>The parser loop\<close>

named_theorems cfg_simps \<open>evaluation of the combinators\<close>

lemma make_parser_Nil [cfg_simps]: "make_parser [] cb node = returnE ()"
  by (simp add: make_parser_def)

lemma make_parser_Cons [cfg_simps]:
  "make_parser (d # ds) cb node =
     bindE (catchE (d cb node) (returnE ())) (\<lambda>_. make_parser ds cb node)"
  by (simp add: make_parser_def)

lemma catch_all_returns: "\<exists>s'. catchE m (returnE ()) s = (Inr (), s')"
  by (cases "m s") (auto simp: catchE_def split: sum.splits)

lemma make_parser_returns: "\<exists>s'. make_parser ds cb node s = (Inr (), s')"
proof (induction ds arbitrary: s)
  case Nil
  then show ?case by (simp add: cfg_simps)
next
  case (Cons d ds)
  obtain s1 where "catchE (d cb node) (returnE ()) s = (Inr (), s1)"
    using catch_all_returns [of "d cb node" s] by blast
  with Cons.IH [of s1] show ?case by (simp add: cfg_simps bindE_return)
qed

lemma catchE_make_parser: "catchE (make_parser ds cb node) h = make_parser ds cb node"
proof (rule ext)
  fix s
  obtain s' where "make_parser ds cb node s = (Inr (), s')"
    using make_parser_returns by blast
  then show "catchE (make_parser ds cb node) h s = make_parser ds cb node s"
    by (simp add: catchE_return)
qed

lemma make_parser_skip:
  assumes "d cb node s = (r, s)"
  shows "make_parser (d # ds) cb node s = make_parser ds cb node s"
proof -
  have "catchE (d cb node) (returnE ()) s = (Inr (), s)"
    using assms by (cases r) (simp_all add: catchE_def)
  then show ?thesis by (simp add: cfg_simps bindE_return)
qed

lemma make_parser_step:
  assumes "d cb node s = (r, s')"
  shows "make_parser (d # ds) cb node s = make_parser ds cb node s'"
proof -
  have "catchE (d cb node) (returnE ()) s = (Inr (), s')"
    using assms by (cases r) (simp_all add: catchE_def)
  then show ?thesis by (simp add: cfg_simps bindE_return)
qed

subsection \<open>Attribute definitions on every branch\<close>

lemmas attr_defs = scalar_def choice_def sequence_def sequence_here_def sequence_of_def map_of_defs_def

lemma absent_throws [cfg_simps]:
  assumes "get_const input name = Inr Zombie"
  shows "scalar name conv assign cb input s = (Inl InvalidNode, s)"
    and "choice name kconv options assign cb input s = (Inl InvalidNode, s)"
    and "sequence name conv assign cb input s = (Inl InvalidNode, s)"
    and "sequence_of name store children cb input s = (Inl InvalidNode, s)"
    and "map_of_defs name children cb input s = (Inl InvalidNode, s)"
  using assms by (simp_all add: attr_defs)

lemma fn_absent:
  "get_const input name = Inr Zombie \<Longrightarrow> fn name func cb input = cb AttributeMissing name Zombie"
  by (rule ext) (simp add: fn_def bindE_def)

lemma scalar_present:
  assumes "get_const input name = Inr (Node (YScalar str))"
  shows "scalar name conv assign cb input s =
     (case conv (Node (YScalar str)) of
        Inl e \<Rightarrow> cb BadTypeConversion name (Node (YScalar str)) s
      | Inr v \<Rightarrow> (Inr (), s\<lparr>out := assign v (out s)\<rparr>))"
  using assms by (simp add: scalar_def bindE_def catchE_def split: sum.splits)

lemma scalar_not_scalar:
  assumes "get_const input name = Inr (Node n)" and "\<And>str. n \<noteq> YScalar str"
  shows "scalar name conv assign cb input s = cb NotScalar name (Node n) s"
  using assms by (cases n) (auto simp: scalar_def bindE_liftE)

lemma sequence_present:
  assumes "get_const input name = Inr (Node (YSeq xs))"
  shows "sequence name conv assign cb input s =
     (case conv (Node (YSeq xs)) of
        Inl e \<Rightarrow> cb BadTypeConversion name (Node (YSeq xs)) s
      | Inr v \<Rightarrow> (Inr (), s\<lparr>out := assign v (out s)\<rparr>))"
  using assms by (simp add: sequence_def bindE_def catchE_def split: sum.splits)

lemma sequence_not_sequence:
  assumes "get_const input name = Inr (Node n)" and "\<And>xs. n \<noteq> YSeq xs"
  shows "sequence name conv assign cb input s = cb NotSequence name (Node n) s"
  using assms by (cases n) (auto simp: sequence_def bindE_liftE)

lemma choice_present:
  assumes "get_const input name = Inr (Node (YScalar str))" and "conv (Node (YScalar str)) = Inr key"
    and "options key = Some v"
  shows "choice name conv options assign cb input s = (Inr (), s\<lparr>out := assign v (out s)\<rparr>)"
  using assms by (simp add: choice_def bindE_def catchE_def)

lemma choice_unknown:
  assumes "get_const input name = Inr (Node (YScalar str))" and "conv (Node (YScalar str)) = Inr key"
    and "options key = None"
  shows "choice name conv options assign cb input =
     catchE (cb InvalidValue name (Node (YScalar str))) (cb BadTypeConversion name (Node (YScalar str)))"
  using assms by (intro ext) (simp add: choice_def bindE_def catchE_def)

lemma choice_not_scalar:
  assumes "get_const input name = Inr (Node n)" and "\<And>str. n \<noteq> YScalar str"
  shows "choice name conv options assign cb input s = cb NotScalar name (Node n) s"
  using assms by (cases n) (auto simp: choice_def bindE_liftE)

text \<open>The catch blocks around a nested parser are dead: a parser never throws.\<close>

lemma map_of_defs_eq:
  "map_of_defs name children cb input =
     bindE (liftE (get_const input name)) (\<lambda>node.
     bindE (liftE (is_map node)) (\<lambda>b.
       if b then make_parser children cb node else cb NotMap name node))"
  by (simp only: map_of_defs_def catchE_make_parser)

lemma map_present:
  "get_const input name = Inr (Node (YMap ps)) \<Longrightarrow>
   map_of_defs name children cb input = make_parser children cb (Node (YMap ps))"
  by (intro ext) (simp add: map_of_defs_eq bindE_def)

text \<open>The elements of a nested sequence, as a fold that never fails.\<close>

fun parse_elems :: "('o \<Rightarrow> 'o) \<Rightarrow> 'o def list \<Rightarrow> 'o error_fn \<Rightarrow> ynode list \<Rightarrow> 'o pstate \<Rightarrow> 'o pstate" where
  "parse_elems store children cb [] s = s"
| "parse_elems store children cb (x # xs) s =
     parse_elems store children cb xs
       ((snd (make_parser children cb (Node x) s))\<lparr>out := store (out (snd (make_parser children cb (Node x) s)))\<rparr>)"

lemma sequence_of_elems:
  "forE (\<lambda>child. catchE (bindE (make_parser children cb (Node child))
            (\<lambda>_. modifyE (\<lambda>s. s\<lparr>out := store (out s)\<rparr>))) (h child)) xs s
   = (Inr (), parse_elems store children cb xs s)"
proof (induction xs arbitrary: s)
  case Nil
  then show ?case by simp
next
  case (Cons x xs)
  obtain s1 where "make_parser children cb (Node x) s = (Inr (), s1)"
    using make_parser_returns by blast
  with Cons.IH show ?case by (simp add: bindE_def catchE_def)
qed

lemma sequence_of_present:
  assumes "get_const input name = Inr (Node (YSeq xs))"
  shows "sequence_of name store children cb input s = (Inr (), parse_elems store children cb xs s)"
  using assms sequence_of_elems [where h = "\<lambda>child. cb BadParse name (Node child)"]
  by (simp add: sequence_of_def)

end
