(* ===== verification/ConfigLaws.thy ===== *)
theory ConfigLaws
  imports ConfigParser "HOL-Library.Sublist"
begin

text \<open>
  The laws of the parser combinators. A frame is a relation between the state before and the
  state after a call that every primitive write keeps; a combinator whose callback respects
  a frame respects it too. The proofs are made once, in the locale; two interpretations give
  the two frames the engine relies on: the error log only grows, and every \<open>one_of\<close> pops
  exactly the local it pushed.
\<close>

definition keeps :: "('s \<Rightarrow> 's \<Rightarrow> bool) \<Rightarrow> ('s, 'a) eff \<Rightarrow> bool" where
  "keeps R m \<longleftrightarrow> (\<forall>s. R s (snd (m s)))"

definition cb_keeps :: "('o pstate \<Rightarrow> 'o pstate \<Rightarrow> bool) \<Rightarrow> 'o error_fn \<Rightarrow> bool" where
  "cb_keeps R cb \<longleftrightarrow> (\<forall>err name node. keeps R (cb err name node))"

definition def_keeps :: "('o pstate \<Rightarrow> 'o pstate \<Rightarrow> bool) \<Rightarrow> 'o def \<Rightarrow> bool" where
  "def_keeps R d \<longleftrightarrow> (\<forall>cb node. cb_keeps R cb \<longrightarrow> keeps R (d cb node))"

lemma keepsD: "keeps R m \<Longrightarrow> m s = (r, t) \<Longrightarrow> R s t"
  by (metis keeps_def snd_conv)

lemma def_keepsD: "def_keeps R d \<Longrightarrow> cb_keeps R cb \<Longrightarrow> keeps R (d cb node)"
  by (simp add: def_keeps_def)

lemma cb_keepsD: "cb_keeps R cb \<Longrightarrow> keeps R (cb err name node)"
  by (simp add: cb_keeps_def)

locale state_frame =
  fixes R :: "'o pstate \<Rightarrow> 'o pstate \<Rightarrow> bool"
  assumes refl: "R s s"
    and trans: "R s t \<Longrightarrow> R t u \<Longrightarrow> R s u"
    and assign: "R s (s\<lparr>out := v\<rparr>)"
    and mark: "R s (s\<lparr>flags := (flags s)[i := b]\<rparr>)"
    and scope: "R (s\<lparr>flags := flags s @ [False]\<rparr>) t \<Longrightarrow>
                R s (t\<lparr>flags := take (length (flags s)) (flags t)\<rparr>)"
    and report: "R s (s\<lparr>errs := errs s @ [e]\<rparr>)"
begin

lemma pure: "keeps R (Pair r)"
  by (simp add: keeps_def refl)

lemma modify_out: "keeps R (modifyE (\<lambda>s. s\<lparr>out := f s\<rparr>))"
  by (simp add: keeps_def assign)

lemma bind:
  assumes "keeps R m" and "\<And>a. keeps R (k a)"
  shows "keeps R (bindE m k)"
  unfolding keeps_def
proof
  fix s
  obtain r t where m: "m s = (r, t)" by (cases "m s")
  with assms(1) have st: "R s t" by (rule keepsD)
  show "R s (snd (bindE m k s))"
  proof (cases r)
    case (Inl e)
    with m st show ?thesis by (simp add: bindE_def)
  next
    case (Inr a)
    have "R t (snd (k a t))" using assms(2) by (simp add: keeps_def)
    with m Inr st show ?thesis by (auto simp: bindE_def intro: trans)
  qed
qed

lemma catch:
  assumes "keeps R m" and "keeps R h"
  shows "keeps R (catchE m h)"
  unfolding keeps_def
proof
  fix s
  obtain r t where m: "m s = (r, t)" by (cases "m s")
  with assms(1) have st: "R s t" by (rule keepsD)
  have "R t (snd (h t))" using assms(2) by (simp add: keeps_def)
  with m st show "R s (snd (catchE m h s))"
    by (auto simp: catchE_def intro: trans split: sum.splits)
qed

lemma for_each: "(\<And>x. x \<in> set xs \<Longrightarrow> keeps R (f x)) \<Longrightarrow> keeps R (forE f xs)"
  by (induction xs) (auto simp: pure intro!: bind)

lemma default_handler: "cb_keeps R default_error_handler"
  by (auto simp: cb_keeps_def default_error_handler_def keeps_def refl report split: option.splits)

lemma make_parser:
  "(\<And>d. d \<in> set ds \<Longrightarrow> def_keeps R d) \<Longrightarrow> def_keeps R (make_parser ds)"
  unfolding def_keeps_def make_parser_def
  by (intro allI impI for_each catch pure) blast

lemma scalar: "def_keeps R (scalar name conv assign)"
  unfolding def_keeps_def scalar_def
  by (auto intro!: bind catch pure modify_out dest: cb_keepsD)

lemma choice: "def_keeps R (choice name conv options assign)"
  unfolding def_keeps_def
proof (intro allI impI)
  fix cb :: "'o error_fn" and node
  assume "cb_keeps R cb"
  then have cb: "keeps R (cb err nm nd)" for err nm nd by (rule cb_keepsD)
  show "keeps R (choice name conv options assign cb node)"
    unfolding choice_def
    by (intro bind pure) (auto intro!: catch bind pure modify_out cb split: option.split)
qed

lemma sequence: "def_keeps R (sequence name conv assign)"
  unfolding def_keeps_def sequence_def
  by (auto intro!: bind catch pure modify_out dest: cb_keepsD)

lemma sequence_here: "def_keeps R (sequence_here conv assign)"
  unfolding def_keeps_def sequence_here_def
  by (auto intro!: bind catch pure modify_out dest: cb_keepsD)

lemma sequence_of:
  assumes "\<And>d. d \<in> set ds \<Longrightarrow> def_keeps R d"
  shows "def_keeps R (sequence_of name store ds)"
  unfolding def_keeps_def sequence_of_def
  using def_keepsD [OF make_parser [OF assms]]
  by (auto intro!: bind catch pure modify_out for_each dest: cb_keepsD)

lemma map_of_defs:
  assumes "\<And>d. d \<in> set ds \<Longrightarrow> def_keeps R d"
  shows "def_keeps R (map_of_defs name ds)"
  unfolding def_keeps_def map_of_defs_def
  using def_keepsD [OF make_parser [OF assms]]
  by (auto intro!: bind catch pure dest: cb_keepsD)

lemma optional_callback: "cb_keeps R cb \<Longrightarrow> cb_keeps R (optional_cb cb)"
  by (auto simp: cb_keeps_def optional_cb_def pure)

lemma optional:
  assumes "\<And>d. d \<in> set ds \<Longrightarrow> def_keeps R d"
  shows "def_keeps R (optional ds)"
  unfolding def_keeps_def optional_def
  by (intro allI impI for_each catch pure) (rule def_keepsD [OF assms optional_callback])

lemma attempt:
  assumes "\<And>d. d \<in> set ds \<Longrightarrow> def_keeps R d"
  shows "def_keeps R (attempt ds)"
proof -
  have "cb_keeps R attempt_cb" by (simp add: cb_keeps_def attempt_cb_def pure)
  then show ?thesis
    unfolding def_keeps_def attempt_def
    by (intro allI impI for_each catch pure) (rule def_keepsD [OF assms])
qed

lemma one_of_callback: "cb_keeps R cb \<Longrightarrow> cb_keeps R (one_of_cb idx cb)"
  by (auto simp: cb_keeps_def one_of_cb_def keeps_def mark)

lemma one_of_iterate:
  assumes "\<And>d. d \<in> set ds \<Longrightarrow> def_keeps R d" and "cb_keeps R cb"
  shows "keeps R (one_of_loop idx ds cb node)"
  using assms(1)
proof (induction ds)
  case Nil
  then show ?case by (simp add: pure)
next
  case (Cons d ds)
  have "keeps R (\<lambda>s. if flags s ! idx then (Inr (), s) else one_of_loop idx ds cb node s)"
    using Cons by (auto simp: keeps_def refl)
  moreover have "keeps R (modifyE (\<lambda>s. s\<lparr>flags := (flags s)[idx := True]\<rparr>))"
    by (simp add: keeps_def mark)
  moreover have "keeps R (d (one_of_cb idx cb) node)"
    using Cons.prems by (intro def_keepsD one_of_callback assms(2)) auto
  ultimately show ?case
    by (simp del: modifyE_apply) (intro bind)
qed

lemma one_of:
  assumes "\<And>d. d \<in> set ds \<Longrightarrow> def_keeps R d"
  shows "def_keeps R (one_of ds)"
  unfolding def_keeps_def
proof (intro allI impI)
  fix cb node
  assume cb: "cb_keeps R cb"
  show "keeps R (one_of ds cb node)"
    unfolding keeps_def
  proof
    fix s :: "'o pstate"
    let ?s = "s\<lparr>flags := flags s @ [False]\<rparr>"
    obtain r t where loop: "one_of_loop (length (flags s)) ds cb node ?s = (r, t)"
      by (cases "one_of_loop (length (flags s)) ds cb node ?s")
    have "R ?s t" using one_of_iterate [OF assms cb] loop by (rule keepsD)
    then show "R s (snd (one_of ds cb node s))"
      using loop by (simp add: one_of_def Let_def scope)
  qed
qed

end

subsection \<open>The two frames\<close>

definition log_grows :: "'o pstate \<Rightarrow> 'o pstate \<Rightarrow> bool" where
  "log_grows s t \<longleftrightarrow> prefix (errs s) (errs t)"

definition locals_balanced :: "'o pstate \<Rightarrow> 'o pstate \<Rightarrow> bool" where
  "locals_balanced s t \<longleftrightarrow> length (flags t) = length (flags s)"

interpretation log_frame: state_frame log_grows
  by unfold_locales (auto simp: log_grows_def intro: prefix_order.trans)

interpretation locals_frame: state_frame locals_balanced
  by unfold_locales (auto simp: locals_balanced_def)


lemmas frame_rules = def_keepsD cb_keepsD

subsection \<open>Ordered choice\<close>

lemma soft_errors [simp]:
  "soft_error NotScalar" "soft_error NotSequence" "soft_error NotMap" "soft_error BadTypeConversion"
  "\<not> soft_error InvalidValue" "\<not> soft_error AttributeMissing" "\<not> soft_error BadParse"
  by (simp_all add: soft_error_def)

lemma one_of_cb_soft [simp]:
  "soft_error err \<Longrightarrow> one_of_cb idx cb err name node s = (Inr (), s\<lparr>flags := (flags s)[idx := False]\<rparr>)"
  by (simp add: one_of_cb_def)

lemma one_of_cb_hard [simp]:
  "\<not> soft_error err \<Longrightarrow> one_of_cb idx cb err name node = cb err name node"
  by (rule ext) (simp add: one_of_cb_def)

lemma default_handler_logs [simp]:
  "err \<noteq> Success \<Longrightarrow>
   default_error_handler err name node s = (Inr (), s\<lparr>errs := errs s @ [(err, name)]\<rparr>)"
  by (cases err) (simp_all add: default_error_handler_def)

text \<open>The pair of alternatives the engine uses: a named choice, or else a sequence.\<close>

definition choice_or_sequence ::
  "ynode \<Rightarrow> (yref \<Rightarrow> exn + 'k) \<Rightarrow> ('k \<rightharpoonup> 'a) \<Rightarrow> ('a \<Rightarrow> 'o \<Rightarrow> 'o) \<Rightarrow>
   (yref \<Rightarrow> exn + 'b) \<Rightarrow> ('b \<Rightarrow> 'o \<Rightarrow> 'o) \<Rightarrow> string \<Rightarrow> 'o pstate \<Rightarrow> 'o pstate" where
  "choice_or_sequence n kconv options a1 sconv a2 name s =
     (case n of
        YScalar str \<Rightarrow>
          (case kconv (Node n) of
             Inl e \<Rightarrow> s
           | Inr key \<Rightarrow>
               (case options key of
                  Some v \<Rightarrow> s\<lparr>out := a1 v (out s)\<rparr>
                | None \<Rightarrow> s\<lparr>errs := errs s @ [(InvalidValue, name)]\<rparr>))
      | YSeq xs \<Rightarrow> (case sconv (Node n) of Inl e \<Rightarrow> s | Inr v \<Rightarrow> s\<lparr>out := a2 v (out s)\<rparr>)
      | _ \<Rightarrow> s)"

lemma one_of_choice_sequence:
  assumes "get_const input name = Inr (Node n)"
  shows "one_of [choice name kconv options a1, sequence name sconv a2] default_error_handler input s =
     (Inr (), choice_or_sequence n kconv options a1 sconv a2 name s)"
proof (cases n)
  case (YScalar str)
  with assms show ?thesis
    by (cases "kconv (Node n)"; simp add: one_of_def choice_def sequence_def choice_or_sequence_def
          bindE_def catchE_def nth_append split: option.splits)
next
  case (YSeq xs)
  with assms show ?thesis
    by (cases "sconv (Node n)"; simp add: one_of_def choice_def sequence_def choice_or_sequence_def
          bindE_def catchE_def nth_append)
qed (use assms in \<open>simp_all add: one_of_def choice_def sequence_def choice_or_sequence_def
          bindE_def catchE_def nth_append\<close>)

subsection \<open>\<open>optional\<close> around definitions that never report a missing attribute\<close>

definition blind_to_missing :: "'o def \<Rightarrow> bool" where
  "blind_to_missing d \<longleftrightarrow> (\<forall>cb node. d (optional_cb cb) node = d cb node)"

lemma optional_cb_other: "err \<noteq> AttributeMissing \<Longrightarrow> optional_cb cb err name node = cb err name node"
  by (rule ext) (simp add: optional_cb_def)

lemma blind_attrs:
  "blind_to_missing (scalar name conv assign)"
  "blind_to_missing (choice name kconv options assign)"
  "blind_to_missing (sequence name conv assign)"
  "blind_to_missing (sequence_here conv assign)"
  by (simp_all add: blind_to_missing_def attr_defs optional_cb_other fun_eq_iff
        cong: if_cong option.case_cong)

lemma optional_blind:
  assumes "\<And>d. d \<in> set ds \<Longrightarrow> blind_to_missing d"
  shows "optional ds cb node = make_parser ds cb node"
  using assms by (induction ds) (auto simp: optional_def make_parser_def blind_to_missing_def)


subsection \<open>Properties\<close>

lemma make_parser_fold:
  "fst (make_parser ds cb node s) = Inr () \<and>
   snd (make_parser ds cb node s) = fold (\<lambda>d t. snd (d cb node t)) ds s"
proof (induction ds arbitrary: s)
  case Nil
  then show ?case by (simp add: cfg_simps)
next
  case (Cons d ds)
  obtain r t where d: "d cb node s = (r, t)" by (cases "d cb node s")
  then have "make_parser (d # ds) cb node s = make_parser ds cb node t"
    by (rule make_parser_step)
  with d Cons.IH [of t] show ?case by simp
qed

text \<open>C25: a parser assembled by \<open>make_parser\<close> never throws, whatever its definitions and
  its error callback do; each definition runs on the state the previous one left, even when the
  previous one threw.\<close>

theorem make_parser_never_throws:
  "fst (make_parser ds cb node s) = Inr () \<and>
   snd (make_parser ds cb node s) = fold (\<lambda>d t. snd (d cb node t)) ds s"
  by (rule make_parser_fold)

text \<open>The exception handlers that \<open>map\<close> and the nested \<open>sequence\<close> put around their
  children never run: a map whose attribute is a map is exactly its children's parser, and a nested
  sequence pushes one element per child, so \<open>AttributeMissing\<close> and \<open>BadParse\<close> are never
  reported from there.\<close>

theorem nested_handlers_are_dead:
  "map_of_defs name children cb (Node (YMap ((YScalar name, YMap ps) # rest))) =
     make_parser children cb (Node (YMap ps)) \<and>
   sequence_of name store children cb (Node (YMap ((YScalar name, YSeq xs) # rest))) s =
     (Inr (), parse_elems store children cb xs s)"
  by (simp add: map_present sequence_of_present)

text \<open>An attribute that is absent is skipped in silence by every typed definition: looking it
  up gives a zombie node, asking the zombie its type throws, and the parser swallows the throw, so no
  error is reported and no variable is written. Only \<open>fn\<close> reports \<open>AttributeMissing\<close>.\<close>

theorem absent_attribute_is_silent:
  assumes "get_const input name = Inr Zombie"
  shows "parser (scalar name conv assign # ds) input s = parser ds input s \<and>
    parser (choice name kconv options assign' # ds) input s = parser ds input s \<and>
    parser (sequence name sconv assign'' # ds) input s = parser ds input s \<and>
    parser (map_of_defs name children # ds) input s = parser ds input s \<and>
    parser (fn name func # ds) input s =
      parser ds input (s\<lparr>errs := errs s @ [(AttributeMissing, name)]\<rparr>)"
proof -
  have skip: "make_parser (d # ds) default_error_handler input s = make_parser ds default_error_handler input s"
    if "d default_error_handler input s = (Inl InvalidNode, s)" for d
    using that by (rule make_parser_skip)
  have "make_parser (fn name func # ds) default_error_handler input s =
      make_parser ds default_error_handler input (s\<lparr>errs := errs s @ [(AttributeMissing, name)]\<rparr>)"
    by (rule make_parser_step) (simp add: fn_absent [OF assms])
  then show ?thesis by (simp add: parser_def skip absent_throws [OF assms])
qed

theorem absent_attribute_is_silent_witness:
  "parser [scalar ''num'' as_string (\<lambda>v o'. v), fn ''cb'' (\<lambda>n. returnE Success)] (Node (YMap []))
     \<lparr>out = ''old'', errs = [], flags = []\<rparr>
   = (Inr (), \<lparr>out = ''old'', errs = [(AttributeMissing, ''cb'')], flags = []\<rparr>)"
proof -
  have absent: "get_const (Node (YMap [])) k = Inr Zombie" for k by simp
  note skip = absent_attribute_is_silent [OF absent]
  show ?thesis
    by (simp only: skip [THEN conjunct1] skip [THEN conjunct2, THEN conjunct2, THEN conjunct2, THEN conjunct2])
      (simp add: parser_def make_parser_Nil)
qed

text \<open>C30: \<open>one_of\<close> over a named choice and a sequence, the form the window resolution uses, on
  every shape of the attribute: a known name assigns the choice, a list assigns the list, an unknown
  name reports \<open>InvalidValue\<close> and stops the search, and a node that fits neither alternative is
  dropped without any report. The local of the call is popped in every case.\<close>

theorem one_of_choice_or_sequence:
  "parser [one_of [choice name kconv options a1, sequence name sconv a2]]
     (Node (YMap ((YScalar name, n) # rest))) s =
   (Inr (), choice_or_sequence n kconv options a1 sconv a2 name s)"
  by (simp add: parser_def cfg_simps one_of_choice_sequence bindE_return catchE_return)

text \<open>\<open>optional\<close> changes nothing around scalars, choices and sequences: it only filters
  \<open>AttributeMissing\<close>, which these never report.\<close>

theorem optional_is_redundant:
  "optional [scalar n1 conv1 assign1, choice n2 conv2 options assign2, sequence n3 conv3 assign3]
     cb node =
   make_parser [scalar n1 conv1 assign1, choice n2 conv2 options assign2, sequence n3 conv3 assign3]
     cb node"
  by (rule optional_blind) (auto intro: blind_attrs)

end
