(* ===== verification/Sync.thy ===== *)
theory Sync
  imports Prelude
begin

text \<open>
  The two lock-free protocols of the engine as step relations over interleaved threads: the
  try-lock \<open>Lock::use\<close> of \<open>include/lib.h\<close> and the compare-exchange loop of
  \<open>Gauge_c::inc\<close> in \<open>include/util/Telemetry.h\<close>. One rule is one atomic access.
\<close>

subsection \<open>The try-lock\<close>

text \<open>
  A thread is outside \<open>use\<close>, running the guarded function (its \<open>fetch_add\<close> returned 0), or
  on its way out after a \<open>fetch_add\<close> that returned something else. \<open>counter\<close> is the
  \<open>std::atomic_uint\<close>; the class never initialises it, so its start value is part of the
  initial state. \<open>threads\<close> bounds the number of threads.
\<close>

datatype lock_pc = Outside | Running | Refused

record lock_sys =
  counter :: u32
  pcs :: "nat \<Rightarrow> lock_pc"

definition lock_init :: "u32 \<Rightarrow> lock_sys" where
  "lock_init start = \<lparr>counter = start, pcs = (\<lambda>_. Outside)\<rparr>"

inductive lock_step :: "nat \<Rightarrow> lock_sys \<Rightarrow> lock_sys \<Rightarrow> bool" for threads where
  fetch_add_zero: "i < threads \<Longrightarrow> pcs s i = Outside \<Longrightarrow> counter s = 0 \<Longrightarrow>
     lock_step threads s (s\<lparr>counter := counter s + 1, pcs := (pcs s)(i := Running)\<rparr>)"
| fetch_add_busy: "i < threads \<Longrightarrow> pcs s i = Outside \<Longrightarrow> counter s \<noteq> 0 \<Longrightarrow>
     lock_step threads s (s\<lparr>counter := counter s + 1, pcs := (pcs s)(i := Refused)\<rparr>)"
| fetch_sub: "i < threads \<Longrightarrow> pcs s i \<noteq> Outside \<Longrightarrow>
     lock_step threads s (s\<lparr>counter := counter s - 1, pcs := (pcs s)(i := Outside)\<rparr>)"

inductive lock_reach :: "nat \<Rightarrow> u32 \<Rightarrow> lock_sys \<Rightarrow> bool" for threads start where
  lock_start: "lock_reach threads start (lock_init start)"
| lock_next: "lock_reach threads start s \<Longrightarrow> lock_step threads s t \<Longrightarrow> lock_reach threads start t"

inductive_cases lock_stepE [elim]: "lock_step threads s t"

text \<open>One call of \<open>use\<close> with no other thread inside: the result, the counter and the state.\<close>

definition lock_use :: "('s \<Rightarrow> 's) \<Rightarrow> u32 \<Rightarrow> 's \<Rightarrow> bool \<times> u32 \<times> 's" where
  "lock_use fn c st =
     (let old = c; c1 = c + 1;
          (used, st') = (if old = 0 then (True, fn st) else (False, st))
      in (used, c1 - 1, st'))"

definition inside :: "lock_sys \<Rightarrow> nat set" where
  "inside s = {i. pcs s i \<noteq> Outside}"

text \<open>
  The counter is the number of threads inside, plus the start value, and no second thread
  runs the guarded function.
\<close>

definition lock_inv :: "nat \<Rightarrow> lock_sys \<Rightarrow> bool" where
  "lock_inv threads s \<longleftrightarrow>
     inside s \<subseteq> {..<threads} \<and> counter s = of_nat (card (inside s)) \<and>
     (\<forall>i j. pcs s i = Running \<longrightarrow> pcs s j = Running \<longrightarrow> i = j)"

lemma inside_enter: "pc \<noteq> Outside \<Longrightarrow> inside (s\<lparr>counter := c, pcs := (pcs s)(i := pc)\<rparr>) = insert i (inside s)"
  by (auto simp: inside_def)

lemma inside_leave: "inside (s\<lparr>counter := c, pcs := (pcs s)(i := Outside)\<rparr>) = inside s - {i}"
  by (auto simp: inside_def)

lemma lock_inv_init: "lock_inv threads (lock_init 0)"
  by (simp add: lock_inv_def lock_init_def inside_def)

lemma counter_zero_empty:
  assumes "lock_inv threads s" and "threads < 2 ^ 32" and "counter s = 0"
  shows "inside s = {}"
proof -
  have sub: "inside s \<subseteq> {..<threads}" using assms(1) by (simp add: lock_inv_def)
  then have fin: "finite (inside s)" by (rule finite_subset) simp
  have "card (inside s) \<le> threads" using card_mono [OF _ sub] by simp
  then have lt: "card (inside s) < 2 ^ 32" using assms(2) by simp
  have "(of_nat (card (inside s)) :: u32) = 0"
    using assms(1,3) by (simp add: lock_inv_def)
  then have "unat (of_nat (card (inside s)) :: u32) = 0" by simp
  with lt have "card (inside s) = 0" by (simp add: unat_of_nat take_bit_nat_eq_self)
  with fin show ?thesis by simp
qed

lemma lock_inv_step:
  assumes "lock_step threads s t" and "lock_inv threads s" and "threads < 2 ^ 32"
  shows "lock_inv threads t"
  using assms(1)
proof cases
  case (fetch_add_zero i)
  have empty: "inside s = {}"
    using counter_zero_empty assms(2,3) fetch_add_zero by blast
  then have "pcs s j = Outside" for j by (auto simp: inside_def)
  with fetch_add_zero empty show ?thesis
    by (simp add: lock_inv_def inside_enter)
next
  case (fetch_add_busy i)
  have fin: "finite (inside s)" using assms(2) finite_subset by (auto simp: lock_inv_def)
  have "i \<notin> inside s" using fetch_add_busy by (simp add: inside_def)
  with fetch_add_busy assms(2) fin show ?thesis
    by (simp add: lock_inv_def inside_enter)
next
  case (fetch_sub i)
  have fin: "finite (inside s)" using assms(2) finite_subset by (auto simp: lock_inv_def)
  have mem: "i \<in> inside s" using fetch_sub by (simp add: inside_def)
  then have "card (inside s) = Suc (card (inside s - {i}))"
    using fin by (metis card_Suc_Diff1)
  with fetch_sub assms(2) show ?thesis
    by (auto simp: lock_inv_def inside_leave)
qed

lemma lock_reach_inv:
  assumes "lock_reach threads 0 s" and "threads < 2 ^ 32"
  shows "lock_inv threads s"
  using assms
  by (induction rule: lock_reach.induct) (auto intro: lock_inv_init lock_inv_step)

subsection \<open>The compare-exchange loop\<close>

text \<open>
  Threads \<open>i\<close> each add \<open>by i\<close> to one gauge cell. \<open>Load\<close> is the initial \<open>load\<close>,
  \<open>Try c\<close> the loop with \<open>current = c\<close>; \<open>compare_exchange_weak\<close> may fail without reason,
  and a failure reloads \<open>current\<close>. \<open>fadd\<close> is the floating point addition. \<open>history\<close>
  is a ghost: the threads in the order of their successful exchanges.
\<close>

datatype 'f gauge_pc = Load | Try 'f | Done

record 'f gauge_sys =
  cell :: 'f
  gpcs :: "nat \<Rightarrow> 'f gauge_pc"
  history :: "nat list"

definition gauge_init :: "'f \<Rightarrow> 'f gauge_sys" where
  "gauge_init v = \<lparr>cell = v, gpcs = (\<lambda>_. Load), history = []\<rparr>"

inductive gauge_step :: "('f \<Rightarrow> 'f \<Rightarrow> 'f) \<Rightarrow> (nat \<Rightarrow> 'f) \<Rightarrow> 'f gauge_sys \<Rightarrow> 'f gauge_sys \<Rightarrow> bool"
  for fadd by_amount where
  load: "gpcs s i = Load \<Longrightarrow>
     gauge_step fadd by_amount s (s\<lparr>gpcs := (gpcs s)(i := Try (cell s))\<rparr>)"
| exchange: "gpcs s i = Try current \<Longrightarrow> cell s = current \<Longrightarrow>
     gauge_step fadd by_amount s
       (s\<lparr>cell := fadd current (by_amount i), gpcs := (gpcs s)(i := Done), history := history s @ [i]\<rparr>)"
| exchange_fails: "gpcs s i = Try current \<Longrightarrow>
     gauge_step fadd by_amount s (s\<lparr>gpcs := (gpcs s)(i := Try (cell s))\<rparr>)"

inductive gauge_reach :: "('f \<Rightarrow> 'f \<Rightarrow> 'f) \<Rightarrow> (nat \<Rightarrow> 'f) \<Rightarrow> 'f \<Rightarrow> 'f gauge_sys \<Rightarrow> bool"
  for fadd by_amount v where
  gauge_start: "gauge_reach fadd by_amount v (gauge_init v)"
| gauge_next: "gauge_reach fadd by_amount v s \<Longrightarrow> gauge_step fadd by_amount s t \<Longrightarrow>
     gauge_reach fadd by_amount v t"

definition gauge_inv :: "('f \<Rightarrow> 'f \<Rightarrow> 'f) \<Rightarrow> (nat \<Rightarrow> 'f) \<Rightarrow> 'f \<Rightarrow> 'f gauge_sys \<Rightarrow> bool" where
  "gauge_inv fadd by_amount v s \<longleftrightarrow>
     cell s = foldl (\<lambda>acc i. fadd acc (by_amount i)) v (history s) \<and>
     distinct (history s) \<and> set (history s) = {i. gpcs s i = Done}"

lemma gauge_inv_step:
  assumes "gauge_step fadd by_amount s t" and "gauge_inv fadd by_amount v s"
  shows "gauge_inv fadd by_amount v t"
  using assms(1)
proof cases
  case (load i)
  have "{j. ((gpcs s)(i := Try (cell s))) j = Done} = {j. gpcs s j = Done}"
    using load by auto
  with load assms(2) show ?thesis by (simp add: gauge_inv_def)
next
  case (exchange i current)
  have "{j. ((gpcs s)(i := Done)) j = Done} = insert i {j. gpcs s j = Done}" by auto
  with exchange assms(2) show ?thesis by (simp add: gauge_inv_def)
next
  case (exchange_fails i current)
  have "{j. ((gpcs s)(i := Try (cell s))) j = Done} = {j. gpcs s j = Done}"
    using exchange_fails by auto
  with exchange_fails assms(2) show ?thesis by (simp add: gauge_inv_def)
qed

lemma gauge_reach_inv: "gauge_reach fadd by_amount v s \<Longrightarrow> gauge_inv fadd by_amount v s"
proof (induction rule: gauge_reach.induct)
  case gauge_start
  show ?case by (simp add: gauge_inv_def gauge_init_def)
next
  case (gauge_next s t)
  then show ?case by (blast intro: gauge_inv_step)
qed

lemma foldl_plus_sum:
  fixes by_amount :: "nat \<Rightarrow> 'f::comm_monoid_add"
  shows "distinct xs \<Longrightarrow> foldl (\<lambda>acc i. acc + by_amount i) v xs = v + (\<Sum>i\<in>set xs. by_amount i)"
proof (induction xs arbitrary: v)
  case (Cons x xs)
  then show ?case by (simp add: add.assoc)
qed simp

subsection \<open>Properties\<close>

text \<open>C26: mutual exclusion of the try-lock. With the counter starting at zero and fewer than
  \<open>2^32\<close> threads, in every reachable state at most one thread runs the guarded function, and
  the counter is the number of threads between their \<open>fetch_add\<close> and their \<open>fetch_sub\<close>.\<close>

theorem lock_mutual_exclusion:
  assumes "lock_reach threads 0 s" and "threads < 2 ^ 32"
  shows "(\<forall>i j. pcs s i = Running \<longrightarrow> pcs s j = Running \<longrightarrow> i = j) \<and>
         unat (counter s) = card {i. pcs s i \<noteq> Outside}"
proof -
  have inv: "lock_inv threads s" using lock_reach_inv [OF assms] .
  have sub: "inside s \<subseteq> {..<threads}" using inv by (simp add: lock_inv_def)
  have "card (inside s) < 2 ^ 32" using card_mono [OF _ sub] assms(2) by simp
  then have "unat (of_nat (card (inside s)) :: u32) = card (inside s)"
    by (simp add: unat_of_nat take_bit_nat_eq_self)
  with inv show ?thesis by (auto simp: lock_inv_def inside_def)
qed

lemma lock_example_run:
  "lock_reach 2 0 \<lparr>counter = 2, pcs = (\<lambda>_. Outside)(0 := Running, 1 := Refused)\<rparr>"
proof -
  let ?a = "lock_init 0"
  let ?b = "?a\<lparr>counter := counter ?a + 1, pcs := (pcs ?a)(0 := Running)\<rparr>"
  let ?c = "?b\<lparr>counter := counter ?b + 1, pcs := (pcs ?b)(1 := Refused)\<rparr>"
  have b: "lock_reach 2 0 ?b"
    by (rule lock_next [OF lock_start], rule lock_step.fetch_add_zero) (simp_all add: lock_init_def)
  have "lock_reach 2 0 ?c"
    by (rule lock_next [OF b], rule lock_step.fetch_add_busy) (simp_all add: lock_init_def)
  then show ?thesis by (simp add: lock_init_def)
qed

theorem lock_mutual_exclusion_witness:
  "unat (counter \<lparr>counter = 2, pcs = (\<lambda>_. Outside)(0 := Running, 1 := Refused)\<rparr>) =
   card {i. pcs \<lparr>counter = 2, pcs = (\<lambda>_. Outside)(0 := Running, 1 := Refused)\<rparr> i \<noteq> Outside}"
proof -
  have "(2::nat) < 2 ^ 32" by simp
  from lock_mutual_exclusion [OF lock_example_run this] show ?thesis by (rule conjunct2)
qed

text \<open>The try-lock can refuse although nobody runs the guarded function: a thread on its way
  out still counts. The state is reachable with three threads.\<close>

theorem lock_refuses_while_free:
  "\<exists>s t. lock_reach 3 0 s \<and> (\<forall>i. pcs s i \<noteq> Running) \<and> lock_step 3 s t \<and> pcs t 2 = Refused"
proof -
  let ?s0 = "\<lparr>counter = 2, pcs = (\<lambda>_. Outside)(0 := Running, 1 := Refused)\<rparr>"
  let ?a = "lock_init 0"
  let ?b = "?a\<lparr>counter := counter ?a + 1, pcs := (pcs ?a)(0 := Running)\<rparr>"
  let ?c = "?b\<lparr>counter := counter ?b + 1, pcs := (pcs ?b)(1 := Refused)\<rparr>"
  let ?d = "?c\<lparr>counter := counter ?c - 1, pcs := (pcs ?c)(0 := Outside)\<rparr>"
  let ?e = "?d\<lparr>counter := counter ?d + 1, pcs := (pcs ?d)(2 := Refused)\<rparr>"
  have b: "lock_reach 3 0 ?b"
    by (rule lock_next [OF lock_start], rule lock_step.fetch_add_zero) (simp_all add: lock_init_def)
  have c: "lock_reach 3 0 ?c"
    by (rule lock_next [OF b], rule lock_step.fetch_add_busy) (simp_all add: lock_init_def)
  have d: "lock_reach 3 0 ?d"
    by (rule lock_next [OF c], rule lock_step.fetch_sub) (simp_all add: lock_init_def)
  have e: "lock_step 3 ?d ?e"
    by (rule lock_step.fetch_add_busy) (simp_all add: lock_init_def)
  have "\<forall>i. pcs ?d i \<noteq> Running" "pcs ?e 2 = Refused" by (simp_all add: lock_init_def)
  with d e show ?thesis by blast
qed

text \<open>C27: concurrent gauge increments are never lost: in every reachable state the cell is the
  start value with the amounts of the finished threads added one by one in the order of their
  successful exchanges, each finished thread exactly once.\<close>

theorem gauge_no_lost_update:
  assumes "gauge_reach fadd by_amount v s"
  shows "cell s = foldl (\<lambda>acc i. fadd acc (by_amount i)) v (history s) \<and>
         distinct (history s) \<and> set (history s) = {i. gpcs s i = Done}"
  using gauge_reach_inv [OF assms] by (simp add: gauge_inv_def)

lemma gauge_example_run:
  "gauge_reach (+) (\<lambda>i. int i + 1) 10
     \<lparr>cell = 13, gpcs = (\<lambda>_. Load)(0 := Done, 1 := Done), history = [0, 1]\<rparr>"
proof -
  let ?st = "\<lambda>c p h. \<lparr>cell = c, gpcs = p, history = h\<rparr> :: int gauge_sys"
  let ?b = "\<lambda>i. int i + 1"
  let ?p1 = "(\<lambda>_. Load)(0 := Try 10)"
  have "gauge_reach (+) ?b 10 (?st 10 ?p1 [])"
    using gauge_next [OF gauge_start gauge_step.load [of "gauge_init 10" 0]]
    by (simp add: gauge_init_def)
  from gauge_next [OF this gauge_step.load [of _ 1]]
  have "gauge_reach (+) ?b 10 (?st 10 (?p1(1 := Try 10)) [])" by simp
  from gauge_next [OF this gauge_step.exchange [of _ 0 10]]
  have "gauge_reach (+) ?b 10 (?st 11 (?p1(1 := Try 10, 0 := Done)) [0])" by simp
  from gauge_next [OF this gauge_step.exchange_fails [of _ 1 10]]
  have "gauge_reach (+) ?b 10 (?st 11 (?p1(1 := Try 11, 0 := Done)) [0])"
    by (simp add: fun_upd_twist)
  from gauge_next [OF this gauge_step.exchange [of _ 1 11]]
  show ?thesis by (simp add: fun_upd_twist)
qed

theorem gauge_no_lost_update_witness: "(13::int) = foldl (\<lambda>acc i. acc + (int i + 1)) 10 [0, 1]"
  using gauge_no_lost_update [OF gauge_example_run] by simp

end
