(* ===== verification/Telemetry.thy ===== *)
theory Telemetry
  imports Prelude
begin

text \<open>
  The named counters and gauges of \<open>include/util/Telemetry.h\<close> and
  \<open>src/util/Telemetry.cpp\<close>: each kind keeps a static map from names to indices and a
  static vector of cells. The table is created under a mutex, so a call is one step. A cell is
  allocated with \<open>new std::atomic_uint\<close> or \<open>new std::atomic<float>\<close>, which leaves the
  value uninitialised; \<open>fresh\<close> is what the memory held. Handles hold the index.
\<close>

record 'v slots =
  ids :: "string \<rightharpoonup> nat"
  cells :: "'v list"

definition empty_slots :: "'v slots" where
  "empty_slots = \<lparr>ids = Map.empty, cells = []\<rparr>"

subsection \<open>Counters\<close>

definition counter_make_or_get :: "u32 \<Rightarrow> string \<Rightarrow> u32 slots \<Rightarrow> nat \<times> u32 slots" where
  "counter_make_or_get fresh name t =
     (case ids t name of
        Some cid \<Rightarrow> (cid, t)
      | None \<Rightarrow>
          let cid = length (cells t)
          in (cid, t\<lparr>ids := (ids t)(name \<mapsto> cid), cells := cells t @ [fresh]\<rparr>))"

definition counter_inc_by :: "nat \<Rightarrow> u32 \<Rightarrow> u32 slots \<Rightarrow> u32 slots" where
  "counter_inc_by cid amount t = t\<lparr>cells := (cells t)[cid := cells t ! cid + amount]\<rparr>"

definition counter_inc :: "nat \<Rightarrow> u32 slots \<Rightarrow> u32 slots" where
  "counter_inc cid t = t\<lparr>cells := (cells t)[cid := cells t ! cid + 1]\<rparr>"

definition counter_reset :: "nat \<Rightarrow> u32 slots \<Rightarrow> u32 slots" where
  "counter_reset cid t = t\<lparr>cells := (cells t)[cid := 0]\<rparr>"

definition counter_get :: "nat \<Rightarrow> u32 slots \<Rightarrow> u32" where
  "counter_get cid t = cells t ! cid"

subsection \<open>Gauges\<close>

text \<open>\<open>fadd\<close> is float addition. Without interference the exchange of \<open>inc\<close> succeeds.\<close>

definition gauge_make_or_get :: "'f \<Rightarrow> string \<Rightarrow> 'f slots \<Rightarrow> nat \<times> 'f slots" where
  "gauge_make_or_get fresh name t =
     (case ids t name of
        Some cid \<Rightarrow> (cid, t)
      | None \<Rightarrow>
          let cid = length (cells t)
          in (cid, t\<lparr>ids := (ids t)(name \<mapsto> cid), cells := cells t @ [fresh]\<rparr>))"

definition gauge_inc_by :: "('f \<Rightarrow> 'f \<Rightarrow> 'f) \<Rightarrow> nat \<Rightarrow> 'f \<Rightarrow> 'f slots \<Rightarrow> 'f slots" where
  "gauge_inc_by fadd cid amount t =
     (let current = cells t ! cid in t\<lparr>cells := (cells t)[cid := fadd current amount]\<rparr>)"

definition gauge_inc :: "('f \<Rightarrow> 'f \<Rightarrow> 'f) \<Rightarrow> 'f \<Rightarrow> nat \<Rightarrow> 'f slots \<Rightarrow> 'f slots" where
  "gauge_inc fadd one cid t = gauge_inc_by fadd cid one t"

definition gauge_set :: "nat \<Rightarrow> 'f \<Rightarrow> 'f slots \<Rightarrow> 'f slots" where
  "gauge_set cid to t = t\<lparr>cells := (cells t)[cid := to]\<rparr>"

definition gauge_reset :: "'f \<Rightarrow> nat \<Rightarrow> 'f slots \<Rightarrow> 'f slots" where
  "gauge_reset zero cid t = t\<lparr>cells := (cells t)[cid := zero]\<rparr>"

definition gauge_get :: "nat \<Rightarrow> 'f slots \<Rightarrow> 'f" where
  "gauge_get cid t = cells t ! cid"

subsection \<open>The table contract\<close>

text \<open>Every index is in range, no two names share one, every cell has a name.\<close>

definition slots_ok :: "'v slots \<Rightarrow> bool" where
  "slots_ok t \<longleftrightarrow>
     ran (ids t) = {..<length (cells t)} \<and> inj_on (ids t) (dom (ids t))"

lemma slots_ok_empty: "slots_ok empty_slots"
  by (auto simp: slots_ok_def empty_slots_def)

lemma slots_ok_bound: "slots_ok t \<Longrightarrow> ids t name = Some cid \<Longrightarrow> cid < length (cells t)"
  by (auto simp: slots_ok_def ran_def set_eq_iff)

lemma slots_ok_inj: "slots_ok t \<Longrightarrow> ids t a = Some cid \<Longrightarrow> ids t b = Some cid \<Longrightarrow> a = b"
  by (auto simp: slots_ok_def inj_on_def dom_def)

lemma slots_ok_write: "slots_ok (t\<lparr>cells := (cells t)[cid := v]\<rparr>) = slots_ok t"
  by (simp add: slots_ok_def)

locale named_slots =
  fixes slot :: "'v \<Rightarrow> string \<Rightarrow> 'v slots \<Rightarrow> nat \<times> 'v slots"
  assumes known: "ids t name = Some i \<Longrightarrow> slot v name t = (i, t)"
    and unknown: "ids t name = None \<Longrightarrow>
      slot v name t = (length (cells t),
        t\<lparr>ids := (ids t)(name \<mapsto> length (cells t)), cells := cells t @ [v]\<rparr>)"
begin

lemma slotE:
  assumes "slot v name t = (i, t')"
  obtains (old) "ids t name = Some i" and "t' = t"
  | (new) "ids t name = None" and "i = length (cells t)"
      and "t' = t\<lparr>ids := (ids t)(name \<mapsto> length (cells t)), cells := cells t @ [v]\<rparr>"
  using assms known unknown by (cases "ids t name") auto

lemma registered: "slot v name t = (i, t') \<Longrightarrow> ids t' name = Some i"
  by (erule slotE) auto

lemma keeps_ids: "slot v name t = (i, t') \<Longrightarrow> ids t a = Some j \<Longrightarrow> ids t' a = Some j"
  by (erule slotE) auto

lemma keeps_cells: "slot v name t = (i, t') \<Longrightarrow> j < length (cells t) \<Longrightarrow> cells t' ! j = cells t ! j"
  by (erule slotE) (auto simp: nth_append)

lemma again: "slot v name t = (i, t') \<Longrightarrow> slot w name t' = (i, t')"
  by (rule known) (rule registered)

lemma keeps_ok:
  assumes "slots_ok t" and "slot v name t = (i, t')"
  shows "slots_ok t'"
  using assms(2)
proof (cases rule: slotE)
  case new
  let ?m = "(ids t)(name \<mapsto> length (cells t))"
  have out: "ids t x \<noteq> Some (length (cells t))" for x
    using slots_ok_bound [OF assms(1), of x "length (cells t)"] by auto
  have "ran ?m = insert (length (cells t)) {..<length (cells t)}"
    using assms(1) new by (simp add: slots_ok_def)
  moreover have "inj_on ?m (dom ?m)"
    using assms(1) new(1) out out [symmetric] by (auto simp: slots_ok_def inj_on_def)
  ultimately show ?thesis
    using new by (simp add: slots_ok_def lessThan_Suc)
qed (use assms in simp)

text \<open>Two handles denote the same cell exactly when they were made with the same name.\<close>

lemma same_cell_iff:
  assumes "slots_ok t" and "slot v a t = (i, t1)" and "slot w b t1 = (j, t2)"
  shows "i = j \<longleftrightarrow> a = b"
proof
  assume "i = j"
  have ok2: "slots_ok t2" using keeps_ok assms by blast
  have "ids t2 a = Some i" using assms registered keeps_ids by blast
  moreover have "ids t2 b = Some j" using assms registered by blast
  ultimately show "a = b" using ok2 \<open>i = j\<close> slots_ok_inj by blast
next
  assume "a = b"
  then show "i = j" using again [OF assms(2), of w] assms(3) by simp
qed

lemma handles_in_range:
  assumes "slots_ok t" and "slot v a t = (i, t1)" and "slot w b t1 = (j, t2)"
  shows "i < length (cells t2)" and "j < length (cells t2)"
proof -
  have ok2: "slots_ok t2" using keeps_ok assms by blast
  show "i < length (cells t2)"
    by (rule slots_ok_bound [OF ok2]) (rule keeps_ids [OF assms(3) registered [OF assms(2)]])
  show "j < length (cells t2)"
    by (rule slots_ok_bound [OF ok2]) (rule registered [OF assms(3)])
qed

end

interpretation counters: named_slots counter_make_or_get
  by unfold_locales (simp_all add: counter_make_or_get_def Let_def)

interpretation gauges: named_slots gauge_make_or_get
  by unfold_locales (simp_all add: gauge_make_or_get_def Let_def)

subsection \<open>Properties\<close>

text \<open>Two counters alias exactly when they were made with the same name: adding through one
  handle is seen through the other, modulo 2^32, iff the names are equal, and the table stays
  well formed.\<close>

theorem counter_alias_iff_same_name:
  assumes "slots_ok t"
    and "counter_make_or_get v a t = (i, t1)"
    and "counter_make_or_get w b t1 = (j, t2)"
  shows "slots_ok (counter_inc_by i amount t2) \<and>
    unat (counter_get j (counter_inc_by i amount t2)) =
      (if a = b then (unat (counter_get j t2) + unat amount) mod 2 ^ 32
       else unat (counter_get j t2))"
proof -
  have ok: "slots_ok t2" 
    by (rule counters.keeps_ok [OF counters.keeps_ok [OF assms(1,2)] assms(3)])
  have ij: "i = j \<longleftrightarrow> a = b" by (rule counters.same_cell_iff [OF assms])
  have "i < length (cells t2)" "j < length (cells t2)"
    by (rule counters.handles_in_range [OF assms])+
  with ok ij show ?thesis
    by (auto simp: counter_inc_by_def counter_get_def slots_ok_write unat_word_ariths)
qed

theorem counter_alias_iff_same_name_witness:
  "unat (counter_get 0 (counter_inc_by 0 3
     \<lparr>ids = Map.empty(''frames'' \<mapsto> 0, ''draws'' \<mapsto> 1), cells = [4294967295, 7]\<rparr>)) = 2"
proof -
  have 1: "counter_make_or_get 4294967295 ''frames'' empty_slots
      = (0, \<lparr>ids = Map.empty(''frames'' \<mapsto> 0), cells = [4294967295]\<rparr>)"
    by (simp add: counter_make_or_get_def empty_slots_def)
  have 2: "counter_make_or_get 0 ''frames'' \<lparr>ids = Map.empty(''frames'' \<mapsto> 0), cells = [4294967295]\<rparr>
      = (0, \<lparr>ids = Map.empty(''frames'' \<mapsto> 0), cells = [4294967295]\<rparr>)"
    by (simp add: counter_make_or_get_def)
  show ?thesis
    using counter_alias_iff_same_name [OF slots_ok_empty 1 2, of 3]
    by (simp add: counter_get_def counter_inc_by_def)
qed

text \<open>A gauge handle made again with the same name returns the same cell and leaves the table
  alone; handles with different names never share a cell, so setting one gauge leaves the other's
  value.\<close>

theorem gauge_handles_separate:
  assumes "slots_ok t" and "gauge_make_or_get v a t = (i, t1)" and "gauge_make_or_get w b t1 = (j, t2)"
  shows "gauge_make_or_get u a t1 = (i, t1) \<and>
    gauge_get j (gauge_set i x t2) = (if a = b then x else gauge_get j t2)"
proof -
  have ij: "i = j \<longleftrightarrow> a = b" by (rule gauges.same_cell_iff [OF assms])
  have lt: "i < length (cells t2)" "j < length (cells t2)"
    by (rule gauges.handles_in_range [OF assms])+
  have "gauge_make_or_get u a t1 = (i, t1)" by (rule gauges.again [OF assms(2)])
  with ij lt show ?thesis by (auto simp: gauge_set_def gauge_get_def nth_list_update)
qed

theorem gauge_handles_separate_witness:
  "gauge_get 1 (gauge_set 0 (5::int) \<lparr>ids = Map.empty(''x'' \<mapsto> 0, ''y'' \<mapsto> 1), cells = [2, 9]\<rparr>) = 9"
proof -
  have 1: "gauge_make_or_get 2 ''x'' empty_slots = (0, \<lparr>ids = Map.empty(''x'' \<mapsto> 0), cells = [2::int]\<rparr>)"
    by (simp add: gauge_make_or_get_def empty_slots_def)
  have 2: "gauge_make_or_get 9 ''y'' \<lparr>ids = Map.empty(''x'' \<mapsto> 0), cells = [2::int]\<rparr>
      = (1, \<lparr>ids = Map.empty(''x'' \<mapsto> 0, ''y'' \<mapsto> 1), cells = [2, 9]\<rparr>)"
    by (simp add: gauge_make_or_get_def)
  show ?thesis
    using gauge_handles_separate [OF slots_ok_empty 1 2, of 0 5] by (simp add: gauge_get_def)
qed

end
