(* ===== verification/Geometry.thy ===== *)
theory Geometry
  imports Prelude
begin

text \<open>
  Vectors, rectangles and axis-aligned boxes: \<open>include/math/Types.h\<close> and
  \<open>include/math/AABB.h\<close>. Coordinates are floats; everything but the centre point only
  compares and selects them, so the model is over any linear order (floats other than NaN).
  A rectangle's \<open>top_left\<close> is left of and above \<open>bottom_right\<close>, with y upwards.
\<close>

record 'f vec2 =
  vec_x :: 'f
  vec_y :: 'f

record 'f vec3 = "'f vec2" +
  vec_z :: 'f

record 'f vec4 = "'f vec3" +
  vec_w :: 'f

record 'f rect =
  top_left :: "'f vec2"
  bottom_right :: "'f vec2"

record 'f box =
  box_top_left :: "'f vec3"
  box_bottom_right :: "'f vec3"

definition rect_containes :: "'f::linorder rect \<Rightarrow> 'f vec2 \<Rightarrow> bool" where
  "rect_containes r point \<longleftrightarrow>
     vec_x point \<ge> vec_x (top_left r) \<and> vec_x point \<le> vec_x (bottom_right r) \<and>
     vec_y point \<ge> vec_y (top_left r) \<and> vec_y point \<le> vec_y (bottom_right r)"

subsection \<open>Boxes\<close>

text \<open>An \<open>AABB\<close> is its one immutable rectangle.\<close>

record 'f aabb =
  rect_of :: "'f rect"

definition aabb_make :: "'f vec2 \<Rightarrow> 'f vec2 \<Rightarrow> 'f aabb" where
  "aabb_make p q = \<lparr>rect_of = \<lparr>top_left = p, bottom_right = q\<rparr>\<rparr>"

abbreviation left_of :: "'f aabb \<Rightarrow> 'f" where "left_of b \<equiv> vec_x (top_left (rect_of b))"
abbreviation right_of :: "'f aabb \<Rightarrow> 'f" where "right_of b \<equiv> vec_x (bottom_right (rect_of b))"
abbreviation top_of :: "'f aabb \<Rightarrow> 'f" where "top_of b \<equiv> vec_y (top_left (rect_of b))"
abbreviation bottom_of :: "'f aabb \<Rightarrow> 'f" where "bottom_of b \<equiv> vec_y (bottom_right (rect_of b))"

text \<open>\<open>half\<close> is the literal \<open>0.5f\<close>; addition and multiplication are those of the floats.\<close>

definition center_point :: "'f::{plus, times} \<Rightarrow> 'f aabb \<Rightarrow> 'f vec2" where
  "center_point half b =
     \<lparr>vec_x = (left_of b + right_of b) * half, vec_y = (top_of b + bottom_of b) * half\<rparr>"

definition aabb_contains :: "'f::linorder aabb \<Rightarrow> 'f aabb \<Rightarrow> bool" where
  "aabb_contains b other \<longleftrightarrow>
     left_of other \<ge> left_of b \<and> left_of other < right_of b \<and>
     right_of other \<ge> left_of b \<and> right_of other < right_of b \<and>
     top_of other \<le> top_of b \<and> top_of other > bottom_of b \<and>
     bottom_of other \<le> top_of b \<and> bottom_of other > bottom_of b"

definition aabb_overlaps :: "'f::linorder aabb \<Rightarrow> 'f aabb \<Rightarrow> bool" where
  "aabb_overlaps b other \<longleftrightarrow>
     ((left_of other \<ge> left_of b \<and> left_of other < right_of b) \<or>
      (right_of other \<ge> left_of b \<and> right_of other < right_of b)) \<and>
     ((top_of other \<le> top_of b \<and> top_of other > bottom_of b) \<or>
      (bottom_of other \<le> top_of b \<and> bottom_of other > bottom_of b))"

definition aabb_grow :: "'f::linorder aabb \<Rightarrow> 'f aabb \<Rightarrow> 'f aabb" where
  "aabb_grow b other =
     (let r = \<lparr>top_left = \<lparr>vec_x = min (left_of b) (left_of other), vec_y = max (top_of b) (top_of other)\<rparr>,
               bottom_right = \<lparr>vec_x = max (right_of b) (right_of other),
                               vec_y = min (bottom_of b) (bottom_of other)\<rparr>\<rparr>
      in \<lparr>rect_of = r\<rparr>)"

subsection \<open>The point sets behind them\<close>

definition well_oriented :: "'f::linorder aabb \<Rightarrow> bool" where
  "well_oriented b \<longleftrightarrow> left_of b \<le> right_of b \<and> bottom_of b \<le> top_of b"

text \<open>The closed set of points of a box and the half-open one the tests use.\<close>

definition points :: "'f::linorder aabb \<Rightarrow> ('f \<times> 'f) set" where
  "points b = {left_of b..right_of b} \<times> {bottom_of b..top_of b}"

definition covers :: "'f::linorder aabb \<Rightarrow> 'f aabb \<Rightarrow> bool" where
  "covers b other \<longleftrightarrow> left_of b \<le> left_of other \<and> right_of other \<le> right_of b \<and>
     bottom_of b \<le> bottom_of other \<and> top_of other \<le> top_of b"

named_theorems box_simps \<open>unfolding of the box operations\<close>
lemmas box_defs [box_simps] =
  aabb_contains_def aabb_overlaps_def aabb_grow_def well_oriented_def covers_def points_def

lemma aabb_eqI:
  "left_of a = left_of b \<Longrightarrow> right_of a = right_of b \<Longrightarrow> top_of a = top_of b \<Longrightarrow>
   bottom_of a = bottom_of b \<Longrightarrow> (a :: 'f aabb) = b"
  by (intro aabb.equality rect.equality vec2.equality) auto

lemma covers_points: "well_oriented other \<Longrightarrow> covers b other \<longleftrightarrow> points other \<subseteq> points b"
  by (auto simp: box_simps times_subset_iff)

lemma contains_covers: "aabb_contains b other \<Longrightarrow> covers b other"
  by (auto simp: box_simps)

subsection \<open>Properties\<close>

text \<open>\<open>Rect::containes\<close> contains no point of a rectangle with height: the header says the
  top is above the bottom, and the test asks for y at or above the top and at or below the bottom.\<close>

theorem rect_containes_nothing:
  assumes "vec_y (bottom_right r) < vec_y (top_left r)"
  shows "\<not> rect_containes r point"
  using assms by (auto simp: rect_containes_def)

theorem rect_containes_nothing_witness:
  "\<not> rect_containes \<lparr>top_left = \<lparr>vec_x = 0, vec_y = 2\<rparr>, bottom_right = \<lparr>vec_x = 2, vec_y = 0 :: int\<rparr>\<rparr>
      \<lparr>vec_x = 1, vec_y = 1\<rparr>"
  by (rule rect_containes_nothing) simp

text \<open>\<open>grow\<close> is the least box that covers both: it covers each, any box that covers both
  covers it, and it is commutative, associative and idempotent.\<close>

theorem grow_least_cover:
  "covers (aabb_grow a b) a \<and> covers (aabb_grow a b) b \<and>
   (\<forall>c. covers c a \<longrightarrow> covers c b \<longrightarrow> covers c (aabb_grow a b)) \<and>
   aabb_grow a b = aabb_grow b a \<and> aabb_grow (aabb_grow a b) c = aabb_grow a (aabb_grow b c) \<and>
   aabb_grow a a = a"
  by (auto simp: box_simps Let_def ac_simps intro!: aabb_eqI)

theorem grow_least_cover_witness:
  "covers (aabb_make \<lparr>vec_x = 0, vec_y = 9\<rparr> \<lparr>vec_x = 9, vec_y = 0 :: int\<rparr>)
     (aabb_grow (aabb_make \<lparr>vec_x = 1, vec_y = 2\<rparr> \<lparr>vec_x = 2, vec_y = 1\<rparr>)
                (aabb_make \<lparr>vec_x = 5, vec_y = 6\<rparr> \<lparr>vec_x = 6, vec_y = 5\<rparr>))"
proof -
  let ?a = "aabb_make \<lparr>vec_x = 1, vec_y = 2\<rparr> \<lparr>vec_x = 2, vec_y = 1 :: int\<rparr>"
  let ?b = "aabb_make \<lparr>vec_x = 5, vec_y = 6\<rparr> \<lparr>vec_x = 6, vec_y = 5 :: int\<rparr>"
  let ?c = "aabb_make \<lparr>vec_x = 0, vec_y = 9\<rparr> \<lparr>vec_x = 9, vec_y = 0 :: int\<rparr>"
  have "covers ?c ?a" "covers ?c ?b" by (simp_all add: covers_def aabb_make_def)
  then show ?thesis using grow_least_cover [of ?a ?b ?c] by blast
qed

text \<open>\<open>contains\<close> is a strict containment on the right and at the bottom: it is transitive,
  implies that every point of the inner box is a point of the outer one and that the boxes overlap,
  and no well-oriented box contains itself.\<close>

theorem contains_properties:
  "(aabb_contains a b \<longrightarrow> aabb_contains b c \<longrightarrow> aabb_contains a c) \<and>
   (aabb_contains a b \<longrightarrow> points b \<subseteq> points a \<and> aabb_overlaps a b) \<and>
   (well_oriented a \<longrightarrow> \<not> aabb_contains a a)"
  by (auto simp: box_simps)

theorem contains_properties_witness:
  "aabb_overlaps (aabb_make \<lparr>vec_x = 0, vec_y = 9\<rparr> \<lparr>vec_x = 9, vec_y = 0\<rparr>)
     (aabb_make \<lparr>vec_x = 1, vec_y = 3\<rparr> \<lparr>vec_x = 3, vec_y = 1 :: int\<rparr>)"
proof -
  let ?a = "aabb_make \<lparr>vec_x = 0, vec_y = 9\<rparr> \<lparr>vec_x = 9, vec_y = 0 :: int\<rparr>"
  let ?b = "aabb_make \<lparr>vec_x = 1, vec_y = 3\<rparr> \<lparr>vec_x = 3, vec_y = 1 :: int\<rparr>"
  have "aabb_contains ?a ?b" by (simp add: aabb_contains_def aabb_make_def)
  then show ?thesis using contains_properties [of ?a ?b ?a] by blast
qed

text \<open>\<open>overlaps\<close> is sound for well-oriented boxes (the boxes have a common point) and
  complete unless the other box spans this one on some axis; it is not symmetric: a box strictly
  inside another is overlapped by it and does not overlap it.\<close>

theorem overlaps_meaning:
  assumes "well_oriented a" and "well_oriented b"
  shows "(aabb_overlaps a b \<longrightarrow> points a \<inter> points b \<noteq> {}) \<and>
    (points a \<inter> points b \<noteq> {} \<longrightarrow> \<not> aabb_overlaps a b \<longrightarrow>
       (left_of b < left_of a \<and> right_of a \<le> right_of b) \<or>
       (bottom_of b \<le> bottom_of a \<and> top_of a < top_of b) \<or>
       left_of b = right_of a \<or> top_of b = bottom_of a)"
proof (intro conjI impI)
  assume "aabb_overlaps a b"
  then have "(max (left_of a) (left_of b), max (bottom_of a) (bottom_of b)) \<in> points a \<inter> points b"
    using assms by (auto simp: box_simps)
  then show "points a \<inter> points b \<noteq> {}" by blast
next
  assume "points a \<inter> points b \<noteq> {}" "\<not> aabb_overlaps a b"
  then show "(left_of b < left_of a \<and> right_of a \<le> right_of b) \<or>
       (bottom_of b \<le> bottom_of a \<and> top_of a < top_of b) \<or>
       left_of b = right_of a \<or> top_of b = bottom_of a"
    using assms by (auto simp: box_simps)
qed

theorem overlaps_meaning_witness:
  "aabb_overlaps (aabb_make \<lparr>vec_x = 0, vec_y = 9\<rparr> \<lparr>vec_x = 9, vec_y = 0\<rparr>)
     (aabb_make \<lparr>vec_x = 1, vec_y = 3\<rparr> \<lparr>vec_x = 3, vec_y = 1 :: int\<rparr>) \<and>
   \<not> aabb_overlaps (aabb_make \<lparr>vec_x = 1, vec_y = 3\<rparr> \<lparr>vec_x = 3, vec_y = 1 :: int\<rparr>)
     (aabb_make \<lparr>vec_x = 0, vec_y = 9\<rparr> \<lparr>vec_x = 9, vec_y = 0\<rparr>) \<and>
   points (aabb_make \<lparr>vec_x = 0, vec_y = 9\<rparr> \<lparr>vec_x = 9, vec_y = 0\<rparr>) \<inter>
     points (aabb_make \<lparr>vec_x = 1, vec_y = 3\<rparr> \<lparr>vec_x = 3, vec_y = 1 :: int\<rparr>) \<noteq> {}"
proof -
  let ?a = "aabb_make \<lparr>vec_x = 0, vec_y = 9\<rparr> \<lparr>vec_x = 9, vec_y = 0 :: int\<rparr>"
  let ?b = "aabb_make \<lparr>vec_x = 1, vec_y = 3\<rparr> \<lparr>vec_x = 3, vec_y = 1 :: int\<rparr>"
  have o: "aabb_overlaps ?a ?b" "\<not> aabb_overlaps ?b ?a"
    by (simp_all add: aabb_overlaps_def aabb_make_def)
  have "well_oriented ?a" "well_oriented ?b" by (simp_all add: well_oriented_def aabb_make_def)
  from overlaps_meaning [OF this] o show ?thesis by blast
qed

end
