(* ===== verification/Resources.thy ===== *)
theory Resources
  imports Containers
begin

text \<open>
  The handle table of \<open>include/world/Scene.h\<close>: \<open>BaseManagedResource\<close> keeps a vector of
  handles (a 16 bit reference count and a 48 bit index into the resources) and a list of garbage
  handle indices; \<open>ManagedResource<T>\<close> keeps the resources, each with the index of its handle.
  Reading or writing past a vector is undefined and is \<open>None\<close> here.
\<close>

subsection \<open>State and operations\<close>

record resource_handle =
  ref_count :: "16 word"
  res_index :: "48 word"

record 'a item =
  item_data :: 'a
  handle_index :: nat

record 'a managed =
  handles :: "resource_handle list"
  garbage :: "nat list"
  resources :: "'a item list"

definition handle_insert :: "nat \<Rightarrow> 'a managed \<Rightarrow> nat \<times> 'a managed" where
  "handle_insert idx m =
     (let h = length (handles m)
      in (h, m\<lparr>handles := handles m @ [\<lparr>ref_count = 0, res_index = of_nat idx\<rparr>]\<rparr>))"

definition managed_add :: "'a \<Rightarrow> 'a managed \<Rightarrow> nat \<times> 'a managed" where
  "managed_add resource m =
     (let (idx, m1) = handle_insert (length (resources m)) m
      in (idx, m1\<lparr>resources := resources m1 @ [\<lparr>item_data = resource, handle_index = idx\<rparr>]\<rparr>))"

definition handle_ref :: "nat \<Rightarrow> 'a managed \<Rightarrow> (nat \<times> 'a managed) option" where
  "handle_ref h m =
     (if h < length (handles m)
      then let hd' = (handles m ! h)\<lparr>ref_count := ref_count (handles m ! h) + 1\<rparr>
           in Some (unat (res_index hd'), m\<lparr>handles := (handles m)[h := hd']\<rparr>)
      else None)"

definition managed_get :: "nat \<Rightarrow> 'a managed \<Rightarrow> ('a \<times> 'a managed) option" where
  "managed_get h m =
     (case handle_ref h m of
        None \<Rightarrow> None
      | Some (idx, m') \<Rightarrow>
          if idx < length (resources m') then Some (item_data (resources m' ! idx), m') else None)"

definition handle_release :: "nat \<Rightarrow> 'a managed \<Rightarrow> 'a managed option" where
  "handle_release h m =
     (if h < length (handles m)
      then Some (m\<lparr>handles := (handles m)[h :=
             (handles m ! h)\<lparr>ref_count := ref_count (handles m ! h) - 1\<rparr>]\<rparr>)
      else None)"

definition handle_update :: "nat \<Rightarrow> nat \<Rightarrow> 'a managed \<Rightarrow> 'a managed option" where
  "handle_update h idx m =
     (if h < length (handles m)
      then Some (m\<lparr>handles := (handles m)[h := (handles m ! h)\<lparr>res_index := of_nat idx\<rparr>]\<rparr>)
      else None)"

text \<open>The name says the opposite: the result is the count converted to \<open>bool\<close>.\<close>

definition is_unreferenced :: "nat \<Rightarrow> 'a managed \<Rightarrow> bool option" where
  "is_unreferenced h m =
     (if h < length (handles m) then Some (ref_count (handles m ! h) \<noteq> 0) else None)"

definition handle_remove :: "nat \<Rightarrow> 'a managed \<Rightarrow> 'a managed" where
  "handle_remove h m = m\<lparr>garbage := garbage m @ [h]\<rparr>"

text \<open>\<open>HandleRef\<close>: the constructor takes a reference, the destructor queues the handle.\<close>

definition handle_ref_scope :: "nat \<Rightarrow> 'a managed \<Rightarrow> ('a \<times> 'a managed) option" where
  "handle_ref_scope h m =
     (case managed_get h m of None \<Rightarrow> None | Some (d, m') \<Rightarrow> Some (d, handle_remove h m'))"

definition managed_destroy :: "nat \<Rightarrow> 'a managed \<Rightarrow> 'a managed option" where
  "managed_destroy idx m =
     (if idx < length (resources m)
      then let last_item = last (resources m)
           in (if idx \<noteq> length (resources m) - 1
               then (case handle_update (handle_index last_item) idx
                            (m\<lparr>resources := (resources m)[idx := last_item]\<rparr>) of
                       None \<Rightarrow> None
                     | Some m' \<Rightarrow> Some (m'\<lparr>resources := butlast (resources m')\<rparr>))
               else Some (m\<lparr>resources := butlast (resources m)\<rparr>))
      else None)"

text \<open>
  The loop of \<open>collectGarbage\<close>. After \<open>pop_back\<close> the code reads \<open>*g_iter\<close> again: when
  the entry was the last one, the iterator is past the end, which is undefined.
\<close>

function collect_loop :: "nat \<Rightarrow> nat \<Rightarrow> 'a managed \<Rightarrow> 'a managed option" where
  "collect_loop gi n m =
     (if gi < n
      then if gi < length (garbage m)
           then (case is_unreferenced (garbage m ! gi) m of
                   None \<Rightarrow> None
                 | Some True \<Rightarrow>
                     let g' = butlast (if gi \<noteq> length (garbage m) - 1
                                       then (garbage m)[gi := last (garbage m)] else garbage m)
                     in if gi < length g' \<and> g' ! gi < length (handles m)
                        then (case managed_destroy (unat (res_index (handles m ! (g' ! gi))))
                                     (m\<lparr>garbage := g'\<rparr>) of
                                None \<Rightarrow> None
                              | Some m' \<Rightarrow> collect_loop (Suc gi) (n - 1) m')
                        else None
                 | Some False \<Rightarrow> collect_loop (Suc (Suc gi)) n m)
           else None
      else Some m)"
  by pat_completeness auto
termination
  by (relation "measure (\<lambda>(gi, n, m). n - gi)") auto

declare collect_loop.simps [simp del]

definition collect_garbage :: "'a managed \<Rightarrow> 'a managed option" where
  "collect_garbage m = collect_loop 0 (length (garbage m)) m"

subsection \<open>The table invariant\<close>

text \<open>Every resource's handle exists and points back at it.\<close>

definition table_ok :: "'a managed \<Rightarrow> bool" where
  "table_ok m \<longleftrightarrow>
     length (resources m) < 2 ^ 48 \<and>
     (\<forall>i < length (resources m).
        handle_index (resources m ! i) < length (handles m) \<and>
        unat (res_index (handles m ! handle_index (resources m ! i))) = i)"

definition live :: "'a managed \<Rightarrow> nat set" where
  "live m = handle_index ` set (resources m)"

definition resource_of :: "'a managed \<Rightarrow> nat \<Rightarrow> 'a" where
  "resource_of m h = item_data (resources m ! unat (res_index (handles m ! h)))"

definition empty_managed :: "'a managed" where
  "empty_managed = \<lparr>handles = [], garbage = [], resources = []\<rparr>"

lemma unat_of_nat48: "i < 2 ^ 48 \<Longrightarrow> unat (of_nat i :: 48 word) = i"
  by (simp add: unat_of_nat take_bit_nat_eq_self)

lemma table_okD:
  assumes "table_ok m" and "i < length (resources m)"
  shows "handle_index (resources m ! i) < length (handles m)"
    and "unat (res_index (handles m ! handle_index (resources m ! i))) = i"
  using assms by (auto simp: table_ok_def)

lemma table_ok_small: "table_ok m \<Longrightarrow> length (resources m) < 2 ^ 48"
  unfolding table_ok_def by (rule conjunct1)

lemma handle_index_inj:
  assumes "table_ok m" and "i < length (resources m)" and "j < length (resources m)"
    and "handle_index (resources m ! i) = handle_index (resources m ! j)"
  shows "i = j"
  by (rule trans [OF table_okD(2) [OF assms(1,2), symmetric]])
     (simp only: assms(4) table_okD(2) [OF assms(1,3)])

lemma liveE:
  assumes "table_ok m" and "h \<in> live m"
  obtains i where "i < length (resources m)" and "h = handle_index (resources m ! i)"
    and "unat (res_index (handles m ! h)) = i" and "h < length (handles m)"
proof -
  obtain i where i: "i < length (resources m)" "h = handle_index (resources m ! i)"
    using assms(2) by (auto simp: live_def in_set_conv_nth)
  show thesis
  proof (rule that)
    show "i < length (resources m)" by (rule i(1))
    show "h = handle_index (resources m ! i)" by (rule i(2))
    show "unat (res_index (handles m ! h)) = i"
      unfolding i(2) by (rule table_okD(2) [OF assms(1) i(1)])
    show "h < length (handles m)"
      unfolding i(2) by (rule table_okD(1) [OF assms(1) i(1)])
  qed
qed

lemma managed_add_eq:
  "managed_add r m = (length (handles m),
     m\<lparr>handles := handles m @ [\<lparr>ref_count = 0, res_index = of_nat (length (resources m))\<rparr>],
       resources := resources m @ [\<lparr>item_data = r, handle_index = length (handles m)\<rparr>]\<rparr>)"
  by (simp add: managed_add_def handle_insert_def Let_def)

lemma add_ok:
  assumes "table_ok m" and "Suc (length (resources m)) < 2 ^ 48"
  shows "table_ok (snd (managed_add r m))"
  unfolding table_ok_def
proof (intro conjI allI impI)
  show "length (resources (snd (managed_add r m))) < 2 ^ 48"
    using assms(2) by (simp add: managed_add_eq)
  fix i assume "i < length (resources (snd (managed_add r m)))"
  then have i: "i < length (resources m) \<or> i = length (resources m)"
    by (auto simp: managed_add_eq)
  have small: "length (resources m) < 2 ^ 48" using assms(2) by linarith
  have old: "handle_index (resources m ! i) < length (handles m)"
    "unat (res_index (handles m ! handle_index (resources m ! i))) = i"
    if "i < length (resources m)"
    using table_okD [OF assms(1) that] .
  show "handle_index (resources (snd (managed_add r m)) ! i) < length (handles (snd (managed_add r m)))"
    using i old(1) by (auto simp: managed_add_eq nth_append)
  show "unat (res_index (handles (snd (managed_add r m)) !
          handle_index (resources (snd (managed_add r m)) ! i))) = i"
    using i
  proof
    assume "i < length (resources m)"
    then show ?thesis using old by (simp add: managed_add_eq nth_append)
  next
    assume "i = length (resources m)"
    then show ?thesis using small by (simp add: managed_add_eq nth_append unat_of_nat48)
  qed
qed

lemma add_live: "live (snd (managed_add r m)) = insert (length (handles m)) (live m)"
  by (simp add: managed_add_eq live_def)

lemma live_nth: "live m = {handle_index (resources m ! i) | i. i < length (resources m)}"
  by (auto simp: live_def set_conv_nth)

lemma live_image: "live m = (\<lambda>j. handle_index (resources m ! j)) ` {..<length (resources m)}"
  by (auto simp: live_nth)

lemma add_fresh: "table_ok m \<Longrightarrow> length (handles m) \<notin> live m"
  by (auto elim: liveE)

lemma add_resource_new:
  assumes "table_ok m"
  shows "resource_of (snd (managed_add r m)) (length (handles m)) = r"
proof -
  have "length (resources m) < 2 ^ 48" using assms by (rule table_ok_small)
  then show ?thesis by (simp add: managed_add_eq resource_of_def unat_of_nat48)
qed

lemma add_resource_old:
  assumes "table_ok m" and "h \<in> live m"
  shows "resource_of (snd (managed_add r m)) h = resource_of m h"
proof -
  obtain i where i: "i < length (resources m)" "unat (res_index (handles m ! h)) = i"
    "h < length (handles m)"
    using assms by (rule liveE)
  show ?thesis
    using i(1,3) by (simp add: managed_add_eq resource_of_def nth_append i(2))
qed

text \<open>The last item moves to \<open>idx\<close> and its handle follows.\<close>

lemma destroy_eq:
  assumes "table_ok m" and "idx < length (resources m)"
  shows "managed_destroy idx m =
    (let lst = length (resources m) - 1; lh = handle_index (resources m ! lst)
     in if idx = lst then Some (m\<lparr>resources := butlast (resources m)\<rparr>)
        else Some (m\<lparr>handles := (handles m)[lh := (handles m ! lh)\<lparr>res_index := of_nat idx\<rparr>],
                     resources := butlast ((resources m)[idx := resources m ! lst])\<rparr>))"
proof -
  have ne: "resources m \<noteq> []" using assms(2) by auto
  then have lst: "last (resources m) = resources m ! (length (resources m) - 1)"
    by (rule last_conv_nth)
  have "handle_index (resources m ! (length (resources m) - 1)) < length (handles m)"
    using assms ne by (intro table_okD) auto
  with assms(2) lst show ?thesis
    by (auto simp: managed_destroy_def handle_update_def Let_def)
qed

text \<open>
  A table whose items are moved along \<open>f\<close>, their handles with them, is well formed, and its live handles keep
  their resources.
\<close>

lemma moved_table:
  assumes "table_ok m" and "length (resources m') \<le> length (resources m)" and "length (handles m') = length (handles m)"
    and "\<And>j. j < length (resources m') \<Longrightarrow> f j < length (resources m) \<and> resources m' ! j = resources m ! f j \<and>
      unat (res_index (handles m' ! handle_index (resources m ! f j))) = j"
  shows "table_ok m'" and "live m' = (\<lambda>j. handle_index (resources m ! f j)) ` {..<length (resources m')}"
    and "k \<in> live m' \<Longrightarrow> resource_of m' k = resource_of m k"
proof -
  note moved = conjunct1 [OF assms(4)] conjunct1 [OF conjunct2 [OF assms(4)]] conjunct2 [OF conjunct2 [OF assms(4)]]
  show "table_ok m'"
    using table_ok_small [OF assms(1)] assms(2,3) table_okD(1) [OF assms(1) moved(1)] moved(2,3) by (simp add: table_ok_def)
  show live: "live m' = (\<lambda>j. handle_index (resources m ! f j)) ` {..<length (resources m')}"
    unfolding live_image using moved(2) by (intro image_cong) simp_all
  assume "k \<in> live m'"
  then obtain j where j: "j < length (resources m')" "k = handle_index (resources m ! f j)" using live by auto
  show "resource_of m' k = resource_of m k"
    using moved(2,3) [OF j(1)] table_okD(2) [OF assms(1) moved(1) [OF j(1)]] by (simp add: resource_of_def j(2))
qed

text \<open>What \<open>destroy\<close> does: the item at \<open>idx\<close> is replaced by the last one.\<close>

lemma destroy_moves:
  assumes "table_ok m" and "idx < length (resources m)"
  defines "n \<equiv> length (resources m) - 1"
  obtains m' where "managed_destroy idx m = Some m'" and "length (resources m') = n" and "length (handles m') = length (handles m)"
    and "\<And>j. j < n \<Longrightarrow> resources m' ! j = resources m ! (if j = idx then n else j) \<and>
      unat (res_index (handles m' ! handle_index (resources m ! (if j = idx then n else j)))) = j"
proof (cases "idx = n")
  case True
  have "managed_destroy idx m = Some (m\<lparr>resources := butlast (resources m)\<rparr>)"
    using destroy_eq [OF assms(1,2)] True by (simp add: n_def Let_def)
  then show thesis
    by (rule that) (use table_okD(2) [OF assms(1)] True in \<open>simp_all add: n_def nth_butlast\<close>)
next
  case False
  let ?last = "handle_index (resources m ! n)"
  let ?m = "m\<lparr>handles := (handles m)[?last := (handles m ! ?last)\<lparr>res_index := of_nat idx\<rparr>],
              resources := butlast ((resources m)[idx := resources m ! n])\<rparr>"
  have n: "n < length (resources m)" "idx < n" using assms(2) False by (auto simp: n_def)
  have small: "unat (of_nat idx :: 48 word) = idx" using table_ok_small [OF assms(1)] assms(2) by (intro unat_of_nat48) simp
  have "managed_destroy idx m = Some ?m" using destroy_eq [OF assms(1,2)] False by (simp add: n_def Let_def)
  then show thesis
  proof (rule that)
    show "length (resources ?m) = n" "length (handles ?m) = length (handles m)" by (simp_all add: n_def)
    fix j assume j: "j < n"
    then have "j < length (resources m)" using n(1) by simp
    then have other: "handle_index (resources m ! j) \<noteq> ?last" "unat (res_index (handles m ! handle_index (resources m ! j))) = j"
      using handle_index_inj [OF assms(1) _ n(1)] table_okD(2) [OF assms(1)] j by auto
    have "resources ?m ! j = resources m ! (if j = idx then n else j)"
      using j n by (simp add: nth_butlast nth_list_update n_def)
    moreover have "unat (res_index (handles ?m ! handle_index (resources m ! (if j = idx then n else j)))) = j"
      using table_okD(1) [OF assms(1) n(1)] small other by (cases "j = idx") simp_all
    ultimately show "resources ?m ! j = resources m ! (if j = idx then n else j) \<and>
      unat (res_index (handles ?m ! handle_index (resources m ! (if j = idx then n else j)))) = j" ..
  qed
qed

lemma destroy_keeps:
  assumes "table_ok m" and "h \<in> live m"
  obtains m' where "managed_destroy (unat (res_index (handles m ! h))) m = Some m'"
    and "table_ok m'" and "live m' = live m - {h}"
    and "\<forall>k \<in> live m'. resource_of m' k = resource_of m k"
    and "length (resources m') < length (resources m)"
proof -
  obtain idx where i: "idx < length (resources m)" "h = handle_index (resources m ! idx)"
    "unat (res_index (handles m ! h)) = idx"
    using assms by (rule liveE)
  define n where "n = length (resources m) - 1"
  define f where "f = (\<lambda>j. if j = idx then n else j)"
  obtain m' where m': "managed_destroy idx m = Some m'" "length (resources m') = n" "length (handles m') = length (handles m)"
    "\<And>j. j < n \<Longrightarrow> resources m' ! j = resources m ! f j \<and> unat (res_index (handles m' ! handle_index (resources m ! f j))) = j"
    using destroy_moves [OF assms(1) i(1)] unfolding n_def f_def by metis
  have moved: "f j < length (resources m) \<and> resources m' ! j = resources m ! f j \<and>
      unat (res_index (handles m' ! handle_index (resources m ! f j))) = j" if "j < length (resources m')" for j
    using m'(2,4) that i(1) by (auto simp: f_def n_def)
  have less: "length (resources m') < length (resources m)" using m'(2) i(1) by (simp add: n_def)
  note table = moved_table [OF assms(1) less_imp_le [OF less] m'(3) moved]
  have "f ` {..<n} = {..<length (resources m)} - {idx}"
    using i(1) by (auto simp: f_def n_def image_iff split: if_splits)
  moreover have "inj_on (\<lambda>j. handle_index (resources m ! j)) {..<length (resources m)}"
    using handle_index_inj [OF assms(1)] by (auto intro: inj_onI)
  ultimately have "(\<lambda>j. handle_index (resources m ! j)) ` f ` {..<n} = live m - {h}"
    using i(1) by (simp add: live_image i(2) inj_on_image_set_diff [where C = "{..<length (resources m)}"])
  then show thesis using that [of m'] m'(1,2) table less i(3) by (simp add: image_image)
qed

subsection \<open>A handle pool is a finite map\<close>

text \<open>
  What a user of handles relies on: a pool has a set of live handles with a value each, adding
  gives a fresh handle, destroying one handle changes no other.
\<close>

locale handle_pool =
  fixes pool_ok :: "'s \<Rightarrow> bool"
    and alive :: "'s \<Rightarrow> nat set"
    and val :: "'s \<Rightarrow> nat \<Rightarrow> 'a"
    and room :: "'s \<Rightarrow> nat \<Rightarrow> bool"
    and put :: "'a \<Rightarrow> 's \<Rightarrow> nat \<times> 's"
    and del :: "nat \<Rightarrow> 's \<Rightarrow> 's option"
  assumes put_ok: "pool_ok s \<Longrightarrow> room s (Suc n) \<Longrightarrow> pool_ok (snd (put r s)) \<and> room (snd (put r s)) n"
    and put_alive: "pool_ok s \<Longrightarrow> fst (put r s) \<notin> alive s \<and> alive (snd (put r s)) = insert (fst (put r s)) (alive s)"
    and put_val: "pool_ok s \<Longrightarrow> val (snd (put r s)) (fst (put r s)) = r"
    and put_val_old: "pool_ok s \<Longrightarrow> h \<in> alive s \<Longrightarrow> val (snd (put r s)) h = val s h"
    and del_ok: "pool_ok s \<Longrightarrow> h \<in> alive s \<Longrightarrow> room s (Suc n) \<Longrightarrow>
      \<exists>s'. del h s = Some s' \<and> pool_ok s' \<and> room s' n \<and> alive s' = alive s - {h} \<and>
           (\<forall>k \<in> alive s'. val s' k = val s k)"
begin

definition view :: "'s \<Rightarrow> nat \<rightharpoonup> 'a" where
  "view s h = (if h \<in> alive s then Some (val s h) else None)"

lemma view_put:
  assumes "pool_ok s"
  shows "view (snd (put r s)) = (view s)(fst (put r s) \<mapsto> r)"
proof
  fix h
  show "view (snd (put r s)) h = ((view s)(fst (put r s) \<mapsto> r)) h"
    using put_alive [OF assms, of r] put_val [OF assms, of r] put_val_old [OF assms, of h r]
    by (auto simp: view_def)
qed

lemma view_del:
  assumes "pool_ok s" and "h \<in> dom (view s)" and "room s (Suc n)"
  obtains s' where "del h s = Some s'" and "pool_ok s'" and "room s' n"
    and "view s' = (view s)(h := None)"
proof -
  have "h \<in> alive s" using assms(2) by (auto simp: view_def split: if_splits)
  then obtain s' where s': "del h s = Some s'" "pool_ok s'" "room s' n" "alive s' = alive s - {h}"
    "\<forall>k \<in> alive s'. val s' k = val s k"
    using del_ok [OF assms(1) _ assms(3)] by blast
  have "view s' = (view s)(h := None)"
    using s'(4,5) by (auto simp: view_def fun_eq_iff)
  with s'(1-3) show thesis by (rule that)
qed

lemma view_dom: "dom (view s) = alive s"
  by (auto simp: view_def split: if_splits)

end

text \<open>Destroying through a handle, as \<open>collectGarbage\<close> does.\<close>

definition destroy_handle :: "nat \<Rightarrow> 'a managed \<Rightarrow> 'a managed option" where
  "destroy_handle h m =
     (if h < length (handles m) then managed_destroy (unat (res_index (handles m ! h))) m else None)"

lemma destroy_handle_ok:
  assumes "table_ok m" and "h \<in> live m"
  obtains m' where "destroy_handle h m = Some m'" and "table_ok m'" and "live m' = live m - {h}"
    and "\<forall>k \<in> live m'. resource_of m' k = resource_of m k"
    and "length (resources m') < length (resources m)"
proof -
  have lt: "h < length (handles m)" using assms by (rule liveE)
  obtain m' where m': "managed_destroy (unat (res_index (handles m ! h))) m = Some m'"
    "table_ok m'" "live m' = live m - {h}"
    "\<forall>k \<in> live m'. resource_of m' k = resource_of m k"
    "length (resources m') < length (resources m)"
    using assms by (rule destroy_keeps)
  have "destroy_handle h m = Some m'" using lt m'(1) by (simp add: destroy_handle_def)
  then show thesis using m'(2-5) by (rule that)
qed

interpretation mp: handle_pool table_ok live resource_of
  "\<lambda>m n. length (resources m) + n < 2 ^ 48" managed_add destroy_handle
proof
  fix s :: "'a managed" and n h :: nat and r :: 'a
  show "table_ok (snd (managed_add r s)) \<and> length (resources (snd (managed_add r s))) + n < 2 ^ 48"
    if "table_ok s" and "length (resources s) + Suc n < 2 ^ 48"
    using that add_ok [OF that(1), of r] by (simp add: managed_add_eq)
  show "fst (managed_add r s) \<notin> live s \<and>
      live (snd (managed_add r s)) = insert (fst (managed_add r s)) (live s)" if "table_ok s"
    using add_fresh [OF that] add_live [of r s] by (simp add: managed_add_eq)
  show "resource_of (snd (managed_add r s)) (fst (managed_add r s)) = r" if "table_ok s"
    using add_resource_new [OF that, of r] by (simp add: managed_add_eq)
  show "resource_of (snd (managed_add r s)) h = resource_of s h" if "table_ok s" and "h \<in> live s"
    using that by (rule add_resource_old)
  show "\<exists>s'. destroy_handle h s = Some s' \<and> table_ok s' \<and> length (resources s') + n < 2 ^ 48 \<and>
      live s' = live s - {h} \<and> (\<forall>k \<in> live s'. resource_of s' k = resource_of s k)"
    if pre: "table_ok s" "h \<in> live s" "length (resources s) + Suc n < 2 ^ 48"
  proof -
    obtain s' where "destroy_handle h s = Some s'" "table_ok s'" "live s' = live s - {h}"
      "\<forall>k \<in> live s'. resource_of s' k = resource_of s k"
      "length (resources s') < length (resources s)"
      using pre(1,2) by (rule destroy_handle_ok)
    then show ?thesis using pre(3) by auto
  qed
qed

datatype 'a pool_op = Put 'a | Del nat

fun run_table :: "'a pool_op list \<Rightarrow> 'a managed \<Rightarrow> 'a managed option" where
  "run_table [] m = Some m"
| "run_table (Put r # ops) m = run_table ops (snd (managed_add r m))"
| "run_table (Del h # ops) m =
     (case destroy_handle h m of None \<Rightarrow> None | Some m' \<Rightarrow> run_table ops m')"

text \<open>The specification: handles are given out in order and never reused.\<close>

fun run_map :: "'a pool_op list \<Rightarrow> nat \<Rightarrow> (nat \<rightharpoonup> 'a) \<Rightarrow> (nat \<rightharpoonup> 'a) option" where
  "run_map [] n f = Some f"
| "run_map (Put r # ops) n f = run_map ops (Suc n) (f(n \<mapsto> r))"
| "run_map (Del h # ops) n f = (if f h = None then None else run_map ops n (f(h := None)))"

lemma destroy_handle_handles:
  "destroy_handle h m = Some m' \<Longrightarrow> length (handles m') = length (handles m)"
  by (auto simp: destroy_handle_def managed_destroy_def handle_update_def Let_def
      split: if_splits option.splits)

lemma run_table_map:
  "run_map ops (length (handles m)) (mp.view m) = Some f \<Longrightarrow> table_ok m \<Longrightarrow>
   length (resources m) + length ops < 2 ^ 48 \<Longrightarrow>
   \<exists>m'. run_table ops m = Some m' \<and> table_ok m' \<and> mp.view m' = f"
proof (induction ops arbitrary: m)
  case Nil
  then show ?case by simp
next
  case (Cons c ops)
  show ?case
  proof (cases c)
    case (Put r)
    let ?m = "snd (managed_add r m)"
    have v: "mp.view ?m = (mp.view m)(length (handles m) \<mapsto> r)"
      using mp.view_put [OF Cons.prems(2), of r] by (simp add: managed_add_eq)
    have "table_ok ?m" using Cons.prems(2,3) by (intro add_ok) auto
    moreover have "run_map ops (length (handles ?m)) (mp.view ?m) = Some f"
      using Cons.prems(1) v Put by (simp add: managed_add_eq)
    moreover have "length (resources ?m) + length ops < 2 ^ 48"
      using Cons.prems(3) by (simp add: managed_add_eq)
    ultimately show ?thesis using Cons.IH [of ?m] Put by simp
  next
    case (Del h)
    then have d: "h \<in> dom (mp.view m)"
      and r: "run_map ops (length (handles m)) ((mp.view m)(h := None)) = Some f"
      using Cons.prems(1) by (auto split: if_splits)
    have "length (resources m) + Suc (length ops) < 2 ^ 48" using Cons.prems(3) by simp
    then obtain m' where m': "destroy_handle h m = Some m'" "table_ok m'"
      "length (resources m') + length ops < 2 ^ 48" "mp.view m' = (mp.view m)(h := None)"
      using mp.view_del [OF Cons.prems(2) d] by blast
    have "run_map ops (length (handles m')) (mp.view m') = Some f"
      unfolding m'(4) destroy_handle_handles [OF m'(1)] by (rule r)
    from Cons.IH [OF this m'(2,3)] show ?thesis using Del m'(1) by simp
  qed
qed

subsection \<open>Properties\<close>

text \<open>
  C4: any sequence of additions and destructions on a well-formed table does what the same
  sequence does on a finite map from handles to resources, however the resources move in
  their vector: swap-removal never loses, duplicates or misdirects a surviving handle.
\<close>

theorem handles_refine_map:
  assumes "table_ok m"
    and "length (resources m) + length ops < 2 ^ 48"
    and "run_map ops (length (handles m)) (\<lambda>h. if h \<in> live m then Some (resource_of m h) else None) = Some f"
  shows "\<exists>m'. run_table ops m = Some m' \<and> table_ok m' \<and>
    (\<lambda>h. if h \<in> live m' then Some (resource_of m' h) else None) = f"
proof -
  have v: "mp.view s = (\<lambda>h. if h \<in> live s then Some (resource_of s h) else None)"
    for s :: "'a managed"
    by (rule ext) (simp add: mp.view_def)
  show ?thesis
    using run_table_map [of ops m f] assms unfolding v by blast
qed

lemma handles_refine_map_witness:
  "\<exists>m'. run_table [Put (7::nat), Put 8, Put 9, Del 0] empty_managed = Some m' \<and> table_ok m' \<and>
    (\<lambda>h. if h \<in> live m' then Some (resource_of m' h) else None) = [1 \<mapsto> 8, 2 \<mapsto> 9]"
proof (rule handles_refine_map)
  show "table_ok (empty_managed :: nat managed)" by (simp add: table_ok_def empty_managed_def)
  show "length (resources (empty_managed :: nat managed)) + length [Put (7::nat), Put 8, Put 9, Del 0] < 2 ^ 48"
    by (simp add: empty_managed_def)
  show "run_map [Put (7::nat), Put 8, Put 9, Del 0] (length (handles (empty_managed :: nat managed)))
      (\<lambda>h. if h \<in> live (empty_managed :: nat managed) then Some (resource_of empty_managed h) else None)
      = Some [1 \<mapsto> 8, 2 \<mapsto> 9]"
    by (auto simp: empty_managed_def live_def fun_eq_iff)
qed

lemma get_ok:
  assumes "table_ok m" and "h \<in> live m"
  defines "m' \<equiv> m\<lparr>handles := (handles m)[h := (handles m ! h)\<lparr>ref_count := ref_count (handles m ! h) + 1\<rparr>]\<rparr>"
  shows "managed_get h m = Some (resource_of m h, m')"
    and "table_ok m'" and "live m' = live m" and "resource_of m' k = resource_of m k"
proof -
  obtain i where i: "i < length (resources m)" "unat (res_index (handles m ! h)) = i"
    "h < length (handles m)"
    using assms(1,2) by (rule liveE)
  have idx: "res_index (handles m' ! k) = res_index (handles m ! k)" for k
    using i(3) by (cases "k = h") (simp_all add: m'_def)
  show "managed_get h m = Some (resource_of m h, m')"
    using i(1,3) i(2) by (simp add: managed_get_def handle_ref_def Let_def resource_of_def m'_def)
  have len: "length (handles m') = length (handles m)" "resources m' = resources m"
    by (simp_all add: m'_def)
  show "table_ok m'" using assms(1) unfolding table_ok_def len idx .
  show "live m' = live m" "resource_of m' k = resource_of m k"
    by (simp_all add: live_def resource_of_def len idx)
qed

text \<open>
  \<open>get\<close> through a live handle returns that handle's resource, changes no other handle
  and no resource, and counts one reference more on a 16 bit counter.
\<close>

theorem get_counts:
  assumes "table_ok m" and "h \<in> live m"
  shows "\<exists>m'. managed_get h m = Some (resource_of m h, m') \<and> table_ok m' \<and> live m' = live m \<and>
    (\<forall>k. resource_of m' k = resource_of m k) \<and>
    ref_count (handles m' ! h) = ref_count (handles m ! h) + 1 \<and>
    (\<forall>k. k \<noteq> h \<longrightarrow> handles m' ! k = handles m ! k)"
proof -
  have "h < length (handles m)" using assms by (rule liveE)
  then show ?thesis using get_ok [OF assms] by simp
qed

definition two_items :: "nat managed" where
  "two_items = snd (managed_add 8 (snd (managed_add 7 empty_managed)))"

lemma two_items_eq: "two_items =
   \<lparr>handles = [\<lparr>ref_count = 0, res_index = 0\<rparr>, \<lparr>ref_count = 0, res_index = 1\<rparr>], garbage = [],
    resources = [\<lparr>item_data = 7, handle_index = 0\<rparr>, \<lparr>item_data = 8, handle_index = 1\<rparr>]\<rparr>"
  by (simp add: two_items_def managed_add_eq empty_managed_def)

lemma two_items_ok: "table_ok two_items" "live two_items = {0, 1}"
  by (auto simp: table_ok_def live_def two_items_eq less_Suc_eq nth_Cons')

lemma get_counts_witness: "\<exists>m'. managed_get 1 two_items = Some (8, m') \<and> table_ok m'"
proof -
  have "resource_of two_items 1 = 8" by (simp add: two_items_eq resource_of_def)
  then show ?thesis using get_counts [OF two_items_ok(1), of 1] by (auto simp: two_items_ok)
qed

text \<open>
  \<open>isUnreferenced\<close> is inverted, so garbage nobody references is never collected: a
  pass over a list of handles whose counts are all zero changes nothing.
\<close>

theorem unreferenced_garbage_stays:
  assumes "\<And>h. h \<in> set (garbage m) \<Longrightarrow> h < length (handles m) \<and> ref_count (handles m ! h) = 0"
  shows "collect_garbage m = Some m"
proof -
  have "n \<le> length (garbage m) \<Longrightarrow> collect_loop gi n m = Some m" for gi n
  proof (induction "n - gi" arbitrary: gi rule: less_induct)
    case less
    show ?case
    proof (cases "gi < n")
      case True
      then have g: "garbage m ! gi \<in> set (garbage m)" using less.prems by simp
      then have "is_unreferenced (garbage m ! gi) m = Some False"
        using assms [OF g] by (simp add: is_unreferenced_def)
      moreover have "collect_loop (Suc (Suc gi)) n m = Some m"
        using less.hyps [of "Suc (Suc gi)"] less.prems True by simp
      ultimately show ?thesis
        using True less.prems by (subst collect_loop.simps) simp
    qed (simp add: collect_loop.simps)
  qed
  then show ?thesis by (simp add: collect_garbage_def)
qed

lemma unreferenced_garbage_stays_witness:
  "collect_garbage (handle_remove 1 (handle_remove 0 two_items)) =
     Some (handle_remove 1 (handle_remove 0 two_items))"
  by (rule unreferenced_garbage_stays) (auto simp: handle_remove_def two_items_eq)

text \<open>
  The first \<open>HandleRef\<close> to go out of scope makes the next collection undefined: its
  count was raised and never released, so the collector takes its entry for garbage, pops it
  and reads the list at the position it has just removed.
\<close>

theorem collection_after_scope_undefined:
  assumes "table_ok m" and "h \<in> live m" and "garbage m = []"
    and "ref_count (handles m ! h) \<noteq> - 1"
  shows "\<exists>m'. handle_ref_scope h m = Some (resource_of m h, m') \<and> collect_garbage m' = None"
proof -
  have lt: "h < length (handles m)" using assms(1,2) by (rule liveE)
  let ?m = "m\<lparr>handles := (handles m)[h := (handles m ! h)\<lparr>ref_count := ref_count (handles m ! h) + 1\<rparr>]\<rparr>"
  have "ref_count (handles m ! h) + 1 \<noteq> 0"
    using assms(4) by (metis add_diff_cancel_right' diff_0)
  then have u: "is_unreferenced h (handle_remove h ?m) = Some True"
    using lt by (simp add: is_unreferenced_def handle_remove_def)
  have "collect_garbage (handle_remove h ?m) = None"
    using u assms(3) by (simp add: collect_garbage_def collect_loop.simps handle_remove_def)
  then show ?thesis
    using get_ok(1) [OF assms(1,2)] by (simp add: handle_ref_scope_def)
qed

lemma collection_after_scope_undefined_witness:
  "\<exists>m'. handle_ref_scope 1 two_items = Some (8, m') \<and> collect_garbage m' = None"
proof -
  have "resource_of two_items 1 = 8" by (simp add: two_items_eq resource_of_def)
  then show ?thesis
    using collection_after_scope_undefined [OF two_items_ok(1), of 1]
    by (simp add: two_items_ok) (simp add: two_items_eq)
qed

text \<open>
  With two queued handles of which the first counts as garbage, the collector destroys the
  resource of the second one: the swap puts the second index where the iterator points before
  the handle is read.
\<close>

theorem collection_takes_the_wrong_handle:
  assumes "table_ok m" and "garbage m = [a, b]" and "a < length (handles m)"
    and "ref_count (handles m ! a) \<noteq> 0" and "b \<in> live m"
  shows "\<exists>m'. collect_garbage m = Some m' \<and> live m' = live m - {b} \<and> garbage m' = [b]"
proof -
  let ?m = "m\<lparr>garbage := [b]\<rparr>"
  have b: "b < length (handles m)" using assms(1,5) by (rule liveE)
  have "table_ok ?m" "b \<in> live ?m" using assms(1,5) by (simp_all add: table_ok_def live_def)
  then obtain m' where m': "destroy_handle b ?m = Some m'" "live m' = live ?m - {b}"
    by (rule destroy_handle_ok)
  have g: "garbage m' = [b]"
    using m'(1) by (auto simp: destroy_handle_def managed_destroy_def handle_update_def Let_def
        split: if_splits option.splits)
  have "collect_garbage m = Some m'"
    using assms(2-4) b m'(1)
    by (simp add: collect_garbage_def collect_loop.simps is_unreferenced_def destroy_handle_def Let_def)
  then show ?thesis using m'(2) g by (simp add: live_def)
qed

lemma collection_takes_the_wrong_handle_witness:
  "\<exists>m'. collect_garbage (handle_remove 1 (snd (the (handle_ref_scope 0 two_items)))) = Some m' \<and>
     live m' = {0} \<and> garbage m' = [1]"
proof -
  let ?m = "handle_remove 1 (snd (the (handle_ref_scope 0 two_items)))"
  have eq: "?m = \<lparr>handles = [\<lparr>ref_count = 1, res_index = 0\<rparr>, \<lparr>ref_count = 0, res_index = 1\<rparr>],
      garbage = [0, 1],
      resources = [\<lparr>item_data = 7, handle_index = 0\<rparr>, \<lparr>item_data = 8, handle_index = 1\<rparr>]\<rparr>"
    by (simp add: handle_remove_def handle_ref_scope_def managed_get_def handle_ref_def two_items_eq)
  have l: "live ?m = {0, 1}" unfolding eq by (simp add: live_def)
  have "table_ok ?m" unfolding eq by (simp add: table_ok_def less_Suc_eq)
  then have "\<exists>m'. collect_garbage ?m = Some m' \<and> live m' = live ?m - {1} \<and> garbage m' = [1]"
  proof (rule collection_takes_the_wrong_handle)
    show "garbage ?m = [0, 1]" "0 < length (handles ?m)" "ref_count (handles ?m ! 0) \<noteq> 0"
      unfolding eq by simp_all
    show "1 \<in> live ?m" unfolding l by simp
  qed
  moreover have "{0, 1} - {1} = {0 :: nat}" by auto
  ultimately show ?thesis unfolding l by simp
qed

end
