(* ===== verification/ResourcePool.thy ===== *)
theory ResourcePool
  imports Resources
begin

text \<open>
  The states a pool of managed resources can be in: the step relation of its operations, in any order
  and with any arguments, and the table invariant as the type of its reachable states.
\<close>

subsection \<open>The operations as steps\<close>

text \<open>One rule per operation that returns; \<open>add\<close> as long as the 48-bit indices suffice.\<close>

inductive pool_step :: "'a managed \<Rightarrow> 'a managed \<Rightarrow> bool" where
  pool_add: "Suc (length (resources m)) < 2 ^ 48 \<Longrightarrow> managed_add r m = (h, m') \<Longrightarrow> pool_step m m'"
| pool_get: "managed_get h m = Some (d, m') \<Longrightarrow> pool_step m m'"
| pool_release: "handle_release h m = Some m' \<Longrightarrow> pool_step m m'"
| pool_remove: "handle_remove h m = m' \<Longrightarrow> pool_step m m'"
| pool_scope: "handle_ref_scope h m = Some (d, m') \<Longrightarrow> pool_step m m'"
| pool_destroy: "managed_destroy idx m = Some m' \<Longrightarrow> pool_step m m'"
| pool_collect: "collect_garbage m = Some m' \<Longrightarrow> pool_step m m'"

inductive pool_reachable :: "'a managed \<Rightarrow> bool" where
  pool_start: "pool_reachable empty_managed"
| pool_move: "pool_reachable m \<Longrightarrow> pool_step m m' \<Longrightarrow> pool_reachable m'"

subsection \<open>The invariant\<close>

text \<open>The invariant does not read the counts and the garbage.\<close>

lemma table_ok_cong:
  assumes "table_ok m" and "resources m' = resources m" and "map res_index (handles m') = map res_index (handles m)"
  shows "table_ok m'"
proof -
  have "length (handles m') = length (handles m)" using assms(3) by (rule map_eq_imp_length_eq)
  moreover have "res_index (handles m' ! k) = res_index (handles m ! k)" if "k < length (handles m)" for k
    using assms(3) that by (metis calculation nth_map)
  ultimately show ?thesis using assms(1,2) by (simp add: table_ok_def)
qed

lemma map_res_index_update: "map res_index (hs[h := (hs ! h)\<lparr>ref_count := c\<rparr>]) = map res_index hs"
  by (cases "h < length hs") (simp_all add: map_update list_update_same_conv list_update_beyond)

lemma get_table_ok: "managed_get h m = Some (d, m') \<Longrightarrow> table_ok m \<Longrightarrow> table_ok m'"
  by (rule table_ok_cong [of m])
     (auto simp: managed_get_def handle_ref_def Let_def map_res_index_update split: if_splits)

lemma release_table_ok: "handle_release h m = Some m' \<Longrightarrow> table_ok m \<Longrightarrow> table_ok m'"
  by (rule table_ok_cong [of m]) (auto simp: handle_release_def map_res_index_update split: if_splits)

lemma remove_table_ok: "table_ok m \<Longrightarrow> table_ok (handle_remove h m)"
  by (rule table_ok_cong [of m]) (simp_all add: handle_remove_def)

lemma scope_table_ok: "handle_ref_scope h m = Some (d, m') \<Longrightarrow> table_ok m \<Longrightarrow> table_ok m'"
  by (auto simp: handle_ref_scope_def split: option.splits intro: remove_table_ok get_table_ok)

lemma destroy_table_ok:
  assumes "managed_destroy idx m = Some m'" and "table_ok m"
  shows "table_ok m'"
proof -
  have idx: "idx < length (resources m)" using assms(1) by (simp add: managed_destroy_def split: if_splits)
  let ?h = "handle_index (resources m ! idx)"
  have "?h \<in> live m" "unat (res_index (handles m ! ?h)) = idx"
    using idx table_okD(2) [OF assms(2) idx] by (auto simp: live_def)
  with destroy_keeps [OF assms(2), of ?h] assms(1) show ?thesis by auto
qed

lemma collect_loopE:
  assumes "collect_loop gi n m = Some m'"
  obtains (stop) "m' = m"
  | (skip_one) "gi < n" and "collect_loop (Suc (Suc gi)) n m = Some m'"
  | (destroy_one) g idx m1 where "gi < n" and "managed_destroy idx (m\<lparr>garbage := g\<rparr>) = Some m1"
      and "collect_loop (Suc gi) (n - 1) m1 = Some m'"
  using assms
  by (subst (asm) collect_loop.simps) (simp add: Let_def split: if_split_asm option.split_asm bool.split_asm; blast)

lemma collect_loop_table_ok: "collect_loop gi n m = Some m' \<Longrightarrow> table_ok m \<Longrightarrow> table_ok m'"
proof (induction "n - gi" arbitrary: gi n m rule: less_induct)
  case less
  from less.prems(1) show ?case
  proof (cases rule: collect_loopE)
    case stop
    then show ?thesis using less.prems(2) by simp
  next
    case skip_one
    then show ?thesis using less.hyps [of n "Suc (Suc gi)"] less.prems(2) by simp
  next
    case (destroy_one g idx m1)
    have "table_ok (m\<lparr>garbage := g\<rparr>)" using less.prems(2) by (rule table_ok_cong) simp_all
    with destroy_one(2) have "table_ok m1" by (rule destroy_table_ok)
    then show ?thesis using less.hyps [of "n - 1" "Suc gi"] destroy_one(1,3) by simp
  qed
qed

lemma step_table_ok:
  assumes "pool_step m m'" and "table_ok m"
  shows "table_ok m'"
  using assms(1)
proof (cases rule: pool_step.cases)
  case (pool_add r h)
  then show ?thesis using add_ok [OF assms(2), of r] by simp
next
  case pool_collect
  then show ?thesis using assms(2) unfolding collect_garbage_def by (rule collect_loop_table_ok)
qed (use assms(2) in \<open>auto intro: get_table_ok release_table_ok remove_table_ok scope_table_ok destroy_table_ok\<close>)

lemma reachable_table_ok: "pool_reachable m \<Longrightarrow> table_ok m"
  by (induction rule: pool_reachable.induct) (simp add: table_ok_def empty_managed_def, rule step_table_ok)

text \<open>
  C5: the type of a pool: whatever the order of its operations, every resource's handle exists and points back at
  it, so two resources never share a handle, and every handle that was added and not destroyed
  gives a resource of the table in every reachable state.
\<close>

theorem reachable_pools_typed:
  assumes "pool_reachable m"
  shows "table_ok m \<and> distinct (map handle_index (resources m)) \<and>
    (\<forall>h \<in> live m. \<exists>m'. managed_get h m = Some (resource_of m h, m') \<and> resource_of m h \<in> item_data ` set (resources m) \<and> live m' = live m)"
proof (intro conjI ballI)
  show ok: "table_ok m" using assms by (rule reachable_table_ok)
  show "distinct (map handle_index (resources m))"
    using handle_index_inj [OF ok] by (auto simp: distinct_conv_nth)
  fix h assume h: "h \<in> live m"
  then obtain i where "i < length (resources m)" "unat (res_index (handles m ! h)) = i" using ok by (elim liveE)
  then have "resource_of m h \<in> item_data ` set (resources m)" by (simp add: resource_of_def)
  then show "\<exists>m'. managed_get h m = Some (resource_of m h, m') \<and> resource_of m h \<in> item_data ` set (resources m) \<and> live m' = live m"
    using get_ok(1,3) [OF ok h] by blast
qed

lemma reachable_pools_typed_witness: "\<exists>m'. managed_get 1 two_items = Some (8, m') \<and> live m' = {0, 1}"
proof -
  have "pool_reachable two_items"
    unfolding two_items_def
    by (intro pool_move [OF pool_move [OF pool_start]] pool_add) (auto simp: managed_add_eq empty_managed_def)
  moreover have "resource_of two_items 1 = 8" by (simp add: two_items_eq resource_of_def)
  ultimately show ?thesis using reachable_pools_typed [of two_items] two_items_ok(2) by auto
qed

end
