(* ===== verification/Systems.thy ===== *)
theory Systems
  imports Prelude
begin

text \<open>
  The entity systems: \<open>ecs::system\<close> of \<open>include/ecs/systems/System.h\<close> (one \<open>run\<close> per frame over
  a view of the registry, with the added and removed entities worked out by two set
  differences) and \<open>sprite_render_system\<close> of \<open>include/ecs/systems/sprite_render.h\<close>. The entt
  view is the list of the entities it yields, in its order, with their components. An entity
  is an unsigned number.
\<close>

subsection \<open>Detection of the optional hooks\<close>

text \<open>
  \<open>has_method__pre\<close> and its sisters test that the expression \<open>self.pre() == 1\<close> compiles. A
  hook that returns \<open>void\<close> cannot be compared, so it counts as absent.
\<close>

datatype hook_decl = NotDeclared | ReturnsVoid | ReturnsComparable

definition has_method :: "hook_decl \<Rightarrow> bool" where
  "has_method d \<longleftrightarrow> d = ReturnsComparable"

datatype entity_notification = Added | Removed

text \<open>What the class \<open>This\<close> of the curiously recurring template declares.\<close>

record ('s, 'c) hooks =
  pre_decl :: hook_decl
  post_decl :: hook_decl
  notify_decl :: hook_decl
  pre_fn :: "'s \<Rightarrow> 's"
  update_fn :: "nat \<Rightarrow> 'c \<Rightarrow> 's \<Rightarrow> 's"
  post_fn :: "'s \<Rightarrow> 's"
  notify_fn :: "entity_notification \<Rightarrow> nat list \<Rightarrow> 's \<Rightarrow> 's"

record 's sys =
  self :: 's
  notifications_enabled :: bool
  live_entities :: "nat list"

definition call_if_declared_pre :: "('s, 'c) hooks \<Rightarrow> 's \<Rightarrow> 's" where
  "call_if_declared_pre hk s = (if has_method (pre_decl hk) then pre_fn hk s else s)"

definition call_if_declared_post :: "('s, 'c) hooks \<Rightarrow> 's \<Rightarrow> 's" where
  "call_if_declared_post hk s = (if has_method (post_decl hk) then post_fn hk s else s)"

text \<open>The overload of \<open>notify\<close> is enabled by \<open>has_method__post\<close>, as the code has it.\<close>

definition call_if_declared_notify ::
  "('s, 'c) hooks \<Rightarrow> entity_notification \<Rightarrow> nat list \<Rightarrow> 's \<Rightarrow> 's" where
  "call_if_declared_notify hk n e s = (if has_method (post_decl hk) then notify_fn hk n e s else s)"

subsection \<open>One frame\<close>

text \<open>\<open>std::set_difference\<close>: the merge of two ranges that are supposed to be sorted.\<close>

fun set_difference :: "nat list \<Rightarrow> nat list \<Rightarrow> nat list" where
  "set_difference [] ys = []"
| "set_difference (x # xs) [] = x # xs"
| "set_difference (x # xs) (y # ys) =
     (if x < y then x # set_difference xs (y # ys)
      else if y < x then set_difference (x # xs) ys
      else set_difference xs ys)"

definition add_live_entity :: "('s, 'c) hooks \<Rightarrow> nat list \<Rightarrow> nat \<Rightarrow> nat list" where
  "add_live_entity hk current e = (if has_method (notify_decl hk) then current @ [e] else current)"

text \<open>The result is the added and the removed entities and the new \<open>liveEntities\<close>.\<close>

definition find_added_and_removed ::
  "('s, 'c) hooks \<Rightarrow> nat list \<Rightarrow> 's sys \<Rightarrow> nat list \<times> nat list \<times> 's sys" where
  "find_added_and_removed hk current sys =
     (if has_method (notify_decl hk) \<and> notifications_enabled sys
      then (set_difference current (live_entities sys),
            set_difference (live_entities sys) current,
            sys\<lparr>live_entities := live_entities sys @ current\<rparr>)
      else ([], [], sys))"

text \<open>
  The bodies of one frame, in the order they run: the order of the view in the sequential
  case, any order of its elements when the range is split over threads.
\<close>

fun run_updates :: "('s, 'c) hooks \<Rightarrow> (nat \<times> 'c) list \<Rightarrow> nat list \<Rightarrow> 's \<Rightarrow> nat list \<times> 's" where
  "run_updates hk [] updated s = (updated, s)"
| "run_updates hk ((e, c) # view) updated s =
     run_updates hk view (add_live_entity hk updated e) (update_fn hk e c s)"

definition run_frame :: "('s, 'c) hooks \<Rightarrow> (nat \<times> 'c) list \<Rightarrow> 's sys \<Rightarrow> 's sys" where
  "run_frame hk view sys =
     (let sys1 = sys\<lparr>self := call_if_declared_pre hk (self sys)\<rparr>;
          (updated, s2) = run_updates hk view [] (self sys1);
          (added, removed, sys3) = find_added_and_removed hk updated (sys1\<lparr>self := s2\<rparr>);
          sys4 = (if has_method (notify_decl hk) \<and> notifications_enabled sys3
                  then sys3\<lparr>self := call_if_declared_notify hk Added added
                              (call_if_declared_notify hk Removed removed (self sys3))\<rparr>
                  else sys3)
      in sys4\<lparr>self := call_if_declared_post hk (self sys4)\<rparr>)"

fun run_frames :: "('s, 'c) hooks \<Rightarrow> (nat \<times> 'c) list list \<Rightarrow> 's sys \<Rightarrow> 's sys" where
  "run_frames hk [] sys = sys"
| "run_frames hk (view # views) sys = run_frames hk views (run_frame hk view sys)"

definition new_system :: "'s \<Rightarrow> 's sys" where
  "new_system s = \<lparr>self = s, notifications_enabled = False, live_entities = []\<rparr>"

subsection \<open>Set difference\<close>

lemma set_difference_Nil_right [simp]: "set_difference xs [] = xs"
  by (cases xs) simp_all

lemma set_difference_prefix: "set_difference (xs @ ys) xs = ys"
  by (induction xs) simp_all

lemma set_difference_of_prefix: "set_difference xs (xs @ ys) = []"
  by (induction xs) simp_all

lemma set_difference_mset:
  "sorted xs \<Longrightarrow> sorted ys \<Longrightarrow> mset (set_difference xs ys) = mset xs - mset ys"
proof (induction xs ys rule: set_difference.induct)
  case (3 x xs y ys)
  consider "x < y" | "y < x" | "x = y" by linarith
  then show ?case
  proof cases
    case 1
    then have "x \<notin> set (y # ys)" using "3.prems"(2) by auto
    then have "x \<notin># mset (y # ys)" by simp
    moreover have "sorted xs" using "3.prems"(1) by simp
    ultimately show ?thesis
      using 1 "3.IH"(1) [OF 1 \<open>sorted xs\<close> "3.prems"(2)]
      by (simp add: diff_add_mset_swap del: set_mset_mset)
  next
    case 2
    then have "y \<notin># mset (x # xs)" using "3.prems"(1) by auto
    moreover have "\<not> x < y" and "sorted ys" using 2 "3.prems"(2) by simp_all
    ultimately show ?thesis
      using 2 "3.IH"(2) [OF \<open>\<not> x < y\<close> 2 "3.prems"(1) \<open>sorted ys\<close>]
      by (simp add: diff_intersect_left_idem)
  next
    case 3
    then show ?thesis using "3.prems" "3.IH"(3) by simp
  qed
qed simp_all

lemma set_difference_subset: "set (set_difference xs ys) \<subseteq> set xs"
  by (induction xs ys rule: set_difference.induct) auto

subsection \<open>Frames\<close>

lemma run_updates_collect:
  "fst (run_updates hk view updated s) =
     (if has_method (notify_decl hk) then updated @ map fst view else updated)"
  by (induction hk view updated s rule: run_updates.induct) (auto simp: add_live_entity_def)

lemma run_updates_self:
  "snd (run_updates hk view updated s) = fold (\<lambda>(e, c). update_fn hk e c) view s"
  by (induction hk view updated s rule: run_updates.induct) auto

lemma run_frame_eq:
  "run_frame hk view sys =
     (let s2 = fold (\<lambda>(e, c). update_fn hk e c) view (call_if_declared_pre hk (self sys));
          cur = map fst view; live = live_entities sys
      in if has_method (notify_decl hk) \<and> notifications_enabled sys
         then sys\<lparr>self := call_if_declared_post hk
                    (call_if_declared_notify hk Added (set_difference cur live)
                      (call_if_declared_notify hk Removed (set_difference live cur) s2)),
                  live_entities := live @ cur\<rparr>
         else sys\<lparr>self := call_if_declared_post hk s2\<rparr>)"
proof -
  obtain u s2 where u: "run_updates hk view [] (call_if_declared_pre hk (self sys)) = (u, s2)"
    by (cases "run_updates hk view [] (call_if_declared_pre hk (self sys))")
  then have "u = (if has_method (notify_decl hk) then map fst view else [])"
    and "s2 = fold (\<lambda>(e, c). update_fn hk e c) view (call_if_declared_pre hk (self sys))"
    using run_updates_collect [of hk view "[]" "call_if_declared_pre hk (self sys)"]
      run_updates_self [of hk view "[]" "call_if_declared_pre hk (self sys)"]
    by (simp_all split: if_splits)
  then show ?thesis
    using u by (simp add: run_frame_def find_added_and_removed_def Let_def)
qed

subsection \<open>The sprite system\<close>

text \<open>
  \<open>spheres\<close> and \<open>instances\<close> gather one entry per sprite (position with radius 1, scale and
  rotation); \<open>post\<close> hands both to the renderer. \<open>submitted\<close> is the list of the calls of
  \<open>Renderer::submitSprites\<close>. A vector type is a parameter, the fourth coordinate is separate.
\<close>

record 'v transform =
  position :: 'v
  scale :: 'v
  rotation :: 'v

record 'v sprite_state =
  spheres :: "('v \<times> nat) list"
  instances :: "('v \<times> 'v) list"
  submitted :: "(('v \<times> nat) list \<times> ('v \<times> 'v) list) list"

definition sprite_update :: "nat \<Rightarrow> 'v transform \<Rightarrow> 'v sprite_state \<Rightarrow> 'v sprite_state" where
  "sprite_update e xform s =
     s\<lparr>spheres := spheres s @ [(position xform, 1)],
       instances := instances s @ [(scale xform, rotation xform)]\<rparr>"

definition sprite_post :: "'v sprite_state \<Rightarrow> 'v sprite_state" where
  "sprite_post s =
     s\<lparr>submitted := submitted s @ [(spheres s, instances s)], spheres := [], instances := []\<rparr>"

text \<open>\<open>update\<close> and a \<open>void post()\<close> are all the class declares.\<close>

definition sprite_hooks :: "hook_decl \<Rightarrow> ('v sprite_state, 'v transform) hooks" where
  "sprite_hooks post_type =
     \<lparr>pre_decl = NotDeclared, post_decl = post_type, notify_decl = NotDeclared,
      pre_fn = (\<lambda>s. s), update_fn = sprite_update, post_fn = sprite_post,
      notify_fn = (\<lambda>n e s. s)\<rparr>"

definition sprite_render :: "('v sprite_state, 'v transform) hooks" where
  "sprite_render = sprite_hooks ReturnsVoid"

lemma fold_sprite_update:
  "fold (\<lambda>(e, c). sprite_update e c) view s =
     s\<lparr>spheres := spheres s @ map (\<lambda>(e, c). (position c, 1)) view,
       instances := instances s @ map (\<lambda>(e, c). (scale c, rotation c)) view\<rparr>"
  by (induction view arbitrary: s) (auto simp: sprite_update_def)

lemma sprite_frame:
  "run_frame (sprite_hooks d) view sys =
     sys\<lparr>self := (if has_method d then sprite_post else id)
       ((self sys)\<lparr>spheres := spheres (self sys) @ map (\<lambda>(e, c). (position c, 1)) view,
                  instances := instances (self sys) @ map (\<lambda>(e, c). (scale c, rotation c)) view\<rparr>)\<rparr>"
  by (simp add: run_frame_eq sprite_hooks_def has_method_def call_if_declared_pre_def
      call_if_declared_post_def fold_sprite_update Let_def)

subsection \<open>Properties\<close>

text \<open>What a frame does to the system before the reports.\<close>

definition frame_updates :: "('s, 'c) hooks \<Rightarrow> (nat \<times> 'c) list \<Rightarrow> 's \<Rightarrow> 's" where
  "frame_updates hk view s = fold (\<lambda>(e, c). update_fn hk e c) view (call_if_declared_pre hk s)"

text \<open>
  C29: on the first two frames of a system whose hooks \<open>notify\<close> and \<open>post\<close> are detected and that is notified, with
  sorted views, the system is told the right changes. After the updates of the first frame it is notified that nothing is
  removed and that all entities of the view are added; after those of the second one, that exactly the missing entities are
  removed, and then that exactly the new ones are added; \<open>post\<close> comes last in both.
\<close>

theorem first_two_frames:
  assumes "has_method (notify_decl hk)" and "has_method (post_decl hk)" and "notifications_enabled sys" and "live_entities sys = []"
    and "sorted (map fst v1)" and "sorted (map fst v2)"
  shows "\<exists>added removed. mset added = mset (map fst v2) - mset (map fst v1) \<and> mset removed = mset (map fst v1) - mset (map fst v2) \<and>
    self (run_frame hk v1 sys) =
      post_fn hk (notify_fn hk Added (map fst v1) (notify_fn hk Removed [] (frame_updates hk v1 (self sys)))) \<and>
    self (run_frames hk [v1, v2] sys) =
      post_fn hk (notify_fn hk Added added (notify_fn hk Removed removed (frame_updates hk v2 (self (run_frame hk v1 sys)))))"
  using assms
  by (intro exI [of _ "set_difference (map fst v2) (map fst v1)"] exI [of _ "set_difference (map fst v1) (map fst v2)"])
    (simp add: run_frame_eq Let_def set_difference_mset frame_updates_def call_if_declared_notify_def call_if_declared_post_def)

text \<open>
  \<open>tracing\<close>: a class whose hooks are all detected and that writes down the notifications.
\<close>

definition tracing :: "((entity_notification \<times> nat list) list, unit) hooks" where
  "tracing = \<lparr>pre_decl = NotDeclared, post_decl = ReturnsComparable, notify_decl = ReturnsComparable,
     pre_fn = (\<lambda>s. s), update_fn = (\<lambda>e c s. s), post_fn = (\<lambda>s. s),
     notify_fn = (\<lambda>n e s. s @ [(n, e)])\<rparr>"

lemma first_two_frames_witness:
  "self (run_frames tracing [[(1, ()), (2, ())], [(2, ()), (3, ())]] (new_system []\<lparr>notifications_enabled := True\<rparr>)) =
     [(Removed, []), (Added, [1, 2]), (Removed, [1]), (Added, [3])]"
proof -
  let ?sys = "new_system []\<lparr>notifications_enabled := True\<rparr>"
  obtain added removed where r: "mset added = {#3#}" "mset removed = {#1#}"
    "self (run_frame tracing [(1, ()), (2, ())] ?sys) = [(Removed, []), (Added, [1, 2])]"
    "self (run_frames tracing [[(1, ()), (2, ())], [(2, ()), (3, ())]] ?sys) =
       self (run_frame tracing [(1, ()), (2, ())] ?sys) @ [(Removed, removed), (Added, added)]"
    using first_two_frames [of tracing ?sys "[(1, ()), (2, ())]" "[(2, ()), (3, ())]"]
    by (auto simp: tracing_def has_method_def new_system_def frame_updates_def call_if_declared_pre_def)
  then have "added = [3]" "removed = [1]" by (simp_all add: mset_single_iff_right)
  with r show ?thesis by simp
qed

lemma steady_live:
  assumes "has_method (notify_decl hk)" and "notifications_enabled sys"
  shows "live_entities (run_frames hk (replicate n view) sys) =
      live_entities sys @ concat (replicate n (map fst view)) \<and>
    notifications_enabled (run_frames hk (replicate n view) sys)"
  using assms(2)
proof (induction n arbitrary: sys)
  case (Suc n)
  then have "notifications_enabled (run_frame hk view sys)"
    and "live_entities (run_frame hk view sys) = live_entities sys @ map fst view"
    using assms(1) by (simp_all add: run_frame_eq Let_def)
  then show ?case using Suc.IH [of "run_frame hk view sys"] by simp
qed simp

text \<open>
  \<open>liveEntities\<close> is appended to and never cleared, so a view that does not change is
  reported wrongly from the third frame on: after \<open>n > 0\<close> frames the next one reports no
  addition and, as removed, all the entities that are still there, \<open>n - 1\<close> times over.
\<close>

theorem steady_view_reported_removed:
  assumes "has_method (notify_decl hk)" and "notifications_enabled sys" and "live_entities sys = []"
    and "0 < n"
  shows "\<exists>sys'. find_added_and_removed hk (map fst view) (run_frames hk (replicate n view) sys) =
    ([], concat (replicate (n - 1) (map fst view)), sys')"
proof -
  obtain k where n: "n = Suc k" using assms(4) by (cases n) auto
  let ?s = "run_frames hk (replicate n view) sys"
  have l: "live_entities ?s = map fst view @ concat (replicate k (map fst view))"
    and e: "notifications_enabled ?s"
    using steady_live [OF assms(1,2), of n view] assms(3) n by simp_all
  have "find_added_and_removed hk (map fst view) s =
      ([], r, s\<lparr>live_entities := live_entities s @ map fst view\<rparr>)"
    if "live_entities s = map fst view @ r" and "notifications_enabled s" for s :: "'a sys" and r
    using that assms(1)
    by (simp add: find_added_and_removed_def set_difference_prefix set_difference_of_prefix)
  from this [OF l e] show ?thesis unfolding n by auto
qed

lemma steady_view_reported_removed_witness:
  "\<exists>sys'. find_added_and_removed tracing [4, 7]
     (run_frames tracing (replicate 2 [(4, ()), (7, ())]) (new_system []\<lparr>notifications_enabled := True\<rparr>))
     = ([], [4, 7], sys')"
  using steady_view_reported_removed
      [of tracing "new_system []\<lparr>notifications_enabled := True\<rparr>" 2 "[(4, ()), (7, ())]"]
  by (simp add: tracing_def has_method_def new_system_def)

text \<open>
  The call of \<open>notify\<close> is guarded by the detection of \<open>post\<close>, so a class with a detected
  \<open>notify\<close> and without a detected \<open>post\<close> is never notified: what its \<open>notify\<close> does makes
  no difference to any run.
\<close>

theorem notify_needs_post:
  assumes "\<not> has_method (post_decl hk)"
  shows "run_frames (hk\<lparr>notify_fn := f\<rparr>) views sys = run_frames hk views sys"
proof -
  have "run_frame (hk\<lparr>notify_fn := f\<rparr>) view s = run_frame hk view s" for view s
    using assms
    by (simp add: run_frame_eq Let_def call_if_declared_notify_def call_if_declared_post_def
        call_if_declared_pre_def)
  then show ?thesis by (induction views arbitrary: sys) simp_all
qed

lemma notify_needs_post_witness:
  "run_frames (tracing\<lparr>post_decl := ReturnsVoid, notify_fn := (\<lambda>n e s. [])\<rparr>) [[(1, ())]] (new_system [])
   = run_frames (tracing\<lparr>post_decl := ReturnsVoid\<rparr>) [[(1, ())]] (new_system [])"
  by (rule notify_needs_post) (simp add: has_method_def)

text \<open>
  The \<open>void post()\<close> of the sprite system is not detected, so no frame ever submits a
  sprite and the gathered vectors grow by one entry per sprite and frame.
\<close>

theorem sprites_never_submitted:
  "submitted (self (run_frames sprite_render views sys)) = submitted (self sys) \<and>
   length (spheres (self (run_frames sprite_render views sys))) =
     length (spheres (self sys)) + sum_list (map length views)"
  by (induction views arbitrary: sys)
    (simp_all add: sprite_render_def sprite_frame has_method_def)

text \<open>
  With a \<open>post\<close> that is detected, every frame would submit exactly the sprites of its
  view, in order, and leave both vectors empty.
\<close>

theorem sprites_submitted_if_detected:
  assumes "spheres (self sys) = []" and "instances (self sys) = []"
  shows "self (run_frames (sprite_hooks ReturnsComparable) views sys) =
    (self sys)\<lparr>submitted := submitted (self sys) @
       map (\<lambda>view. (map (\<lambda>(e, c). (position c, 1)) view,
                     map (\<lambda>(e, c). (scale c, rotation c)) view)) views\<rparr>"
  using assms
proof (induction views arbitrary: sys)
  case (Cons view views)
  let ?s = "run_frame (sprite_hooks ReturnsComparable) view sys"
  have "self ?s = (self sys)\<lparr>submitted := submitted (self sys) @
      [(map (\<lambda>(e, c). (position c, 1)) view, map (\<lambda>(e, c). (scale c, rotation c)) view)]\<rparr>"
    using Cons.prems by (simp add: sprite_frame has_method_def sprite_post_def)
  then show ?case using Cons.IH [of ?s] Cons.prems by simp
qed simp

lemma sprites_submitted_if_detected_witness:
  "self (run_frames (sprite_hooks ReturnsComparable)
      [[(1, \<lparr>position = 5, scale = 6, rotation = 7\<rparr>)], []]
      (new_system \<lparr>spheres = [], instances = [], submitted = []\<rparr>)) =
   \<lparr>spheres = [], instances = [], submitted = [([(5 :: nat, 1)], [(6, 7)]), ([], [])]\<rparr>"
  using sprites_submitted_if_detected [of "new_system \<lparr>spheres = [], instances = [], submitted = []\<rparr>"
      "[[(1, \<lparr>position = 5, scale = 6, rotation = 7\<rparr>)], []]"]
  by (simp add: new_system_def)

end
