(* ===== verification/Loader.thy ===== *)
theory Loader
  imports ConfigLaws Containers
begin

text \<open>
  The entity loader: \<open>include/ecs/Loader.h\<close>, \<open>src/ecs/Loader.cpp\<close> and the component
  constructors of \<open>include/ecs/ctors\<close> and \<open>src/ecs/ctors\<close>. The entt registry is a git
  submodule, so it is a parameter: the record \<open>entt\<close> of the operations the loader calls.
  Floating point numbers are a type parameter with the constants and the product the code
  uses. Reading and parsing a file is the parameter \<open>load_yaml\<close>; \<open>loader_debug\<close> tells whether the
  macro \<open>DEBUG_BUILD\<close> is defined.
\<close>

subsection \<open>Components, blueprints and the loader's world\<close>

type_synonym entity_t = u32

datatype 'f component =
    Transform "'f list" "'f list" "'f list"
  | DynamicShadow
  | ShadowCaster
  | TimeAware 'f
  | Parent entity_t
  | Children "entity_t list"

datatype 'p blueprint = Blueprint (prototype: 'p) (children: "'p blueprint list")

record ('r, 'p, 'f) entt =
  reg_create :: "'r \<Rightarrow> entity_t \<times> 'r"
  proto_new :: "'r \<Rightarrow> 'p \<times> 'r"
  proto_set :: "'f component \<Rightarrow> 'p \<Rightarrow> 'r \<Rightarrow> 'p \<times> 'r"
  proto_create :: "'p \<Rightarrow> 'r \<Rightarrow> entity_t \<times> 'r"
  has_time_aware :: "entity_t \<Rightarrow> 'r \<Rightarrow> bool"
  reg_assign :: "entity_t \<Rightarrow> 'f component \<Rightarrow> 'r \<Rightarrow> 'r"

record 'f floats =
  f_zero :: 'f
  f_one :: 'f
  mul_two_pi :: "'f \<Rightarrow> 'f"
  as_float :: "yref \<Rightarrow> exn + 'f"

record ('r, 'p, 'f) env =
  entt_of :: "('r, 'p, 'f) entt"
  floats_of :: "'f floats"
  load_yaml :: "string \<Rightarrow> exn + ynode"
  loader_debug :: bool

text \<open>
  \<open>found\<close> is the stack of the \<open>blueprints\<close> locals of the active calls of the private
  \<open>loadTemplate\<close>, which its callback writes. A fault is a behaviour that is not a result:
  indexing an empty vector, or a recursion deeper than the fuel.
\<close>

datatype fault = EmptyIndex | OutOfFuel

record ('r, 'p) world =
  reg :: 'r
  entities :: "string \<rightharpoonup> entity_t"
  found :: "'p blueprint list list"
  fault :: "fault option"

type_synonym ('r, 'p, 'a) ld = "(('r, 'p) world pstate, 'a) eff"

definition regE :: "('r \<Rightarrow> 'a \<times> 'r) \<Rightarrow> ('r, 'p, 'a) ld" where
  "regE f s = (let (a, r) = f (reg (out s)) in (Inr a, s\<lparr>out := (out s)\<lparr>reg := r\<rparr>\<rparr>))"

definition faultE :: "fault \<Rightarrow> ('r, 'p, unit) ld" where
  "faultE f = modifyE (\<lambda>s. s\<lparr>out := (out s)\<lparr>fault :=
     (case fault (out s) of None \<Rightarrow> Some f | Some g \<Rightarrow> Some g)\<rparr>\<rparr>)"

text \<open>A loop that collects what its iterations push to a local vector.\<close>

fun collectE :: "('a \<Rightarrow> ('s, 'b list) eff) \<Rightarrow> 'a list \<Rightarrow> ('s, 'b list) eff" where
  "collectE f [] = returnE []"
| "collectE f (x # xs) = bindE (f x) (\<lambda>ys. bindE (collectE f xs) (\<lambda>zs. returnE (ys @ zs)))"

subsection \<open>Component constructors\<close>

datatype ctor = TransformCtor | DynamicShadowCtor | ShadowCasterCtor

definition constructors :: "string \<Rightarrow> ctor option" where
  "constructors name =
     (if name = ''transform'' then Some TransformCtor
      else if name = ''dynamic-shadow'' then Some DynamicShadowCtor
      else if name = ''shadow-caster'' then Some ShadowCasterCtor
      else None)"

text \<open>The three vectors the transform parser captures: translation, rotation and scale.\<close>

definition transform_defs :: "'f floats \<Rightarrow> ('f list \<times> 'f list \<times> 'f list) def list" where
  "transform_defs fl =
     [optional [sequence ''position'' (as_vector (as_float fl)) (\<lambda>v (t, r, s). (v, r, s))],
      optional [sequence ''rotation'' (as_vector (as_float fl)) (\<lambda>v (t, r, s). (t, v, s))],
      optional [sequence ''scale'' (as_vector (as_float fl)) (\<lambda>v (t, r, s). (t, r, v))]]"

definition parse_transform :: "'f floats \<Rightarrow> yref \<Rightarrow> 'f list \<times> 'f list \<times> 'f list" where
  "parse_transform fl config =
     out (snd (parser (transform_defs fl) config \<lparr>out = ([], [], []), errs = [], flags = []\<rparr>))"

text \<open>\<open>toVec\<close> reads the elements 0, 1 and 2 without a check.\<close>

definition to_vec :: "'f list \<Rightarrow> 'f list option" where
  "to_vec v = (if 2 < length v then Some [v ! 0, v ! 1, v ! 2] else None)"

definition construct_transform :: "'f floats \<Rightarrow> yref \<Rightarrow> 'f component option" where
  "construct_transform fl config =
     (let (translation, rotation, scale) = parse_transform fl config;
          translation = pad_with translation 3 (f_zero fl);
          rotation = pad_with rotation 3 (f_zero fl);
          scale = pad_with scale 3 (f_one fl);
          rotation = map (mul_two_pi fl) rotation
      in (case (to_vec translation, to_vec scale, to_vec rotation) of
            (Some t, Some s, Some r) \<Rightarrow> Some (Transform t s r)
          | _ \<Rightarrow> None))"

definition construct :: "('r, 'p, 'f) env \<Rightarrow> ctor \<Rightarrow> 'p \<Rightarrow> yref \<Rightarrow> ('r, 'p, 'p) ld" where
  "construct env c p config =
     (case (case c of
              TransformCtor \<Rightarrow> construct_transform (floats_of env) config
            | DynamicShadowCtor \<Rightarrow> Some DynamicShadow
            | ShadowCasterCtor \<Rightarrow> Some ShadowCaster) of
        Some cp \<Rightarrow> regE (proto_set (entt_of env) cp p)
      | None \<Rightarrow> bindE (faultE EmptyIndex) (\<lambda>_. returnE p))"

subsection \<open>Loading\<close>

text \<open>
  One entry of a \<open>components\<close> or \<open>defaults\<close> map: a key that is not a scalar or has no
  constructor is skipped.
\<close>

definition component_ctor :: "ynode \<Rightarrow> ('r, 'p, ctor option) ld" where
  "component_ctor name =
     bindE (liftE (is_scalar (Node name))) (\<lambda>b.
       if b then bindE (liftE (as_string (Node name))) (\<lambda>nm. returnE (constructors nm))
       else returnE None)"

fun add_components :: "('r, 'p, 'f) env \<Rightarrow> (ynode \<times> ynode) list \<Rightarrow> 'p \<Rightarrow> ('r, 'p, 'p) ld" where
  "add_components env [] p = returnE p"
| "add_components env ((name, data) # rest) p =
     bindE (component_ctor name) (\<lambda>c.
     bindE (case c of None \<Rightarrow> returnE p | Some c \<Rightarrow> construct env c p (Node data)) (\<lambda>p'.
     add_components env rest p'))"

fun construct_each :: "('r, 'p, 'f) env \<Rightarrow> ctor \<Rightarrow> yref \<Rightarrow> 'p blueprint list \<Rightarrow>
    ('r, 'p, 'p blueprint list) ld" where
  "construct_each env c data [] = returnE []"
| "construct_each env c data (b # bs) =
     bindE (construct env c (prototype b) data) (\<lambda>p.
     bindE (construct_each env c data bs) (\<lambda>bs'. returnE (Blueprint p (children b) # bs')))"

fun add_defaults :: "('r, 'p, 'f) env \<Rightarrow> (ynode \<times> ynode) list \<Rightarrow> 'p blueprint list \<Rightarrow>
    ('r, 'p, 'p blueprint list) ld" where
  "add_defaults env [] grp = returnE grp"
| "add_defaults env ((name, data) # rest) grp =
     bindE (component_ctor name) (\<lambda>c.
     bindE (case c of None \<Rightarrow> returnE grp | Some c \<Rightarrow> construct_each env c (Node data) grp)
       (\<lambda>grp'. add_defaults env rest grp'))"

text \<open>\<open>emplace\<close> keeps the entry of a name that is already there.\<close>

definition emplace_entity :: "string \<Rightarrow> entity_t \<Rightarrow> ('r, 'p, unit) ld" where
  "emplace_entity name e = modifyE (\<lambda>s. s\<lparr>out := (out s)\<lparr>entities :=
     (if entities (out s) name = None then (entities (out s))(name \<mapsto> e) else entities (out s))\<rparr>\<rparr>)"

text \<open>A prototype without components and without children.\<close>

definition empty_blueprint :: "('r, 'p, 'f) env \<Rightarrow> ('r, 'p, 'p blueprint) ld" where
  "empty_blueprint env = bindE (regE (proto_new (entt_of env))) (\<lambda>p. returnE (Blueprint p []))"

text \<open>
  \<open>instantiate\<close>. The call \<open>registry.assign<TimeAware>(1.0f)\<close> passes only the number, which
  is converted to the entity argument: a value-initialised \<open>TimeAware\<close> goes to entity 1.
\<close>

fun instantiate :: "('r, 'p, 'f) env \<Rightarrow> 'p blueprint \<Rightarrow> 'r \<Rightarrow> entity_t \<times> 'r"
  and instantiate_children :: "('r, 'p, 'f) env \<Rightarrow> entity_t \<Rightarrow> 'p blueprint list \<Rightarrow> 'r \<Rightarrow>
    entity_t list \<times> 'r" where
  "instantiate env (Blueprint p kids) r =
     (let (entity, r) = proto_create (entt_of env) p r;
          r = (if \<not> has_time_aware (entt_of env) entity r
               then reg_assign (entt_of env) 1 (TimeAware (f_zero (floats_of env))) r else r);
          (cs, r) = instantiate_children env entity kids r
      in (entity, reg_assign (entt_of env) entity (Children cs) r))"
| "instantiate_children env entity [] r = ([], r)"
| "instantiate_children env entity (b # bs) r =
     (let (child, r) = instantiate env b r;
          r = reg_assign (entt_of env) child (Parent entity) r;
          (cs, r) = instantiate_children env entity bs r
      in (child # cs, r))"

definition instantiate_all :: "('r, 'p, 'f) env \<Rightarrow> 'p blueprint list \<Rightarrow> ('r, 'p, unit) ld" where
  "instantiate_all env bs = forE (\<lambda>b. bindE (regE (instantiate env b)) (\<lambda>_. returnE ())) bs"

text \<open>
  The private \<open>loadTemplate\<close> around its callback: a new \<open>blueprints\<close> local is pushed, the
  parser runs on the file, and the local is read. The test of its size is the one the code has.
\<close>

definition push_found :: "'p blueprint \<Rightarrow> ('r, 'p, unit) ld" where
  "push_found b = modifyE (\<lambda>s. s\<lparr>out := (out s)\<lparr>found :=
     (case found (out s) of [] \<Rightarrow> [] | bs # rest \<Rightarrow> (bs @ [b]) # rest)\<rparr>\<rparr>)"

definition template_file ::
  "('r, 'p, 'f) env \<Rightarrow> string \<Rightarrow> (yref \<Rightarrow> ('r, 'p, cfg_error) ld) \<Rightarrow> ('r, 'p, 'p blueprint) ld" where
  "template_file env source callback =
     bindE (liftE (load_yaml env source)) (\<lambda>root s.
       let (r, s1) = parser [fn ''template'' callback] (Node root)
                       (s\<lparr>out := (out s)\<lparr>found := [] # found (out s)\<rparr>\<rparr>);
           blueprints = hd (found (out s1));
           s2 = s1\<lparr>out := (out s1)\<lparr>found := tl (found (out s1))\<rparr>\<rparr>
       in if length blueprints \<noteq> 0 then empty_blueprint env s2
          else (case blueprints of
                  b # _ \<Rightarrow> (Inr b, s2)
                | [] \<Rightarrow> bindE (faultE EmptyIndex) (\<lambda>_. empty_blueprint env) s2))"

text \<open>
  The five loading functions call each other. Each is a definition over the record \<open>load_calls\<close>
  of the functions it calls; \<open>loaders\<close> closes the recursion, to a depth.
\<close>

record ('r, 'p) load_calls =
  l_scene :: "yref \<Rightarrow> ('r, 'p, 'p blueprint list) ld"
  l_group :: "yref \<Rightarrow> ('r, 'p, 'p blueprint list) ld"
  l_entity :: "string \<Rightarrow> yref \<Rightarrow> ('r, 'p, 'p blueprint) ld"
  l_template :: "string \<Rightarrow> yref \<Rightarrow> ('r, 'p, 'p blueprint) ld"
  l_template_file :: "string \<Rightarrow> string \<Rightarrow> ('r, 'p, 'p blueprint) ld"

definition load_scene :: "('r, 'p) load_calls \<Rightarrow> ('r, 'p, 'f) env \<Rightarrow> yref \<Rightarrow> ('r, 'p, 'p blueprint list) ld" where
  "load_scene calls env scene =
     bindE (liftE (is_map scene)) (\<lambda>b.
       if \<not> b then returnE []
       else collectE (\<lambda>(name, node).
              bindE (liftE (is_scalar (Node name))) (\<lambda>b.
                if \<not> b then returnE []
                else bindE (liftE (as_string (Node name))) (\<lambda>node_name.
                     bindE (liftE (is_map (Node node))) (\<lambda>b.
                       if \<not> b then returnE []
                       else bindE (liftE (get_mut (Node node) ''type'')) (\<lambda>node_type.
                            bindE (liftE (is_scalar node_type)) (\<lambda>b.
                              if \<not> b then returnE []
                              else bindE (liftE (as_string node_type)) (\<lambda>ty.
                                if ty = ''group'' then l_group calls (Node node)
                                else if ty = ''entity''
                                     then bindE (l_entity calls node_name (Node node)) (\<lambda>b. returnE [b])
                                else if ty = ''template''
                                     then bindE (l_template calls node_name (Node node)) (\<lambda>b. returnE [b])
                                else returnE [])))))))
            (map_pairs scene))"

text \<open>
  In debug builds the three functions look up a comment, only to log it; as for any key, the type test of a
  missing one throws.
\<close>

definition debug_comment :: "('r, 'p, 'f) env \<Rightarrow> yref \<Rightarrow> ('r, 'p, unit) ld" where
  "debug_comment env config =
     (if loader_debug env then
        bindE (liftE (get_const config ''comment'')) (\<lambda>comment_node.
        bindE (liftE (is_scalar comment_node)) (\<lambda>b.
        if b then bindE (liftE (as_string comment_node)) (\<lambda>_. returnE ()) else returnE ()))
      else returnE ())"

definition load_group :: "('r, 'p) load_calls \<Rightarrow> ('r, 'p, 'f) env \<Rightarrow> yref \<Rightarrow> ('r, 'p, 'p blueprint list) ld" where
  "load_group calls env config =
     bindE (debug_comment env config) (\<lambda>_.
     bindE (liftE (get_const config ''children'')) (\<lambda>children_node.
     bindE (liftE (is_map children_node)) (\<lambda>b.
       if \<not> b then returnE []
       else bindE (l_scene calls children_node) (\<lambda>grp.
            bindE (liftE (get_const config ''defaults'')) (\<lambda>defaults_node.
            bindE (liftE (is_map defaults_node)) (\<lambda>b.
              if b then add_defaults env (map_pairs defaults_node) grp else returnE grp))))))"

definition load_entity :: "('r, 'p) load_calls \<Rightarrow> ('r, 'p, 'f) env \<Rightarrow> string \<Rightarrow> yref \<Rightarrow> ('r, 'p, 'p blueprint) ld" where
  "load_entity calls env name config =
     bindE (regE (reg_create (entt_of env))) (\<lambda>e.
     bindE (emplace_entity name e) (\<lambda>_.
     bindE (regE (proto_new (entt_of env))) (\<lambda>p.
     bindE (debug_comment env config) (\<lambda>_.
     bindE (liftE (get_const config ''components'')) (\<lambda>components_node.
     bindE (liftE (is_map components_node)) (\<lambda>b.
     bindE (if b then add_components env (map_pairs components_node) p else returnE p) (\<lambda>p.
     bindE (liftE (get_const config ''children'')) (\<lambda>children_node.
     bindE (liftE (is_map children_node)) (\<lambda>b.
     bindE (if b then l_scene calls children_node else returnE []) (\<lambda>kids.
     returnE (Blueprint p (move_back kids []))))))))))))"

definition load_template :: "('r, 'p) load_calls \<Rightarrow> ('r, 'p, 'f) env \<Rightarrow> string \<Rightarrow> yref \<Rightarrow> ('r, 'p, 'p blueprint) ld" where
  "load_template calls env name config =
     bindE (liftE (get_const config ''source'')) (\<lambda>source_node.
     bindE (liftE (is_scalar source_node)) (\<lambda>b.
       if \<not> b then empty_blueprint env
       else bindE (liftE (as_string source_node)) (\<lambda>source.
            bindE (debug_comment env config) (\<lambda>_.
            bindE (l_template_file calls source name) (\<lambda>blueprint.
            bindE (liftE (get_const config ''children'')) (\<lambda>children_node.
            bindE (liftE (is_map children_node)) (\<lambda>b.
            bindE (if b then l_scene calls children_node else returnE []) (\<lambda>kids.
            bindE (returnE (Blueprint (prototype blueprint) (move_back kids (children blueprint))))
              (\<lambda>blueprint.
            bindE (liftE (get_const config ''instances'')) (\<lambda>instances_node.
            bindE (liftE (is_sequence instances_node)) (\<lambda>b.
            bindE (if b then instantiate_all env (map (\<lambda>_. blueprint) (seq_elems instances_node))
                   else returnE ()) (\<lambda>_.
            returnE blueprint))))))))))))"

definition load_template_file :: "('r, 'p) load_calls \<Rightarrow> ('r, 'p, 'f) env \<Rightarrow> string \<Rightarrow> string \<Rightarrow> ('r, 'p, 'p blueprint) ld" where
  "load_template_file calls env source name =
     template_file env source (\<lambda>node.
       bindE (liftE (is_map node)) (\<lambda>b.
         if \<not> b then returnE Success
         else bindE (liftE (get_const node ''type'')) (\<lambda>node_type.
              bindE (liftE (is_scalar node_type)) (\<lambda>b.
                if \<not> b then returnE Success
                else bindE (liftE (as_string node_type)) (\<lambda>ty.
                     bindE (if ty = ''entity''
                            then bindE (l_entity calls name node) push_found
                            else if ty = ''template''
                            then bindE (l_template calls name node) push_found
                            else returnE ()) (\<lambda>_.
                     returnE Success))))))"

definition out_of_fuel :: "('r, 'p, 'f) env \<Rightarrow> ('r, 'p) load_calls" where
  "out_of_fuel env =
     \<lparr>l_scene = (\<lambda>scene. bindE (faultE OutOfFuel) (\<lambda>_. returnE [])),
      l_group = (\<lambda>config. bindE (faultE OutOfFuel) (\<lambda>_. returnE [])),
      l_entity = (\<lambda>name config. bindE (faultE OutOfFuel) (\<lambda>_. empty_blueprint env)),
      l_template = (\<lambda>name config. bindE (faultE OutOfFuel) (\<lambda>_. empty_blueprint env)),
      l_template_file = (\<lambda>source name. bindE (faultE OutOfFuel) (\<lambda>_. empty_blueprint env))\<rparr>"

primrec loaders :: "nat \<Rightarrow> ('r, 'p, 'f) env \<Rightarrow> ('r, 'p) load_calls" where
  "loaders 0 env = out_of_fuel env"
| "loaders (Suc n) env =
     \<lparr>l_scene = load_scene (loaders n env) env,
      l_group = load_group (loaders n env) env,
      l_entity = load_entity (loaders n env) env,
      l_template = load_template (loaders n env) env,
      l_template_file = load_template_file (loaders n env) env\<rparr>"

text \<open>The public \<open>loadScene(file)\<close> and \<open>load(config)\<close>.\<close>

definition load_scene_file :: "nat \<Rightarrow> ('r, 'p, 'f) env \<Rightarrow> string \<Rightarrow> ('r, 'p, unit) ld" where
  "load_scene_file n env scene_file =
     bindE (liftE (load_yaml env scene_file)) (\<lambda>root.
       parser [fn ''scene'' (\<lambda>scene.
                 bindE (l_scene (loaders n env) scene) (\<lambda>blueprints.
                 bindE (instantiate_all env blueprints) (\<lambda>_. returnE Success)))] (Node root))"

record scene_entry =
  scene_name :: string
  scene_source :: string
  scene_resources :: string

definition empty_scene :: scene_entry where
  "empty_scene = \<lparr>scene_name = [], scene_source = [], scene_resources = []\<rparr>"

definition game_scenes :: "(scene_entry \<times> scene_entry list) def" where
  "game_scenes =
     map_of_defs ''game''
       [sequence_of ''scenes'' (\<lambda>(temp, scenes). (empty_scene, scenes @ [temp]))
          [scalar ''name'' as_string (\<lambda>v (t, ss). (t\<lparr>scene_name := v\<rparr>, ss)),
           scalar ''source'' as_string (\<lambda>v (t, ss). (t\<lparr>scene_source := v\<rparr>, ss)),
           scalar ''resources'' as_string (\<lambda>v (t, ss). (t\<lparr>scene_resources := v\<rparr>, ss))]]"

definition scenes_of :: "yref \<Rightarrow> scene_entry list" where
  "scenes_of config =
     snd (out (snd (parser [game_scenes] config \<lparr>out = (empty_scene, []), errs = [], flags = []\<rparr>)))"

definition load :: "nat \<Rightarrow> ('r, 'p, 'f) env \<Rightarrow> yref \<Rightarrow> ('r, 'p, unit) ld" where
  "load n env config = forE (\<lambda>scene. load_scene_file n env (scene_source scene)) (scenes_of config)"

end
