(* ===== verification/LoaderLaws.thy ===== *)
theory LoaderLaws
  imports Loader
begin

text \<open>
  What the loader does: the component constructors, the scenes it drops, templates, and the
  hierarchy that \<open>instantiate\<close> builds.
\<close>

subsection \<open>Evaluation of the loader's steps\<close>

named_theorems ld_simps \<open>evaluation of the loader's steps\<close>

lemma regE_apply [ld_simps]:
  "f (reg (out s)) = (a, r) \<Longrightarrow> regE f s = (Inr a, s\<lparr>out := (out s)\<lparr>reg := r\<rparr>\<rparr>)"
  by (simp add: regE_def)

lemma bindE_regE [ld_simps]:
  "bindE (regE f) k s =
     k (fst (f (reg (out s)))) (s\<lparr>out := (out s)\<lparr>reg := snd (f (reg (out s)))\<rparr>\<rparr>)"
  by (simp add: regE_def bindE_def split: prod.split)

lemma bindE_modifyE [ld_simps]: "bindE (modifyE f) k s = k () (f s)"
  by (simp add: bindE_def)

lemma collectE_Cons_Inl:
  "f x s = (Inl e, s') \<Longrightarrow> collectE f (x # xs) s = (Inl e, s')"
  by (simp add: bindE_def)

lemma parser_one: "d default_error_handler node s = (r, s') \<Longrightarrow> parser [d] node s = (Inr (), s')"
  using make_parser_step [of d default_error_handler node s r s' "[]"]
  by (simp add: parser_def make_parser_Nil)

subsection \<open>The transform constructor\<close>

text \<open>The value an attribute of the transform ends up with before padding.\<close>

definition vec_at :: "'f floats \<Rightarrow> string \<Rightarrow> (ynode \<times> ynode) list \<Rightarrow> 'f list" where
  "vec_at fl name ps =
     (case find_pair name ps of
        Some (YSeq xs) \<Rightarrow> (case decode_all (as_float fl) xs of Inr v \<Rightarrow> v | Inl _ \<Rightarrow> [])
      | _ \<Rightarrow> [])"

definition keeps_out :: "'o error_fn \<Rightarrow> bool" where
  "keeps_out cb \<longleftrightarrow> (\<forall>err name node s. out (snd (cb err name node s)) = out s)"

lemma keeps_outD: "keeps_out cb \<Longrightarrow> out (snd (cb err name node s)) = out s"
  by (simp add: keeps_out_def)

lemma keeps_out_default: "keeps_out default_error_handler"
  by (simp add: keeps_out_def default_error_handler_def split: option.split)

lemma keeps_out_optional: "keeps_out cb \<Longrightarrow> keeps_out (optional_cb cb)"
  by (simp add: keeps_out_def optional_cb_def)

lemma sequence_out:
  assumes "keeps_out cb"
  shows "out (snd (sequence name (as_vector (as_float fl)) assign cb (Node (YMap ps)) s)) =
    (case find_pair name ps of
       Some (YSeq xs) \<Rightarrow> (case decode_all (as_float fl) xs of Inr v \<Rightarrow> assign v (out s) | Inl _ \<Rightarrow> out s)
     | _ \<Rightarrow> out s)"
proof (cases "find_pair name ps")
  case None
  then show ?thesis by (simp add: cfg_simps)
next
  case (Some x)
  then have g: "get_const (Node (YMap ps)) name = Inr (Node x)" by simp
  show ?thesis
  proof (cases "\<exists>xs. x = YSeq xs")
    case True
    then obtain xs where x: "x = YSeq xs" by blast
    show ?thesis
      using g Some keeps_outD [OF assms] unfolding x
      by (simp add: sequence_present as_vector_def split: sum.split)
  next
    case False
    then have "sequence name (as_vector (as_float fl)) assign cb (Node (YMap ps)) s =
        cb NotSequence name (Node x) s"
      using g by (intro sequence_not_sequence) auto
    then show ?thesis
      using Some False keeps_outD [OF assms] by (cases x) simp_all
  qed
qed

lemma snd_swallow: "snd (catchE m (Pair (Inr a)) s) = snd (m s)"
  by (simp add: catchE_def split: prod.split sum.split)

lemma snd_optional_one: "snd (optional [d] cb node s) = snd (d (optional_cb cb) node s)"
proof -
  obtain r t where "d (optional_cb cb) node s = (r, t)" by (cases "d (optional_cb cb) node s")
  then show ?thesis by (cases r) (simp_all add: optional_def bindE_def catchE_def)
qed

lemma snd_make_parser: "snd (make_parser (d # ds) cb node s) = snd (make_parser ds cb node (snd (d cb node s)))"
  using make_parser_step [of d cb node s] by (metis prod.collapse)

lemma optional_sequence_out:
  "out (snd (optional [sequence name (as_vector (as_float fl)) assign] default_error_handler
      (Node (YMap ps)) s)) =
    (case find_pair name ps of
       Some (YSeq xs) \<Rightarrow> (case decode_all (as_float fl) xs of Inr v \<Rightarrow> assign v (out s) | Inl _ \<Rightarrow> out s)
     | _ \<Rightarrow> out s)"
  by (simp add: snd_optional_one sequence_out keeps_out_optional keeps_out_default)

lemma optional_sequence_at:
  assumes "out s = w" and "assign [] w = w"
  shows "out (snd (optional [sequence name (as_vector (as_float fl)) assign] default_error_handler
      (Node (YMap ps)) s)) = assign (vec_at fl name ps) w"
  using assms
  by (simp add: optional_sequence_out vec_at_def split: option.split ynode.split sum.split)

lemma parse_transform_map:
  "parse_transform fl (Node (YMap ps)) =
     (vec_at fl ''position'' ps, vec_at fl ''rotation'' ps, vec_at fl ''scale'' ps)"
proof -
  let ?opt = "\<lambda>name (assign :: 'a list \<Rightarrow> 'a list \<times> 'a list \<times> 'a list \<Rightarrow> 'a list \<times> 'a list \<times> 'a list). optional [sequence name (as_vector (as_float fl)) assign]
    default_error_handler (Node (YMap ps))"
  define s1 where "s1 = snd (?opt ''position'' (\<lambda>v (t, r, s). (v, r, s)) \<lparr>out = ([], [], []), errs = [], flags = []\<rparr>)"
  define s2 where "s2 = snd (?opt ''rotation'' (\<lambda>v (t, r, s). (t, v, s)) s1)"
  have "out s1 = (vec_at fl ''position'' ps, [], [])"
    unfolding s1_def by (subst optional_sequence_at [OF refl]) simp_all
  then have "out s2 = (vec_at fl ''position'' ps, vec_at fl ''rotation'' ps, [])"
    unfolding s2_def by (subst optional_sequence_at [OF \<open>out s1 = _\<close>]) simp_all
  then have "out (snd (?opt ''scale'' (\<lambda>v (t, r, s). (t, r, v)) s2)) =
      (vec_at fl ''position'' ps, vec_at fl ''rotation'' ps, vec_at fl ''scale'' ps)"
    by (subst optional_sequence_at [OF \<open>out s2 = _\<close>]) simp_all
  then show ?thesis
    unfolding parse_transform_def parser_def transform_defs_def snd_make_parser make_parser_Nil snd_conv
      s1_def [symmetric] s2_def [symmetric] .
qed

lemma take3:
  assumes "2 < length v"
  shows "to_vec v = Some (take 3 v)"
proof -
  obtain a b c w where "v = a # b # c # w"
    using assms by (metis Suc_1 Suc_less_eq2 length_Suc_conv_rev neq_Nil_conv list.size(3) not_less_zero
        One_nat_def length_Cons Suc_less_eq)
  then show ?thesis by (simp add: to_vec_def numeral_3_eq_3)
qed

lemma pad3: "2 < length (pad_with v 3 z)" "take 3 (pad_with v 3 z) = take 3 (v @ [z, z, z])"
proof -
  have "replicate (3 - length v) z = take (3 - length v) [z, z, z]"
    using take_replicate [of "3 - length v" 3 z] by (simp add: numeral_3_eq_3)
  then show "2 < length (pad_with v 3 z)" "take 3 (pad_with v 3 z) = take 3 (v @ [z, z, z])"
    by (simp_all add: pad_with_replicate)
qed

lemma construct_transform_total:
  "construct_transform fl config =
     (let (t, r, s) = parse_transform fl config
      in Some (Transform (take 3 (t @ [f_zero fl, f_zero fl, f_zero fl]))
                         (take 3 (s @ [f_one fl, f_one fl, f_one fl]))
                         (map (mul_two_pi fl) (take 3 (r @ [f_zero fl, f_zero fl, f_zero fl])))))"
proof -
  obtain t r s where p: "parse_transform fl config = (t, r, s)" by (rule prod_cases3)
  show ?thesis
    unfolding construct_transform_def p Let_def split_conv
    by (simp add: take3 pad3(1) take_map pad3(2) del: take_append)
qed

subsection \<open>The components of an entity\<close>

text \<open>The component a constructor makes, and those a map of components makes, in order.\<close>

definition made_by :: "'f floats \<Rightarrow> ctor \<Rightarrow> yref \<Rightarrow> 'f component" where
  "made_by fl c config =
     (case c of TransformCtor \<Rightarrow> the (construct_transform fl config)
      | DynamicShadowCtor \<Rightarrow> DynamicShadow | ShadowCasterCtor \<Rightarrow> ShadowCaster)"

definition ctor_at :: "ynode \<Rightarrow> ctor option" where
  "ctor_at name = (case name of YScalar nm \<Rightarrow> constructors nm | _ \<Rightarrow> None)"

definition components_of :: "'f floats \<Rightarrow> (ynode \<times> ynode) list \<Rightarrow> 'f component list" where
  "components_of fl cs =
     concat (map (\<lambda>(name, data). case ctor_at name of None \<Rightarrow> []
                                  | Some c \<Rightarrow> [made_by fl c (Node data)]) cs)"

fun set_all :: "('r, 'p, 'f) env \<Rightarrow> 'f component list \<Rightarrow> 'p \<times> 'r \<Rightarrow> 'p \<times> 'r" where
  "set_all env [] pr = pr"
| "set_all env (c # cs) pr = set_all env cs (proto_set (entt_of env) c (fst pr) (snd pr))"

lemma construct_eq [ld_simps]:
  "construct env c p config = regE (proto_set (entt_of env) (made_by (floats_of env) c config) p)"
  by (simp add: construct_def made_by_def construct_transform_total split: ctor.split prod.split)

lemma component_ctor_eq [ld_simps]: "component_ctor name = returnE (ctor_at name)"
  by (cases name) (simp_all add: component_ctor_def ctor_at_def)

lemma add_components_eq [ld_simps]:
  "add_components env cs p s =
     (let (p', r) = set_all env (components_of (floats_of env) cs) (p, reg (out s))
      in (Inr p', s\<lparr>out := (out s)\<lparr>reg := r\<rparr>\<rparr>))"
proof (induction env cs p arbitrary: s rule: add_components.induct)
  case (1 env p)
  then show ?case by (simp add: components_of_def)
next
  case (2 env name data rest p)
  show ?case
  proof (cases "ctor_at name")
    case None
    then have "components_of (floats_of env) ((name, data) # rest) = components_of (floats_of env) rest"
      by (simp add: components_of_def)
    then show ?thesis using None "2.IH" by (simp add: ld_simps)
  next
    case (Some c)
    let ?m = "made_by (floats_of env) c (Node data)"
    have "components_of (floats_of env) ((name, data) # rest) = ?m # components_of (floats_of env) rest"
      using Some by (simp add: components_of_def)
    then show ?thesis
      using Some "2.IH" by (simp add: ld_simps Let_def split: prod.split)
  qed
qed

subsection \<open>One entity\<close>

text \<open>The world after \<open>loadEntity\<close> has set the components of a new prototype.\<close>

definition entity_made :: "('r, 'p, 'f) env \<Rightarrow> string \<Rightarrow> (ynode \<times> ynode) list \<Rightarrow> ('r, 'p) world \<Rightarrow>
    'p \<times> ('r, 'p) world" where
  "entity_made env name cs w =
     (let (e, r1) = reg_create (entt_of env) (reg w);
          (p, r) = set_all env (components_of (floats_of env) cs) (proto_new (entt_of env) r1)
      in (p, w\<lparr>entities := (if entities w name = None then (entities w)(name \<mapsto> e) else entities w),
               reg := r\<rparr>))"

lemma debug_comment_quiet:
  "(loader_debug env \<longrightarrow> find_pair ''comment'' ps \<noteq> None) \<Longrightarrow> debug_comment env (Node (YMap ps)) = returnE ()"
proof (cases "find_pair ''comment'' ps")
  case (Some c)
  then show ?thesis by (cases c) (simp_all add: debug_comment_def ld_simps)
qed (simp add: debug_comment_def)

text \<open>In a debug build an entity without a comment is not loaded.\<close>

lemma missing_comment_throws:
  assumes "loader_debug env" and "find_pair ''comment'' ps = None"
  shows "fst (load_entity calls env name (Node (YMap ps)) s) = Inl InvalidNode"
  using assms by (simp add: load_entity_def debug_comment_def ld_simps emplace_entity_def Let_def split: prod.split)

lemma load_entity_prefix:
  assumes "loader_debug env \<longrightarrow> find_pair ''comment'' ps \<noteq> None" and "find_pair ''components'' ps = Some (YMap cs)"
  shows "load_entity calls env name (Node (YMap ps)) s =
    (let (p, w) = entity_made env name cs (out s)
     in bindE (liftE (get_const (Node (YMap ps)) ''children'')) (\<lambda>children_node.
        bindE (liftE (is_map children_node)) (\<lambda>b.
        bindE (if b then l_scene calls children_node else returnE []) (\<lambda>kids.
        returnE (Blueprint p kids)))) (s\<lparr>out := w\<rparr>))"
  using assms
  by (simp add: load_entity_def debug_comment_quiet ld_simps emplace_entity_def entity_made_def bindE_def [of "add_components _ _ _"]
      Let_def move_back_append split: prod.split)

lemma load_entity_no_children:
  assumes "loader_debug env \<longrightarrow> find_pair ''comment'' ps \<noteq> None" and "find_pair ''components'' ps = Some (YMap cs)" and "find_pair ''children'' ps = None"
  shows "load_entity calls env name (Node (YMap ps)) s =
    (Inl InvalidNode, s\<lparr>out := snd (entity_made env name cs (out s))\<rparr>)"
  using assms(3) by (simp add: load_entity_prefix [OF assms(1,2)] split: prod.split)

lemma load_entity_complete:
  assumes "loader_debug env \<longrightarrow> find_pair ''comment'' ps \<noteq> None" and "find_pair ''components'' ps = Some (YMap cs)" and "find_pair ''children'' ps = Some (YMap kids)"
    and "l_scene calls (Node (YMap kids)) (s\<lparr>out := snd (entity_made env name cs (out s))\<rparr>) = (Inr bs, t)"
  shows "load_entity calls env name (Node (YMap ps)) s =
    (Inr (Blueprint (fst (entity_made env name cs (out s))) bs), t)"
proof -
  obtain p w where "entity_made env name cs (out s) = (p, w)"
    by (cases "entity_made env name cs (out s)")
  then show ?thesis
    using assms(3,4) by (simp add: load_entity_prefix [OF assms(1,2)] bindE_return)
qed

lemma load_scene_empty: "load_scene calls env (Node (YMap [])) = returnE []"
  by (rule ext) (simp add: load_scene_def)

lemma load_scene_entity:
  assumes "find_pair ''type'' ps = Some (YScalar ''entity'')"
  shows "load_scene calls env (Node (YMap ((YScalar name, YMap ps) # rest))) s =
    (case l_entity calls name (Node (YMap ps)) s of
       (Inl e, t) \<Rightarrow> (Inl e, t)
     | (Inr b, t) \<Rightarrow> bindE (load_scene calls env (Node (YMap rest))) (\<lambda>bs. returnE (b # bs)) t)"
  using assms
  by (simp add: load_scene_def get_mut_def bindE_def split: prod.split sum.split)

subsection \<open>Scene files\<close>

lemma fn_present:
  assumes "find_pair name ps = Some x"
  shows "fn name func cb (Node (YMap ps)) =
    bindE (func (Node x)) (\<lambda>err. if err \<noteq> Success then cb err name (Node x) else returnE ())"
  using assms by (intro ext) (simp add: fn_def)

lemma load_scene_file_throws:
  assumes "load_yaml env file = Inr (YMap root)" and "find_pair ''scene'' root = Some scene"
    and "l_scene (loaders n env) (Node scene) s = (Inl e, t)"
  shows "load_scene_file n env file s = (Inr (), t)"
proof -
  have "fn ''scene'' (\<lambda>scene. bindE (l_scene (loaders n env) scene) (\<lambda>blueprints.
      bindE (instantiate_all env blueprints) (\<lambda>_. returnE Success))) default_error_handler
      (Node (YMap root)) s = (Inl e, t)"
    using assms(2,3) by (simp add: fn_present bindE_def)
  then have "parser [fn ''scene'' (\<lambda>scene. bindE (l_scene (loaders n env) scene) (\<lambda>blueprints.
      bindE (instantiate_all env blueprints) (\<lambda>_. returnE Success)))]
      (Node (YMap root)) s = (Inr (), t)"
    by (rule parser_one)
  then show ?thesis by (simp add: load_scene_file_def assms(1))
qed

lemma load_scene_file_returns:
  assumes "load_yaml env file = Inr (YMap root)" and "find_pair ''scene'' root = Some scene"
    and "l_scene (loaders n env) (Node scene) s = (Inr bs, t)"
  shows "load_scene_file n env file s = (Inr (), snd (instantiate_all env bs t))"
proof -
  have i: "instantiate_all env bs t = (Inr (), snd (instantiate_all env bs t))" for bs t
  proof (induction bs arbitrary: t)
    case (Cons b bs)
    then show ?case by (simp add: instantiate_all_def ld_simps bindE_assoc)
  qed (simp add: instantiate_all_def)
  have "bindE (instantiate_all env bs) (\<lambda>_. returnE Success) t = (Inr Success, snd (instantiate_all env bs t))"
    using i [of bs t] by (rule bindE_return)
  then have "fn ''scene'' (\<lambda>scene. bindE (l_scene (loaders n env) scene) (\<lambda>blueprints.
      bindE (instantiate_all env blueprints) (\<lambda>_. returnE Success))) default_error_handler
      (Node (YMap root)) s = (Inr (), snd (instantiate_all env bs t))"
    using assms(2,3) by (simp add: fn_present bindE_return)
  then have "parser [fn ''scene'' (\<lambda>scene. bindE (l_scene (loaders n env) scene) (\<lambda>blueprints.
      bindE (instantiate_all env blueprints) (\<lambda>_. returnE Success)))]
      (Node (YMap root)) s = (Inr (), snd (instantiate_all env bs t))"
    by (rule parser_one)
  then show ?thesis by (simp add: load_scene_file_def assms(1))
qed

subsection \<open>Properties\<close>

text \<open>
  C28: the transform constructor makes a component for every map: the attributes that decode
  as sequences of numbers are cut or padded to three elements (zeros, ones for the scale),
  missing and malformed ones count as empty, and no element is read out of range.
\<close>

theorem transform_component:
  "construct_transform fl (Node (YMap ps)) =
     Some (Transform (take 3 (vec_at fl ''position'' ps @ replicate 3 (f_zero fl)))
                     (take 3 (vec_at fl ''scale'' ps @ replicate 3 (f_one fl)))
                     (map (mul_two_pi fl) (take 3 (vec_at fl ''rotation'' ps @ replicate 3 (f_zero fl)))))"
  by (simp add: construct_transform_total parse_transform_map numeral_3_eq_3)

text \<open>
  A registry for the examples: it numbers entities from a counter and keeps a list of
  assigned components.
\<close>

definition demo_entt :: "(u32 \<times> (entity_t \<times> int component) list, int component list, int) entt" where
  "demo_entt =
     \<lparr>reg_create = (\<lambda>(n, cs). (n, (n + 1, cs))),
      proto_new = (\<lambda>r. ([], r)),
      proto_set = (\<lambda>c p r. (p @ [c], r)),
      proto_create = (\<lambda>p (n, cs). (n, (n + 1, cs @ map (\<lambda>c. (n, c)) p))),
      has_time_aware = (\<lambda>e (n, cs). list_ex (\<lambda>(e', c). e' = e \<and> (case c of TimeAware _ \<Rightarrow> True | _ \<Rightarrow> False)) cs),
      reg_assign = (\<lambda>e c (n, cs). (n, cs @ [(e, c)]))\<rparr>"

definition demo_floats :: "int floats" where
  "demo_floats = \<lparr>f_zero = 0, f_one = 1, mul_two_pi = (\<lambda>x. 6 * x),
     as_float = (\<lambda>r. case r of Node (YScalar s) \<Rightarrow> Inr (if s = ''1'' then 1 else 0) | _ \<Rightarrow> Inl BadConversion)\<rparr>"

text \<open>\<open>data/scene1.yml\<close>, the scene file the repository ships.\<close>

definition ground_components :: "(ynode \<times> ynode) list" where
  "ground_components =
     [(YScalar ''transform'', YMap
        [(YScalar ''position'', YSeq [YScalar ''1'']),
         (YScalar ''rotation'', YSeq [YScalar ''0'', YScalar ''0.25'', YScalar ''0.5''])]),
      (YScalar ''dynamic-shadow'', YNull)]"

definition ground :: "(ynode \<times> ynode) list" where
  "ground =
     [(YScalar ''type'', YScalar ''entity''),
      (YScalar ''comment'', YScalar ''Entity representing the ground''),
      (YScalar ''components'', YMap ground_components)]"

definition demo_file :: "(ynode \<times> ynode) list \<Rightarrow> string \<Rightarrow> exn + ynode" where
  "demo_file entity name = Inr (YMap [(YScalar ''scene'', YMap [(YScalar ''ground'', YMap entity)])])"

definition demo_env :: "(ynode \<times> ynode) list \<Rightarrow>
    (u32 \<times> (entity_t \<times> int component) list, int component list, int) env" where
  "demo_env entity = \<lparr>entt_of = demo_entt, floats_of = demo_floats, load_yaml = demo_file entity, loader_debug = False\<rparr>"

definition demo_start :: "(u32 \<times> (entity_t \<times> int component) list, int component list) world pstate" where
  "demo_start = \<lparr>out = \<lparr>reg = (0, []), entities = (\<lambda>_. None), found = [], fault = None\<rparr>, errs = [], flags = []\<rparr>"

text \<open>
  A scene file whose first entity has components but no \<open>children\<close> instantiates nothing
  at all: the exception of the missing key leaves \<open>loadScene\<close> and is swallowed without a
  report. All that remains is one entity without components and a prototype nobody uses.
\<close>

theorem childless_entity_drops_scene:
  assumes "load_yaml env file = Inr (YMap root)"
    and "find_pair ''scene'' root = Some (YMap ((YScalar name, YMap ps) # rest))"
    and "find_pair ''type'' ps = Some (YScalar ''entity'')"
    and "find_pair ''components'' ps = Some (YMap cs)"
    and "find_pair ''children'' ps = None"
    and "loader_debug env \<longrightarrow> find_pair ''comment'' ps \<noteq> None"
  shows "load_scene_file (Suc (Suc n)) env file s =
    (Inr (), s\<lparr>out := snd (entity_made env name cs (out s))\<rparr>)"
proof (rule load_scene_file_throws [OF assms(1,2)])
  show "l_scene (loaders (Suc (Suc n)) env) (Node (YMap ((YScalar name, YMap ps) # rest))) s =
      (Inl InvalidNode, s\<lparr>out := snd (entity_made env name cs (out s))\<rparr>)"
    by (simp add: load_scene_entity [OF assms(3)] load_entity_no_children [OF assms(6,4,5)])
qed

lemma childless_entity_drops_scene_witness:
  "reg (out (snd (load_scene_file 2 (demo_env ground) ''scene1.yml'' demo_start))) = (1, [])"
proof -
  have "load_scene_file (Suc (Suc 0)) (demo_env ground) ''scene1.yml'' demo_start =
      (Inr (), demo_start\<lparr>out := snd (entity_made (demo_env ground) ''ground''
         ground_components (out demo_start))\<rparr>)"
    by (rule childless_entity_drops_scene
        [where root = "[(YScalar ''scene'', YMap [(YScalar ''ground'', YMap ground)])]" and ps = ground
           and cs = ground_components])
      (simp_all add: demo_env_def demo_file_def ground_def)
  then show ?thesis
    by (simp add: numeral_2_eq_2 entity_made_def demo_env_def demo_entt_def demo_start_def
        components_of_def ground_components_def ctor_at_def constructors_def)
qed

text \<open>
  A scene file with one entity that has both keys does create it: the blueprint of its
  components is instantiated once, with no children.
\<close>

theorem complete_entity_instantiated:
  assumes "load_yaml env file = Inr (YMap root)"
    and "find_pair ''scene'' root = Some (YMap [(YScalar name, YMap ps)])"
    and "find_pair ''type'' ps = Some (YScalar ''entity'')"
    and "find_pair ''components'' ps = Some (YMap cs)"
    and "find_pair ''children'' ps = Some (YMap [])"
    and "loader_debug env \<longrightarrow> find_pair ''comment'' ps \<noteq> None"
  shows "load_scene_file (Suc (Suc (Suc n))) env file s =
    (let (p, w) = entity_made env name cs (out s)
     in (Inr (), s\<lparr>out := w\<lparr>reg := snd (instantiate env (Blueprint p []) (reg w))\<rparr>\<rparr>))"
proof -
  obtain p w where pw: "entity_made env name cs (out s) = (p, w)"
    by (cases "entity_made env name cs (out s)")
  have "load_entity (loaders (Suc n) env) env name (Node (YMap ps)) s =
      (Inr (Blueprint p []), s\<lparr>out := w\<rparr>)"
    using load_entity_complete [OF assms(6,4,5), where calls = "loaders (Suc n) env" and s = s
        and name = name and bs = "[]" and t = "s\<lparr>out := w\<rparr>"]
    by (simp add: pw load_scene_empty)
  then have "l_scene (loaders (Suc (Suc (Suc n))) env) (Node (YMap [(YScalar name, YMap ps)])) s =
      (Inr [Blueprint p []], s\<lparr>out := w\<rparr>)"
    by (simp add: load_scene_entity [OF assms(3)] load_scene_empty)
  from load_scene_file_returns [OF assms(1,2) this] show ?thesis
    by (simp add: pw instantiate_all_def ld_simps bindE_assoc del: instantiate.simps)
qed

lemma complete_entity_instantiated_witness:
  "reg (out (snd (load_scene_file 3 (demo_env (ground @ [(YScalar ''children'', YMap [])]))
      ''scene1.yml'' demo_start))) =
   (2, [(1, Transform [1, 0, 0] [1, 1, 1] [0, 0, 0]), (1, DynamicShadow), (1, TimeAware 0),
        (1, Children [])])"
proof -
  let ?ps = "ground @ [(YScalar ''children'', YMap [])]"
  have "load_scene_file (Suc (Suc (Suc 0))) (demo_env ?ps) ''scene1.yml'' demo_start =
      (let (p, w) = entity_made (demo_env ?ps) ''ground'' ground_components (out demo_start)
       in (Inr (), demo_start\<lparr>out := w\<lparr>reg := snd (instantiate (demo_env ?ps) (Blueprint p []) (reg w))\<rparr>\<rparr>))"
    by (rule complete_entity_instantiated
        [where root = "[(YScalar ''scene'', YMap [(YScalar ''ground'', YMap ?ps)])]" and ps = ?ps
           and cs = ground_components])
      (simp_all add: demo_env_def demo_file_def ground_def)
  moreover have "made_by demo_floats TransformCtor (Node (YMap
      [(YScalar ''position'', YSeq [YScalar ''1'']),
       (YScalar ''rotation'', YSeq [YScalar ''0'', YScalar ''0.25'', YScalar ''0.5''])])) =
      Transform [1, 0, 0] [1, 1, 1] [0, 0, 0]"
    by (simp add: made_by_def construct_transform_total parse_transform_map vec_at_def demo_floats_def)
  ultimately show ?thesis
    by (simp add: numeral_3_eq_3 entity_made_def demo_env_def demo_entt_def demo_start_def
        components_of_def ground_components_def ctor_at_def constructors_def made_by_def demo_floats_def Let_def)
qed

subsection \<open>Templates\<close>

lemma template_found:
  assumes "load_yaml env source = Inr (YMap root)" and "find_pair ''template'' root = Some node"
    and "callback (Node node) (s\<lparr>out := (out s)\<lparr>found := [] # found (out s)\<rparr>\<rparr>) = (Inr Success, t)"
    and "found (out t) = bs # fs"
  shows "template_file env source callback s =
    (if bs \<noteq> [] then empty_blueprint env (t\<lparr>out := (out t)\<lparr>found := fs\<rparr>\<rparr>)
     else bindE (faultE EmptyIndex) (\<lambda>_. empty_blueprint env) (t\<lparr>out := (out t)\<lparr>found := fs\<rparr>\<rparr>))"
proof -
  have "fn ''template'' callback default_error_handler (Node (YMap root))
      (s\<lparr>out := (out s)\<lparr>found := [] # found (out s)\<rparr>\<rparr>) = (Inr (), t)"
    using assms(2,3) by (simp add: fn_present bindE_return)
  then have "parser [fn ''template'' callback] (Node (YMap root))
      (s\<lparr>out := (out s)\<lparr>found := [] # found (out s)\<rparr>\<rparr>) = (Inr (), t)"
    by (rule parser_one)
  then show ?thesis
    using assms(1,4) by (cases bs) (simp_all add: template_file_def)
qed

text \<open>
  A template that was found and built is thrown away: because the size test is inverted,
  the result is a new prototype without components and without children.
\<close>

theorem loaded_template_discarded:
  assumes "load_yaml env source = Inr (YMap root)"
    and "find_pair ''template'' root = Some (YMap ps)"
    and "find_pair ''type'' ps = Some (YScalar ''entity'')"
    and "l_entity calls name (Node (YMap ps)) (s\<lparr>out := (out s)\<lparr>found := [] # found (out s)\<rparr>\<rparr>) = (Inr b, t)"
    and "found (out t) = [] # found (out s)"
  shows "load_template_file calls env source name s =
    (let (p, r) = proto_new (entt_of env) (reg (out t))
     in (Inr (Blueprint p []), t\<lparr>out := (out t)\<lparr>found := found (out s), reg := r\<rparr>\<rparr>))"
proof -
  let ?t = "t\<lparr>out := (out t)\<lparr>found := [b] # found (out s)\<rparr>\<rparr>"
  have "load_template_file calls env source name s =
      empty_blueprint env (?t\<lparr>out := (out ?t)\<lparr>found := found (out s)\<rparr>\<rparr>)"
    unfolding load_template_file_def
    by (subst template_found [OF assms(1,2), where t = ?t and bs = "[b]" and fs = "found (out s)"])
      (use assms(3-5) in \<open>simp_all add: bindE_def push_found_def\<close>)
  then show ?thesis
    by (simp add: empty_blueprint_def ld_simps split: prod.split)
qed

definition caster :: "(ynode \<times> ynode) list" where
  "caster =
     [(YScalar ''type'', YScalar ''entity''),
      (YScalar ''components'', YMap [(YScalar ''shadow-caster'', YNull)]),
      (YScalar ''children'', YMap [])]"

definition template_env :: "(u32 \<times> (entity_t \<times> int component) list, int component list, int) env" where
  "template_env = (demo_env [])\<lparr>load_yaml := (\<lambda>f. Inr (YMap [(YScalar ''template'', YMap caster)]))\<rparr>"

lemma caster_found: "find_pair ''type'' caster = Some (YScalar ''entity'')"
  "find_pair ''components'' caster = Some (YMap [(YScalar ''shadow-caster'', YNull)])"
  "find_pair ''children'' caster = Some (YMap [])"
  by (simp_all add: caster_def)

lemma caster_made:
  "entity_made template_env ''x'' [(YScalar ''shadow-caster'', YNull)] w =
     ([ShadowCaster], w\<lparr>entities := (if entities w ''x'' = None
        then (entities w)(''x'' \<mapsto> fst (reg w)) else entities w),
        reg := (fst (reg w) + 1, snd (reg w))\<rparr>)"
  by (simp add: entity_made_def template_env_def demo_env_def demo_entt_def components_of_def
      ctor_at_def constructors_def made_by_def split: prod.split)

lemma loaded_template_discarded_witness:
  "fst (load_template_file (loaders 2 template_env) template_env ''t.yml'' ''x'' demo_start) =
     Inr (Blueprint [] [])"
proof -
  let ?c = "loaders 2 template_env"
  let ?s = "demo_start\<lparr>out := (out demo_start)\<lparr>found := [] # found (out demo_start)\<rparr>\<rparr>"
  let ?t = "?s\<lparr>out := snd (entity_made template_env ''x'' [(YScalar ''shadow-caster'', YNull)] (out ?s))\<rparr>"
  have l: "l_entity ?c = load_entity (loaders (Suc 0) template_env) template_env"
    by (simp add: numeral_2_eq_2)
  have release: "\<not> loader_debug template_env" by (simp add: template_env_def demo_env_def)
  have e: "l_entity ?c ''x'' (Node (YMap caster)) ?s = (Inr (Blueprint [ShadowCaster] []), ?t)"
    unfolding l
    using release by (subst load_entity_complete [OF _ caster_found(2,3), where bs = "[]" and t = ?t])
      (simp_all add: load_scene_empty caster_made)
  have y: "load_yaml template_env ''t.yml'' = Inr (YMap [(YScalar ''template'', YMap caster)])"
    by (simp add: template_env_def)
  have f: "found (out ?t) = [] # found (out demo_start)"
    by (simp add: caster_made)
  have "load_template_file ?c template_env ''t.yml'' ''x'' demo_start =
    (let (p, r) = proto_new (entt_of template_env) (reg (out ?t))
     in (Inr (Blueprint p []), ?t\<lparr>out := (out ?t)\<lparr>found := found (out demo_start), reg := r\<rparr>\<rparr>))"
    by (rule loaded_template_discarded [OF y _ caster_found(1) e f]) simp
  then show ?thesis by (simp add: template_env_def demo_env_def demo_entt_def)
qed

text \<open>
  A template file without a usable \<open>template\<close> entry makes the loader read the first
  element of an empty vector.
\<close>

theorem missing_template_faults:
  assumes "load_yaml env source = Inr (YMap root)"
    and "find_pair ''template'' root = None"
    and "fault (out s) = None"
  shows "fault (out (snd (load_template_file calls env source name s))) = Some EmptyIndex"
proof -
  let ?s = "s\<lparr>out := (out s)\<lparr>found := [] # found (out s)\<rparr>\<rparr>"
  let ?t = "?s\<lparr>errs := errs ?s @ [(AttributeMissing, ''template'')]\<rparr>"
  have "fn ''template'' f default_error_handler (Node (YMap root)) ?s = (Inr (), ?t)" for f
    using assms(2) by (subst fn_absent) (simp_all add: default_error_handler_def)
  then have "parser [fn ''template'' f] (Node (YMap root)) ?s = (Inr (), ?t)" for f
    by (rule parser_one)
  then show ?thesis
    using assms(1,3)
    by (simp add: load_template_file_def template_file_def faultE_def ld_simps empty_blueprint_def)
qed

lemma missing_template_faults_witness:
  "fault (out (snd (load_template_file (loaders 2 (demo_env [])) (demo_env []) ''t.yml'' ''x'' demo_start)))
     = Some EmptyIndex"
  by (rule missing_template_faults
      [where root = "[(YScalar ''scene'', YMap [(YScalar ''ground'', YMap [])])]"])
    (simp_all add: demo_env_def demo_file_def demo_start_def)

subsection \<open>The hierarchy\<close>

text \<open>
  The documented behaviour of the registry, through a view of its states: those that its operations reach,
  how many entities can still be created, the valid entities, the components that an entity has, and those
  that a prototype gives to its entities. A prototype creates an entity that was not valid before, with just its
  components. Asking whether an entity has a component is only defined for a valid entity, and assigning one only for
  a valid entity that does not own a component of this type: nothing is assumed of any other assignment.
\<close>

record ('r, 'p, 'f) registry_view =
  reg_good :: "'r \<Rightarrow> bool"
  reg_room :: "'r \<Rightarrow> nat"
  reg_valid :: "'r \<Rightarrow> entity_t \<Rightarrow> bool"
  reg_owns :: "'r \<Rightarrow> entity_t \<Rightarrow> 'f component \<Rightarrow> bool"
  reg_comps :: "'r \<Rightarrow> 'p \<Rightarrow> 'f component set"

primrec component_type :: "'f component \<Rightarrow> nat" where
  "component_type (Transform t r s) = 0"
| "component_type DynamicShadow = 1"
| "component_type ShadowCaster = 2"
| "component_type (TimeAware x) = 3"
| "component_type (Parent e) = 4"
| "component_type (Children es) = 5"

definition create_law :: "('r, 'p, 'f) registry_view \<Rightarrow> ('r, 'p, 'f) entt \<Rightarrow> bool" where
  "create_law v en \<longleftrightarrow> (\<forall>r p e r'. reg_good v r \<and> 0 < reg_room v r \<and> proto_create en p r = (e, r') \<longrightarrow>
     reg_good v r' \<and> Suc (reg_room v r') = reg_room v r \<and> \<not> reg_valid v r e \<and>
     (\<forall>x. reg_valid v r' x \<longleftrightarrow> reg_valid v r x \<or> x = e) \<and>
     (\<forall>x c. reg_owns v r' x c \<longleftrightarrow> (if x = e then c \<in> reg_comps v r p else reg_owns v r x c)) \<and>
     reg_comps v r' = reg_comps v r)"

definition has_law :: "('r, 'p, 'f) registry_view \<Rightarrow> ('r, 'p, 'f) entt \<Rightarrow> bool" where
  "has_law v en \<longleftrightarrow> (\<forall>r e. reg_good v r \<and> reg_valid v r e \<longrightarrow>
     (has_time_aware en e r \<longleftrightarrow> (\<exists>x. reg_owns v r e (TimeAware x))))"

definition assign_law :: "('r, 'p, 'f) registry_view \<Rightarrow> ('r, 'p, 'f) entt \<Rightarrow> bool" where
  "assign_law v en \<longleftrightarrow> (\<forall>r e c r'. reg_good v r \<and> reg_valid v r e \<and>
     (\<forall>d. reg_owns v r e d \<longrightarrow> component_type d \<noteq> component_type c) \<and> r' = reg_assign en e c r \<longrightarrow>
     reg_good v r' \<and> reg_room v r' = reg_room v r \<and> reg_valid v r' = reg_valid v r \<and>
     (\<forall>x d. reg_owns v r' x d \<longleftrightarrow> reg_owns v r x d \<or> (x = e \<and> d = c)) \<and> reg_comps v r' = reg_comps v r)"

definition registry_laws :: "('r, 'p, 'f) registry_view \<Rightarrow> ('r, 'p, 'f) entt \<Rightarrow> bool" where
  "registry_laws v en \<longleftrightarrow> create_law v en \<and> has_law v en \<and> assign_law v en"

text \<open>The prototypes of a blueprint, and how many of them have no \<open>TimeAware\<close>.\<close>

fun prototypes :: "'p blueprint \<Rightarrow> 'p list" where
  "prototypes (Blueprint p kids) = p # concat (map prototypes kids)"

definition timeless :: "('r, 'p, 'f) registry_view \<Rightarrow> 'r \<Rightarrow> 'p list \<Rightarrow> nat" where
  "timeless v r ps = length (filter (\<lambda>p. \<forall>x. TimeAware x \<notin> reg_comps v r p) ps)"

text \<open>
  When instantiating stays within the documented behaviour: no prototype brings the links of the hierarchy, there
  is room, and at most one prototype has no \<open>TimeAware\<close>, in which case the entity 1 is there to take
  the one that is assigned to it.
\<close>

definition can_instantiate :: "('r, 'p, 'f) registry_view \<Rightarrow> 'r \<Rightarrow> 'p list \<Rightarrow> bool" where
  "can_instantiate v r ps \<longleftrightarrow> reg_good v r \<and> length ps \<le> reg_room v r \<and>
     (\<forall>p \<in> set ps. \<forall>q cs. Parent q \<notin> reg_comps v r p \<and> Children cs \<notin> reg_comps v r p) \<and>
     timeless v r ps \<le> 1 \<and>
     (timeless v r ps = 1 \<longrightarrow> reg_valid v r 1 \<and> (\<forall>x. \<not> reg_owns v r 1 (TimeAware x)))"

text \<open>
  The entity of a blueprint: it has the components of the prototype, the list of its children, a link to
  its parent if it has one, and nothing else. The last list has the entities of all blueprints in it, in their order.
\<close>

fun wired :: "('r, 'p, 'f) registry_view \<Rightarrow> 'r \<Rightarrow> entity_t option \<Rightarrow> 'p blueprint \<Rightarrow> entity_t \<Rightarrow> entity_t list \<Rightarrow> bool"
  and wired_kids :: "('r, 'p, 'f) registry_view \<Rightarrow> 'r \<Rightarrow> entity_t \<Rightarrow> 'p blueprint list \<Rightarrow> entity_t list \<Rightarrow> entity_t list \<Rightarrow> bool" where
  "wired v r par (Blueprint p kids) e es \<longleftrightarrow>
     (\<exists>cs ds. es = e # ds \<and> wired_kids v r e kids cs ds \<and>
       (\<forall>c. reg_owns v r e c \<longleftrightarrow> c \<in> reg_comps v r p \<or> c = Children cs \<or> (\<exists>q. par = Some q \<and> c = Parent q)))"
| "wired_kids v r e [] cs ds \<longleftrightarrow> cs = [] \<and> ds = []"
| "wired_kids v r e (b # bs) cs ds \<longleftrightarrow>
     (\<exists>c cs' ds1 ds2. cs = c # cs' \<and> ds = ds1 @ ds2 \<and> wired v r (Some e) b c ds1 \<and> wired_kids v r e bs cs' ds2)"

lemma wired_cong:
  assumes "reg_comps v r' = reg_comps v r"
  shows "(\<forall>x \<in> set es. \<forall>c. reg_owns v r' x c \<longleftrightarrow> reg_owns v r x c) \<Longrightarrow> wired v r par b e es \<Longrightarrow> wired v r' par b e es"
    and "(\<forall>x \<in> set ds. \<forall>c. reg_owns v r' x c \<longleftrightarrow> reg_owns v r x c) \<Longrightarrow> wired_kids v r p bs cs ds \<Longrightarrow> wired_kids v r' p bs cs ds"
  using assms
proof (induction v r par b e es and v r p bs cs ds rule: wired_wired_kids.induct)
  case (1 v r par p kids e es)
  from "1.prems"(2) obtain cs ds where w: "es = e # ds" "wired_kids v r e kids cs ds"
    "\<forall>c. reg_owns v r e c \<longleftrightarrow> c \<in> reg_comps v r p \<or> c = Children cs \<or> (\<exists>q. par = Some q \<and> c = Parent q)" by auto
  have "wired_kids v r' e kids cs ds" using "1.IH" w(1,2) "1.prems"(1,3) by auto
  with w show ?case using "1.prems"(1,3) by auto
next
  case (3 v r e b bs cs ds)
  from "3.prems"(2) obtain c cs' ds1 ds2 where w: "cs = c # cs'" "ds = ds1 @ ds2" "wired v r (Some e) b c ds1" "wired_kids v r e bs cs' ds2"
    by auto
  have "wired v r' (Some e) b c ds1" "wired_kids v r' e bs cs' ds2" using "3.IH" w "3.prems"(1,3) by auto
  with w show ?case by auto
qed simp

text \<open>What instantiating does to the registry: new entities, and perhaps a \<open>TimeAware\<close> of entity 1.\<close>

definition extended :: "('r, 'p, 'f) registry_view \<Rightarrow> ('r, 'p, 'f) env \<Rightarrow> bool \<Rightarrow> entity_t list \<Rightarrow> 'r \<Rightarrow> 'r \<Rightarrow> bool" where
  "extended v env k es r r' \<longleftrightarrow> reg_good v r' \<and> reg_room v r' + length es = reg_room v r \<and> reg_comps v r' = reg_comps v r \<and>
     distinct es \<and> (\<forall>x \<in> set es. \<not> reg_valid v r x) \<and>
     (\<forall>x. reg_valid v r' x \<longleftrightarrow> reg_valid v r x \<or> x \<in> set es) \<and>
     (\<forall>x c. reg_valid v r x \<longrightarrow> (reg_owns v r' x c \<longleftrightarrow> reg_owns v r x c \<or> (k \<and> x = 1 \<and> c = TimeAware (f_zero (floats_of env)))))"

lemma extended_trans:
  assumes "extended v env k es r r1" and "extended v env k' es' r1 r2"
  shows "extended v env (k \<or> k') (es @ es') r r2"
  using assms unfolding extended_def by (intro conjI) (simp, simp, simp, auto)

lemma extended_assign:
  assumes "registry_laws v (entt_of env)" and "extended v env k es r r1" and "e \<in> set es"
    and "\<forall>d. reg_owns v r1 e d \<longrightarrow> component_type d \<noteq> component_type c"
  shows "extended v env k es r (reg_assign (entt_of env) e c r1)"
    and "reg_owns v (reg_assign (entt_of env) e c r1) x d \<longleftrightarrow> reg_owns v r1 x d \<or> (x = e \<and> d = c)"
proof -
  have "reg_valid v r1 e" "reg_good v r1" "\<not> reg_valid v r e" using assms(2,3) by (auto simp: extended_def)
  then have "reg_good v (reg_assign (entt_of env) e c r1) \<and> reg_room v (reg_assign (entt_of env) e c r1) = reg_room v r1 \<and>
      reg_valid v (reg_assign (entt_of env) e c r1) = reg_valid v r1 \<and>
      (\<forall>x d. reg_owns v (reg_assign (entt_of env) e c r1) x d \<longleftrightarrow> reg_owns v r1 x d \<or> (x = e \<and> d = c)) \<and>
      reg_comps v (reg_assign (entt_of env) e c r1) = reg_comps v r1"
    using assms(1,4) unfolding registry_laws_def assign_law_def by blast
  then show "extended v env k es r (reg_assign (entt_of env) e c r1)"
    "reg_owns v (reg_assign (entt_of env) e c r1) x d \<longleftrightarrow> reg_owns v r1 x d \<or> (x = e \<and> d = c)"
    using assms(2) \<open>\<not> reg_valid v r e\<close> unfolding extended_def by (auto simp del: if_not_P)
qed

lemma timeless_append: "timeless v r (ps @ qs) = timeless v r ps + timeless v r qs"
  by (simp add: timeless_def)

lemma can_instantiate_append:
  assumes "can_instantiate v r (ps @ qs)"
  shows "can_instantiate v r ps"
    and "extended v env (timeless v r ps = 1) es r r1 \<Longrightarrow> length es = length ps \<Longrightarrow>
      can_instantiate v r1 qs \<and> timeless v r1 qs = timeless v r qs"
proof -
  show "can_instantiate v r ps" using assms unfolding can_instantiate_def timeless_append by auto
  assume e: "extended v env (timeless v r ps = 1) es r r1" and l: "length es = length ps"
  have t: "timeless v r1 qs = timeless v r qs" using e by (simp add: timeless_def extended_def)
  have "reg_valid v r1 1 \<and> (\<forall>x. \<not> reg_owns v r1 1 (TimeAware x))" if "timeless v r qs = 1"
  proof -
    have "timeless v r ps = 0" using that assms unfolding can_instantiate_def timeless_append by auto
    then show ?thesis using that assms e unfolding can_instantiate_def timeless_append extended_def by auto
  qed
  then show "can_instantiate v r1 qs \<and> timeless v r1 qs = timeless v r qs"
    using assms e l t unfolding can_instantiate_def timeless_append extended_def by auto
qed

text \<open>The entity of one blueprint, before its children.\<close>

lemma entity_created:
  assumes "registry_laws v (entt_of env)" and "can_instantiate v r [p]" and "proto_create (entt_of env) p r = (e, r1)"
    and "r2 = (if \<not> has_time_aware (entt_of env) e r1
               then reg_assign (entt_of env) 1 (TimeAware (f_zero (floats_of env))) r1 else r1)"
  shows "extended v env (timeless v r [p] = 1) [e] r r2" and "reg_owns v r2 e c \<longleftrightarrow> c \<in> reg_comps v r p"
proof -
  have start: "reg_good v r \<and> 0 < reg_room v r \<and> proto_create (entt_of env) p r = (e, r1)"
    using assms(2,3) by (simp add: can_instantiate_def Suc_le_eq)
  have made: "reg_good v r1" "Suc (reg_room v r1) = reg_room v r" "\<not> reg_valid v r e"
    "\<forall>x. reg_valid v r1 x \<longleftrightarrow> reg_valid v r x \<or> x = e"
    "\<forall>x c. reg_owns v r1 x c \<longleftrightarrow> (if x = e then c \<in> reg_comps v r p else reg_owns v r x c)"
    "reg_comps v r1 = reg_comps v r"
    using assms(1) start unfolding registry_laws_def create_law_def by blast+
  then have has: "has_time_aware (entt_of env) e r1 \<longleftrightarrow> timeless v r [p] \<noteq> 1"
    using assms(1) unfolding registry_laws_def has_law_def timeless_def by auto
  have "extended v env (timeless v r [p] = 1) [e] r r2 \<and> (reg_owns v r2 e c \<longleftrightarrow> c \<in> reg_comps v r p)"
  proof (cases "timeless v r [p] = 1")
    case True
    then have one: "reg_valid v r 1" "\<forall>x. \<not> reg_owns v r 1 (TimeAware x)" using assms(2) by (simp_all add: can_instantiate_def)
    then have "e \<noteq> 1" using made(3) by auto
    have r2: "r2 = reg_assign (entt_of env) 1 (TimeAware (f_zero (floats_of env))) r1" using assms(4) has True by simp
    have "reg_valid v r1 1" "\<forall>d. reg_owns v r1 1 d \<longrightarrow> component_type d \<noteq> component_type (TimeAware (f_zero (floats_of env)))"
    proof -
      show "reg_valid v r1 1" using one(1) made(4) by simp
      have "component_type d \<noteq> 3" if "reg_owns v r 1 d" for d using one(2) that by (cases d) auto
      then show "\<forall>d. reg_owns v r1 1 d \<longrightarrow> component_type d \<noteq> component_type (TimeAware (f_zero (floats_of env)))"
        using made(5) \<open>e \<noteq> 1\<close> by auto
    qed
    then have "reg_good v r2 \<and> reg_room v r2 = reg_room v r1 \<and> reg_valid v r2 = reg_valid v r1 \<and>
        (\<forall>x d. reg_owns v r2 x d \<longleftrightarrow> reg_owns v r1 x d \<or> (x = 1 \<and> d = TimeAware (f_zero (floats_of env)))) \<and> reg_comps v r2 = reg_comps v r1"
      using assms(1) made(1) r2 unfolding registry_laws_def assign_law_def by blast
    then show "extended v env (timeless v r [p] = 1) [e] r r2 \<and> (reg_owns v r2 e c \<longleftrightarrow> c \<in> reg_comps v r p)"
      using made True one(1) \<open>e \<noteq> 1\<close> unfolding extended_def by auto
  next
    case False
    then have "r2 = r1" using assms(4) has by simp
    then show "extended v env (timeless v r [p] = 1) [e] r r2 \<and> (reg_owns v r2 e c \<longleftrightarrow> c \<in> reg_comps v r p)"
      using made False unfolding extended_def by auto
  qed
  then show "extended v env (timeless v r [p] = 1) [e] r r2" "reg_owns v r2 e c \<longleftrightarrow> c \<in> reg_comps v r p" by simp_all
qed

text \<open>What was there before an extension keeps its components if entity 1 is not among it.\<close>

lemma extended_keeps:
  assumes "extended v env k es r r'" and "k \<longrightarrow> reg_valid v r0 1" and "x \<in> set es0" and "\<forall>y \<in> set es0. \<not> reg_valid v r0 y \<and> reg_valid v r y"
  shows "reg_owns v r' x c \<longleftrightarrow> reg_owns v r x c"
proof -
  have "reg_valid v r x" "k \<longrightarrow> x \<noteq> 1" using assms by auto
  then show ?thesis using assms(1) unfolding extended_def by blast
qed

lemma timeless_le: "can_instantiate v r (ps @ qs) \<Longrightarrow> (timeless v r ps = 1 \<or> timeless v r qs = 1) = (timeless v r (ps @ qs) = 1)"
  unfolding can_instantiate_def timeless_append by linarith

lemma extended_eq: "extended v env k es r r' \<Longrightarrow> k = k' \<Longrightarrow> extended v env k' es r r'"
  by simp

lemma instantiate_extends:
  assumes laws: "registry_laws v (entt_of env)"
  shows "instantiate env b r = (e, r') \<Longrightarrow> can_instantiate v r (prototypes b) \<Longrightarrow>
      \<exists>es. wired v r' None b e es \<and> extended v env (timeless v r (prototypes b) = 1) es r r' \<and> length es = length (prototypes b)"
    and "instantiate_children env entity bs r = (cs, r') \<Longrightarrow> can_instantiate v r (concat (map prototypes bs)) \<Longrightarrow>
      \<exists>ds. wired_kids v r' entity bs cs ds \<and> extended v env (timeless v r (concat (map prototypes bs)) = 1) ds r r' \<and>
        length ds = length (concat (map prototypes bs))"
  using laws
proof (induction env b r and env entity bs r arbitrary: e r' and cs r'
    rule: instantiate_instantiate_children.induct)
  case (1 env p kids r)
  let ?qs = "concat (map prototypes kids)"
  note laws = "1.prems"(3)
  obtain e1 r1 where c: "proto_create (entt_of env) p r = (e1, r1)"
    by (cases "proto_create (entt_of env) p r")
  define r2 where "r2 = (if \<not> has_time_aware (entt_of env) e1 r1
     then reg_assign (entt_of env) 1 (TimeAware (f_zero (floats_of env))) r1 else r1)"
  obtain cs r3 where k: "instantiate_children env e1 kids r2 = (cs, r3)"
    by (cases "instantiate_children env e1 kids r2")
  have e: "e = e1" "r' = reg_assign (entt_of env) e1 (Children cs) r3"
    using "1.prems"(1) c k by (auto simp: r2_def Let_def simp del: if_not_P)
  have can: "can_instantiate v r ([p] @ ?qs)" using "1.prems"(2) by simp
  note first = entity_created [OF laws can_instantiate_append(1) [OF can] c r2_def]
  from can_instantiate_append(2) [OF can first(1)] have can2: "can_instantiate v r2 ?qs" and t: "timeless v r2 ?qs = timeless v r ?qs"
    by simp_all
  from "1.IH" [OF c [symmetric] refl r2_def k can2 laws] obtain ds
    where ds: "wired_kids v r3 e1 kids cs ds" "extended v env (timeless v r ?qs = 1) ds r2 r3" "length ds = length ?qs"
    unfolding t by blast
  have fresh: "\<not> reg_valid v r e1" "reg_valid v r2 e1" using first(1) by (auto simp: extended_def)
  have own: "reg_owns v r3 e1 d \<longleftrightarrow> d \<in> reg_comps v r p" for d
    using extended_keeps [OF ds(2), of r e1 "[e1]" d] fresh first(2) can2 can unfolding can_instantiate_def t timeless_append by auto
  have ext: "extended v env (timeless v r ([p] @ ?qs) = 1) ([e1] @ ds) r r3"
    by (rule extended_eq [OF extended_trans [OF first(1) ds(2)] timeless_le [OF can]])
  have "component_type d \<noteq> component_type (Children cs)" if "reg_owns v r3 e1 d" for d
    using that can unfolding own can_instantiate_def by (cases d) auto
  then have types: "\<forall>d. reg_owns v r3 e1 d \<longrightarrow> component_type d \<noteq> component_type (Children cs)" by blast
  have "e1 \<in> set ([e1] @ ds)" by simp
  note last = extended_assign [OF laws ext this types, folded e(2)]
  have same: "reg_comps v r' = reg_comps v r3" "reg_comps v r' = reg_comps v r" using last(1) ext by (simp_all add: extended_def)
  have "e1 \<notin> set ds" using ext by (simp add: extended_def)
  then have "wired_kids v r' e1 kids cs ds" by (intro wired_cong(2) [OF same(1) _ ds(1)]) (auto simp: last(2))
  then have "wired v r' None (Blueprint p kids) e1 ([e1] @ ds)" using own same by (auto simp: last(2))
  then show ?case using last(1) ds(3) unfolding e(1) by (intro exI [of _ "[e1] @ ds"]) simp
next
  case (2 env entity r)
  then show ?case by (auto simp: extended_def timeless_def can_instantiate_def)
next
  case (3 env entity b bs r)
  let ?ps = "prototypes b" and ?qs = "concat (map prototypes bs)"
  note laws = "3.prems"(3)
  obtain ch r1 where i: "instantiate env b r = (ch, r1)"
    by (cases "instantiate env b r")
  define r2 where "r2 = reg_assign (entt_of env) ch (Parent entity) r1"
  obtain cs' r3 where k: "instantiate_children env entity bs r2 = (cs', r3)"
    by (cases "instantiate_children env entity bs r2")
  have e: "cs = ch # cs'" "r' = r3"
    using "3.prems"(1) i k by (simp_all add: r2_def Let_def)
  have can: "can_instantiate v r (?ps @ ?qs)" using "3.prems"(2) by simp
  from "3.IH"(1) [OF i can_instantiate_append(1) [OF can] laws] obtain es
    where es: "wired v r1 None b ch es" "extended v env (timeless v r ?ps = 1) es r r1" "length es = length ?ps" by blast
  obtain p kids where b: "b = Blueprint p kids" by (cases b)
  obtain cs1 ds1 where w: "es = ch # ds1" "wired_kids v r1 ch kids cs1 ds1"
    "\<forall>c. reg_owns v r1 ch c \<longleftrightarrow> c \<in> reg_comps v r1 p \<or> c = Children cs1" using es(1) unfolding b by auto
  have comps: "reg_comps v r1 = reg_comps v r" using es(2) by (simp add: extended_def)
  have "component_type d \<noteq> component_type (Parent entity)" if "reg_owns v r1 ch d" for d
    using that w(3) can unfolding b comps can_instantiate_def by (cases d) auto
  then have types: "\<forall>d. reg_owns v r1 ch d \<longrightarrow> component_type d \<noteq> component_type (Parent entity)" by blast
  have "ch \<in> set es" by (simp add: w(1))
  note linked = extended_assign [OF laws es(2) this types, folded r2_def]
  have same: "reg_comps v r2 = reg_comps v r1" using linked(1) comps by (simp add: extended_def)
  have "ch \<notin> set ds1" using es(2) w(1) by (simp add: extended_def)
  then have "wired_kids v r2 ch kids cs1 ds1" by (intro wired_cong(2) [OF same _ w(2)]) (auto simp: linked(2))
  then have wired2: "wired v r2 (Some entity) b ch es" using w(1,3) same by (auto simp: b linked(2))
  from can_instantiate_append(2) [OF can linked(1) es(3)] have can2: "can_instantiate v r2 ?qs" and t: "timeless v r2 ?qs = timeless v r ?qs"
    by simp_all
  from "3.IH"(2) [OF i [symmetric] refl r2_def k can2 laws] obtain ds
    where ds: "wired_kids v r3 entity bs cs' ds" "extended v env (timeless v r ?qs = 1) ds r2 r3" "length ds = length ?qs"
    unfolding t by blast
  have "\<forall>y \<in> set es. \<not> reg_valid v r y \<and> reg_valid v r2 y" using linked(1) by (simp add: extended_def)
  moreover have "timeless v r ?qs = 1 \<longrightarrow> reg_valid v r 1" using can unfolding can_instantiate_def timeless_append by auto
  ultimately have "\<forall>x \<in> set es. \<forall>c. reg_owns v r3 x c \<longleftrightarrow> reg_owns v r2 x c" using extended_keeps [OF ds(2)] by blast
  moreover have "reg_comps v r3 = reg_comps v r2" using ds(2) by (simp add: extended_def)
  ultimately have "wired v r3 (Some entity) b ch es" using wired_cong(1) [OF _ _ wired2] by blast
  then have "wired_kids v r' entity (b # bs) cs (es @ ds)" using ds(1) unfolding e by auto
  moreover have "extended v env (timeless v r (?ps @ ?qs) = 1) (es @ ds) r r3"
    by (rule extended_eq [OF extended_trans [OF linked(1) ds(2)] timeless_le [OF can]])
  ultimately show ?case using es(3) ds(3) unfolding e(2) by (intro exI [of _ "es @ ds"]) simp
qed

text \<open>
  C3: instantiating a blueprint builds its hierarchy, whatever the depth. With a registry that behaves as documented, as long as
  no assignment leaves what is documented (at most one prototype has no \<open>TimeAware\<close>), every
  blueprint gets an entity of its own that was not valid before, in the order of the code; it has the
  components of its prototype, the list of its children in order and, below the root, the link to its parent, and
  nothing else. The entities that were there keep their components and get none, except that entity
  1 takes the \<open>TimeAware\<close>, with the scale zero, of the prototype that has none.
\<close>

theorem instantiate_builds_hierarchy:
  assumes "registry_laws v (entt_of env)" and "can_instantiate v r (prototypes b)" and "instantiate env b r = (e, r')"
  shows "\<exists>es. wired v r' None b e es \<and> distinct es \<and> length es = length (prototypes b) \<and>
    (\<forall>x \<in> set es. \<not> reg_valid v r x) \<and> (\<forall>x. reg_valid v r' x \<longleftrightarrow> reg_valid v r x \<or> x \<in> set es) \<and>
    (\<forall>x c. reg_valid v r x \<longrightarrow> (reg_owns v r' x c \<longleftrightarrow> reg_owns v r x c \<or>
       (timeless v r (prototypes b) = 1 \<and> x = 1 \<and> c = TimeAware (f_zero (floats_of env)))))"
proof -
  obtain es where "wired v r' None b e es" "extended v env (timeless v r (prototypes b) = 1) es r r'" "length es = length (prototypes b)"
    using instantiate_extends(1) [OF assms(1,3,2)] by blast
  then show ?thesis unfolding extended_def by (intro exI [of _ es]) simp
qed

text \<open>The registry of the examples has the documented behaviour.\<close>

definition demo_view :: "(u32 \<times> (entity_t \<times> int component) list, int component list, int) registry_view" where
  "demo_view = \<lparr>reg_good = (\<lambda>(n, cs). \<forall>(e, c) \<in> set cs. e < n), reg_room = (\<lambda>(n, cs). 2 ^ 32 - 1 - unat n),
     reg_valid = (\<lambda>(n, cs) e. e < n), reg_owns = (\<lambda>(n, cs) e c. (e, c) \<in> set cs), reg_comps = (\<lambda>r p. set p)\<rparr>"

lemma demo_laws: "registry_laws demo_view (entt_of (demo_env f))"
proof -
  have next_n: "e < n + 1 \<longleftrightarrow> e < n \<or> e = n" "2 ^ 32 - 1 - unat n = Suc (2 ^ 32 - 1 - unat (n + 1))"
    if "0 < 2 ^ 32 - 1 - unat n" for e n :: u32
  proof -
    have "unat (n + 1) = (unat n + 1) mod 2 ^ 32" by (simp add: unat_word_ariths)
    also have "\<dots> = unat n + 1" using that by (intro mod_less) simp
    finally have "unat (n + 1) = unat n + 1" .
    then show "e < n + 1 \<longleftrightarrow> e < n \<or> e = n" "2 ^ 32 - 1 - unat n = Suc (2 ^ 32 - 1 - unat (n + 1))"
      using that by (auto simp: word_less_nat_alt less_Suc_eq word_unat_eq_iff)
  qed
  have "create_law demo_view demo_entt"
    unfolding create_law_def
  proof (clarify)
    fix n cs p e n' cs'
    assume a: "reg_good demo_view (n, cs)" "0 < reg_room demo_view (n, cs)" "proto_create demo_entt p (n, cs) = (e, (n', cs'))"
    then have e: "e = n" "n' = n + 1" "cs' = cs @ map (\<lambda>c. (n, c)) p" by (auto simp: demo_entt_def)
    have "0 < 2 ^ 32 - 1 - unat n" using a(2) by (simp add: demo_view_def)
    note next_n = next_n [OF this]
    show "reg_good demo_view (n', cs') \<and> Suc (reg_room demo_view (n', cs')) = reg_room demo_view (n, cs) \<and> \<not> reg_valid demo_view (n, cs) e \<and>
      (\<forall>x. reg_valid demo_view (n', cs') x \<longleftrightarrow> reg_valid demo_view (n, cs) x \<or> x = e) \<and>
      (\<forall>x c. reg_owns demo_view (n', cs') x c \<longleftrightarrow> (if x = e then c \<in> reg_comps demo_view (n, cs) p else reg_owns demo_view (n, cs) x c)) \<and>
      reg_comps demo_view (n', cs') = reg_comps demo_view (n, cs)"
      using a(1) next_n(2) unfolding e by (auto simp: demo_view_def next_n(1))
  qed
  moreover have "has_law demo_view demo_entt"
  proof -
    have "list_ex (\<lambda>(e', c). e' = e \<and> (case c of TimeAware _ \<Rightarrow> True | _ \<Rightarrow> False)) cs \<longleftrightarrow> (\<exists>x. (e, TimeAware x) \<in> set cs)"
      for e :: entity_t and cs :: "(entity_t \<times> int component) list"
    proof (induction cs)
      case (Cons a cs)
      then show ?case by (cases a; cases "snd a") auto
    qed simp
    then show ?thesis by (simp add: has_law_def demo_view_def demo_entt_def)
  qed
  moreover have "assign_law demo_view demo_entt" by (auto simp: assign_law_def demo_view_def demo_entt_def)
  ultimately show ?thesis by (simp add: registry_laws_def demo_env_def)
qed

lemma instantiate_builds_hierarchy_witness:
  "\<exists>e r' es. instantiate (demo_env []) (Blueprint [TimeAware 2, ShadowCaster] [Blueprint [] []]) (5, []) = (e, r') \<and>
     wired demo_view r' None (Blueprint [TimeAware 2, ShadowCaster] [Blueprint [] []]) e es \<and> distinct es \<and> length es = 2 \<and>
     reg_owns demo_view r' 1 (TimeAware 0)"
proof -
  let ?b = "Blueprint [TimeAware 2, ShadowCaster] [Blueprint [] []] :: int component list blueprint" and ?r = "(5, []) :: u32 \<times> (entity_t \<times> int component) list"
  obtain e r' where i: "instantiate (demo_env []) ?b ?r = (e, r')" by (rule prod.exhaust)
  have t: "timeless demo_view ?r (prototypes ?b) = 1" by (simp add: timeless_def demo_view_def)
  have "can_instantiate demo_view ?r (prototypes ?b)"
    unfolding can_instantiate_def t by (simp add: demo_view_def)
  from instantiate_builds_hierarchy [OF demo_laws this i] obtain es
    where es: "wired demo_view r' None ?b e es" "distinct es" "length es = length (prototypes ?b)"
      "\<forall>x c. reg_valid demo_view ?r x \<longrightarrow> (reg_owns demo_view r' x c \<longleftrightarrow> reg_owns demo_view ?r x c \<or>
         (timeless demo_view ?r (prototypes ?b) = 1 \<and> x = 1 \<and> c = TimeAware (f_zero (floats_of (demo_env [])))))"
    by (elim exE conjE) (rule that)
  have "reg_valid demo_view ?r 1" by (simp add: demo_view_def)
  from es(4) [rule_format, OF this, of "TimeAware (f_zero (floats_of (demo_env [])))"]
  have "reg_owns demo_view r' 1 (TimeAware (f_zero (floats_of (demo_env []))))" by (simp only: t refl simp_thms)
  moreover have "f_zero (floats_of (demo_env [])) = 0" by (simp add: demo_env_def demo_floats_def)
  ultimately have "reg_owns demo_view r' 1 (TimeAware 0)" by (simp only:)
  moreover have "length es = 2" using es(3) by simp
  ultimately show ?thesis using i es(1,2) by (intro exI conjI)
qed

text \<open>
  It can happen only once: after it the entity 1 has a \<open>TimeAware\<close>, and instantiating another blueprint with
  a prototype that has none, as all prototypes that the loader makes, is not within the documented behaviour.
\<close>

lemma second_time_aware_not_covered:
  assumes "registry_laws v (entt_of env)" and "can_instantiate v r (prototypes b)" and "instantiate env b r = (e, r')"
    and "timeless v r (prototypes b) = 1" and "timeless v r' (prototypes b') \<ge> 1"
  shows "\<not> can_instantiate v r' (prototypes b')"
proof
  assume c: "can_instantiate v r' (prototypes b')"
  then have "\<not> reg_owns v r' 1 (TimeAware (f_zero (floats_of env)))" using assms(5) by (simp add: can_instantiate_def)
  moreover obtain es where "extended v env True es r r'" using instantiate_extends(1) [OF assms(1,3,2)] assms(4) by auto
  moreover have "reg_valid v r 1" using assms(2,4) by (simp add: can_instantiate_def)
  ultimately show False by (simp add: extended_def)
qed

subsection \<open>The recursion ends\<close>

fun depth :: "ynode \<Rightarrow> nat" where
  "depth (YMap ps) = Suc (Max (insert 0 ((\<lambda>kv. depth (snd kv)) ` set ps)))"
| "depth n = 0"

fun template_free :: "ynode \<Rightarrow> bool" where
  "template_free (YMap ps) \<longleftrightarrow>
     find_pair ''type'' ps \<noteq> Some (YScalar ''template'') \<and> (\<forall>kv \<in> set ps. template_free (snd kv))"
| "template_free n \<longleftrightarrow> True"

lemma depth_child: "kv \<in> set ps \<Longrightarrow> depth (snd kv) < depth (YMap ps)"
  by (simp add: less_Suc_eq_le)

definition quiet :: "('r, 'p, 'a) ld \<Rightarrow> bool" where
  "quiet m \<longleftrightarrow> (\<forall>s. fault (out (snd (m s))) = fault (out s))"

named_theorems quiet_intros \<open>steps that raise no fault\<close>

lemma quiet_pure [quiet_intros]: "quiet (Pair r)"
  by (simp add: quiet_def)

lemma quiet_bind [quiet_intros]:
  assumes "quiet m" and "\<And>a. quiet (k a)"
  shows "quiet (bindE m k)"
  using assms by (auto simp: quiet_def bindE_def split: prod.split sum.split) (metis snd_conv)+

lemma quiet_regE [quiet_intros]: "quiet (regE f)"
  by (simp add: quiet_def regE_def split: prod.split)

lemma quiet_collect [quiet_intros]:
  "(\<And>x. x \<in> set xs \<Longrightarrow> quiet (f x)) \<Longrightarrow> quiet (collectE f xs)"
  by (induction xs) (auto intro!: quiet_intros)

lemma quiet_emplace [quiet_intros]: "quiet (emplace_entity name e)"
  by (simp add: quiet_def emplace_entity_def)

lemma quiet_add_components [quiet_intros]: "quiet (add_components env cs p)"
  by (simp add: quiet_def add_components_eq split: prod.split)

lemma quiet_construct_each [quiet_intros]: "quiet (construct_each env c data bs)"
  by (induction bs) (auto simp: construct_eq intro!: quiet_intros)

lemma quiet_add_defaults [quiet_intros]: "quiet (add_defaults env cs bs)"
  by (induction env cs bs rule: add_defaults.induct)
    (auto simp: component_ctor_eq intro!: quiet_intros split: option.split)

lemma quiet_lift:
  assumes "\<And>a. r = Inr a \<Longrightarrow> quiet (k a)"
  shows "quiet (bindE (liftE r) k)"
  using assms by (cases r) (auto intro: quiet_intros)

lemma quiet_debug_comment [quiet_intros]: "quiet (debug_comment env config)"
  unfolding debug_comment_def by (auto intro!: quiet_intros quiet_lift)

lemma find_pair_mem: "find_pair key ps = Some v \<Longrightarrow> \<exists>k. (k, v) \<in> set ps"
  by (induction key ps rule: find_pair.induct) (auto split: if_splits)

lemma child_node:
  assumes "get_const (Node (YMap ps)) key = Inr r" and "is_map r = Inr True"
  obtains v where "r = Node v" and "template_free (YMap ps) \<longrightarrow> template_free v"
    and "depth v < depth (YMap ps)"
proof -
  obtain v where v: "find_pair key ps = Some v" "r = Node v"
    using assms by (cases "find_pair key ps") auto
  then obtain k where k: "(k, v) \<in> set ps" using find_pair_mem by metis
  show thesis
  proof (rule that)
    show "r = Node v" by (rule v(2))
    show "template_free (YMap ps) \<longrightarrow> template_free v" using k by force
    show "depth v < depth (YMap ps)" using depth_child [OF k] by simp
  qed
qed

lemma loaders_quiet:
  "template_free node \<Longrightarrow> depth node < n \<Longrightarrow>
     quiet (l_scene (loaders n env) (Node node)) \<and>
     (\<forall>ps. node = YMap ps \<longrightarrow> quiet (l_group (loaders n env) (Node node)) \<and>
        (\<forall>name. quiet (l_entity (loaders n env) name (Node node))))"
proof (induction n arbitrary: node)
  case (Suc n)
  have kids: "quiet (l_scene (loaders n env) r)"
    if k: "get_const (Node (YMap ps)) key = Inr r" "is_map r = Inr True" "node = YMap ps" for ps key r
  proof -
    obtain v where v: "r = Node v" "template_free (YMap ps) \<longrightarrow> template_free v" "depth v < depth (YMap ps)"
      using k(1,2) by (rule child_node)
    have "depth (YMap ps) \<le> n" using Suc.prems(2) unfolding k(3) by (rule less_Suc_eq_le [THEN iffD1])
    with v(3) have "depth v < n" by (rule less_le_trans)
    then show ?thesis using Suc.IH [of v] v Suc.prems(1) k(3) by simp
  qed
  have scene: "quiet (load_scene (loaders n env) env (Node node))"
  proof (cases "\<exists>ps. node = YMap ps")
    case True
    then obtain ps where node: "node = YMap ps" by blast
    have "quiet (l_group (loaders n env) (Node (YMap qs))) \<and>
        quiet (l_entity (loaders n env) nm (Node (YMap qs))) \<and>
        find_pair ''type'' qs \<noteq> Some (YScalar ''template'')"
      if "(name, YMap qs) \<in> set ps" for name nm qs
    proof -
      have "template_free (YMap qs)" using that Suc.prems(1) node by force
      moreover have "depth (YMap qs) < n"
        using depth_child [OF that] Suc.prems(2) unfolding node by (simp del: depth.simps)
      ultimately show ?thesis using Suc.IH [of "YMap qs"] by auto
    qed
    then show ?thesis
      unfolding node load_scene_def get_mut_def
      by (auto intro!: quiet_intros quiet_lift split: if_splits option.splits
          simp: is_scalar_True_iff is_map_True_iff)
  next
    case False
    then show ?thesis by (cases node) (auto simp: load_scene_def intro!: quiet_intros)
  qed
  moreover have "quiet (load_group (loaders n env) env (Node node)) \<and>
      quiet (load_entity (loaders n env) env name (Node node))" if "node = YMap ps" for ps name
    unfolding load_group_def load_entity_def
    using kids [OF _ _ that] that
    by (auto intro!: quiet_intros quiet_lift split: if_split)
  ultimately show ?case by simp
qed simp

text \<open>Two depths that both exceed the nesting give the same functions.\<close>

lemma bind_lift_cong: "(\<And>a. r = Inr a \<Longrightarrow> k a = k' a) \<Longrightarrow> bindE (liftE r) k = bindE (liftE r) k'"
  by (cases r) simp_all

lemma collectE_cong: "(\<And>x. x \<in> set xs \<Longrightarrow> f x = g x) \<Longrightarrow> collectE f xs = collectE g xs"
  by (induction xs) simp_all

lemma loaders_agree:
  "template_free node \<Longrightarrow> depth node < n \<Longrightarrow> depth node < m \<Longrightarrow>
     l_scene (loaders n env) (Node node) = l_scene (loaders m env) (Node node) \<and>
     (\<forall>ps. node = YMap ps \<longrightarrow> l_group (loaders n env) (Node node) = l_group (loaders m env) (Node node) \<and>
        (\<forall>name. l_entity (loaders n env) name (Node node) = l_entity (loaders m env) name (Node node)))"
proof (induction n arbitrary: m node)
  case (Suc n)
  then obtain m' where m: "m = Suc m'" by (cases m) auto
  let ?l = "loaders n env" and ?l' = "loaders m' env"
  have kids: "l_scene ?l r = l_scene ?l' r"
    if k: "get_const (Node (YMap ps)) key = Inr r" "is_map r = Inr True" "node = YMap ps" for ps key r
  proof -
    obtain v where v: "r = Node v" "template_free (YMap ps) \<longrightarrow> template_free v" "depth v < depth (YMap ps)"
      using k(1,2) by (rule child_node)
    have "depth (YMap ps) \<le> n" "depth (YMap ps) \<le> m'"
      using Suc.prems(2,3) unfolding k(3) m by (simp_all only: less_Suc_eq_le)
    with v(3) have "depth v < n" "depth v < m'" by (auto dest: less_le_trans)
    then show ?thesis using Suc.IH [of v m'] v Suc.prems(1) k(3) by simp
  qed
  have scene: "load_scene ?l env (Node node) = load_scene ?l' env (Node node)"
  proof (cases "\<exists>ps. node = YMap ps")
    case True
    then obtain ps where node: "node = YMap ps" by blast
    have same: "l_group ?l (Node (YMap qs)) = l_group ?l' (Node (YMap qs)) \<and>
        l_entity ?l nm (Node (YMap qs)) = l_entity ?l' nm (Node (YMap qs)) \<and>
        find_pair ''type'' qs \<noteq> Some (YScalar ''template'')"
      if "(name, YMap qs) \<in> set ps" for name nm qs
    proof -
      have "template_free (YMap qs)" using that Suc.prems(1) node by force
      moreover have "depth (YMap qs) < n" "depth (YMap qs) < m'"
        using depth_child [OF that] Suc.prems(2,3) unfolding node m by (simp_all del: depth.simps)
      ultimately show ?thesis using Suc.IH [of "YMap qs" m'] by auto
    qed
    show ?thesis
      unfolding node load_scene_def get_mut_def
      by (rule bind_lift_cong, rule if_cong [OF refl refl], rule collectE_cong)
        (auto intro!: bind_lift_cong simp: is_scalar_True_iff is_map_True_iff same split: option.splits)
  next
    case False
    then show ?thesis by (cases node) (auto simp: load_scene_def)
  qed
  moreover have "load_group ?l env (Node node) = load_group ?l' env (Node node) \<and>
      load_entity ?l env name (Node node) = load_entity ?l' env name (Node node)" if node: "node = YMap ps" for ps name
  proof -
    have "load_group ?l env (Node node) = load_group ?l' env (Node node)"
      unfolding load_group_def node
      by (rule arg_cong [where f = "bindE _"], rule ext, rule bind_lift_cong, rule bind_lift_cong)
        (use kids [OF _ _ node] in auto)
    moreover have "load_entity ?l env name (Node node) = load_entity ?l' env name (Node node)"
    proof -
      have tail: "bindE (liftE (get_const (Node (YMap ps)) ''children'')) (\<lambda>children_node.
          bindE (liftE (is_map children_node)) (\<lambda>b. bindE (if b then l_scene ?l children_node else returnE []) k)) =
        bindE (liftE (get_const (Node (YMap ps)) ''children'')) (\<lambda>children_node.
          bindE (liftE (is_map children_node)) (\<lambda>b. bindE (if b then l_scene ?l' children_node else returnE []) k))" for k
        by (intro bind_lift_cong) (use kids [OF _ _ node] in auto)
      show ?thesis unfolding load_entity_def node tail ..
    qed
    ultimately show ?thesis by blast
  qed
  ultimately show ?case unfolding m by simp
qed simp

text \<open>
  C24: loading ends. For a scene without template nodes a recursion depth above its nesting
  depth is enough: it gives the same blueprints and the same world as any larger one, and no fault is raised,
  so the fuel of the model never runs out.
\<close>

theorem fuel_is_enough:
  assumes "template_free scene" and "depth scene < n" and "n \<le> m"
  shows "l_scene (loaders m env) (Node scene) s = l_scene (loaders n env) (Node scene) s \<and>
    fault (out (snd (l_scene (loaders n env) (Node scene) s))) = fault (out s)"
proof -
  have "depth scene < m" using assms(2,3) by simp
  with loaders_agree [OF assms(1,2), of m env] have "l_scene (loaders m env) (Node scene) = l_scene (loaders n env) (Node scene)" by simp
  moreover have "quiet (l_scene (loaders n env) (Node scene))" using loaders_quiet [OF assms(1,2)] by blast
  ultimately show ?thesis by (simp add: quiet_def)
qed

lemma fuel_is_enough_witness:
  "l_scene (loaders 9 (demo_env [])) (Node (YMap [(YScalar ''ground'', YMap ground)])) demo_start =
     l_scene (loaders 5 (demo_env [])) (Node (YMap [(YScalar ''ground'', YMap ground)])) demo_start \<and>
   fault (out (snd (l_scene (loaders 5 (demo_env [])) (Node (YMap [(YScalar ''ground'', YMap ground)])) demo_start))) = None"
proof -
  let ?scene = "YMap [(YScalar ''ground'', YMap ground)]"
  have "template_free ?scene" "depth ?scene < 5" "(5 :: nat) \<le> 9" by (simp_all add: ground_def ground_components_def)
  from fuel_is_enough [OF this, of "demo_env []" demo_start] show ?thesis by (simp add: demo_start_def)
qed

end
