(* ===== verification/ImageReader.thy ===== *)
theory ImageReader
  imports Prelude
begin

text \<open>
  The byte reader of the image decoder, \<open>include/util/stb_image.h\<close> lines 746 to 830 and 1212
  to 1322: the context over a memory block, over callbacks and over a stdio file, and the
  reading functions the format decoders share.
\<close>

subsection \<open>The context\<close>

text \<open>
  \<open>stbi_io_callbacks\<close>. \<open>read\<close> gets a size and returns the bytes it has written to the
  caller's buffer.
\<close>

record 'u io_callbacks =
  io_read :: "'u \<Rightarrow> nat \<Rightarrow> u8 list \<times> 'u"
  io_skip :: "'u \<Rightarrow> int \<Rightarrow> 'u"
  io_eof :: "'u \<Rightarrow> bool"

text \<open>
  \<open>bytes\<close> is the array that the four pointers \<open>img_buffer\<close>, \<open>img_buffer_end\<close> and the two
  originals point into: the caller's block, or \<open>buffer_start\<close>. The pointers are indices.
\<close>

record 'u ctx =
  io :: "'u io_callbacks option"
  io_user :: 'u
  read_from_callbacks :: bool
  buflen :: nat
  bytes :: "u8 list"
  pos :: nat
  end_pos :: nat
  orig_pos :: nat
  orig_end :: nat

definition start_mem :: "'u \<Rightarrow> u8 list \<Rightarrow> 'u ctx" where
  "start_mem u buffer =
     \<lparr>io = None, io_user = u, read_from_callbacks = False, buflen = 0, bytes = buffer,
      pos = 0, end_pos = length buffer, orig_pos = 0, orig_end = length buffer\<rparr>"

definition refill_buffer :: "'u io_callbacks \<Rightarrow> 'u ctx \<Rightarrow> 'u ctx" where
  "refill_buffer cb s =
     (let (data, u) = io_read cb (io_user s) (buflen s);
          n = length data;
          s = s\<lparr>io_user := u, bytes := data @ drop n (bytes s)\<rparr>
      in if n = 0
         then s\<lparr>read_from_callbacks := False, pos := 0, end_pos := 1, bytes := (bytes s)[0 := 0]\<rparr>
         else s\<lparr>pos := 0, end_pos := n\<rparr>)"

text \<open>\<open>buffer_start\<close> holds 128 bytes.\<close>

definition start_callbacks :: "'u io_callbacks \<Rightarrow> 'u \<Rightarrow> 'u ctx" where
  "start_callbacks cb user =
     (let s = refill_buffer cb
                \<lparr>io = Some cb, io_user = user, read_from_callbacks = True, buflen = 128,
                 bytes = replicate 128 0, pos = 0, end_pos = 0, orig_pos = 0, orig_end = 0\<rparr>
      in s\<lparr>orig_end := end_pos s\<rparr>)"

definition rewind :: "'u ctx \<Rightarrow> 'u ctx" where
  "rewind s = s\<lparr>pos := orig_pos s, end_pos := orig_end s\<rparr>"

text \<open>Stdio: a file is its bytes, the position and the end-of-file flag.\<close>

record stdio_file =
  file_bytes :: "u8 list"
  file_pos :: nat
  file_eof :: bool

definition stdio_read :: "stdio_file \<Rightarrow> nat \<Rightarrow> u8 list \<times> stdio_file" where
  "stdio_read f n =
     (let data = take n (drop (file_pos f) (file_bytes f))
      in (data, f\<lparr>file_pos := file_pos f + length data, file_eof := file_eof f \<or> length data < n\<rparr>))"

definition stdio_skip :: "stdio_file \<Rightarrow> int \<Rightarrow> stdio_file" where
  "stdio_skip f n =
     (if int (file_pos f) + n < 0 then f
      else f\<lparr>file_pos := nat (int (file_pos f) + n), file_eof := False\<rparr>)"

definition stdio_eof :: "stdio_file \<Rightarrow> bool" where
  "stdio_eof f = file_eof f"

definition stdio_callbacks :: "stdio_file io_callbacks" where
  "stdio_callbacks = \<lparr>io_read = stdio_read, io_skip = stdio_skip, io_eof = stdio_eof\<rparr>"

definition start_file :: "stdio_file \<Rightarrow> stdio_file ctx" where
  "start_file f = start_callbacks stdio_callbacks f"

subsection \<open>Reading\<close>

definition get8 :: "'u ctx \<Rightarrow> u8 \<times> 'u ctx" where
  "get8 s =
     (if pos s < end_pos s then (bytes s ! pos s, s\<lparr>pos := pos s + 1\<rparr>)
      else case io s of
        Some cb \<Rightarrow>
          if read_from_callbacks s
          then (let s = refill_buffer cb s in (bytes s ! pos s, s\<lparr>pos := pos s + 1\<rparr>))
          else (0, s)
      | None \<Rightarrow> (0, s))"

definition at_eof :: "'u ctx \<Rightarrow> bool" where
  "at_eof s =
     (case io s of
        Some cb \<Rightarrow>
          if \<not> io_eof cb (io_user s) then False
          else if \<not> read_from_callbacks s then True
          else end_pos s \<le> pos s
      | None \<Rightarrow> end_pos s \<le> pos s)"

definition skip :: "int \<Rightarrow> 'u ctx \<Rightarrow> 'u ctx" where
  "skip n s =
     (if n < 0 then s\<lparr>pos := end_pos s\<rparr>
      else case io s of
        Some cb \<Rightarrow>
          (let blen = int (end_pos s) - int (pos s)
           in if blen < n
              then s\<lparr>pos := end_pos s, io_user := io_skip cb (io_user s) (n - blen)\<rparr>
              else s\<lparr>pos := pos s + nat n\<rparr>)
      | None \<Rightarrow> s\<lparr>pos := pos s + nat n\<rparr>)"

text \<open>The result is the bytes copied to the caller's buffer, or \<open>None\<close> for a return of 0.\<close>

definition getn :: "nat \<Rightarrow> 'u ctx \<Rightarrow> u8 list option \<times> 'u ctx" where
  "getn n s =
     (let direct = (if pos s + n \<le> end_pos s
                    then (Some (take n (drop (pos s) (bytes s))), s\<lparr>pos := pos s + n\<rparr>)
                    else (None, s))
      in case io s of
        Some cb \<Rightarrow>
          (let blen = end_pos s - pos s
           in if blen < n
              then (let head = take blen (drop (pos s) (bytes s));
                        (data, u) = io_read cb (io_user s) (n - blen)
                    in (if length data = n - blen then Some (head @ data) else None,
                        s\<lparr>pos := end_pos s, io_user := u\<rparr>))
              else direct)
      | None \<Rightarrow> direct)"

definition get16be :: "'u ctx \<Rightarrow> int \<times> 'u ctx" where
  "get16be s = (let (z, s) = get8 s; (y, s) = get8 s in (push_bit 8 (uint z) + uint y, s))"

definition get32be :: "'u ctx \<Rightarrow> u32 \<times> 'u ctx" where
  "get32be s = (let (z, s) = get16be s; (y, s) = get16be s
                in (push_bit 16 (word_of_int z) + word_of_int y, s))"

definition get16le :: "'u ctx \<Rightarrow> int \<times> 'u ctx" where
  "get16le s = (let (z, s) = get8 s; (y, s) = get8 s in (uint z + push_bit 8 (uint y), s))"

definition get32le :: "'u ctx \<Rightarrow> u32 \<times> 'u ctx" where
  "get32le s = (let (z, s) = get16le s; (y, s) = get16le s
                in (word_of_int z + word_of_int (push_bit 16 y), s))"

subsection \<open>Sources of bytes\<close>

text \<open>
  What the decoders rely on: a source has the bytes still to come, a read gives the next one
  and zero after the last.
\<close>

locale byte_source =
  fixes ok :: "'s \<Rightarrow> bool"
    and rest :: "'s \<Rightarrow> u8 list"
    and get :: "'s \<Rightarrow> u8 \<times> 's"
  assumes get_keeps: "ok s \<Longrightarrow> ok (snd (get s))"
    and get_value: "ok s \<Longrightarrow> fst (get s) = (case rest s of [] \<Rightarrow> 0 | b # _ \<Rightarrow> b)"
    and get_advance: "ok s \<Longrightarrow> rest (snd (get s)) = tl (rest s)"
begin

primrec get_many :: "nat \<Rightarrow> 's \<Rightarrow> u8 list \<times> 's" where
  "get_many 0 s = ([], s)"
| "get_many (Suc n) s = (let (b, s) = get s; (bs, s) = get_many n s in (b # bs, s))"

lemma get_many_eq:
  "ok s \<Longrightarrow> fst (get_many n s) = take n (rest s) @ replicate (n - length (rest s)) 0 \<and>
     rest (snd (get_many n s)) = drop n (rest s) \<and> ok (snd (get_many n s))"
proof (induction n arbitrary: s)
  case (Suc n)
  let ?t = "snd (get s)"
  have IH: "fst (get_many n ?t) = take n (tl (rest s)) @ replicate (n - length (tl (rest s))) 0"
    "rest (snd (get_many n ?t)) = drop n (tl (rest s))" "ok (snd (get_many n ?t))"
    using Suc.IH [OF get_keeps [OF Suc.prems]] get_advance [OF Suc.prems] by simp_all
  have e: "get_many (Suc n) s = (fst (get s) # fst (get_many n ?t), snd (get_many n ?t))"
    by (simp add: split_beta Let_def)
  show ?case
    using IH get_value [OF Suc.prems]
    by (cases "rest s") (simp_all add: e del: get_many.simps)
qed simp

lemma get_pair: "ok s \<Longrightarrow> \<exists>s'. get s = (hd (rest s @ [0]), s') \<and> ok s' \<and> rest s' = tl (rest s)"
  using get_keeps [of s] get_value [of s] get_advance [of s]
  by (cases "get s"; cases "rest s") simp_all

end

subsection \<open>The contexts are sources\<close>

text \<open>A context over a memory block.\<close>

definition mem_ok :: "'u ctx \<Rightarrow> bool" where
  "mem_ok s \<longleftrightarrow> io s = None \<and> end_pos s = length (bytes s)"

definition mem_rest :: "'u ctx \<Rightarrow> u8 list" where
  "mem_rest s = drop (pos s) (take (end_pos s) (bytes s))"

lemma hd_drop: "i < length xs \<Longrightarrow> drop i xs = xs ! i # drop (Suc i) xs"
  by (rule Cons_nth_drop_Suc [symmetric])

interpretation mem: byte_source mem_ok mem_rest get8
proof
  fix s :: "'u ctx"
  assume ok: "mem_ok s"
  then show "mem_ok (snd (get8 s))" by (simp add: mem_ok_def get8_def)
  show "fst (get8 s) = (case mem_rest s of [] \<Rightarrow> 0 | b # _ \<Rightarrow> b)"
    using ok by (auto simp: mem_ok_def get8_def mem_rest_def hd_drop)
  show "mem_rest (snd (get8 s)) = tl (mem_rest s)"
    using ok by (auto simp: mem_ok_def get8_def mem_rest_def hd_drop drop_Suc tl_drop)
qed

text \<open>
  A context over a stdio file: what is left in the buffer, then what is left in the file.
  After the end of the file the context reads as from memory and the buffer is used up.
\<close>

definition file_ok :: "stdio_file ctx \<Rightarrow> bool" where
  "file_ok s \<longleftrightarrow> io s = Some stdio_callbacks \<and> length (bytes s) = 128 \<and> buflen s = 128 \<and>
     pos s \<le> end_pos s \<and> end_pos s \<le> 128 \<and>
     (read_from_callbacks s \<or> length (file_bytes (io_user s)) \<le> file_pos (io_user s))"

definition file_rest :: "stdio_file ctx \<Rightarrow> u8 list" where
  "file_rest s = drop (pos s) (take (end_pos s) (bytes s)) @
     drop (file_pos (io_user s)) (file_bytes (io_user s))"

lemma refill_file:
  assumes "buflen s = 128" and "length (bytes s) = 128"
  shows "refill_buffer stdio_callbacks s =
    (let data = take 128 (drop (file_pos (io_user s)) (file_bytes (io_user s)));
         u = (io_user s)\<lparr>file_pos := file_pos (io_user s) + length data,
               file_eof := file_eof (io_user s) \<or> length data < 128\<rparr>
     in if data = []
        then s\<lparr>io_user := u, read_from_callbacks := False, pos := 0, end_pos := 1, bytes := (bytes s)[0 := 0]\<rparr>
        else s\<lparr>io_user := u, pos := 0, end_pos := length data, bytes := data @ drop (length data) (bytes s)\<rparr>)"
  using assms by (simp add: refill_buffer_def stdio_callbacks_def stdio_read_def Let_def)

text \<open>A refill takes the next block of the file, or marks its end.\<close>

lemma refill_left:
  assumes "file_ok s"
  defines "left \<equiv> drop (file_pos (io_user s)) (file_bytes (io_user s))"
  shows "\<exists>u. drop (file_pos u) (file_bytes u) = drop 128 left \<and> (left = [] \<longrightarrow> length (file_bytes u) \<le> file_pos u) \<and>
    refill_buffer stdio_callbacks s = (if left = []
      then s\<lparr>io_user := u, read_from_callbacks := False, pos := 0, end_pos := 1, bytes := (bytes s)[0 := 0]\<rparr>
      else s\<lparr>io_user := u, pos := 0, end_pos := length (take 128 left), bytes := take 128 left @ drop (length (take 128 left)) (bytes s)\<rparr>)"
proof -
  have f: "length (bytes s) = 128" "buflen s = 128" using assms(1) by (simp_all add: file_ok_def)
  let ?u = "(io_user s)\<lparr>file_pos := file_pos (io_user s) + length (take 128 left),
     file_eof := file_eof (io_user s) \<or> length (take 128 left) < 128\<rparr>"
  have "drop (length (take 128 left)) left = drop 128 left" by (cases "length left \<le> 128") simp_all
  then have "drop (file_pos ?u) (file_bytes ?u) = drop 128 left" by (simp add: left_def add.commute)
  moreover have "left = [] \<longrightarrow> length (file_bytes ?u) \<le> file_pos ?u" by (simp add: left_def)
  ultimately show ?thesis using f by (intro exI [of _ ?u]) (simp add: refill_file left_def Let_def)
qed

lemma file_get8_refill:
  assumes "file_ok s" and "pos s = end_pos s" and "read_from_callbacks s"
  shows "(file_rest s = [] \<and> (\<exists>s'. get8 s = (0, s') \<and> file_ok s' \<and> file_rest s' = [])) \<or>
    (\<exists>b bs s'. file_rest s = b # bs \<and> get8 s = (b, s') \<and> file_ok s' \<and> file_rest s' = bs)"
proof -
  define left where "left = drop (file_pos (io_user s)) (file_bytes (io_user s))"
  have f: "io s = Some stdio_callbacks" "length (bytes s) = 128" "buflen s = 128" using assms(1) by (simp_all add: file_ok_def)
  have rest: "file_rest s = left" using assms(2,3) by (simp add: file_rest_def left_def)
  obtain u where u: "drop (file_pos u) (file_bytes u) = drop 128 left" "left = [] \<longrightarrow> length (file_bytes u) \<le> file_pos u"
    "refill_buffer stdio_callbacks s = (if left = []
      then s\<lparr>io_user := u, read_from_callbacks := False, pos := 0, end_pos := 1, bytes := (bytes s)[0 := 0]\<rparr>
      else s\<lparr>io_user := u, pos := 0, end_pos := length (take 128 left), bytes := take 128 left @ drop (length (take 128 left)) (bytes s)\<rparr>)"
    using refill_left [OF assms(1)] unfolding left_def by blast
  have g: "get8 s = (let s = refill_buffer stdio_callbacks s in (bytes s ! pos s, s\<lparr>pos := pos s + 1\<rparr>))"
    using assms(2,3) f(1) by (simp add: get8_def)
  show ?thesis
  proof (cases left)
    case Nil
    let ?s = "s\<lparr>io_user := u, read_from_callbacks := False, pos := Suc 0, end_pos := 1, bytes := (bytes s)[0 := 0]\<rparr>"
    have "0 < length (bytes s)" using f(2) by simp
    then have "get8 s = (0, ?s)" by (simp add: g u(3) Nil)
    moreover have "file_ok ?s" "file_rest ?s = []" using f u(1,2) Nil by (simp_all add: file_ok_def file_rest_def)
    ultimately show ?thesis using rest Nil by blast
  next
    case (Cons b bs)
    let ?s = "s\<lparr>io_user := u, pos := Suc 0, end_pos := length (take 128 left),
       bytes := take 128 left @ drop (length (take 128 left)) (bytes s)\<rparr>"
    have first: "take 128 left = b # take 127 bs" "drop 128 left = drop 127 bs" by (simp_all add: Cons take_Cons' drop_Cons')
    have "get8 s = (b, ?s)" by (simp add: g u(3) Cons first(1) [unfolded Cons])
    moreover have "file_ok ?s" using f assms(3) by (auto simp: file_ok_def Cons)
    moreover have "file_rest ?s = bs" using u(1) by (cases "length bs \<le> 127") (simp_all add: file_rest_def first min_def)
    ultimately show ?thesis using rest Cons by blast
  qed
qed

lemma file_get8:
  assumes "file_ok s"
  shows "(file_rest s = [] \<and> (\<exists>s'. get8 s = (0, s') \<and> file_ok s' \<and> file_rest s' = [])) \<or>
    (\<exists>b bs s'. file_rest s = b # bs \<and> get8 s = (b, s') \<and> file_ok s' \<and> file_rest s' = bs)"
proof -
  have f: "io s = Some stdio_callbacks" "length (bytes s) = 128" "pos s \<le> end_pos s" "end_pos s \<le> 128"
    using assms by (simp_all add: file_ok_def)
  consider (buffered) "pos s < end_pos s"
    | (refill) "pos s = end_pos s" "read_from_callbacks s"
    | (ended) "pos s = end_pos s" "\<not> read_from_callbacks s"
    using f(3) by linarith
  then show ?thesis
  proof cases
    case buffered
    let ?s = "s\<lparr>pos := pos s + 1\<rparr>"
    have "file_rest s = bytes s ! pos s # file_rest ?s"
      using buffered f by (simp add: file_rest_def hd_drop)
    moreover have "get8 s = (bytes s ! pos s, ?s)" using buffered by (simp add: get8_def)
    moreover have "file_ok ?s" using assms buffered by (auto simp: file_ok_def)
    ultimately show ?thesis by blast
  next
    case refill
    then show ?thesis by (rule file_get8_refill [OF assms])
  next
    case ended
    then have "drop (file_pos (io_user s)) (file_bytes (io_user s)) = []"
      using assms by (simp add: file_ok_def)
    then have "file_rest s = []" using ended by (simp add: file_rest_def)
    moreover have "get8 s = (0, s)" using ended f(1) by (simp add: get8_def)
    ultimately show ?thesis using assms by blast
  qed
qed

interpretation stdio: byte_source file_ok file_rest get8
proof
  fix s :: "stdio_file ctx"
  assume "file_ok s"
  from file_get8 [OF this]
  show "file_ok (snd (get8 s))" "fst (get8 s) = (case file_rest s of [] \<Rightarrow> 0 | b # _ \<Rightarrow> b)"
    "file_rest (snd (get8 s)) = tl (file_rest s)"
    by auto
qed

subsection \<open>Blocks and skips\<close>

locale block_source = byte_source ok rest get
  for ok :: "'s \<Rightarrow> bool" and rest :: "'s \<Rightarrow> u8 list" and get :: "'s \<Rightarrow> u8 \<times> 's" +
  fixes block :: "nat \<Rightarrow> 's \<Rightarrow> u8 list option \<times> 's"
    and jump :: "int \<Rightarrow> 's \<Rightarrow> 's"
  assumes block_value: "ok s \<Longrightarrow> 0 < n \<Longrightarrow> fst (block n s) = (if n \<le> length (rest s) then Some (take n (rest s)) else None)"
    and block_advance: "ok s \<Longrightarrow> 0 < n \<Longrightarrow> n \<le> length (rest s) \<Longrightarrow> ok (snd (block n s)) \<and> rest (snd (block n s)) = drop n (rest s)"
    and jump_advance: "ok s \<Longrightarrow> 0 \<le> i \<Longrightarrow> ok (jump i s) \<and> rest (jump i s) = drop (nat i) (rest s)"
begin

text \<open>Reading a block gives the bytes that single reads would give.\<close>

lemma block_get_many:
  assumes "ok s" and "0 < n" and "n \<le> length (rest s)"
  shows "fst (block n s) = Some (fst (get_many n s)) \<and> rest (snd (block n s)) = rest (snd (get_many n s))"
  using block_value [OF assms(1,2)] block_advance [OF assms] get_many_eq [OF assms(1), of n] assms(3)
  by simp

lemma jump_get_many:
  assumes "ok s"
  shows "rest (jump (int n) s) = rest (snd (get_many n s))"
  using jump_advance [OF assms, of "int n"] get_many_eq [OF assms, of n] by simp

end

interpretation mem: block_source mem_ok mem_rest get8 getn skip
proof
  fix s :: "'u ctx" and n i
  assume ok: "mem_ok s"
  show "fst (getn n s) = (if n \<le> length (mem_rest s) then Some (take n (mem_rest s)) else None)"
    if "0 < n"
    using ok that by (auto simp: mem_ok_def getn_def mem_rest_def Let_def)
  show "mem_ok (snd (getn n s)) \<and> mem_rest (snd (getn n s)) = drop n (mem_rest s)"
    if "0 < n" and "n \<le> length (mem_rest s)"
    using ok that by (auto simp: mem_ok_def getn_def mem_rest_def Let_def add.commute)
  show "mem_ok (skip i s) \<and> mem_rest (skip i s) = drop (nat i) (mem_rest s)" if "0 \<le> i"
    using ok that by (auto simp: mem_ok_def skip_def mem_rest_def add.commute)
qed

lemma file_block:
  assumes "file_ok s"
  shows "fst (getn n s) = (if n \<le> length (file_rest s) then Some (take n (file_rest s)) else None)"
    and "file_ok (snd (getn n s)) \<and> file_rest (snd (getn n s)) = drop n (file_rest s)"
proof -
  define blen where "blen = end_pos s - pos s"
  define buf where "buf = drop (pos s) (take (end_pos s) (bytes s))"
  define left where "left = drop (file_pos (io_user s)) (file_bytes (io_user s))"
  have f: "io s = Some stdio_callbacks" "length (bytes s) = 128" "buflen s = 128"
    "pos s \<le> end_pos s" "end_pos s \<le> 128"
    using assms by (simp_all add: file_ok_def)
  have buf: "length buf = blen" "take blen (drop (pos s) (bytes s)) = buf"
    using f by (simp_all add: buf_def blen_def take_drop)
  have rest: "file_rest s = buf @ left" by (simp add: file_rest_def buf_def left_def)
  have "fst (getn n s) = (if n \<le> length (file_rest s) then Some (take n (file_rest s)) else None) \<and>
    file_ok (snd (getn n s)) \<and> file_rest (snd (getn n s)) = drop n (file_rest s)"
  proof (cases "blen < n")
    case True
    let ?data = "take (n - blen) left"
    let ?u = "snd (stdio_read (io_user s) (n - blen))"
    have g: "getn n s = (if length ?data = n - blen then Some (buf @ ?data) else None,
        s\<lparr>pos := end_pos s, io_user := ?u\<rparr>)"
      using f(1) True buf(2)
      by (simp add: getn_def stdio_callbacks_def stdio_read_def left_def Let_def flip: blen_def)
    have "drop (file_pos ?u) (file_bytes ?u) = drop (n - blen) left"
      by (cases "n - blen \<le> length left") (auto simp: stdio_read_def left_def Let_def add.commute)
    then have "file_rest (s\<lparr>pos := end_pos s, io_user := ?u\<rparr>) = drop n (file_rest s)"
      using True buf(1) by (simp add: file_rest_def) (simp add: rest buf_def left_def file_rest_def)
    moreover have "file_ok (s\<lparr>pos := end_pos s, io_user := ?u\<rparr>)"
      using assms by (auto simp: file_ok_def stdio_read_def Let_def)
    moreover have "length ?data = n - blen \<longleftrightarrow> n \<le> length (file_rest s)"
      using True buf(1) by (simp add: rest) linarith
    ultimately show ?thesis using True buf(1) by (simp add: g rest)
  next
    case False
    then have "getn n s = (Some (take n (drop (pos s) (bytes s))), s\<lparr>pos := pos s + n\<rparr>)"
      using f(1,4) by (simp add: getn_def Let_def blen_def)
    moreover have "take n (drop (pos s) (bytes s)) = take n (file_rest s)"
      using False buf by (simp add: rest) (metis min.absorb1 not_less take_take)
    moreover have "file_rest (s\<lparr>pos := pos s + n\<rparr>) = drop n (file_rest s)"
      using False buf(1) by (simp add: file_rest_def rest buf_def left_def add.commute)
    moreover have "file_ok (s\<lparr>pos := pos s + n\<rparr>)"
      using assms False by (auto simp: file_ok_def blen_def)
    moreover have "n \<le> length (file_rest s)" using False buf(1) by (simp add: rest)
    ultimately show ?thesis by simp
  qed
  then show "fst (getn n s) = (if n \<le> length (file_rest s) then Some (take n (file_rest s)) else None)"
    and "file_ok (snd (getn n s)) \<and> file_rest (snd (getn n s)) = drop n (file_rest s)"
    by simp_all
qed

lemma file_skip:
  assumes "file_ok s" and "0 \<le> i"
  shows "file_ok (skip i s) \<and> file_rest (skip i s) = drop (nat i) (file_rest s)"
proof -
  have f: "io s = Some stdio_callbacks" "length (bytes s) = 128" "pos s \<le> end_pos s" "end_pos s \<le> 128"
    using assms(1) by (simp_all add: file_ok_def)
  show ?thesis
  proof (cases "int (end_pos s) - int (pos s) < i")
    case True
    let ?k = "nat i - (end_pos s - pos s)"
    have "nat (int (file_pos (io_user s)) + (i - (int (end_pos s) - int (pos s)))) = file_pos (io_user s) + ?k"
      using True f(3) by linarith
    then have "skip i s = s\<lparr>pos := end_pos s,
        io_user := (io_user s)\<lparr>file_pos := file_pos (io_user s) + ?k, file_eof := False\<rparr>\<rparr>"
      using True assms(2) f(1,3) by (simp add: skip_def stdio_callbacks_def stdio_skip_def Let_def)
    then show ?thesis
      using assms(1) True f(2-4) by (auto simp: file_ok_def file_rest_def add.commute nat_le_iff)
  next
    case False
    then have "skip i s = s\<lparr>pos := pos s + nat i\<rparr>"
      using assms(2) f(1) by (simp add: skip_def Let_def)
    then show ?thesis
      using assms False f(2-4) by (auto simp: file_ok_def file_rest_def add.commute)
  qed
qed

interpretation stdio: block_source file_ok file_rest get8 getn skip
  by unfold_locales (use file_block file_skip in auto)

subsection \<open>Numbers\<close>

definition byte_at :: "u8 list \<Rightarrow> nat \<Rightarrow> int" where
  "byte_at bs i = (if i < length bs then uint (bs ! i) else 0)"

lemma byte_at_hd: "uint (hd (bs @ [0])) = byte_at bs 0"
  by (cases bs) (simp_all add: byte_at_def)

lemma byte_at_tl: "byte_at (tl bs) i = byte_at bs (Suc i)"
  by (cases bs) (simp_all add: byte_at_def)

lemma get16_source:
  assumes "byte_source ok rest get8" and "ok s"
  shows "\<exists>s'. get16be s = (256 * byte_at (rest s) 0 + byte_at (rest s) 1, s') \<and> ok s' \<and> rest s' = drop 2 (rest s)"
    and "\<exists>s'. get16le s = (byte_at (rest s) 0 + 256 * byte_at (rest s) 1, s') \<and> ok s' \<and> rest s' = drop 2 (rest s)"
proof -
  obtain s1 where s1: "get8 s = (hd (rest s @ [0]), s1)" "ok s1" "rest s1 = tl (rest s)"
    using byte_source.get_pair [OF assms] by blast
  obtain s2 where s2: "get8 s1 = (hd (tl (rest s) @ [0]), s2)" "ok s2" "rest s2 = tl (tl (rest s))"
    using byte_source.get_pair [OF assms(1) s1(2)] s1(3) by auto
  have d: "tl (tl (rest s)) = drop 2 (rest s)" by (simp add: drop_Suc numeral_2_eq_2)
  show "\<exists>s'. get16be s = (256 * byte_at (rest s) 0 + byte_at (rest s) 1, s') \<and> ok s' \<and> rest s' = drop 2 (rest s)"
    "\<exists>s'. get16le s = (byte_at (rest s) 0 + 256 * byte_at (rest s) 1, s') \<and> ok s' \<and> rest s' = drop 2 (rest s)"
    using s2(2,3) d
    by (simp_all add: get16be_def get16le_def s1(1) s2(1) byte_at_hd byte_at_tl push_bit_eq_mult)
qed

lemma get32_source:
  assumes "byte_source ok rest get8" and "ok s"
  defines "b \<equiv> byte_at (rest s)"
  shows "\<exists>s'. get32be s = (word_of_int (2 ^ 24 * b 0 + 2 ^ 16 * b 1 + 2 ^ 8 * b 2 + b 3), s') \<and>
      ok s' \<and> rest s' = drop 4 (rest s)"
    and "\<exists>s'. get32le s = (word_of_int (b 0 + 2 ^ 8 * b 1 + 2 ^ 16 * b 2 + 2 ^ 24 * b 3), s') \<and>
      ok s' \<and> rest s' = drop 4 (rest s)"
proof -
  have at: "byte_at (drop 2 bs) 0 = byte_at bs 2" "byte_at (drop 2 bs) 1 = byte_at bs 3"
    "drop 2 (drop 2 bs) = drop 4 bs" for bs
    by (simp_all add: numeral_2_eq_2 numeral_3_eq_3 drop_Suc byte_at_tl) (simp add: eval_nat_numeral drop_Suc)
  note first = get16_source [OF assms(1,2)]
  obtain s1 where s1: "get16be s = (256 * b 0 + b 1, s1)" "ok s1" "rest s1 = drop 2 (rest s)"
    using first(1) unfolding b_def by blast
  obtain s2 where s2: "get16be s1 = (256 * b 2 + b 3, s2)" "ok s2" "rest s2 = drop 4 (rest s)"
    using get16_source(1) [OF assms(1) s1(2)] unfolding s1(3) at b_def by blast
  show "\<exists>s'. get32be s = (word_of_int (2 ^ 24 * b 0 + 2 ^ 16 * b 1 + 2 ^ 8 * b 2 + b 3), s') \<and>
      ok s' \<and> rest s' = drop 4 (rest s)"
    using s2(2,3) by (simp add: get32be_def s1(1) s2(1) push_bit_eq_mult algebra_simps)
  obtain t1 where t1: "get16le s = (b 0 + 256 * b 1, t1)" "ok t1" "rest t1 = drop 2 (rest s)"
    using first(2) unfolding b_def by blast
  obtain t2 where t2: "get16le t1 = (b 2 + 256 * b 3, t2)" "ok t2" "rest t2 = drop 4 (rest s)"
    using get16_source(2) [OF assms(1) t1(2)] unfolding t1(3) at b_def by blast
  show "\<exists>s'. get32le s = (word_of_int (b 0 + 2 ^ 8 * b 1 + 2 ^ 16 * b 2 + 2 ^ 24 * b 3), s') \<and>
      ok s' \<and> rest s' = drop 4 (rest s)"
    using t2(2,3) by (simp add: get32le_def t1(1) t2(1) push_bit_eq_mult algebra_simps)
qed

subsection \<open>Reading programs\<close>

text \<open>
  A decoder as its context sees it: a tree of reads, each of which may depend on everything read before, of
  blocks that are not empty (\<open>n + 1\<close> bytes), and of skips forward. A block that is not there ends it.
\<close>

datatype 'a reading =
    Finish 'a
  | Read8 "u8 \<Rightarrow> 'a reading"
  | Read16be "int \<Rightarrow> 'a reading"
  | Read16le "int \<Rightarrow> 'a reading"
  | Read32be "u32 \<Rightarrow> 'a reading"
  | Read32le "u32 \<Rightarrow> 'a reading"
  | Read_block nat "u8 list \<Rightarrow> 'a reading"
  | Skip_over nat "'a reading"

primrec run_reading :: "'a reading \<Rightarrow> 'u ctx \<Rightarrow> 'a option \<times> 'u ctx" where
  "run_reading (Finish a) s = (Some a, s)"
| "run_reading (Read8 k) s = (case get8 s of (v, s) \<Rightarrow> run_reading (k v) s)"
| "run_reading (Read16be k) s = (case get16be s of (v, s) \<Rightarrow> run_reading (k v) s)"
| "run_reading (Read16le k) s = (case get16le s of (v, s) \<Rightarrow> run_reading (k v) s)"
| "run_reading (Read32be k) s = (case get32be s of (v, s) \<Rightarrow> run_reading (k v) s)"
| "run_reading (Read32le k) s = (case get32le s of (v, s) \<Rightarrow> run_reading (k v) s)"
| "run_reading (Read_block n k) s = (case getn (n + 1) s of (None, s) \<Rightarrow> (None, s) | (Some bs, s) \<Rightarrow> run_reading (k bs) s)"
| "run_reading (Skip_over n k) s = run_reading k (skip (int n) s)"

text \<open>Its meaning on the bytes to come: zeros follow the last one.\<close>

primrec meaning :: "'a reading \<Rightarrow> u8 list \<Rightarrow> ('a \<times> u8 list) option" where
  "meaning (Finish a) bs = Some (a, bs)"
| "meaning (Read8 k) bs = meaning (k (hd (bs @ [0]))) (drop 1 bs)"
| "meaning (Read16be k) bs = meaning (k (2 ^ 8 * byte_at bs 0 + byte_at bs 1)) (drop 2 bs)"
| "meaning (Read16le k) bs = meaning (k (byte_at bs 0 + 2 ^ 8 * byte_at bs 1)) (drop 2 bs)"
| "meaning (Read32be k) bs = meaning (k (word_of_int (2 ^ 24 * byte_at bs 0 + 2 ^ 16 * byte_at bs 1 + 2 ^ 8 * byte_at bs 2 + byte_at bs 3))) (drop 4 bs)"
| "meaning (Read32le k) bs = meaning (k (word_of_int (byte_at bs 0 + 2 ^ 8 * byte_at bs 1 + 2 ^ 16 * byte_at bs 2 + 2 ^ 24 * byte_at bs 3))) (drop 4 bs)"
| "meaning (Read_block n k) bs = (if n < length bs then meaning (k (take (n + 1) bs)) (drop (n + 1) bs) else None)"
| "meaning (Skip_over n k) bs = meaning k (drop n bs)"

lemma run_reading_meaning:
  assumes "block_source ok rest get8 getn skip"
  shows "ok s \<Longrightarrow> (case meaning p (rest s) of
      None \<Rightarrow> fst (run_reading p s) = None
    | Some (a, bs) \<Rightarrow> \<exists>s'. run_reading p s = (Some a, s') \<and> ok s' \<and> rest s' = bs)"
proof (induction p arbitrary: s)
  case (Finish a)
  then show ?case by simp
next
  case (Read8 k)
  obtain s1 where "get8 s = (hd (rest s @ [0]), s1)" "ok s1" "rest s1 = tl (rest s)"
    using byte_source.get_pair [OF block_source.axioms(1) [OF assms] Read8.prems] by blast
  then show ?case using Read8.IH [OF rangeI, of s1 "hd (rest s @ [0])"] by (auto simp add: drop_Suc split: option.splits)
next
  case (Read16be k)
  obtain s1 where "get16be s = (256 * byte_at (rest s) 0 + byte_at (rest s) 1, s1)" "ok s1" "rest s1 = drop 2 (rest s)"
    using get16_source(1) [OF block_source.axioms(1) [OF assms] Read16be.prems] by blast
  then show ?case using Read16be.IH [OF rangeI, of s1 "256 * byte_at (rest s) 0 + byte_at (rest s) 1"] by (auto split: option.splits)
next
  case (Read16le k)
  obtain s1 where "get16le s = (byte_at (rest s) 0 + 256 * byte_at (rest s) 1, s1)" "ok s1" "rest s1 = drop 2 (rest s)"
    using get16_source(2) [OF block_source.axioms(1) [OF assms] Read16le.prems] by blast
  then show ?case using Read16le.IH [OF rangeI, of s1 "byte_at (rest s) 0 + 256 * byte_at (rest s) 1"] by (auto split: option.splits)
next
  case (Read32be k)
  obtain s1 where "get32be s = (word_of_int (2 ^ 24 * byte_at (rest s) 0 + 2 ^ 16 * byte_at (rest s) 1 + 2 ^ 8 * byte_at (rest s) 2 + byte_at (rest s) 3), s1)"
    "ok s1" "rest s1 = drop 4 (rest s)"
    using get32_source(1) [OF block_source.axioms(1) [OF assms] Read32be.prems] by blast
  then show ?case using Read32be.IH [OF rangeI, of s1 "word_of_int (2 ^ 24 * byte_at (rest s) 0 + 2 ^ 16 * byte_at (rest s) 1 + 2 ^ 8 * byte_at (rest s) 2 + byte_at (rest s) 3)"] by (auto split: option.splits)
next
  case (Read32le k)
  obtain s1 where "get32le s = (word_of_int (byte_at (rest s) 0 + 2 ^ 8 * byte_at (rest s) 1 + 2 ^ 16 * byte_at (rest s) 2 + 2 ^ 24 * byte_at (rest s) 3), s1)"
    "ok s1" "rest s1 = drop 4 (rest s)"
    using get32_source(2) [OF block_source.axioms(1) [OF assms] Read32le.prems] by blast
  then show ?case using Read32le.IH [OF rangeI, of s1 "word_of_int (byte_at (rest s) 0 + 2 ^ 8 * byte_at (rest s) 1 + 2 ^ 16 * byte_at (rest s) 2 + 2 ^ 24 * byte_at (rest s) 3)"] by (auto split: option.splits)
next
  case (Read_block n k)
  note b = block_source.block_value [OF assms Read_block.prems, of "n + 1"]
  show ?case
  proof (cases "n < length (rest s)")
    case True
    note after = block_source.block_advance [OF assms Read_block.prems, of "n + 1"]
    obtain s1 where "getn (n + 1) s = (Some (take (n + 1) (rest s)), s1)" "ok s1" "rest s1 = drop (n + 1) (rest s)"
      using b after True by (cases "getn (n + 1) s") simp
    then show ?thesis using Read_block.IH [OF rangeI, of s1 "take (n + 1) (rest s)"] True by (auto split: option.splits)
  next
    case False
    then obtain s1 where "getn (n + 1) s = (None, s1)" using b by (cases "getn (n + 1) s") simp
    then show ?thesis using False by simp
  qed
next
  case (Skip_over n p)
  then show ?case
    using block_source.jump_advance [OF assms Skip_over.prems, of "int n"] Skip_over.IH [of "skip (int n) s"]
    by (auto split: option.splits)
qed

text \<open>
  C23: whatever a decoder reads, it does not matter where the bytes come from. A memory context and a stdio
  context with the same bytes to come give every program of reads, blocks and forward skips the same result,
  the one that it has on the list of those bytes followed by zeros: the refills of the buffer are not
  seen, and both end alike at a block that is not there.
\<close>

theorem contexts_agree:
  assumes "mem_ok m" and "file_ok f" and "mem_rest m = file_rest f"
  shows "case meaning p (mem_rest m) of
      None \<Rightarrow> fst (run_reading p m) = None \<and> fst (run_reading p f) = None
    | Some (a, bs) \<Rightarrow> fst (run_reading p m) = Some a \<and> fst (run_reading p f) = Some a \<and>
        mem_rest (snd (run_reading p m)) = bs \<and> file_rest (snd (run_reading p f)) = bs"
  using run_reading_meaning [OF mem.block_source_axioms assms(1), of p]
    run_reading_meaning [OF stdio.block_source_axioms assms(2), of p] assms(3)
  by (auto split: option.splits)

lemma start_mem_ok: "mem_ok (start_mem u bs)" "mem_rest (start_mem u bs) = bs"
  by (simp_all add: mem_ok_def mem_rest_def start_mem_def)

text \<open>An empty file looks like a file of one zero byte.\<close>

lemma start_file_ok:
  "file_ok (start_file f)"
  "file_rest (start_file f) =
     (if drop (file_pos f) (file_bytes f) = [] then [0] else drop (file_pos f) (file_bytes f))"
proof -
  have "length (take 128 (drop (file_pos f) (file_bytes f))) \<le> 128" by simp
  then show "file_ok (start_file f)"
    by (auto simp: file_ok_def start_file_def start_callbacks_def refill_file Let_def)
  show "file_rest (start_file f) =
     (if drop (file_pos f) (file_bytes f) = [] then [0] else drop (file_pos f) (file_bytes f))"
  proof -
    have "take (Suc 0) ((replicate 128 (0 :: u8))[0 := 0]) = [0]" by (simp add: numeral_eq_Suc)
    moreover have "take 128 (drop k bs) @ drop (k + 128) bs = drop k bs" for k and bs :: "u8 list"
      by (metis add.commute append_take_drop_id drop_drop)
    ultimately show ?thesis
      by (auto simp: file_rest_def start_file_def start_callbacks_def refill_file Let_def
          min_def add.commute)
  qed
qed

text \<open>A length, a block of this length, and a number after a gap that goes past the end.\<close>

definition sample_reading :: "(u8 list \<times> u32) reading" where
  "sample_reading = Read8 (\<lambda>n. Read_block (unat n - 1) (\<lambda>bs. Skip_over 1 (Read32be (\<lambda>v. Finish (bs, v)))))"

lemma contexts_agree_witness:
  "fst (run_reading sample_reading (start_mem () [2, 7, 8, 9, 1, 2])) = Some ([7, 8], 0x01020000) \<and>
   fst (run_reading sample_reading (start_file \<lparr>file_bytes = [5, 2, 7, 8, 9, 1, 2], file_pos = 1, file_eof = False\<rparr>)) = Some ([7, 8], 0x01020000)"
proof -
  let ?f = "\<lparr>file_bytes = [5, 2, 7, 8, 9, 1, 2], file_pos = 1, file_eof = False\<rparr>"
  have same: "mem_rest (start_mem () [2, 7, 8, 9, 1, 2]) = file_rest (start_file ?f)"
    by (simp add: start_file_ok start_mem_ok)
  have "meaning sample_reading [2, 7, 8, 9, 1, 2] = Some (([7, 8], 0x01020000), [])"
    by (simp add: sample_reading_def byte_at_def)
  with contexts_agree [OF start_mem_ok(1) start_file_ok(1) same, of sample_reading] show ?thesis
    by (simp add: start_mem_ok)
qed

end
