(* ===== verification/Zlib.thy ===== *)
theory Zlib
  imports ImageReader
begin

text \<open>
  The zlib decoder of \<open>include/util/stb_image.h\<close>, lines 3479 to 3927: Huffman tables, the bit
  reader, the three kinds of blocks and the entry points. An \<open>Err\<close> is an error return with
  its reason; \<open>Undefined\<close> marks an access or an assertion the C code does not survive,
  \<open>OutOfFuel\<close> a loop that runs longer than the fuel it was given.
\<close>

datatype stb_err = Err string | Undefined string | OutOfFuel

subsection \<open>Huffman tables\<close>

record zhuffman =
  fast :: "nat list"
  firstcode :: "nat list"
  maxcode :: "nat list"
  firstsymbol :: "nat list"
  zsize :: "nat list"
  zvalue :: "nat list"

text \<open>A table nothing has been written to; the arrays have the sizes of the C structure.\<close>

definition blank_huffman :: zhuffman where
  "blank_huffman = \<lparr>fast = replicate 512 0, firstcode = replicate 16 0, maxcode = replicate 17 0,
     firstsymbol = replicate 16 0, zsize = replicate 288 0, zvalue = replicate 288 0\<rparr>"

definition bitreverse16 :: "u32 \<Rightarrow> u32" where
  "bitreverse16 n0 =
     (let n1 = drop_bit 1 (n0 AND 0xAAAA) OR push_bit 1 (n0 AND 0x5555);
          n2 = drop_bit 2 (n1 AND 0xCCCC) OR push_bit 2 (n1 AND 0x3333);
          n3 = drop_bit 4 (n2 AND 0xF0F0) OR push_bit 4 (n2 AND 0x0F0F)
      in drop_bit 8 (n3 AND 0xFF00) OR push_bit 8 (n3 AND 0x00FF))"

definition bit_reverse :: "u32 \<Rightarrow> nat \<Rightarrow> u32" where
  "bit_reverse v bits = drop_bit (16 - bits) (bitreverse16 v)"

text \<open>\<open>sizes[17]\<close>: an entry above 16 is out of range.\<close>

fun count_sizes :: "nat list \<Rightarrow> nat list \<Rightarrow> stb_err + nat list" where
  "count_sizes [] sizes = Inr (sizes[0 := 0])"
| "count_sizes (x # xs) sizes =
     (if x < 17 then count_sizes xs (sizes[x := sizes ! x + 1]) else Inl (Undefined ''sizes''))"

text \<open>The code starting each length; the lengths \<open>i\<close> to 15 are left. \<open>k\<close> counts symbols.\<close>

fun assign_codes :: "nat list \<Rightarrow> nat list \<Rightarrow> nat \<Rightarrow> nat \<Rightarrow> nat list \<Rightarrow> zhuffman \<Rightarrow>
    stb_err + (nat list \<times> zhuffman)" where
  "assign_codes [] sizes code k next_code z = Inr (next_code, z\<lparr>maxcode := (maxcode z)[16 := 0x10000]\<rparr>)"
| "assign_codes (i # is) sizes code k next_code z =
     (let next_code = next_code[i := code];
          z = z\<lparr>firstcode := (firstcode z)[i := code mod 2 ^ 16],
                firstsymbol := (firstsymbol z)[i := k mod 2 ^ 16]\<rparr>;
          code = code + sizes ! i
      in if sizes ! i \<noteq> 0 \<and> 2 ^ i \<le> code - 1 then Inl (Err ''bad codelengths'')
         else assign_codes is sizes (2 * code) (k + sizes ! i) next_code
                (z\<lparr>maxcode := (maxcode z)[i := code * 2 ^ (16 - i)]\<rparr>))"

function fill_fast :: "nat \<Rightarrow> nat \<Rightarrow> nat \<Rightarrow> nat list \<Rightarrow> nat list" where
  "fill_fast j s fastv tab = (if j < 512 then fill_fast (j + 2 ^ s) s fastv (tab[j := fastv]) else tab)"
  by pat_completeness auto
termination
  by (relation "measure (\<lambda>(j, s, v, t). 512 - j)") (auto simp: diff_less_mono2)

declare fill_fast.simps [simp del]

fun fill_tables :: "nat \<Rightarrow> nat list \<Rightarrow> nat list \<Rightarrow> zhuffman \<Rightarrow> stb_err + zhuffman" where
  "fill_tables i [] next_code z = Inr z"
| "fill_tables i (s # rest) next_code z =
     (if s = 0 then fill_tables (Suc i) rest next_code z
      else if 16 \<le> s then Inl (Undefined ''next_code'')
      else let c = int (next_code ! s) - int (firstcode z ! s) + int (firstsymbol z ! s);
               fastv = (push_bit 9 s OR i) mod 2 ^ 16
           in if c < 0 \<or> 288 \<le> c then Inl (Undefined ''size and value'')
              else fill_tables (Suc i) rest (next_code[s := next_code ! s + 1])
                     (z\<lparr>zsize := (zsize z)[nat c := s mod 2 ^ 8],
                        zvalue := (zvalue z)[nat c := i mod 2 ^ 16],
                        fast := (if s \<le> 9
                                 then fill_fast (unat (bit_reverse (of_nat (next_code ! s)) s)) s fastv (fast z)
                                 else fast z)\<rparr>))"

definition zbuild_huffman :: "zhuffman \<Rightarrow> nat list \<Rightarrow> stb_err + zhuffman" where
  "zbuild_huffman z sizelist =
     (case count_sizes sizelist (replicate 17 0) of
        Inl e \<Rightarrow> Inl e
      | Inr sizes \<Rightarrow>
          if list_ex (\<lambda>i. 2 ^ i < sizes ! i) [1..<16] then Inl (Err ''bad sizes'')
          else case assign_codes [1..<16] sizes 0 0 (replicate 16 0) (z\<lparr>fast := replicate 512 0\<rparr>) of
            Inl e \<Rightarrow> Inl e
          | Inr (next_code, z) \<Rightarrow> fill_tables 0 sizelist next_code z)"

subsection \<open>The bit reader\<close>

text \<open>
  \<open>zin\<close> is what lies between \<open>zbuffer\<close> and \<open>zbuffer_end\<close>; \<open>written\<close> what lies between
  \<open>zout_start\<close> and \<open>zout\<close>; \<open>capacity\<close> is \<open>zout_end - zout_start\<close>.
\<close>

record zbuf =
  zin :: "u8 list"
  num_bits :: nat
  code_buffer :: u32
  written :: "u8 list"
  capacity :: nat
  z_expandable :: bool
  z_length :: zhuffman
  z_distance :: zhuffman

type_synonym 'a zm = "(stb_err, zbuf, 'a) comp"

definition zget8 :: "zbuf \<Rightarrow> u8 \<times> zbuf" where
  "zget8 z = (case zin z of [] \<Rightarrow> (0, z) | b # bs \<Rightarrow> (b, z\<lparr>zin := bs\<rparr>))"

text \<open>The assertion of the loop: the bit buffer holds no bits beyond the counted ones.\<close>

function fill_bits :: "unit zm" where
  "fill_bits z =
     (if 2 ^ num_bits z \<le> unat (code_buffer z) then (Inl (Undefined ''code_buffer''), z)
      else let (b, z') = zget8 z;
               z'' = z'\<lparr>code_buffer := code_buffer z' OR push_bit (num_bits z) (ucast b),
                        num_bits := num_bits z + 8\<rparr>
           in if num_bits z + 8 \<le> 24 then fill_bits z'' else (Inr (), z''))"
  by pat_completeness auto
termination
  by (relation "measure (\<lambda>z. 25 - num_bits z)") (auto simp: zget8_def split: list.splits)

declare fill_bits.simps [simp del]

definition need_bits :: "nat \<Rightarrow> unit zm" where
  "need_bits n z = (if num_bits z < n then fill_bits z else (Inr (), z))"

definition zreceive :: "nat \<Rightarrow> u32 zm" where
  "zreceive n =
     bindE (need_bits n) (\<lambda>_ z.
     (Inr (code_buffer z AND (push_bit n 1 - 1)),
      z\<lparr>code_buffer := drop_bit n (code_buffer z), num_bits := num_bits z - n\<rparr>))"

text \<open>The first length from 10 on whose \<open>maxcode\<close> is above \<open>k\<close>.\<close>

fun find_length :: "nat \<Rightarrow> nat list \<Rightarrow> nat list \<Rightarrow> nat option" where
  "find_length k maxc [] = None"
| "find_length k maxc (s # ss) = (if k < maxc ! s then Some s else find_length k maxc ss)"

definition drop_bits :: "nat \<Rightarrow> zbuf \<Rightarrow> zbuf" where
  "drop_bits s a = a\<lparr>code_buffer := drop_bit s (code_buffer a), num_bits := num_bits a - s\<rparr>"

text \<open>The value \<open>None\<close> is the return value -1, an invalid code.\<close>

definition zhuffman_decode_slowpath :: "zhuffman \<Rightarrow> nat option zm" where
  "zhuffman_decode_slowpath z a =
     (let k = unat (bit_reverse (code_buffer a) 16)
      in case find_length k (maxcode z) [10..<17] of
           None \<Rightarrow> (Inl (Undefined ''maxcode''), a)
         | Some s \<Rightarrow>
             if s = 16 then (Inr None, a)
             else let b = int (k div 2 ^ (16 - s)) - int (firstcode z ! s) + int (firstsymbol z ! s)
                  in if b < 0 \<or> 288 \<le> b \<or> zsize z ! nat b \<noteq> s then (Inl (Undefined ''size[b] == s''), a)
                     else (Inr (Some (zvalue z ! nat b)), drop_bits s a))"

definition zhuffman_decode :: "zhuffman \<Rightarrow> nat option zm" where
  "zhuffman_decode z =
     bindE (need_bits 16) (\<lambda>_ a.
     let b = fast z ! unat (code_buffer a AND 511)
     in if b \<noteq> 0 then (Inr (Some (b AND 511)), drop_bits (drop_bit 9 b) a)
        else zhuffman_decode_slowpath z a)"

subsection \<open>Output\<close>

text \<open>The loop \<open>while (cur + n > limit) limit *= 2\<close>; it does not end for a limit of zero.\<close>

partial_function (option) grow :: "nat \<Rightarrow> nat \<Rightarrow> nat option" where
  "grow need limit = (if limit < need then grow need (2 * limit) else Some limit)"

text \<open>\<open>al\<close> tells for which sizes the allocator succeeds. Sizes are \<open>int\<close>s of 32 bits.\<close>

definition zexpand :: "(nat \<Rightarrow> bool) \<Rightarrow> nat \<Rightarrow> unit zm" where
  "zexpand al n z =
     (if \<not> z_expandable z then (Inl (Err ''output buffer limit''), z)
      else case grow (length (written z) + n) (capacity z) of
             None \<Rightarrow> (Inl OutOfFuel, z)
           | Some limit \<Rightarrow>
               if 2 ^ 31 \<le> limit then (Inl (Undefined ''int overflow''), z)
               else if al limit then (Inr (), z\<lparr>capacity := limit\<rparr>)
               else (Inl (Err ''outofmem''), z))"

definition ensure_room :: "(nat \<Rightarrow> bool) \<Rightarrow> nat \<Rightarrow> unit zm" where
  "ensure_room al n z = (if capacity z < length (written z) + n then zexpand al n z else (Inr (), z))"

fun copy_match :: "nat \<Rightarrow> nat \<Rightarrow> u8 list \<Rightarrow> u8 list" where
  "copy_match 0 dist w = w"
| "copy_match (Suc len) dist w = copy_match len dist (w @ [w ! (length w - dist)])"

text \<open>
  \<open>put\<close> is the output after a store: a store past \<open>zout_end\<close> is undefined. The copy of a
  match is a run when the distance is one, otherwise byte by byte; its source must lie in
  the part of the output that has been written.
\<close>

definition put :: "u8 list \<Rightarrow> unit zm" where
  "put w z = (if capacity z < length w then (Inl (Undefined ''zout_end''), z)
              else (Inr (), z\<lparr>written := w\<rparr>))"

definition emit_match :: "nat \<Rightarrow> nat \<Rightarrow> unit zm" where
  "emit_match len dist z =
     (if length (written z) < dist then (Inl (Undefined ''zout_start''), z)
      else if dist = 0 \<and> len \<noteq> 0 then (Inl (Undefined ''reads unwritten output''), z)
      else if dist = 1 then put (written z @ replicate len (last (written z))) z
      else put (copy_match len dist (written z)) z)"

definition zlength_base :: "nat list" where
  "zlength_base = [3,4,5,6,7,8,9,10,11,13,15,17,19,23,27,31,35,43,51,59,67,83,99,115,131,163,195,227,258,0,0]"

definition zlength_extra :: "nat list" where
  "zlength_extra = [0,0,0,0,0,0,0,0,1,1,1,1,2,2,2,2,3,3,3,3,4,4,4,4,5,5,5,5,0,0,0]"

definition zdist_base :: "nat list" where
  "zdist_base = [1,2,3,4,5,7,9,13,17,25,33,49,65,97,129,193,257,385,513,769,1025,1537,2049,3073,
     4097,6145,8193,12289,16385,24577,0,0]"

definition zdist_extra :: "nat list" where
  "zdist_extra = [0,0,0,0,1,1,2,2,3,3,4,4,5,5,6,6,7,7,8,8,9,9,10,10,11,11,12,12,13,13,0,0]"

definition receive_extra :: "nat \<Rightarrow> nat zm" where
  "receive_extra e = (if e \<noteq> 0 then bindE (zreceive e) (\<lambda>x. returnE (unat x)) else returnE 0)"

text \<open>A match: the distance and the copy, after a length \<open>len\<close>; the length of symbol \<open>z\<close>.\<close>

definition match_distance :: "(nat \<Rightarrow> bool) \<Rightarrow> nat \<Rightarrow> unit zm" where
  "match_distance al len =
     bindE (\<lambda>a. zhuffman_decode (z_distance a) a) (\<lambda>sym.
       case sym of
         None \<Rightarrow> throwE (Err ''bad huffman code'')
       | Some d \<Rightarrow>
           if 32 \<le> d then throwE (Undefined ''zdist_base'')
           else
             bindE (receive_extra (zdist_extra ! d)) (\<lambda>x.
             bindE (returnE (zdist_base ! d + x)) (\<lambda>dist.
             bindE (\<lambda>a. (if length (written a) < dist then Inl (Err ''bad dist'') else Inr (), a)) (\<lambda>_.
             bindE (ensure_room al len) (\<lambda>_.
             emit_match len dist)))))"

definition match_length :: "(nat \<Rightarrow> bool) \<Rightarrow> nat \<Rightarrow> unit zm" where
  "match_length al z =
     (if 31 \<le> z - 257 then throwE (Undefined ''zlength_base'')
      else bindE (receive_extra (zlength_extra ! (z - 257))) (\<lambda>x.
           match_distance al (zlength_base ! (z - 257) + x)))"

definition emit_literal :: "(nat \<Rightarrow> bool) \<Rightarrow> nat \<Rightarrow> unit zm" where
  "emit_literal al z =
     bindE (ensure_room al 1) (\<lambda>_ a. put (written a @ [of_nat z]) a)"

text \<open>One round of the loop of \<open>stbi__parse_huffman_block\<close>; \<open>True\<close> when the block has ended.\<close>

definition huffman_round :: "(nat \<Rightarrow> bool) \<Rightarrow> bool zm" where
  "huffman_round al =
     bindE (\<lambda>a. zhuffman_decode (z_length a) a) (\<lambda>sym.
       case sym of
         None \<Rightarrow> throwE (Err ''bad huffman code'')
       | Some z \<Rightarrow>
           if z < 256 then bindE (emit_literal al z) (\<lambda>_. returnE False)
           else if z = 256 then returnE True
           else bindE (match_length al z) (\<lambda>_. returnE False))"

fun parse_huffman_block :: "nat \<Rightarrow> (nat \<Rightarrow> bool) \<Rightarrow> unit zm" where
  "parse_huffman_block 0 al = throwE OutOfFuel"
| "parse_huffman_block (Suc n) al =
     bindE (huffman_round al) (\<lambda>stop. if stop then returnE () else parse_huffman_block n al)"

subsection \<open>Blocks\<close>

definition length_dezigzag :: "nat list" where
  "length_dezigzag = [16,17,18,0,8,7,9,6,10,5,11,4,12,3,13,2,14,1,15]"

fun read_codelength_sizes :: "nat list \<Rightarrow> nat list \<Rightarrow> nat list zm" where
  "read_codelength_sizes [] sizes = returnE sizes"
| "read_codelength_sizes (i # is) sizes =
     bindE (zreceive 3) (\<lambda>s.
     if i < length length_dezigzag then read_codelength_sizes is (sizes[length_dezigzag ! i := unat s])
     else throwE (Undefined ''length_dezigzag''))"

text \<open>
  \<open>lens\<close> is the part of \<open>lencodes\<close> that has been written, \<open>n\<close> its length. The array has
  286 + 32 + 137 = 455 bytes; a write past it is undefined, and so is the read of
  \<open>lencodes[-1]\<close> when a repeat comes first.
\<close>

definition write_lens :: "nat list \<Rightarrow> nat list \<Rightarrow> nat list zm" where
  "write_lens lens new =
     (if length lens + length new \<le> 455 then returnE (lens @ new) else throwE (Undefined ''lencodes''))"

fun read_lencodes :: "nat \<Rightarrow> nat \<Rightarrow> zhuffman \<Rightarrow> nat list \<Rightarrow> nat list zm" where
  "read_lencodes 0 ntot zc lens = (if length lens < ntot then throwE OutOfFuel else returnE lens)"
| "read_lencodes (Suc fuel) ntot zc lens =
     (if length lens < ntot then
        bindE (zhuffman_decode zc) (\<lambda>sym.
          case sym of
            None \<Rightarrow> throwE (Err ''bad codelengths'')
          | Some c \<Rightarrow>
              if 19 \<le> c then throwE (Err ''bad codelengths'')
              else bindE
                (if c < 16 then write_lens lens [c]
                 else if c = 16 then
                   bindE (zreceive 2) (\<lambda>x.
                     if lens = [] then throwE (Undefined ''lencodes[-1]'')
                     else write_lens lens (replicate (unat x + 3) (last lens)))
                 else if c = 17 then
                   bindE (zreceive 3) (\<lambda>x. write_lens lens (replicate (unat x + 3) 0))
                 else
                   bindE (zreceive 7) (\<lambda>x. write_lens lens (replicate (unat x + 11) 0)))
                (\<lambda>lens. read_lencodes fuel ntot zc lens))
      else returnE lens)"

text \<open>Both tables of a block, from their code lengths.\<close>

definition set_tables :: "nat list \<Rightarrow> nat list \<Rightarrow> unit zm" where
  "set_tables lengths distances =
     bindE (\<lambda>a. (zbuild_huffman (z_length a) lengths, a)) (\<lambda>zl.
     bindE (modifyE (\<lambda>a. a\<lparr>z_length := zl\<rparr>)) (\<lambda>_.
     bindE (\<lambda>a. (zbuild_huffman (z_distance a) distances, a)) (\<lambda>zd.
     modifyE (\<lambda>a. a\<lparr>z_distance := zd\<rparr>))))"

definition dynamic_tables :: "nat \<Rightarrow> nat \<Rightarrow> nat list \<Rightarrow> unit zm" where
  "dynamic_tables hlit hdist codelength_sizes =
     bindE (liftE (zbuild_huffman blank_huffman codelength_sizes)) (\<lambda>z_codelength.
     bindE (read_lencodes (hlit + hdist) (hlit + hdist) z_codelength []) (\<lambda>lencodes.
       if length lencodes \<noteq> hlit + hdist then throwE (Err ''bad codelengths'')
       else set_tables (take hlit lencodes) (take hdist (drop hlit lencodes))))"

definition compute_huffman_codes :: "unit zm" where
  "compute_huffman_codes =
     bindE (zreceive 5) (\<lambda>x.
     bindE (returnE (unat x + 257)) (\<lambda>hlit.
     bindE (zreceive 5) (\<lambda>x.
     bindE (returnE (unat x + 1)) (\<lambda>hdist.
     bindE (zreceive 4) (\<lambda>x.
     bindE (returnE (unat x + 4)) (\<lambda>hclen.
     bindE (read_codelength_sizes [0..<hclen] (replicate 19 0)) (\<lambda>codelength_sizes.
     dynamic_tables hlit hdist codelength_sizes)))))))"

function drain_header :: "u8 list \<Rightarrow> u8 list zm" where
  "drain_header header a =
     (if 0 < num_bits a
      then if 4 \<le> length header then (Inl (Undefined ''header''), a)
           else if num_bits a < 8 then (Inl (Undefined ''num_bits == 0''), a)
           else drain_header (header @ [ucast (code_buffer a AND 255)]) (drop_bits 8 a)
      else (Inr header, a))"
  by pat_completeness auto
termination
  by (relation "measure (\<lambda>(h, a). num_bits a)") (auto simp: drop_bits_def)

declare drain_header.simps [simp del]

fun fill_header :: "nat \<Rightarrow> u8 list \<Rightarrow> zbuf \<Rightarrow> u8 list \<times> zbuf" where
  "fill_header 0 header a = (header, a)"
| "fill_header (Suc n) header a = (let (b, a) = zget8 a in fill_header n (header @ [b]) a)"

definition copy_stored :: "nat \<Rightarrow> unit zm" where
  "copy_stored len a =
     (if length (zin a) < len then (Inl (Undefined ''zbuffer_end''), a)
      else put (written a @ take len (zin a)) (a\<lparr>zin := drop len (zin a)\<rparr>))"

definition parse_uncompressed_block :: "(nat \<Rightarrow> bool) \<Rightarrow> unit zm" where
  "parse_uncompressed_block al =
     bindE (\<lambda>a. if num_bits a AND 7 \<noteq> 0 then bindE (zreceive (num_bits a AND 7)) (\<lambda>_. returnE ()) a else (Inr (), a)) (\<lambda>_.
     bindE (drain_header []) (\<lambda>header.
     bindE (runE (fill_header (4 - length header) header)) (\<lambda>header.
     bindE (returnE (unat (header ! 1) * 256 + unat (header ! 0))) (\<lambda>len.
     bindE (returnE (unat (header ! 3) * 256 + unat (header ! 2))) (\<lambda>nlen.
       if nlen \<noteq> (len XOR 0xffff) then throwE (Err ''zlib corrupt'')
       else bindE (\<lambda>a. (if length (zin a) < len then Inl (Err ''read past buffer'') else Inr (), a)) (\<lambda>_.
            bindE (ensure_room al len) (\<lambda>_. copy_stored len)))))))"

definition parse_zlib_header :: "unit zm" where
  "parse_zlib_header =
     bindE (runE zget8) (\<lambda>cmf.
     bindE (runE zget8) (\<lambda>flg.
       if (unat cmf * 256 + unat flg) mod 31 \<noteq> 0 then throwE (Err ''bad zlib header'')
       else if flg AND 32 \<noteq> 0 then throwE (Err ''no preset dict'')
       else if cmf AND 15 \<noteq> 8 then throwE (Err ''bad compression'')
       else returnE ()))"

definition zdefault_length :: "nat list" where
  "zdefault_length = replicate 144 8 @ replicate 112 9 @ replicate 24 7 @ replicate 8 8"

definition zdefault_distance :: "nat list" where
  "zdefault_distance = replicate 32 5"

text \<open>One round of the loop of \<open>stbi__parse_zlib\<close>; the value is \<open>final\<close>.\<close>

definition zlib_round :: "nat \<Rightarrow> (nat \<Rightarrow> bool) \<Rightarrow> bool zm" where
  "zlib_round fuel al =
     bindE (zreceive 1) (\<lambda>final.
     bindE (zreceive 2) (\<lambda>ty.
     bindE
       (if ty = 0 then parse_uncompressed_block al
        else if ty = 3 then throwE (Err [])
        else bindE
          (if ty = 1 then set_tables zdefault_length zdefault_distance
           else compute_huffman_codes)
          (\<lambda>_. parse_huffman_block fuel al)) (\<lambda>_. returnE (final \<noteq> 0))))"

fun zlib_blocks :: "nat \<Rightarrow> (nat \<Rightarrow> bool) \<Rightarrow> unit zm" where
  "zlib_blocks 0 al = throwE OutOfFuel"
| "zlib_blocks (Suc n) al =
     bindE (zlib_round n al) (\<lambda>final. if final then returnE () else zlib_blocks n al)"

definition parse_zlib :: "nat \<Rightarrow> (nat \<Rightarrow> bool) \<Rightarrow> bool \<Rightarrow> unit zm" where
  "parse_zlib fuel al parse_header =
     bindE (if parse_header then parse_zlib_header else returnE ()) (\<lambda>_.
     bindE (modifyE (\<lambda>a. a\<lparr>num_bits := 0, code_buffer := 0\<rparr>)) (\<lambda>_.
     zlib_blocks fuel al))"

definition do_zlib :: "nat \<Rightarrow> (nat \<Rightarrow> bool) \<Rightarrow> u8 list \<Rightarrow> nat \<Rightarrow> bool \<Rightarrow> bool \<Rightarrow> stb_err + u8 list" where
  "do_zlib fuel al buffer olen expandable parse_header =
     (case parse_zlib fuel al parse_header
             \<lparr>zin = buffer, num_bits = 0, code_buffer = 0, written = [], capacity = olen,
              z_expandable = expandable, z_length = blank_huffman, z_distance = blank_huffman\<rparr> of
        (Inl e, a) \<Rightarrow> Inl e
      | (Inr _, a) \<Rightarrow> Inr (written a))"

subsection \<open>Entry points\<close>

definition zlib_decode_malloc_guesssize_headerflag ::
  "nat \<Rightarrow> (nat \<Rightarrow> bool) \<Rightarrow> u8 list \<Rightarrow> nat \<Rightarrow> bool \<Rightarrow> stb_err + u8 list" where
  "zlib_decode_malloc_guesssize_headerflag fuel al buffer initial_size parse_header =
     (if \<not> al initial_size then Inl (Err ''outofmem'')
      else do_zlib fuel al buffer initial_size True parse_header)"

definition zlib_decode_malloc_guesssize :: "nat \<Rightarrow> (nat \<Rightarrow> bool) \<Rightarrow> u8 list \<Rightarrow> nat \<Rightarrow> stb_err + u8 list" where
  "zlib_decode_malloc_guesssize fuel al buffer initial_size =
     (if \<not> al initial_size then Inl (Err ''outofmem'')
      else do_zlib fuel al buffer initial_size True True)"

definition zlib_decode_malloc :: "nat \<Rightarrow> (nat \<Rightarrow> bool) \<Rightarrow> u8 list \<Rightarrow> stb_err + u8 list" where
  "zlib_decode_malloc fuel al buffer = zlib_decode_malloc_guesssize fuel al buffer 16384"

definition zlib_decode_buffer :: "nat \<Rightarrow> nat \<Rightarrow> u8 list \<Rightarrow> stb_err + u8 list" where
  "zlib_decode_buffer fuel olen ibuffer = do_zlib fuel (\<lambda>_. False) ibuffer olen False True"

definition zlib_decode_noheader_malloc :: "nat \<Rightarrow> (nat \<Rightarrow> bool) \<Rightarrow> u8 list \<Rightarrow> stb_err + u8 list" where
  "zlib_decode_noheader_malloc fuel al buffer =
     (if \<not> al 16384 then Inl (Err ''outofmem'') else do_zlib fuel al buffer 16384 True False)"

definition zlib_decode_noheader_buffer :: "nat \<Rightarrow> nat \<Rightarrow> u8 list \<Rightarrow> stb_err + u8 list" where
  "zlib_decode_noheader_buffer fuel olen ibuffer = do_zlib fuel (\<lambda>_. False) ibuffer olen False False"

end
