(* ===== verification/ZlibBits.thy ===== *)
theory ZlibBits
  imports Zlib
begin

text \<open>
  The bit reader of the zlib decoder, against one number: the bits still to come, least
  significant first, followed by zeros for ever. Reading \<open>n\<close> bits is a division by \<open>2 ^ n\<close>.
\<close>

fun le_value :: "u8 list \<Rightarrow> nat" where
  "le_value [] = 0"
| "le_value (b # bs) = unat b + 256 * le_value bs"

definition zstream :: "zbuf \<Rightarrow> nat" where
  "zstream z = unat (code_buffer z) + 2 ^ num_bits z * le_value (zin z)"

definition bits_ok :: "zbuf \<Rightarrow> bool" where
  "bits_ok z \<longleftrightarrow> num_bits z \<le> 32 \<and> unat (code_buffer z) < 2 ^ num_bits z"

text \<open>Two states that differ in the input and the bit buffer at most.\<close>

definition same_output :: "zbuf \<Rightarrow> zbuf \<Rightarrow> bool" where
  "same_output z z' \<longleftrightarrow> written z' = written z \<and> capacity z' = capacity z \<and>
     z_expandable z' = z_expandable z \<and> z_length z' = z_length z \<and> z_distance z' = z_distance z"

lemma same_output_refl: "same_output z z"
  by (simp add: same_output_def)

lemma same_output_trans: "same_output z y \<Longrightarrow> same_output y x \<Longrightarrow> same_output z x"
  by (simp add: same_output_def)

text \<open>What filling the bit buffer and reading \<open>n\<close> bits do to the state, apart from the assertion.\<close>

function refilled :: "zbuf \<Rightarrow> zbuf" where
  "refilled z =
     (let (b, z') = zget8 z;
          z'' = z'\<lparr>code_buffer := code_buffer z' OR push_bit (num_bits z) (ucast b),
                   num_bits := num_bits z + 8\<rparr>
      in if num_bits z + 8 \<le> 24 then refilled z'' else z'')"
  by pat_completeness auto
termination
  by (relation "measure (\<lambda>z. 25 - num_bits z)") (auto simp: zget8_def split: list.splits)

declare refilled.simps [simp del]

definition received :: "nat \<Rightarrow> zbuf \<Rightarrow> u32 \<times> zbuf" where
  "received n z =
     (let z = (if num_bits z < n then refilled z else z)
      in (code_buffer z AND (push_bit n 1 - 1),
          z\<lparr>code_buffer := drop_bit n (code_buffer z), num_bits := num_bits z - n\<rparr>))"

lemma or_push_bit:
  fixes x :: nat
  assumes "x < 2 ^ n"
  shows "x OR push_bit n y = x + 2 ^ n * y"
proof -
  have "x + push_bit n y = x OR push_bit n y"
  proof (rule disjunctive_add)
    fix m
    show "\<not> bit x m \<or> \<not> bit (push_bit n y) m"
    proof (cases "m < n")
      case True
      then show ?thesis by (simp add: bit_push_bit_iff)
    next
      case False
      then have "x < 2 ^ m" using assms by (meson less_le_trans not_less one_le_numeral power_increasing)
      then show ?thesis by (simp add: bit_iff_odd)
    qed
  qed
  then show ?thesis by (simp add: push_bit_eq_mult mult.commute)
qed

lemma len32: "LENGTH(32) = 32"
  by simp

lemma buffer_or:
  fixes w :: u32 and b :: u8
  assumes "unat w < 2 ^ n" and "n \<le> 24"
  shows "unat (w OR push_bit n (ucast b)) = unat w + 2 ^ n * unat b"
    and "unat w + 2 ^ n * unat b < 2 ^ (n + 8)"
proof -
  have b: "unat b < 2 ^ 8" using unsigned_less [of b] by simp
  have le: "(2 :: nat) ^ (n + 8) \<le> 2 ^ 32" using assms(2) by (intro power_increasing) simp_all
  have "2 ^ n * unat b \<le> 2 ^ n * (2 ^ 8 - 1)"
    using b by (intro mult_le_mono2) simp
  also have "\<dots> = 2 ^ (n + 8) - 2 ^ n" by (simp add: power_add algebra_simps)
  finally have "2 ^ n * unat b \<le> 2 ^ (n + 8) - 2 ^ n" .
  then show lt: "unat w + 2 ^ n * unat b < 2 ^ (n + 8)"
  proof -
    have "(2 :: nat) ^ n \<le> 2 ^ (n + 8)" by (intro power_increasing) simp_all
    then show ?thesis using assms(1) \<open>2 ^ n * unat b \<le> 2 ^ (n + 8) - 2 ^ n\<close> by linarith
  qed
  have "unat (push_bit n (ucast b) :: u32) = 2 ^ n * unat b"
  proof -
    have small: "2 ^ n * unat b < 2 ^ 32" using lt le by linarith
    have "unat (ucast b :: u32) = take_bit 32 (unat b)"
      by (simp add: unsigned_ucast_eq)
    also have "\<dots> = unat b" using b by (intro take_bit_nat_eq_self) simp
    finally have u: "unat (ucast b :: u32) = unat b" .
    have "unat (push_bit n (ucast b) :: u32) = take_bit 32 (push_bit n (unat b))"
      by (rule unsigned_push_bit_eq [THEN trans]) (simp only: u len32)
    also have "\<dots> = push_bit n (unat b)"
      using small by (intro take_bit_nat_eq_self) (simp add: push_bit_eq_mult mult.commute)
    also have "\<dots> = 2 ^ n * unat b" by (simp add: push_bit_eq_mult mult.commute)
    finally show ?thesis .
  qed
  then show "unat (w OR push_bit n (ucast b)) = unat w + 2 ^ n * unat b"
    using or_push_bit [OF assms(1), of "unat b"]
    by (simp add: unsigned_or_eq push_bit_eq_mult mult.commute)
qed

lemma zget8_stream: "le_value (zin z) = unat (fst (zget8 z)) + 256 * le_value (zin (snd (zget8 z)))"
  by (simp add: zget8_def split: list.split)

lemma zget8_frame: "num_bits (snd (zget8 z)) = num_bits z" "code_buffer (snd (zget8 z)) = code_buffer z"
  "same_output z (snd (zget8 z))"
  by (simp_all add: zget8_def same_output_def split: list.split)

interpretation zsrc: byte_source "\<lambda>_. True" zin zget8
  by unfold_locales (simp_all add: zget8_def split: list.split)

lemma refilled_ok:
  "bits_ok z \<Longrightarrow> num_bits z \<le> 24 \<Longrightarrow>
     bits_ok (refilled z) \<and> 25 \<le> num_bits (refilled z) \<and> zstream (refilled z) = zstream z \<and>
     same_output z (refilled z)"
proof (induction z rule: refilled.induct)
  case (1 z)
  obtain b z1 where g: "zget8 z = (b, z1)" by (cases "zget8 z")
  let ?z = "z1\<lparr>code_buffer := code_buffer z1 OR push_bit (num_bits z) (ucast b), num_bits := num_bits z + 8\<rparr>"
  have f: "num_bits z1 = num_bits z" "code_buffer z1 = code_buffer z" "same_output z z1"
    "le_value (zin z) = unat b + 256 * le_value (zin z1)"
    using zget8_frame [of z] zget8_stream [of z] g by simp_all
  have w: "unat (code_buffer z) < 2 ^ num_bits z" using "1.prems"(1) by (simp add: bits_ok_def)
  note or = buffer_or [OF w "1.prems"(2), of b]
  have ok: "bits_ok ?z" using or "1.prems"(2) by (simp add: bits_ok_def f)
  have st: "zstream ?z = zstream z"
    using or(1) by (simp add: zstream_def f power_add algebra_simps)
  have same: "same_output z ?z" using f(3) by (simp add: same_output_def)
  show ?case
  proof (cases "num_bits z + 8 \<le> 24")
    case True
    then have e: "refilled z = refilled ?z" by (subst refilled.simps) (simp add: g)
    show ?thesis
      using "1.IH" [OF refl g [symmetric] refl True ok] True st same same_output_trans unfolding e
      by (simp add: f)
  next
    case False
    then have e: "refilled z = ?z" by (subst refilled.simps) (simp add: g)
    show ?thesis using False ok st same unfolding e by simp
  qed
qed

lemma take_bits_stream:
  assumes "bits_ok z" and "n \<le> num_bits z"
  shows "unat (code_buffer z AND (push_bit n 1 - 1)) = zstream z mod 2 ^ n"
    and "zstream (drop_bits n z) = zstream z div 2 ^ n"
    and "bits_ok (drop_bits n z)"
    and "same_output z (drop_bits n z)"
proof -
  obtain k where k: "num_bits z = n + k" using assms(2) le_Suc_ex by blast
  have "unat (code_buffer z AND (push_bit n 1 - 1)) = unat (code_buffer z) mod 2 ^ n"
  proof -
    have "push_bit n 1 - 1 = (mask n :: u32)"
      by (simp add: mask_eq_exp_minus_1 push_bit_eq_mult)
    then have "code_buffer z AND (push_bit n 1 - 1) = take_bit n (code_buffer z)"
      by (simp add: take_bit_eq_mask)
    moreover have "unat (take_bit n (code_buffer z)) = take_bit n (unat (code_buffer z))"
      by (rule unsigned_take_bit_eq)
    ultimately show ?thesis by (simp only: take_bit_eq_mod [of n "unat (code_buffer z)"])
  qed
  also have "\<dots> = zstream z mod 2 ^ n"
    by (simp add: zstream_def k power_add mult.assoc)
  finally show "unat (code_buffer z AND (push_bit n 1 - 1)) = zstream z mod 2 ^ n" .
  have d: "unat (drop_bit n (code_buffer z)) = unat (code_buffer z) div 2 ^ n"
  proof -
    have "unat (code_buffer z) < 2 ^ 32" using unsigned_less [of "code_buffer z"] by simp
    then have "take_bit 32 (unat (code_buffer z)) = unat (code_buffer z)" by (rule take_bit_nat_eq_self)
    moreover have "unat (drop_bit n (code_buffer z)) = drop_bit n (take_bit 32 (unat (code_buffer z)))"
      using unsigned_drop_bit_eq [of n "code_buffer z"] by simp
    ultimately show ?thesis by (simp only: drop_bit_eq_div [of n "unat (code_buffer z)"])
  qed
  show "zstream (drop_bits n z) = zstream z div 2 ^ n"
    by (simp add: zstream_def drop_bits_def d k power_add mult.assoc)
  show "bits_ok (drop_bits n z)"
    using assms by (simp add: bits_ok_def drop_bits_def d k power_add less_mult_imp_div_less mult.commute)
  show "same_output z (drop_bits n z)" by (simp add: same_output_def drop_bits_def)
qed

lemma received_ok:
  assumes "bits_ok z" and "n \<le> 25"
  shows "unat (fst (received n z)) = zstream z mod 2 ^ n"
    and "zstream (snd (received n z)) = zstream z div 2 ^ n"
    and "bits_ok (snd (received n z))"
    and "same_output z (snd (received n z))"
proof -
  let ?z = "if num_bits z < n then refilled z else z"
  have f: "bits_ok ?z \<and> n \<le> num_bits ?z \<and> zstream ?z = zstream z \<and> same_output z ?z"
    using refilled_ok [OF assms(1)] assms by (auto simp: same_output_refl)
  have e: "received n z = (code_buffer ?z AND (push_bit n 1 - 1), drop_bits n ?z)"
    by (simp only: received_def drop_bits_def Let_def)
  note t = take_bits_stream [OF conjunct1 [OF f], of n]
  show "unat (fst (received n z)) = zstream z mod 2 ^ n"
    "zstream (snd (received n z)) = zstream z div 2 ^ n" "bits_ok (snd (received n z))"
    unfolding e fst_conv snd_conv using t f by auto
  show "same_output z (snd (received n z))"
    unfolding e snd_conv using t(4) f same_output_trans by blast
qed

text \<open>The assertion of the refill loop holds, so the code does just this.\<close>

lemma fill_bits_eq: "bits_ok z \<Longrightarrow> num_bits z \<le> 24 \<Longrightarrow> fill_bits z = (Inr (), refilled z)"
proof (induction z rule: refilled.induct)
  case (1 z)
  obtain b z1 where g: "zget8 z = (b, z1)" by (cases "zget8 z")
  let ?z = "z1\<lparr>code_buffer := code_buffer z1 OR push_bit (num_bits z) (ucast b), num_bits := num_bits z + 8\<rparr>"
  have w: "unat (code_buffer z) < 2 ^ num_bits z" using "1.prems"(1) by (simp add: bits_ok_def)
  then have n: "\<not> 2 ^ num_bits z \<le> unat (code_buffer z)" by simp
  have "bits_ok ?z"
    using buffer_or [OF w "1.prems"(2), of b] zget8_frame [of z] g "1.prems"(2) by (simp add: bits_ok_def)
  then show ?case
    using "1.IH" [OF refl g [symmetric] refl] n
    by (subst fill_bits.simps, subst refilled.simps) (simp add: g Let_def)
qed

lemma need_bits_eq: "bits_ok z \<Longrightarrow> n \<le> 25 \<Longrightarrow> need_bits n z = (Inr (), if num_bits z < n then refilled z else z)"
  using fill_bits_eq [of z] by (simp add: need_bits_def)

lemma zreceive_eq: "bits_ok z \<Longrightarrow> n \<le> 25 \<Longrightarrow> zreceive n z = (Inr (fst (received n z)), snd (received n z))"
  by (simp add: zreceive_def bindE_def need_bits_eq received_def Let_def)

lemma zhuffman_decode_eq:
  assumes "bits_ok a"
  shows "zhuffman_decode z a =
     (let a = (if num_bits a < 16 then refilled a else a);
          b = fast z ! unat (code_buffer a AND 511)
      in if b \<noteq> 0 then (Inr (Some (b AND 511)), drop_bits (drop_bit 9 b) a)
         else zhuffman_decode_slowpath z a)"
  using assms by (simp add: zhuffman_decode_def bindE_def need_bits_eq Let_def)

end
