(* ===== verification/ZlibCodes.thy ===== *)
theory ZlibCodes
  imports ZlibBits
begin

text \<open>
  Canonical Huffman codes, as the DEFLATE format defines them from a list of code lengths, and
  the reversal of bits: the specification the tables of \<open>stbi__zbuild_huffman\<close> are checked
  against.
\<close>

subsection \<open>Reversing bits\<close>

text \<open>The first \<open>s\<close> bits of a stream, read as a number with the first bit highest.\<close>

fun rev_bits :: "nat \<Rightarrow> nat \<Rightarrow> nat" where
  "rev_bits 0 n = 0"
| "rev_bits (Suc s) n = 2 * rev_bits s n + (n div 2 ^ s) mod 2"

lemma rev_bits_less: "rev_bits s n < 2 ^ s"
proof (induction s)
  case (Suc s)
  have "(n div 2 ^ s) mod 2 \<le> 1" by simp
  with Suc show ?case by simp
qed simp

lemma rev_bits_prefix: "rev_bits (s + k) n div 2 ^ k = rev_bits s n"
proof (induction k)
  case (Suc k)
  have "rev_bits (s + Suc k) n div 2 ^ Suc k = rev_bits (s + Suc k) n div 2 div 2 ^ k"
    by (simp only: power_Suc div_mult2_eq)
  also have "rev_bits (s + Suc k) n div 2 = rev_bits (s + k) n" by simp
  finally show ?case using Suc by simp
qed simp

lemma rev_bits_div: "s \<le> t \<Longrightarrow> rev_bits t n div 2 ^ (t - s) = rev_bits s n"
  using rev_bits_prefix [of s "t - s" n] by simp

lemma bit_rev_bits: "bit (rev_bits s n) i \<longleftrightarrow> i < s \<and> bit n (s - 1 - i)"
proof (induction s arbitrary: i)
  case (Suc s)
  have o: "odd (rev_bits (Suc s) n) \<longleftrightarrow> bit n s"
    by (simp add: bit_iff_odd odd_iff_mod_2_eq_one)
  have d: "rev_bits (Suc s) n div 2 = rev_bits s n" by simp
  show ?case
  proof (cases i)
    case 0
    then show ?thesis using o by (simp only: bit_0) simp
  next
    case (Suc k)
    then show ?thesis using Suc.IH [of k] d by (simp only: bit_Suc) auto
  qed
qed (simp add: bit_iff_odd)

lemma rev_bits_cong:
  assumes "\<And>i. i < s \<Longrightarrow> bit m i = bit n i"
  shows "rev_bits s m = rev_bits s n"
  by (rule bit_eqI) (use assms in \<open>auto simp: bit_rev_bits\<close>)

lemma rev_bits_mod: "s \<le> t \<Longrightarrow> rev_bits s (n mod 2 ^ t) = rev_bits s n"
  by (rule rev_bits_cong) (simp flip: take_bit_eq_mod add: bit_take_bit_iff)

lemma rev_bits_rev: "rev_bits s (rev_bits s n) = n mod 2 ^ s"
proof (rule bit_eqI)
  fix i
  show "bit (rev_bits s (rev_bits s n)) i = bit (n mod 2 ^ s) i"
    by (simp flip: take_bit_eq_mod add: bit_take_bit_iff bit_rev_bits) auto
qed

lemma less_16_cases:
  assumes "i < (16 :: nat)"
  shows "i \<in> {0, 1, 2, 3, 4, 5, 6, 7, 8, 9, 10, 11, 12, 13, 14, 15}"
  using assms by (simp only: insert_iff empty_iff) presburger

lemma bit_swap:
  fixes n A B :: u32
  shows "bit (drop_bit k (n AND A) OR push_bit k (n AND B)) i \<longleftrightarrow>
    (bit n (i + k) \<and> bit A (i + k)) \<or> (k \<le> i \<and> i < 32 \<and> bit n (i - k) \<and> bit B (i - k))"
  by (auto simp: bit_simps ac_simps)

lemma bit_bitreverse16: "bit (bitreverse16 w) i \<longleftrightarrow> i < 16 \<and> bit w (15 - i)"
proof (cases "i < 16")
  case True
  from less_16_cases [OF True] show ?thesis
    unfolding bitreverse16_def Let_def bit_swap
    by (elim insertE emptyE) (simp_all add: bit_numeral_rec eval_nat_numeral)
next
  case False
  have hi: "\<not> bit (0xFF00 :: u32) (i + 8)"
  proof
    assume "bit (0xFF00 :: u32) (i + 8)"
    then have "bit (take_bit 16 (0xFF00 :: u32)) (i + 8)" by simp
    then have "i + 8 < 16" by (simp only: bit_take_bit_iff)
    then show False using False by linarith
  qed
  have lo: "\<not> bit (0xFF :: u32) (i - 8)"
  proof
    assume "bit (0xFF :: u32) (i - 8)"
    then have "bit (take_bit 8 (0xFF :: u32)) (i - 8)" by simp
    then have "i - 8 < 8" by (simp only: bit_take_bit_iff)
    then show False using False by linarith
  qed
  show ?thesis
    unfolding bitreverse16_def Let_def using False hi lo by (simp only: bit_swap) simp
qed

lemma bit_reverse_value:
  assumes "s \<le> 16"
  shows "unat (bit_reverse w s) = rev_bits s (unat w)"
proof (rule bit_eqI)
  fix i
  have "bit (unat (bit_reverse w s)) i \<longleftrightarrow> bit (bit_reverse w s) i"
    by (auto simp: bit_unsigned_iff dest: bit_imp_le_length)
  also have "\<dots> \<longleftrightarrow> i + (16 - s) < 16 \<and> bit w (15 - (i + (16 - s)))"
    by (simp add: bit_reverse_def bit_drop_bit_eq bit_bitreverse16 add.commute)
  also have "\<dots> \<longleftrightarrow> i < s \<and> bit w (s - 1 - i)"
    using assms by (auto simp: less_diff_conv)
  also have "\<dots> \<longleftrightarrow> bit (rev_bits s (unat w)) i"
    by (auto simp: bit_rev_bits bit_unsigned_iff dest: bit_imp_le_length)
  finally show "bit (unat (bit_reverse w s)) i \<longleftrightarrow> bit (rev_bits s (unat w)) i" .
qed

subsection \<open>Canonical codes\<close>

text \<open>
  \<open>cnt\<close> counts the symbols of a length; \<open>first_code\<close> and \<open>first_symbol\<close> are the first code
  and the first place in the symbol order of a length.
\<close>

definition cnt :: "nat list \<Rightarrow> nat \<Rightarrow> nat" where
  "cnt xs s = (if s = 0 then 0 else count_list xs s)"

fun first_code :: "nat list \<Rightarrow> nat \<Rightarrow> nat" where
  "first_code xs 0 = 0"
| "first_code xs (Suc s) = 2 * (first_code xs s + cnt xs s)"

fun first_symbol :: "nat list \<Rightarrow> nat \<Rightarrow> nat" where
  "first_symbol xs 0 = 0"
| "first_symbol xs (Suc s) = first_symbol xs s + cnt xs s"

text \<open>The number of earlier symbols of the same length, the code and the place of a symbol.\<close>

definition rank :: "nat list \<Rightarrow> nat \<Rightarrow> nat" where
  "rank xs i = count_list (take i xs) (xs ! i)"

definition code_of :: "nat list \<Rightarrow> nat \<Rightarrow> nat" where
  "code_of xs i = first_code xs (xs ! i) + rank xs i"

definition slot :: "nat list \<Rightarrow> nat \<Rightarrow> nat" where
  "slot xs i = first_symbol xs (xs ! i) + rank xs i"

text \<open>The lengths fit: no length has more codes than there is room for.\<close>

definition fits :: "nat list \<Rightarrow> bool" where
  "fits xs \<longleftrightarrow> (\<forall>s \<in> {1..<16}. cnt xs s \<noteq> 0 \<longrightarrow> first_code xs s + cnt xs s \<le> 2 ^ s)"

text \<open>A symbol starts a stream when its code is read next.\<close>

definition starts :: "nat list \<Rightarrow> nat \<Rightarrow> nat \<Rightarrow> bool" where
  "starts xs n i \<longleftrightarrow> i < length xs \<and> xs ! i \<noteq> 0 \<and> rev_bits (xs ! i) n = code_of xs i"

lemma count_replicate: "count_list (replicate n x) y = (if x = y then n else 0)"
  by (induction n) auto

lemma count_take_Suc:
  "i < length xs \<Longrightarrow> count_list (take (Suc i) xs) s = count_list (take i xs) s + (if xs ! i = s then 1 else 0)"
  by (simp add: take_Suc_conv_app_nth)

lemma count_take_mono: "i \<le> j \<Longrightarrow> count_list (take i xs) s \<le> count_list (take j xs) s"
proof -
  assume "i \<le> j"
  then have "take j xs = take i xs @ take (j - i) (drop i xs)"
    by (metis le_add_diff_inverse take_add)
  then show ?thesis by simp
qed

lemma rank_less: "i < length xs \<Longrightarrow> rank xs i < count_list xs (xs ! i)"
  using count_take_Suc [of i xs "xs ! i"] count_take_mono [of "Suc i" "length xs" xs "xs ! i"]
  by (simp add: rank_def)

lemma rank_inj:
  assumes "i < length xs" and "j < length xs" and "xs ! i = xs ! j" and "rank xs i = rank xs j"
  shows "i = j"
proof -
  have "rank xs i < rank xs j" if "i < j" "i < length xs" "xs ! i = xs ! j" for i j
    using that count_take_Suc [of i xs "xs ! i"] count_take_mono [of "Suc i" j xs "xs ! i"]
    by (simp add: rank_def)
  from this [of i j] this [of j i] assms show ?thesis by (metis nat_neq_iff)
qed

lemma rank_exists: "r < count_list xs s \<Longrightarrow> \<exists>i < length xs. xs ! i = s \<and> rank xs i = r"
proof (induction xs rule: rev_induct)
  case (snoc x xs)
  show ?case
  proof (cases "r < count_list xs s")
    case True
    then obtain i where i: "i < length xs" "xs ! i = s" "rank xs i = r" using snoc.IH by blast
    then have "(xs @ [x]) ! i = s" "rank (xs @ [x]) i = r" by (simp_all add: rank_def nth_append)
    then show ?thesis using i(1) by (intro exI [of _ i]) simp
  next
    case False
    then have "x = s" "r = count_list xs s" using snoc.prems by (auto split: if_splits)
    then show ?thesis by (intro exI [of _ "length xs"]) (simp add: rank_def)
  qed
qed simp

lemma fits_bound:
  assumes "fits xs" and "s < 16"
  shows "first_code xs s + cnt xs s \<le> 2 ^ s"
  using assms(2)
proof (induction s)
  case 0
  then show ?case by (simp add: cnt_def)
next
  case (Suc s)
  show ?case
  proof (cases "cnt xs (Suc s) = 0")
    case True
    then show ?thesis using Suc by simp
  next
    case False
    have "Suc s \<in> {1..<16}" using Suc.prems by simp
    with False show ?thesis using assms(1) unfolding fits_def by blast
  qed
qed

lemma first_code_step: "2 ^ Suc k * (first_code xs s + cnt xs s) \<le> first_code xs (Suc (s + k))"
proof (induction k)
  case (Suc k)
  have "2 ^ Suc (Suc k) * (first_code xs s + cnt xs s) = 2 * (2 ^ Suc k * (first_code xs s + cnt xs s))" by simp
  also have "\<dots> \<le> 2 * first_code xs (Suc (s + k))" using Suc by simp
  also have "\<dots> \<le> first_code xs (Suc (s + Suc k))" by simp
  finally show ?case .
qed simp

lemma code_bounds:
  assumes "i < length xs" and "xs ! i \<noteq> 0"
  shows "first_code xs (xs ! i) \<le> code_of xs i"
    and "code_of xs i < first_code xs (xs ! i) + cnt xs (xs ! i)"
  using rank_less [OF assms(1)] assms(2) by (simp_all add: code_of_def cnt_def)

text \<open>No code is the beginning of another.\<close>

lemma starts_unique:
  assumes "starts xs n i" and "starts xs n j"
  shows "i = j"
proof -
  have less: False if ij: "starts xs n i" "starts xs n j" "xs ! i < xs ! j" for i j
  proof -
    let ?s = "xs ! i" and ?t = "xs ! j"
    note i = ij(1) [unfolded starts_def] and j = ij(2) [unfolded starts_def]
    obtain k where k: "?t = Suc (?s + k)" using ij(3) less_iff_Suc_add by blast
    have "code_of xs j div 2 ^ Suc k = rev_bits ?s n"
      using rev_bits_prefix [of ?s "Suc k" n] j k by simp
    moreover have "rev_bits ?s n < first_code xs ?s + cnt xs ?s"
      using code_bounds(2) [of i xs] i by simp
    moreover have "first_code xs ?s + cnt xs ?s \<le> code_of xs j div 2 ^ Suc k"
    proof -
      have "2 ^ Suc k * (first_code xs ?s + cnt xs ?s) \<le> code_of xs j"
        using first_code_step [of k xs ?s] code_bounds(1) [of j xs] j k by simp
      then show ?thesis by (simp add: less_eq_div_iff_mult_less_eq mult.commute)
    qed
    ultimately show False by linarith
  qed
  then have "xs ! i = xs ! j" using assms by (metis nat_neq_iff)
  then show ?thesis
    using assms rank_inj [of i xs j] by (simp add: starts_def code_of_def)
qed

text \<open>
  If no symbol of length at most \<open>t\<close> starts the stream, its first \<open>t\<close> bits are behind all
  the codes of length \<open>t\<close>.
\<close>

lemma behind_codes:
  assumes "\<And>i. starts xs n i \<Longrightarrow> t < xs ! i"
  shows "first_code xs t + cnt xs t \<le> rev_bits t n"
  using assms
proof (induction t)
  case 0
  then show ?case by (simp add: cnt_def)
next
  case (Suc t)
  have "first_code xs t + cnt xs t \<le> rev_bits t n"
    using Suc.IH Suc.prems Suc_lessD by blast
  then have lo: "first_code xs (Suc t) \<le> rev_bits (Suc t) n" by simp
  show ?case
  proof (rule ccontr)
    assume "\<not> ?case"
    then have "rev_bits (Suc t) n - first_code xs (Suc t) < count_list xs (Suc t)"
      using lo by (simp add: cnt_def)
    then obtain i where "i < length xs" "xs ! i = Suc t"
      "rank xs i = rev_bits (Suc t) n - first_code xs (Suc t)"
      using rank_exists by blast
    then have "starts xs n i" using lo by (simp add: starts_def code_of_def)
    from Suc.prems [OF this] \<open>xs ! i = Suc t\<close> show False by simp
  qed
qed

lemma first_symbol_le: "first_symbol xs s + cnt xs s \<le> length xs"
proof -
  have "first_symbol xs (Suc s) = length (filter (\<lambda>x. x \<noteq> 0 \<and> x \<le> s) xs)" for s
  proof (induction s)
    case 0
    then show ?case by (auto simp: cnt_def filter_empty_conv)
  next
    case (Suc s)
    have "length (filter (\<lambda>x. x \<noteq> 0 \<and> x \<le> Suc s) xs) =
        length (filter (\<lambda>x. x \<noteq> 0 \<and> x \<le> s) xs) + count_list xs (Suc s)"
      by (induction xs) auto
    then show ?case using Suc by (simp add: cnt_def)
  qed
  from this [of s] have "first_symbol xs s + cnt xs s = length (filter (\<lambda>x. x \<noteq> 0 \<and> x \<le> s) xs)" by simp
  then show ?thesis by simp
qed

lemma slot_less:
  assumes "i < length xs" and "xs ! i \<noteq> 0"
  shows "slot xs i < length xs"
  using rank_less [OF assms(1)] first_symbol_le [of xs "xs ! i"] assms(2)
  by (simp add: slot_def cnt_def)

lemma first_symbol_mono: "s < t \<Longrightarrow> first_symbol xs s + cnt xs s \<le> first_symbol xs t"
proof (induction t)
  case (Suc t)
  then show ?case by (cases "s = t") auto
qed simp

lemma slot_inj:
  assumes "i < length xs" and "j < length xs" and "xs ! i \<noteq> 0" and "xs ! j \<noteq> 0"
    and "slot xs i = slot xs j"
  shows "i = j"
proof -
  have less: "slot xs i < slot xs j" if "i < length xs" "xs ! i \<noteq> 0" "xs ! i < xs ! j" for i j
    using rank_less [OF that(1)] first_symbol_mono [OF that(3), of xs] that(2)
    by (simp add: slot_def cnt_def)
  have "xs ! i = xs ! j"
    using less [OF assms(1,3)] less [OF assms(2,4)] assms(5) by (metis nat_neq_iff)
  then show ?thesis using rank_inj [OF assms(1,2)] assms(5) by (simp add: slot_def)
qed

end
