(* ===== verification/ZlibTables.thy ===== *)
theory ZlibTables
  imports ZlibCodes
begin

text \<open>
  \<open>stbi__zbuild_huffman\<close> builds the tables of the canonical code and decoding with them is
  right: the fast table and the slow path find exactly the symbol whose code comes next, and
  no access leaves an array.
\<close>

subsection \<open>The first two loops\<close>

lemma count_sizes_eq:
  assumes "\<And>x. x \<in> set xs \<Longrightarrow> x < 17" and "length sizes = 17"
  shows "count_sizes xs sizes = Inr (map (\<lambda>s. if s = 0 then 0 else sizes ! s + count_list xs s) [0..<17])"
  using assms
proof (induction xs sizes rule: count_sizes.induct)
  case (1 sizes)
  have "sizes[0 := 0] = map (\<lambda>s. if s = 0 then 0 else sizes ! s + count_list [] s) [0..<17]"
    by (rule nth_equalityI) (use 1 in \<open>simp_all add: nth_list_update del: upt.simps\<close>)
  then show ?case by (simp del: upt.simps)
next
  case (2 x xs sizes)
  have x: "x < 17" using "2.prems"(1) by simp
  then have "count_sizes (x # xs) sizes = Inr (map (\<lambda>s. if s = 0 then 0
      else sizes[x := sizes ! x + 1] ! s + count_list xs s) [0..<17])"
    using "2.IH" [OF x] "2.prems" by simp
  also have "map (\<lambda>s. if s = 0 then 0 else sizes[x := sizes ! x + 1] ! s + count_list xs s) [0..<17] =
      map (\<lambda>s. if s = 0 then 0 else sizes ! s + count_list (x # xs) s) [0..<17]"
    using x "2.prems"(2) by (intro map_cong) (auto simp: nth_list_update)
  finally show ?case .
qed

lemma count_sizes_cnt:
  assumes "\<And>x. x \<in> set xs \<Longrightarrow> x < 17"
  shows "count_sizes xs (replicate 17 0) = Inr (map (cnt xs) [0..<17])"
  by (subst count_sizes_eq [OF assms]) (auto simp: cnt_def)

text \<open>The arrays of a table have the sizes the C structure gives them.\<close>

definition shaped :: "zhuffman \<Rightarrow> bool" where
  "shaped z \<longleftrightarrow> length (fast z) = 512 \<and> length (firstcode z) = 16 \<and> length (maxcode z) = 17 \<and>
     length (firstsymbol z) = 16 \<and> length (zsize z) = 288 \<and> length (zvalue z) = 288"

lemma shaped_blank: "shaped blank_huffman"
  by (simp add: shaped_def blank_huffman_def)

text \<open>What the second loop has computed for the lengths from \<open>l\<close> up to 15.\<close>

definition codes_from :: "nat \<Rightarrow> nat list \<Rightarrow> nat list \<Rightarrow> zhuffman \<Rightarrow> bool" where
  "codes_from l xs next_code z \<longleftrightarrow>
     (\<forall>s \<in> {l..<16}. next_code ! s = first_code xs s \<and> firstcode z ! s = first_code xs s \<and>
        firstsymbol z ! s = first_symbol xs s \<and>
        maxcode z ! s = (first_code xs s + cnt xs s) * 2 ^ (16 - s))"

lemma assign_codes_frame:
  "assign_codes is sizes code k nc z = Inr (nc', z') \<Longrightarrow> i \<notin> set is \<Longrightarrow>
     nc' ! i = nc ! i \<and> firstcode z' ! i = firstcode z ! i \<and> firstsymbol z' ! i = firstsymbol z ! i \<and>
     (i \<noteq> 16 \<longrightarrow> maxcode z' ! i = maxcode z ! i)"
  by (induction "is" sizes code k nc z rule: assign_codes.induct) (auto simp: Let_def split: if_splits)

lemma assign_codes_shape:
  "assign_codes is sizes code k nc z = Inr (nc', z') \<Longrightarrow> shaped z \<Longrightarrow>
     shaped z' \<and> length nc' = length nc \<and> maxcode z' ! 16 = 65536 \<and> fast z' = fast z \<and>
     zsize z' = zsize z \<and> zvalue z' = zvalue z"
proof (induction "is" sizes code k nc z rule: assign_codes.induct)
  case (1 sizes code k next_code z)
  then show ?case by (auto simp: shaped_def)
next
  case (2 i "is" sizes code k next_code z)
  then show ?case by (fastforce simp: Let_def shaped_def split: if_splits)
qed

lemma fits_from_iff:
  "(\<forall>s \<in> {l..<16}. P s) \<longleftrightarrow> (l < 16 \<longrightarrow> P l) \<and> (\<forall>s \<in> {Suc l..<16}. P s)" for l :: nat
proof -
  have "{l..<16} = (if l < 16 then insert l {Suc l..<16} else {})" by auto
  then show ?thesis by simp
qed

lemma codes_from_extend:
  assumes "codes_from (Suc l) xs nc' z'" and "l < 16" and "length xs \<le> 288" and "first_code xs l \<le> 2 ^ l"
    and "nc' ! l = first_code xs l" and "firstcode z' ! l = first_code xs l mod 2 ^ 16"
    and "firstsymbol z' ! l = first_symbol xs l mod 2 ^ 16" and "maxcode z' ! l = (first_code xs l + cnt xs l) * 2 ^ (16 - l)"
  shows "codes_from l xs nc' z'"
proof -
  have "(2 :: nat) ^ l \<le> 2 ^ 15" using assms(2) by (intro power_increasing) simp_all
  then have small: "first_code xs l < 2 ^ 16" "first_symbol xs l < 2 ^ 16"
    using assms(3,4) first_symbol_le [of xs l] by simp_all
  have "{l..<16} = insert l {Suc l..<16}" using assms(2) by auto
  then show ?thesis using assms(1,5-8) small by (simp add: codes_from_def)
qed

lemma assign_codes_eq:
  assumes "l \<le> 16" and "length sizes = 17" and "\<And>s. s < 17 \<Longrightarrow> sizes ! s = cnt xs s"
    and "shaped z" and "length nc = 16" and "length xs \<le> 288"
    and "\<forall>s \<in> {0..<l}. first_code xs s + cnt xs s \<le> 2 ^ s"
  shows "if \<forall>s \<in> {l..<16}. cnt xs s \<noteq> 0 \<longrightarrow> first_code xs s + cnt xs s \<le> 2 ^ s
    then \<exists>nc' z'. assign_codes [l..<16] sizes (first_code xs l) (first_symbol xs l) nc z = Inr (nc', z') \<and>
      codes_from l xs nc' z'
    else assign_codes [l..<16] sizes (first_code xs l) (first_symbol xs l) nc z = Inl (Err ''bad codelengths'')"
  using assms
proof (induction "16 - l" arbitrary: l nc z)
  case 0
  then show ?case by (simp add: codes_from_def)
next
  case (Suc m)
  then have l: "l < 16" by simp
  then have u: "[l..<16] = l # [Suc l..<16]" by (rule upt_conv_Cons)
  let ?z = "z\<lparr>firstcode := (firstcode z)[l := first_code xs l mod 2 ^ 16],
      firstsymbol := (firstsymbol z)[l := first_symbol xs l mod 2 ^ 16],
      maxcode := (maxcode z)[l := (first_code xs l + cnt xs l) * 2 ^ (16 - l)]\<rparr>"
  have s: "sizes ! l = cnt xs l" using Suc.prems(3) l by simp
  have bad: "2 ^ l \<le> first_code xs l + cnt xs l - 1 \<longleftrightarrow> \<not> first_code xs l + cnt xs l \<le> 2 ^ l"
    if "cnt xs l \<noteq> 0" using that by linarith
  show ?case
  proof (cases "cnt xs l \<noteq> 0 \<longrightarrow> first_code xs l + cnt xs l \<le> 2 ^ l")
    case False
    then have "assign_codes [l..<16] sizes (first_code xs l) (first_symbol xs l) nc z =
        Inl (Err ''bad codelengths'')"
      using bad by (simp add: u s Let_def)
    moreover have "\<not> (\<forall>s \<in> {l..<16}. cnt xs s \<noteq> 0 \<longrightarrow> first_code xs s + cnt xs s \<le> 2 ^ s)"
      using False l by auto
    ultimately show ?thesis by (simp only: if_False)
  next
    case True
    have pre: "first_code xs l \<le> 2 ^ l"
    proof (cases l)
      case (Suc k)
      have "first_code xs k + cnt xs k \<le> 2 ^ k" using Suc.prems(7) Suc by simp
      then show ?thesis using Suc by simp
    qed simp
    have room: "first_code xs l + cnt xs l \<le> 2 ^ l" using True pre by (cases "cnt xs l = 0") auto
    have step: "assign_codes [l..<16] sizes (first_code xs l) (first_symbol xs l) nc z =
        assign_codes [Suc l..<16] sizes (first_code xs (Suc l)) (first_symbol xs (Suc l)) (nc[l := first_code xs l]) ?z"
    proof -
      have "\<not> (cnt xs l \<noteq> 0 \<and> 2 ^ l \<le> first_code xs l + cnt xs l - 1)" using True bad by blast
      then show ?thesis by (auto simp: u s Let_def)
    qed
    have sh: "shaped ?z" using Suc.prems(4) by (simp add: shaped_def)
    have all: "\<forall>s \<in> {0..<Suc l}. first_code xs s + cnt xs s \<le> 2 ^ s"
      using Suc.prems(7) room by (auto simp: less_Suc_eq)
    have m: "m = 16 - Suc l" using Suc.hyps(2) by simp
    have IH: "if \<forall>s \<in> {Suc l..<16}. cnt xs s \<noteq> 0 \<longrightarrow> first_code xs s + cnt xs s \<le> 2 ^ s
      then \<exists>nc' z'. assign_codes [Suc l..<16] sizes (first_code xs (Suc l)) (first_symbol xs (Suc l))
          (nc[l := first_code xs l]) ?z = Inr (nc', z') \<and> codes_from (Suc l) xs nc' z'
      else assign_codes [Suc l..<16] sizes (first_code xs (Suc l)) (first_symbol xs (Suc l))
          (nc[l := first_code xs l]) ?z = Inl (Err ''bad codelengths'')"
      by (rule Suc.hyps(1) [OF m _ Suc.prems(2,3) sh _ Suc.prems(6) all]) (use l Suc.prems(5) in simp_all)
    show ?thesis
    proof (cases "\<forall>s \<in> {Suc l..<16}. cnt xs s \<noteq> 0 \<longrightarrow> first_code xs s + cnt xs s \<le> 2 ^ s")
      case False
      then have no: "\<not> (\<forall>s \<in> {l..<16}. cnt xs s \<noteq> 0 \<longrightarrow> first_code xs s + cnt xs s \<le> 2 ^ s)"
        by (subst fits_from_iff) blast
      have "assign_codes [l..<16] sizes (first_code xs l) (first_symbol xs l) nc z = Inl (Err ''bad codelengths'')"
        using IH False unfolding step by (simp only: if_False)
      then show ?thesis using no by (simp only: if_False)
    next
      case good: True
      then obtain nc' z' where a: "assign_codes [Suc l..<16] sizes (first_code xs (Suc l)) (first_symbol xs (Suc l))
          (nc[l := first_code xs l]) ?z = Inr (nc', z')" and c: "codes_from (Suc l) xs nc' z'"
        using IH unfolding if_P [OF good] by blast
      have "codes_from l xs nc' z'"
        using assign_codes_frame [OF a, of l] l pre Suc.prems(4-6) by (intro codes_from_extend [OF c]) (simp_all add: shaped_def)
      moreover have all_fit: "\<forall>s \<in> {l..<16}. cnt xs s \<noteq> 0 \<longrightarrow> first_code xs s + cnt xs s \<le> 2 ^ s"
        using good True by (subst fits_from_iff) blast
      ultimately show ?thesis using a unfolding if_P [OF all_fit] step by blast
    qed
  qed
qed

subsection \<open>The last loop\<close>

lemma fill_fast_length [simp]: "length (fill_fast j s v tab) = length tab"
  by (induction j s v tab rule: fill_fast.induct) (subst fill_fast.simps, simp)

lemma fill_fast_nth:
  "length tab = 512 \<Longrightarrow> e < 512 \<Longrightarrow>
     fill_fast j s v tab ! e = (if j \<le> e \<and> e mod 2 ^ s = j mod 2 ^ s then v else tab ! e)"
proof (induction j s v tab rule: fill_fast.induct)
  case (1 j s v tab)
  show ?case
  proof (cases "j < 512")
    case True
    have "fill_fast j s v tab ! e = fill_fast (j + 2 ^ s) s v (tab[j := v]) ! e"
      using True by (subst fill_fast.simps) simp
    also have "\<dots> = (if j + 2 ^ s \<le> e \<and> e mod 2 ^ s = j mod 2 ^ s then v else tab[j := v] ! e)"
      using "1.IH" [OF True] "1.prems" by simp
    also have "\<dots> = (if j \<le> e \<and> e mod 2 ^ s = j mod 2 ^ s then v else tab ! e)"
    proof -
      have "e = j" if "j \<le> e" "e mod 2 ^ s = j mod 2 ^ s" "\<not> j + 2 ^ s \<le> e"
      proof -
        have "2 ^ s dvd e - j" using that(1,2) by (simp add: mod_eq_dvd_iff_nat)
        moreover have "e - j < 2 ^ s" using that(1,3) by linarith
        ultimately have "e - j = 0" using nat_dvd_not_less by blast
        then show ?thesis using that(1) by simp
      qed
      then show ?thesis using True "1.prems"(1) by (auto simp: nth_list_update)
    qed
    finally show ?thesis .
  next
    case False
    then show ?thesis using "1.prems" by (subst fill_fast.simps) simp
  qed
qed

text \<open>The entry of a symbol in the fast table, and the tables after the first \<open>i\<close> symbols.\<close>

definition fast_entry :: "nat list \<Rightarrow> nat \<Rightarrow> nat" where
  "fast_entry xs j = 512 * (xs ! j) + j"

definition filled :: "nat \<Rightarrow> nat list \<Rightarrow> zhuffman \<Rightarrow> bool" where
  "filled i xs z \<longleftrightarrow>
     (\<forall>j < i. xs ! j \<noteq> 0 \<longrightarrow> zsize z ! slot xs j = xs ! j \<and> zvalue z ! slot xs j = j) \<and>
     (\<forall>e < 512. \<forall>j < i. starts xs e j \<and> xs ! j \<le> 9 \<longrightarrow> fast z ! e = fast_entry xs j) \<and>
     (\<forall>e < 512. fast z ! e \<noteq> 0 \<longrightarrow> (\<exists>j < i. starts xs e j \<and> xs ! j \<le> 9 \<and> fast z ! e = fast_entry xs j))"

definition coded :: "nat list \<Rightarrow> zhuffman \<Rightarrow> bool" where
  "coded xs z \<longleftrightarrow> shaped z \<and> maxcode z ! 16 = 65536 \<and>
     (\<forall>s \<in> {1..<16}. firstcode z ! s = first_code xs s \<and> firstsymbol z ! s = first_symbol xs s \<and>
        maxcode z ! s = (first_code xs s + cnt xs s) * 2 ^ (16 - s))"

lemma fast_entry_word:
  fixes s i :: nat
  assumes "s < 16" and "i < 288"
  shows "(push_bit 9 s OR i) mod 2 ^ 16 = 512 * s + i"
proof -
  have "i OR push_bit 9 s = i + 2 ^ 9 * s" using assms(2) by (intro or_push_bit) simp
  then show ?thesis using assms by (simp add: or.commute)
qed

lemma starts_iff:
  assumes "fits xs" and "i < length xs" and "xs ! i \<noteq> 0" and "xs ! i < 16"
  shows "starts xs e i \<longleftrightarrow> e mod 2 ^ (xs ! i) = unat (bit_reverse (of_nat (code_of xs i)) (xs ! i))"
    and "code_of xs i < 2 ^ (xs ! i)"
    and "unat (bit_reverse (of_nat (code_of xs i)) (xs ! i)) < 2 ^ (xs ! i)"
proof -
  let ?s = "xs ! i" and ?c = "code_of xs i"
  show c: "?c < 2 ^ ?s"
    using code_bounds(2) [OF assms(2,3)] fits_bound [OF assms(1,4)] by linarith
  have "(2 :: nat) ^ ?s < 2 ^ 32" using assms(4) by (intro power_strict_increasing) simp_all
  then have u: "unat (of_nat ?c :: u32) = ?c"
    using c by (simp add: unat_of_nat take_bit_nat_eq_self)
  have r: "unat (bit_reverse (of_nat ?c) ?s) = rev_bits ?s ?c"
    using assms(4) by (simp add: bit_reverse_value u)
  show "unat (bit_reverse (of_nat ?c) ?s) < 2 ^ ?s" unfolding r by (rule rev_bits_less)
  have "e mod 2 ^ ?s = rev_bits ?s ?c \<longleftrightarrow> rev_bits ?s e = ?c"
    using rev_bits_rev [of ?s e] rev_bits_rev [of ?s ?c] c rev_bits_mod [of ?s ?s e]
    by (metis mod_less order_refl)
  then show "starts xs e i \<longleftrightarrow> e mod 2 ^ ?s = unat (bit_reverse (of_nat ?c) ?s)"
    using assms(2,3) unfolding r by (auto simp: starts_def)
qed

lemma starts_mod:
  assumes "xs ! i \<le> t"
  shows "starts xs (n mod 2 ^ t) i \<longleftrightarrow> starts xs n i"
  using assms by (simp add: starts_def rev_bits_mod)

text \<open>The tables after the symbol \<open>i\<close> has been entered.\<close>

definition with_symbol :: "nat list \<Rightarrow> nat \<Rightarrow> zhuffman \<Rightarrow> zhuffman" where
  "with_symbol xs i z = z\<lparr>zsize := (zsize z)[slot xs i := xs ! i], zvalue := (zvalue z)[slot xs i := i],
     fast := (if xs ! i \<le> 9 then fill_fast (unat (bit_reverse (of_nat (code_of xs i)) (xs ! i))) (xs ! i) (fast_entry xs i) (fast z)
              else fast z)\<rparr>"

lemma with_symbol_fast:
  assumes "fits xs" and "i < length xs" and "xs ! i \<noteq> 0" and "xs ! i < 16" and "shaped z" and "e < 512"
  shows "fast (with_symbol xs i z) ! e = (if starts xs e i \<and> xs ! i \<le> 9 then fast_entry xs i else fast z ! e)"
proof (cases "xs ! i \<le> 9")
  case True
  let ?r = "unat (bit_reverse (of_nat (code_of xs i)) (xs ! i))"
  note st = starts_iff [OF assms(1-4)]
  have "(?r \<le> e \<and> e mod 2 ^ (xs ! i) = ?r mod 2 ^ (xs ! i)) \<longleftrightarrow> e mod 2 ^ (xs ! i) = ?r"
    using st(3) by (metis mod_less mod_less_eq_dividend)
  then show ?thesis using True st(1) assms(5,6) by (simp add: with_symbol_def fill_fast_nth shaped_def)
qed (simp add: with_symbol_def)

lemma with_symbol_filled:
  assumes "fits xs" and "length xs \<le> 288" and "i < length xs" and "xs ! i \<noteq> 0" and "xs ! i < 16" and "shaped z" and "filled i xs z"
  shows "filled (Suc i) xs (with_symbol xs i z)"
  unfolding filled_def
proof (intro conjI allI impI)
  note fast = with_symbol_fast [OF assms(1,3-6)]
  fix j assume j: "j < Suc i" "xs ! j \<noteq> 0"
  have "slot xs j \<noteq> slot xs i" if "j \<noteq> i" using slot_inj [of j xs i] that j assms(3,4) by auto
  then show "zsize (with_symbol xs i z) ! slot xs j = xs ! j" "zvalue (with_symbol xs i z) ! slot xs j = j"
    using j assms(6,7) slot_less [OF assms(3,4)] assms(2) unfolding filled_def shaped_def with_symbol_def by (cases "j = i"; simp)+
next
  fix e j assume e: "e < 512" and j: "j < Suc i" "starts xs e j \<and> xs ! j \<le> 9"
  show "fast (with_symbol xs i z) ! e = fast_entry xs j"
  proof (cases "j = i")
    case False
    then have "\<not> starts xs e i" "j < i" using starts_unique j by (blast, simp)
    then show ?thesis using with_symbol_fast [OF assms(1,3-6) e] j(2) e assms(7) unfolding filled_def by simp
  qed (use with_symbol_fast [OF assms(1,3-6) e] j(2) in simp)
next
  fix e assume e: "e < 512" and nz: "fast (with_symbol xs i z) ! e \<noteq> 0"
  show "\<exists>j < Suc i. starts xs e j \<and> xs ! j \<le> 9 \<and> fast (with_symbol xs i z) ! e = fast_entry xs j"
  proof (cases "starts xs e i \<and> xs ! i \<le> 9")
    case False
    then have f: "fast (with_symbol xs i z) ! e = fast z ! e" unfolding with_symbol_fast [OF assms(1,3-6) e] by (rule if_not_P)
    then obtain j where "j < i" "starts xs e j \<and> xs ! j \<le> 9 \<and> fast z ! e = fast_entry xs j"
      using nz e assms(7) unfolding filled_def by metis
    then show ?thesis unfolding f using less_Suc_eq by blast
  qed (use with_symbol_fast [OF assms(1,3-6) e] in auto)
qed

lemma fill_tables_symbol:
  assumes "length xs \<le> 288" and "i < length xs" and "xs ! i \<noteq> 0" and "xs ! i < 16" and "coded xs z" and "nc ! (xs ! i) = code_of xs i"
  shows "fill_tables i (drop i xs) nc z =
    fill_tables (Suc i) (drop (Suc i) xs) (nc[xs ! i := code_of xs i + 1]) (with_symbol xs i z)"
proof -
  have d: "drop i xs = xs ! i # drop (Suc i) xs" using assms(2) by (rule Cons_nth_drop_Suc [symmetric])
  have "firstcode z ! (xs ! i) = first_code xs (xs ! i)" "firstsymbol z ! (xs ! i) = first_symbol xs (xs ! i)"
    using assms(3-5) by (simp_all add: coded_def)
  then have c: "int (nc ! (xs ! i)) - int (firstcode z ! (xs ! i)) + int (firstsymbol z ! (xs ! i)) = int (slot xs i)"
    by (simp add: assms(6) code_of_def slot_def)
  have fe: "(push_bit 9 (xs ! i) OR i) mod 2 ^ 16 = fast_entry xs i"
    using fast_entry_word [OF assms(4), of i] assms(1,2) by (simp add: fast_entry_def)
  have "(xs ! i) mod 2 ^ 8 = xs ! i" "i mod 2 ^ 16 = i" using assms(1,2,4) by simp_all
  moreover have "\<not> (int (slot xs i) < 0 \<or> 288 \<le> int (slot xs i))" using slot_less [OF assms(2,3)] assms(1) by simp
  ultimately show ?thesis
    using assms(3,4) unfolding d fill_tables.simps Let_def c fe with_symbol_def by (simp add: assms(6))
qed

lemma fill_tables_eq:
  assumes "fits xs" and "length xs \<le> 288" and "\<And>x. x \<in> set xs \<Longrightarrow> x < 16"
    and "i \<le> length xs" and "coded xs z" and "filled i xs z" and "length nc = 16"
    and "\<forall>s \<in> {1..<16}. nc ! s = first_code xs s + count_list (take i xs) s"
  shows "\<exists>z'. fill_tables i (drop i xs) nc z = Inr z' \<and> coded xs z' \<and> filled (length xs) xs z'"
  using assms(4-)
proof (induction "length xs - i" arbitrary: i nc z)
  case 0
  then show ?case by simp
next
  case (Suc m)
  then have i: "i < length xs" by simp
  have m: "m = length xs - Suc i" "Suc i \<le> length xs" using Suc.hyps(2) i by simp_all
  show ?case
  proof (cases "xs ! i = 0")
    case True
    have nc: "\<forall>s \<in> {1..<16}. nc ! s = first_code xs s + count_list (take (Suc i) xs) s"
      using Suc.prems(5) True by (auto simp: count_take_Suc [OF i])
    have "filled (Suc i) xs z"
      using Suc.prems(3) True unfolding filled_def starts_def by (auto simp: less_Suc_eq)
    from Suc.hyps(1) [OF m Suc.prems(2) this Suc.prems(4) nc] show ?thesis
      by (simp add: Cons_nth_drop_Suc [OF i, symmetric] True)
  next
    case False
    have s: "xs ! i < 16" "1 \<le> xs ! i" using assms(3) [of "xs ! i"] i False by simp_all
    have code: "nc ! (xs ! i) = code_of xs i" using Suc.prems(5) s by (simp add: code_of_def rank_def)
    have "coded xs (with_symbol xs i z)" using Suc.prems(2) by (simp add: coded_def shaped_def with_symbol_def)
    moreover have "filled (Suc i) xs (with_symbol xs i z)"
      using with_symbol_filled [OF assms(1,2) i False s(1)] Suc.prems(2,3) by (simp add: coded_def)
    moreover have "\<forall>s \<in> {1..<16}. nc[xs ! i := code_of xs i + 1] ! s = first_code xs s + count_list (take (Suc i) xs) s"
      using Suc.prems(4,5) s code by (auto simp: nth_list_update count_take_Suc [OF i])
    ultimately show ?thesis
      using Suc.hyps(1) [OF m, of "with_symbol xs i z" "nc[xs ! i := code_of xs i + 1]"] Suc.prems(4)
      unfolding fill_tables_symbol [OF assms(2) i False s(1) Suc.prems(2) code] by simp
  qed
qed

subsection \<open>Building\<close>

definition table_for :: "nat list \<Rightarrow> zhuffman \<Rightarrow> bool" where
  "table_for xs z \<longleftrightarrow> fits xs \<and> length xs \<le> 288 \<and> (\<forall>x \<in> set xs. x < 16) \<and> coded xs z \<and>
     filled (length xs) xs z"

lemma zbuild_huffman_cases:
  assumes "shaped z" and "length xs \<le> 288" and "\<forall>x \<in> set xs. x < 16"
  shows "if fits xs then \<exists>z'. zbuild_huffman z xs = Inr z' \<and> table_for xs z'
    else zbuild_huffman z xs \<in> {Inl (Err ''bad sizes''), Inl (Err ''bad codelengths'')}"
proof -
  let ?sizes = "map (cnt xs) [0..<17]"
  have lt: "x < 17" "x < 16" if "x \<in> set xs" for x using assms(3) that by force+
  have c: "count_sizes xs (replicate 17 0) = Inr ?sizes"
    by (rule count_sizes_cnt) (rule lt)
  have sz: "?sizes ! s = cnt xs s" if "s < 17" for s using that by (simp del: upt.simps)
  let ?bad = "list_ex (\<lambda>i. 2 ^ i < ?sizes ! i) [1..<16]"
  have bad: "?bad \<longleftrightarrow> (\<exists>i \<in> {1..<16}. 2 ^ i < cnt xs i)"
    by (auto simp: list_ex_iff sz simp del: upt.simps)
  let ?z = "z\<lparr>fast := replicate 512 0\<rparr>"
  have sh: "shaped ?z" using assms(1) by (simp add: shaped_def)
  have fc1: "first_code xs 1 = 0" "first_symbol xs 1 = 0" by (simp_all add: cnt_def)
  have start: "if \<forall>s \<in> {1..<16}. cnt xs s \<noteq> 0 \<longrightarrow> first_code xs s + cnt xs s \<le> 2 ^ s
    then \<exists>nc' z'. assign_codes [1..<16] ?sizes (first_code xs 1) (first_symbol xs 1) (replicate 16 0) ?z = Inr (nc', z') \<and>
      codes_from 1 xs nc' z'
    else assign_codes [1..<16] ?sizes (first_code xs 1) (first_symbol xs 1) (replicate 16 0) ?z = Inl (Err ''bad codelengths'')"
    by (rule assign_codes_eq [OF _ _ sz sh _ assms(2)]) (simp_all add: cnt_def del: upt.simps)
  have b: "zbuild_huffman z xs = (if ?bad then Inl (Err ''bad sizes'')
      else case assign_codes [1..<16] ?sizes 0 0 (replicate 16 0) ?z of
        Inl e \<Rightarrow> Inl e | Inr (next_code, z) \<Rightarrow> fill_tables 0 xs next_code z)"
    unfolding zbuild_huffman_def c sum.case by (rule refl)
  show ?thesis
  proof (cases "fits xs")
    case False
    then have "assign_codes [1..<16] ?sizes 0 0 (replicate 16 0) ?z = Inl (Err ''bad codelengths'')"
      using start unfolding fits_def fc1 by (simp only: if_False)
    then show ?thesis using False unfolding b by (auto simp del: upt.simps)
  next
    case True
    have "\<not> 2 ^ s < cnt xs s" if "s \<in> {1..<16}" for s
      using fits_bound [OF True, of s] that by (simp add: not_less)
    then have nb: "\<not> ?bad" unfolding bad by blast
    obtain nc z1 where a: "assign_codes [1..<16] ?sizes 0 0 (replicate 16 0) ?z = Inr (nc, z1)"
      and cf: "codes_from 1 xs nc z1"
      using start unfolding if_P [OF True [unfolded fits_def]] fc1 by blast
    have s1: "shaped z1" "length nc = 16" "maxcode z1 ! 16 = 65536" "fast z1 = replicate 512 0"
      using assign_codes_shape [OF a sh] by simp_all
    have co: "coded xs z1" using s1 cf by (simp add: coded_def codes_from_def)
    have fi: "filled 0 xs z1" by (simp add: filled_def s1)
    have nc: "\<forall>s \<in> {1..<16}. nc ! s = first_code xs s + count_list (take 0 xs) s"
      using cf by (simp add: codes_from_def)
    obtain z' where "fill_tables 0 (drop 0 xs) nc z1 = Inr z'" "coded xs z'" "filled (length xs) xs z'"
      using fill_tables_eq [OF True assms(2) lt(2) _ co fi s1(2) nc] by auto
    then have "zbuild_huffman z xs = Inr z' \<and> table_for xs z'"
      using True assms(2,3) nb a unfolding b if_not_P [OF nb] table_for_def by simp
    then show ?thesis using True by auto
  qed
qed

subsection \<open>Decoding\<close>

lemma decode_prepare:
  assumes "bits_ok a"
  defines "b \<equiv> if num_bits a < 16 then refilled a else a"
  shows "bits_ok b" and "16 \<le> num_bits b" and "zstream b = zstream a" and "same_output a b"
  using refilled_ok [OF assms(1)] assms by (auto simp: same_output_refl)

lemma slow_search:
  assumes "l \<le> 16" and "\<And>s. s \<in> {l..<16} \<Longrightarrow> maxcode z ! s = m s" and "maxcode z ! 16 = 65536" and "k < 65536"
  shows "\<exists>s \<in> {l..16}. find_length k (maxcode z) [l..<17] = Some s \<and> (\<forall>t \<in> {l..<s}. m t \<le> k) \<and>
    (s < 16 \<longrightarrow> k < m s)"
  using assms(1,2)
proof (induction "16 - l" arbitrary: l)
  case 0
  then show ?case using assms(3,4) by (simp add: upt_rec)
next
  case (Suc d)
  then have l: "l < 16" by simp
  have u: "[l..<17] = l # [Suc l..<17]" using l by (intro upt_conv_Cons) simp
  show ?case
  proof (cases "k < m l")
    case True
    then show ?thesis using l Suc.prems(2) [of l] u by (intro bexI [of _ l]) auto
  next
    case False
    have d: "d = 16 - Suc l" using Suc.hyps(2) by simp
    obtain s where s: "s \<in> {Suc l..16}" "find_length k (maxcode z) [Suc l..<17] = Some s"
      "\<forall>t \<in> {Suc l..<s}. m t \<le> k" "s < 16 \<longrightarrow> k < m s"
      using Suc.hyps(1) [OF d] Suc.prems l by auto
    have "\<forall>t \<in> {l..<s}. m t \<le> k"
      using s(3) False by (metis atLeastLessThan_iff le_neq_implies_less not_less Suc_leI)
    moreover have "find_length k (maxcode z) [l..<17] = Some s"
      using False s(2) Suc.prems(2) [of l] l by (simp add: u)
    ultimately show ?thesis using s(1,4) by (intro bexI [of _ s]) auto
  qed
qed

lemma mask9: "push_bit 9 1 - 1 = (511 :: u32)"
  by (simp add: push_bit_eq_mult)

lemma fast_entry_split:
  assumes "j < 512"
  shows "fast_entry xs j AND 511 = j" and "drop_bit 9 (fast_entry xs j) = xs ! j"
proof -
  have "fast_entry xs j AND 511 = fast_entry xs j mod 2 ^ 9"
    using take_bit_eq_mask [of 9 "fast_entry xs j"] take_bit_eq_mod [of 9 "fast_entry xs j"]
    by (simp add: mask_eq_exp_minus_1)
  then show "fast_entry xs j AND 511 = j" using assms by (simp add: fast_entry_def)
  show "drop_bit 9 (fast_entry xs j) = xs ! j"
    using assms by (simp add: fast_entry_def drop_bit_eq_div)
qed

lemma stream_low:
  assumes "n \<le> num_bits a"
  shows "zstream a mod 2 ^ n = unat (code_buffer a) mod 2 ^ n"
proof -
  obtain k where "num_bits a = n + k" using assms le_Suc_ex by blast
  then show ?thesis by (simp add: zstream_def power_add mult.assoc)
qed

text \<open>The loop over the lengths stops at the first one whose codes lie beyond the stream; no shorter code starts it.\<close>

lemma slow_length:
  assumes t: "table_for xs z" and none: "\<And>i. starts xs N i \<Longrightarrow> 9 < xs ! i"
  obtains s where "10 \<le> s" and "s \<le> 16" and "find_length (rev_bits 16 N) (maxcode z) [10..<17] = Some s"
    and "s < 16 \<Longrightarrow> rev_bits s N < first_code xs s + cnt xs s" and "\<And>i. starts xs N i \<Longrightarrow> s \<le> xs ! i"
proof -
  define k where "k = rev_bits 16 N"
  let ?m = "\<lambda>s. (first_code xs s + cnt xs s) * 2 ^ (16 - s)"
  have m_le: "?m s \<le> k \<longleftrightarrow> first_code xs s + cnt xs s \<le> rev_bits s N" if "s \<le> 16" for s
    using rev_bits_div [OF that, of N] by (simp add: k_def flip: less_eq_div_iff_mult_less_eq)
  have "k < 65536" using rev_bits_less [of 16 N] by (simp add: k_def)
  then have "\<exists>s \<in> {10..16}. find_length k (maxcode z) [10..<17] = Some s \<and> (\<forall>t \<in> {10..<s}. ?m t \<le> k) \<and> (s < 16 \<longrightarrow> k < ?m s)"
    by (intro slow_search) (use t in \<open>auto simp: coded_def table_for_def\<close>)
  then obtain s where s: "10 \<le> s" "s \<le> 16" "find_length k (maxcode z) [10..<17] = Some s"
    "\<forall>t \<in> {10..<s}. ?m t \<le> k" "s < 16 \<longrightarrow> k < ?m s"
    by auto
  have "s \<le> xs ! i" if st: "starts xs N i" for i
  proof (rule ccontr)
    assume "\<not> s \<le> xs ! i"
    then have "xs ! i \<in> {10..<s}" using none [OF st] by simp
    then have "first_code xs (xs ! i) + cnt xs (xs ! i) \<le> rev_bits (xs ! i) N" using s(2,4) m_le [of "xs ! i"] by simp
    then show False using st code_bounds(2) [of i xs] by (simp add: starts_def)
  qed
  moreover have "rev_bits s N < first_code xs s + cnt xs s" if "s < 16"
    using s(5) that m_le [of s] by (simp add: not_le [symmetric])
  ultimately show thesis using that [of s] s(1-3) by (simp add: k_def)
qed

text \<open>The symbol whose code of this length starts the stream.\<close>

lemma symbol_at_length:
  assumes "rev_bits s N < first_code xs s + cnt xs s" and "\<And>i. starts xs N i \<Longrightarrow> s \<le> xs ! i" and "fits xs" and "0 < s" and "s < 16"
  obtains i where "i < length xs" and "xs ! i = s" and "starts xs N i" and "rev_bits s N = first_code xs s + rank xs i"
proof -
  obtain u where u: "s = Suc u" using assms(4) by (cases s) auto
  have "first_code xs u + cnt xs u \<le> rev_bits u N"
    by (rule behind_codes) (use assms(2,3,5) u in \<open>simp_all add: Suc_le_eq\<close>)
  then have lo: "first_code xs s \<le> rev_bits s N" unfolding u by simp
  then have "rev_bits s N - first_code xs s < count_list xs s" using assms(1,4) by (simp add: cnt_def)
  then obtain i where i: "i < length xs" "xs ! i = s" "rank xs i = rev_bits s N - first_code xs s"
    using rank_exists by blast
  have "starts xs N i" using i assms(4) lo by (simp add: starts_def code_of_def)
  then show thesis using that i lo by simp
qed

lemma slow_path:
  assumes t: "table_for xs z" and "bits_ok a" and "16 \<le> num_bits a"
    and none: "\<And>i. starts xs (zstream a) i \<Longrightarrow> 9 < xs ! i"
  shows "(\<exists>i. starts xs (zstream a) i \<and>
       zhuffman_decode_slowpath z a = (Inr (Some i), drop_bits (xs ! i) a)) \<or>
    ((\<forall>i. \<not> starts xs (zstream a) i) \<and> zhuffman_decode_slowpath z a = (Inr None, a))"
proof -
  let ?N = "zstream a"
  have co: "coded xs z" and fit: "fits xs" and fi: "filled (length xs) xs z"
    and len: "length xs \<le> 288" and l16: "\<forall>x \<in> set xs. x < 16"
    using t by (simp_all add: table_for_def)
  have k: "unat (bit_reverse (code_buffer a) 16) = rev_bits 16 ?N"
    using bit_reverse_value [of 16 "code_buffer a"] stream_low [OF assms(3)]
      rev_bits_mod [of 16 16 ?N] rev_bits_mod [of 16 16 "unat (code_buffer a)"]
    by (simp only:)
  obtain s where s: "10 \<le> s" "s \<le> 16" "find_length (rev_bits 16 ?N) (maxcode z) [10..<17] = Some s"
    "s < 16 \<Longrightarrow> rev_bits s ?N < first_code xs s + cnt xs s" "\<And>i. starts xs ?N i \<Longrightarrow> s \<le> xs ! i"
    using slow_length [OF t none] by blast
  show ?thesis
  proof (cases "s = 16")
    case True
    have "\<not> starts xs ?N i" for i
    proof
      assume st: "starts xs ?N i"
      then have "xs ! i < 16" using l16 by (auto simp: starts_def)
      then show False using s(5) [OF st] True by simp
    qed
    moreover have "zhuffman_decode_slowpath z a = (Inr None, a)"
      using s(3) True by (simp add: zhuffman_decode_slowpath_def k Let_def del: upt_rec_numeral)
    ultimately show ?thesis by blast
  next
    case False
    then have s16: "s < 16" "0 < s" using s(1,2) by simp_all
    obtain i where i: "i < length xs" "xs ! i = s" "starts xs ?N i" "rev_bits s ?N = first_code xs s + rank xs i"
      using symbol_at_length [OF s(4) [OF s16(1)] s(5) fit s16(2,1)] .
    have fc: "firstcode z ! s = first_code xs s" "firstsymbol z ! s = first_symbol xs s"
      using co s16 by (simp_all add: coded_def)
    have b: "int (rev_bits 16 ?N div 2 ^ (16 - s)) - int (firstcode z ! s) + int (firstsymbol z ! s) = int (slot xs i)"
      using rev_bits_div [OF s(2), of ?N] i(2,4) fc by (simp add: slot_def)
    have nz: "xs ! i \<noteq> 0" using i(2) s16(2) by simp
    have sl: "slot xs i < 288" using slot_less [OF i(1) nz] len by simp
    have va: "zsize z ! slot xs i = s" "zvalue z ! slot xs i = i"
      using fi i(1,2) nz unfolding filled_def by auto
    have "zhuffman_decode_slowpath z a = (Inr (Some i), drop_bits (xs ! i) a)"
      unfolding zhuffman_decode_slowpath_def k Let_def s(3) option.case
      using False by (simp only: if_False b nat_int va i(2)) (use sl in simp)
    then show ?thesis using i(3) by blast
  qed
qed

lemma decode_cases:
  assumes t: "table_for xs z" and ok: "bits_ok a"
  shows "(\<exists>i a'. starts xs (zstream a) i \<and> zhuffman_decode z a = (Inr (Some i), a') \<and>
       zstream a' = zstream a div 2 ^ (xs ! i) \<and> bits_ok a' \<and> same_output a a') \<or>
    ((\<forall>i. \<not> starts xs (zstream a) i) \<and>
     (\<exists>a'. zhuffman_decode z a = (Inr None, a') \<and> zstream a' = zstream a \<and> bits_ok a' \<and> same_output a a'))"
proof -
  let ?a = "if num_bits a < 16 then refilled a else a"
  note p = decode_prepare [OF ok]
  let ?N = "zstream a"
  have fi: "filled (length xs) xs z" and len: "length xs \<le> 288" and l16: "\<forall>x \<in> set xs. x < 16"
    using t by (simp_all add: table_for_def)
  have ix: "unat (code_buffer ?a AND 511) = ?N mod 512"
    using take_bits_stream(1) [OF p(1), of 9] p(2,3) mask9 by simp
  have after: "zstream (drop_bits (xs ! i) ?a) = ?N div 2 ^ (xs ! i) \<and> bits_ok (drop_bits (xs ! i) ?a) \<and>
      same_output a (drop_bits (xs ! i) ?a)" if "starts xs ?N i" for i
  proof -
    have "xs ! i < 16" using that l16 by (auto simp: starts_def)
    then have "xs ! i \<le> num_bits ?a" using p(2) by simp
    from take_bits_stream(2-4) [OF p(1) this] p(3,4) show ?thesis
      using same_output_trans by metis
  qed
  show ?thesis
  proof (cases "fast z ! (?N mod 512) = 0")
    case False
    have "?N mod 512 < 512" by simp
    then obtain j where j: "j < length xs" "starts xs (?N mod 512) j" "xs ! j \<le> 9"
      "fast z ! (?N mod 512) = fast_entry xs j"
      using False fi unfolding filled_def by metis
    have st: "starts xs ?N j" using starts_mod [OF j(3), of ?N] j(2) by simp
    have "j < 512" using j(1) len by simp
    then have "zhuffman_decode z a = (Inr (Some j), drop_bits (xs ! j) ?a)"
      using False fast_entry_split [of j xs] by (simp add: zhuffman_decode_eq [OF ok] Let_def ix j(4) flip: j(4))
    then show ?thesis using st after [OF st] by blast
  next
    case True
    have "9 < xs ! i" if st: "starts xs ?N i" for i
    proof (rule ccontr)
      assume "\<not> 9 < xs ! i"
      then have le: "xs ! i \<le> 9" by simp
      then have "starts xs (?N mod 512) i" using starts_mod [OF le, of ?N] st by simp
      moreover have "i < length xs" using st by (simp add: starts_def)
      moreover have "?N mod 512 < 512" by simp
      ultimately have "fast z ! (?N mod 512) = fast_entry xs i"
        using fi le unfolding filled_def by blast
      then show False using True st by (auto simp: fast_entry_def starts_def)
    qed
    then have "\<And>i. starts xs (zstream ?a) i \<Longrightarrow> 9 < xs ! i" using p(3) by simp
    note sp = slow_path [OF t p(1,2) this]
    have d: "zhuffman_decode z a = zhuffman_decode_slowpath z ?a"
      using True by (simp add: zhuffman_decode_eq [OF ok] Let_def ix)
    from sp show ?thesis
      unfolding d p(3) using after p by blast
  qed
qed

end
