(* ===== verification/ZlibSafe.thy ===== *)
theory ZlibSafe
  imports ZlibTables
begin

text \<open>
  The zlib decoder stays inside its buffers: a triple \<open>zvalid P m Q\<close> says that from a state
  in \<open>P\<close> the step \<open>m\<close> returns with \<open>Q\<close>, or fails with an error that is allowed. The allowed
  undefined behaviours are the four that the code does have.
\<close>

definition hazards :: "string set" where
  "hazards = {''lencodes'', ''lencodes[-1]'', ''reads unwritten output'', ''int overflow''}"

fun allowed :: "stb_err \<Rightarrow> bool" where
  "allowed (Undefined x) = (x \<in> hazards)"
| "allowed (Err x) = True"
| "allowed OutOfFuel = True"

definition zvalid :: "(zbuf \<Rightarrow> bool) \<Rightarrow> 'a zm \<Rightarrow> ('a \<Rightarrow> zbuf \<Rightarrow> bool) \<Rightarrow> bool" where
  "zvalid P m Q \<longleftrightarrow> (\<forall>a. P a \<longrightarrow> (case m a of (Inl e, a') \<Rightarrow> allowed e | (Inr v, a') \<Rightarrow> Q v a'))"

named_theorems zvalid_intros \<open>rules for triples\<close>

lemma zvalidI:
  assumes "\<And>a. P a \<Longrightarrow> (\<exists>e a'. m a = (Inl e, a') \<and> allowed e) \<or> (\<exists>v a'. m a = (Inr v, a') \<and> Q v a')"
  shows "zvalid P m Q"
  unfolding zvalid_def using assms by (auto split: prod.split sum.split) fastforce+

lemma zvalid_bind [zvalid_intros]:
  assumes "zvalid P m Q" and "\<And>v. zvalid (Q v) (k v) R"
  shows "zvalid P (bindE m k) R"
  unfolding zvalid_def
proof (intro allI impI)
  fix a assume "P a"
  then have m: "case m a of (Inl e, a') \<Rightarrow> allowed e | (Inr v, a') \<Rightarrow> Q v a'"
    using assms(1) by (simp add: zvalid_def)
  show "case bindE m k a of (Inl e, a') \<Rightarrow> allowed e | (Inr v, a') \<Rightarrow> R v a'"
  proof (cases "m a")
    case (Pair r a')
    show ?thesis
    proof (cases r)
      case (Inl e)
      then show ?thesis using Pair m by (simp add: bindE_def)
    next
      case (Inr v)
      then have "Q v a'" using Pair m by simp
      then show ?thesis using assms(2) [of v] Pair Inr by (simp add: bindE_def zvalid_def)
    qed
  qed
qed

lemma zvalid_return: "(\<And>a. P a \<Longrightarrow> Q v a) \<Longrightarrow> zvalid P (returnE v) Q"
  by (simp add: zvalid_def)

lemma zvalid_throw [zvalid_intros]: "allowed e \<Longrightarrow> zvalid P (throwE e) Q"
  by (simp add: zvalid_def)

lemma zvalid_run: "(\<And>a. P a \<Longrightarrow> Q (fst (f a)) (snd (f a))) \<Longrightarrow> zvalid P (runE f) Q"
  by (simp add: zvalid_def runE_apply)

lemma zvalid_modify: "(\<And>a. P a \<Longrightarrow> Q () (f a)) \<Longrightarrow> zvalid P (modifyE f) Q"
  by (simp add: zvalid_def)

lemma zvalid_if: "(b \<Longrightarrow> zvalid P m Q) \<Longrightarrow> (\<not> b \<Longrightarrow> zvalid P n Q) \<Longrightarrow> zvalid P (if b then m else n) Q"
  by simp

lemma zvalid_pre: "zvalid P' m Q \<Longrightarrow> (\<And>a. P a \<Longrightarrow> P' a) \<Longrightarrow> zvalid P m Q"
  by (simp add: zvalid_def)

lemma zvalid_fixed: "(\<And>x. zvalid (\<lambda>a. P a \<and> a = x) m Q) \<Longrightarrow> zvalid P m Q"
  by (simp add: zvalid_def)

lemma zvalid_dest:
  "zvalid P m Q \<Longrightarrow> P a \<Longrightarrow> m a = (r, a') \<Longrightarrow> (case r of Inl e \<Rightarrow> allowed e | Inr v \<Rightarrow> Q v a')"
  unfolding zvalid_def by (auto split: prod.splits sum.splits)

subsection \<open>The invariant\<close>

definition out_ok :: "zbuf \<Rightarrow> bool" where
  "out_ok a \<longleftrightarrow> length (written a) \<le> capacity a"

definition zok :: "zbuf \<Rightarrow> bool" where
  "zok a \<longleftrightarrow> bits_ok a \<and> out_ok a \<and> shaped (z_length a) \<and> shaped (z_distance a)"

text \<open>With tables built for the current block; lengths have up to 288 symbols, distances 32.\<close>

definition zready :: "zbuf \<Rightarrow> bool" where
  "zready a \<longleftrightarrow> zok a \<and> (\<exists>xs. table_for xs (z_length a)) \<and>
     (\<exists>ys. length ys \<le> 32 \<and> table_for ys (z_distance a))"

lemma same_output_inv:
  assumes "same_output a b" and "bits_ok b"
  shows "zok a \<Longrightarrow> zok b" and "zready a \<Longrightarrow> zready b"
  using assms by (auto simp: zok_def zready_def same_output_def out_ok_def)

lemma received_inv:
  assumes "n \<le> 25"
  shows "zok a \<Longrightarrow> zok (snd (received n a))" and "zready a \<Longrightarrow> zready (snd (received n a))"
  using received_ok(3,4) [of a n] assms same_output_inv
  by (auto simp: zok_def zready_def)

lemma received_less:
  assumes "zok a" and "n \<le> 25"
  shows "unat (fst (received n a)) < 2 ^ n"
  using received_ok(1) [of a n] assms by (simp add: zok_def)

lemma zvalid_zreceive:
  assumes "n \<le> 25" and "I = zok \<or> I = zready"
  shows "zvalid I (zreceive n) (\<lambda>x a. I a \<and> unat x < 2 ^ n)"
proof (rule zvalidI)
  fix a assume I: "I a"
  then have "zok a" using assms(2) by (auto simp: zready_def)
  then have "bits_ok a" by (simp add: zok_def)
  then show "(\<exists>e a'. zreceive n a = (Inl e, a') \<and> allowed e) \<or> (\<exists>v a'. zreceive n a = (Inr v, a') \<and> I a' \<and> unat v < 2 ^ n)"
    using zreceive_eq [OF _ assms(1)] received_inv [OF assms(1)] received_less [OF \<open>zok a\<close> assms(1)] I assms(2) by auto
qed

lemma zvalid_decode:
  assumes "table_for xs z" and "I = zok \<or> I = zready"
  shows "zvalid I (zhuffman_decode z) (\<lambda>sym a. I a \<and> (\<forall>i. sym = Some i \<longrightarrow> i < length xs))"
proof (rule zvalidI)
  fix a assume I: "I a"
  then have ok: "bits_ok a" using assms(2) by (auto simp: zok_def zready_def)
  from decode_cases [OF assms(1) ok]
  show "(\<exists>e a'. zhuffman_decode z a = (Inl e, a') \<and> allowed e) \<or>
    (\<exists>v a'. zhuffman_decode z a = (Inr v, a') \<and> I a' \<and> (\<forall>i. v = Some i \<longrightarrow> i < length xs))"
    using same_output_inv I assms(2) by (auto simp: starts_def)
qed

subsection \<open>Output\<close>

lemma grow_result:
  assumes "grow need limit = Some l"
  shows "need \<le> l \<and> limit \<le> l"
proof (rule grow.raw_induct [OF _ assms], goal_cases)
  case (1 f need limit l)
  show ?case
  proof (cases "limit < need")
    case True
    then have "f need (2 * limit) = Some l" using 1(2) by simp
    from 1(1) [OF this] show ?thesis by linarith
  next
    case False
    then show ?thesis using 1(2) by simp
  qed
qed

lemma grow_zero_only:
  assumes "grow need limit = Some l"
  shows "limit = 0 \<longrightarrow> need = 0"
proof (rule grow.raw_induct [OF _ assms], goal_cases)
  case (1 f need limit l)
  show ?case
  proof
    assume z: "limit = 0"
    show "need = 0"
    proof (rule ccontr)
      assume "need \<noteq> 0"
      then have "f need (2 * limit) = Some l" using 1(2) z by simp
      from 1(1) [OF this] z \<open>need \<noteq> 0\<close> show False by simp
    qed
  qed
qed

lemma grow_total: "0 < limit \<Longrightarrow> \<exists>l. grow need limit = Some l"
proof (induction "need - limit" arbitrary: limit rule: less_induct)
  case less
  show ?case
  proof (cases "limit < need")
    case True
    then have "need - 2 * limit < need - limit" "0 < 2 * limit" using less.prems by linarith+
    from less.hyps [OF this] show ?thesis using True by (subst grow.simps) simp
  next
    case False
    then show ?thesis by (subst grow.simps) simp
  qed
qed

lemma grow_zero: "0 < need \<Longrightarrow> grow need 0 = None"
  using grow_zero_only [of need 0] by (cases "grow need 0") auto

lemma zvalid_ensure_room_frame:
  assumes "I = zok \<or> I = zready"
  shows "zvalid (\<lambda>a. I a \<and> R (written a) (zin a)) (ensure_room al n)
    (\<lambda>_ a. (I a \<and> R (written a) (zin a)) \<and> length (written a) + n \<le> capacity a)"
proof (rule zvalidI)
  fix a assume I: "I a \<and> R (written a) (zin a)"
  show "(\<exists>e a'. ensure_room al n a = (Inl e, a') \<and> allowed e) \<or>
    (\<exists>v a'. ensure_room al n a = (Inr v, a') \<and> (I a' \<and> R (written a') (zin a')) \<and>
       length (written a') + n \<le> capacity a')"
  proof (cases "capacity a < length (written a) + n \<and> z_expandable a")
    case True
    show ?thesis
    proof (cases "grow (length (written a) + n) (capacity a)")
      case None
      then show ?thesis using True by (simp add: ensure_room_def zexpand_def)
    next
      case (Some l)
      have l: "length (written a) + n \<le> l" using grow_result [OF Some] by simp
      have "I (a\<lparr>capacity := l\<rparr>)"
        using I assms l by (auto simp: zok_def zready_def out_ok_def bits_ok_def)
      then show ?thesis
        using True Some l I by (auto simp: ensure_room_def zexpand_def hazards_def)
    qed
  next
    case False
    then show ?thesis using I by (auto simp: ensure_room_def zexpand_def)
  qed
qed

lemmas zvalid_ensure_room = zvalid_ensure_room_frame [where R = "\<lambda>_ _. True", simplified]

lemma zvalid_put:
  assumes "\<And>a. P a \<Longrightarrow> length (f a) \<le> capacity a \<and> Q () (a\<lparr>written := f a\<rparr>)"
  shows "zvalid P (\<lambda>a. put (f a) a) Q"
  using assms by (fastforce simp: zvalid_def put_def not_less)

lemma copy_match_length [simp]: "length (copy_match len dist w) = length w + len"
  by (induction len dist w rule: copy_match.induct) simp_all

lemma written_ok: "zok a \<Longrightarrow> length w \<le> capacity a \<Longrightarrow> zok (a\<lparr>written := w\<rparr>)"
  by (auto simp: zok_def out_ok_def bits_ok_def)

lemma written_ready: "zready a \<Longrightarrow> length w \<le> capacity a \<Longrightarrow> zready (a\<lparr>written := w\<rparr>)"
  by (auto simp: zready_def written_ok)

lemma zvalid_emit_match:
  "zvalid (\<lambda>a. (zready a \<and> dist \<le> length (written a)) \<and> length (written a) + len \<le> capacity a)
     (emit_match len dist) (\<lambda>_. zready)"
proof (rule zvalidI)
  fix a assume a: "(zready a \<and> dist \<le> length (written a)) \<and> length (written a) + len \<le> capacity a"
  then have n: "\<not> length (written a) < dist" by simp
  consider "dist = 0 \<and> len \<noteq> 0" | "dist = 1" | "\<not> (dist = 0 \<and> len \<noteq> 0)" "dist \<noteq> 1" by blast
  then show "(\<exists>e a'. emit_match len dist a = (Inl e, a') \<and> allowed e) \<or>
    (\<exists>v a'. emit_match len dist a = (Inr v, a') \<and> zready a')"
  proof cases
    case 1
    then show ?thesis by (simp add: emit_match_def hazards_def)
  next
    case 2
    then show ?thesis
      using a n written_ready [of a "written a @ replicate len (last (written a))"]
      by (simp add: emit_match_def put_def)
  next
    case 3
    then show ?thesis
      using a n written_ready [of a "copy_match len dist (written a)"] by (auto simp: emit_match_def put_def)
  qed
qed

lemma zvalid_receive_extra:
  assumes "e \<le> 25"
  shows "zvalid zready (receive_extra e) (\<lambda>_. zready)"
proof (cases "e = 0")
  case True
  then show ?thesis unfolding receive_extra_def by (simp add: zvalid_def)
next
  case False
  have "zvalid zready (bindE (zreceive e) (\<lambda>x. returnE (unat x))) (\<lambda>_. zready)"
    by (rule zvalid_bind [OF zvalid_zreceive [OF assms disjI2 [OF refl]]]) (rule zvalid_return, simp)
  then show ?thesis using False by (simp add: receive_extra_def)
qed

lemma extra_small: "z < 31 \<Longrightarrow> zlength_extra ! z \<le> 25" "d < 32 \<Longrightarrow> zdist_extra ! d \<le> 25"
proof -
  have "\<forall>x \<in> set zlength_extra. x \<le> 25" "\<forall>x \<in> set zdist_extra. x \<le> 25"
    "length zlength_extra = 31" "length zdist_extra = 32"
    by (simp_all add: zlength_extra_def zdist_extra_def)
  then show "z < 31 \<Longrightarrow> zlength_extra ! z \<le> 25" "d < 32 \<Longrightarrow> zdist_extra ! d \<le> 25"
    by (metis nth_mem)+
qed

lemma zvalid_decode_length:
  "zvalid zready (\<lambda>a. zhuffman_decode (z_length a) a) (\<lambda>sym a. zready a \<and> (\<forall>i. sym = Some i \<longrightarrow> i < 288))"
proof (rule zvalidI)
  fix a assume a: "zready a"
  then obtain xs where t: "table_for xs (z_length a)" by (auto simp: zready_def)
  have len: "length xs \<le> 288" using t by (simp add: table_for_def)
  obtain r b where r: "zhuffman_decode (z_length a) a = (r, b)" by (cases "zhuffman_decode (z_length a) a")
  show "(\<exists>e a'. zhuffman_decode (z_length a) a = (Inl e, a') \<and> allowed e) \<or>
    (\<exists>v a'. zhuffman_decode (z_length a) a = (Inr v, a') \<and> zready a' \<and> (\<forall>i. v = Some i \<longrightarrow> i < 288))"
    using zvalid_dest [OF zvalid_decode [OF t disjI2 [OF refl]] a r] len unfolding r
    by (cases r) (auto intro: less_le_trans)
qed

lemma zvalid_decode_distance:
  "zvalid zready (\<lambda>a. zhuffman_decode (z_distance a) a) (\<lambda>sym a. zready a \<and> (\<forall>i. sym = Some i \<longrightarrow> i < 32))"
proof (rule zvalidI)
  fix a assume a: "zready a"
  then obtain xs where t: "table_for xs (z_distance a)" "length xs \<le> 32" by (auto simp: zready_def)
  obtain r b where r: "zhuffman_decode (z_distance a) a = (r, b)" by (cases "zhuffman_decode (z_distance a) a")
  show "(\<exists>e a'. zhuffman_decode (z_distance a) a = (Inl e, a') \<and> allowed e) \<or>
    (\<exists>v a'. zhuffman_decode (z_distance a) a = (Inr v, a') \<and> zready a' \<and> (\<forall>i. v = Some i \<longrightarrow> i < 32))"
    using zvalid_dest [OF zvalid_decode [OF t(1) disjI2 [OF refl]] a r] t(2) unfolding r
    by (cases r) (auto intro: less_le_trans)
qed

lemma zvalid_check:
  "zvalid zready (\<lambda>a. (if length (written a) < dist then Inl (Err x) else Inr (), a))
     (\<lambda>_ a. zready a \<and> dist \<le> length (written a))"
  by (simp add: zvalid_def)

lemma zvalid_seq: "zvalid P m (\<lambda>_. Q) \<Longrightarrow> (\<And>v. zvalid Q (k v) R) \<Longrightarrow> zvalid P (bindE m k) R"
  by (rule zvalid_bind)

lemmas room = zvalid_ensure_room [OF disjI2 [OF refl]]
lemmas room_frame = zvalid_ensure_room_frame [OF disjI2 [OF refl], where R = "\<lambda>w _. dist \<le> length w" for dist]

lemma zvalid_literal: "zvalid zready (emit_literal al z) (\<lambda>_. zready)"
  unfolding emit_literal_def
  by (rule zvalid_bind [OF room], rule zvalid_put) (simp add: written_ready)

lemma zvalid_match_distance: "zvalid zready (match_distance al len) (\<lambda>_. zready)"
  unfolding match_distance_def
proof (rule zvalid_bind [OF zvalid_decode_distance])
  fix sym :: "nat option"
  show "zvalid (\<lambda>a. zready a \<and> (\<forall>i. sym = Some i \<longrightarrow> i < 32)) (case sym of
      None \<Rightarrow> throwE (Err ''bad huffman code'')
    | Some d \<Rightarrow>
        if 32 \<le> d then throwE (Undefined ''zdist_base'')
        else bindE (receive_extra (zdist_extra ! d)) (\<lambda>x.
          bindE (returnE (zdist_base ! d + x)) (\<lambda>dist.
          bindE (\<lambda>a. (if length (written a) < dist then Inl (Err ''bad dist'') else Inr (), a)) (\<lambda>_.
          bindE (ensure_room al len) (\<lambda>_. emit_match len dist))))) (\<lambda>_. zready)"
  proof (cases "\<exists>d < 32. sym = Some d")
    case False
    then show ?thesis by (cases sym) (auto simp: zvalid_def)
  next
    case True
    then obtain d where d: "d < 32" "sym = Some d" by blast
    then have nd: "\<not> 32 \<le> d" by simp
    show ?thesis
      unfolding d(2) option.case if_not_P [OF nd] bindE_Inr
      by (rule zvalid_pre [OF zvalid_seq [OF zvalid_receive_extra [OF extra_small(2) [OF d(1)]]]],
          rule zvalid_seq [OF zvalid_check], rule zvalid_bind [OF room_frame],
          rule zvalid_emit_match) simp
  qed
qed

lemma zvalid_match_length:
  assumes "z < 288"
  shows "zvalid zready (match_length al z) (\<lambda>_. zready)"
proof -
  have n: "\<not> 31 \<le> z - 257" and s: "z - 257 < 31" using assms by simp_all
  show ?thesis
    unfolding match_length_def if_not_P [OF n]
    by (rule zvalid_seq [OF zvalid_receive_extra [OF extra_small(1) [OF s]] zvalid_match_distance])
qed

lemma zvalid_huffman_round: "zvalid zready (huffman_round al) (\<lambda>_. zready)"
  unfolding huffman_round_def
proof (rule zvalid_bind [OF zvalid_decode_length])
  fix sym :: "nat option"
  show "zvalid (\<lambda>a. zready a \<and> (\<forall>i. sym = Some i \<longrightarrow> i < 288)) (case sym of
      None \<Rightarrow> throwE (Err ''bad huffman code'')
    | Some z \<Rightarrow>
        if z < 256 then bindE (emit_literal al z) (\<lambda>_. returnE False)
        else if z = 256 then returnE True
        else bindE (match_length al z) (\<lambda>_. returnE False)) (\<lambda>_. zready)"
  proof (cases "\<exists>z < 288. sym = Some z")
    case False
    then show ?thesis by (cases sym) (auto simp: zvalid_def)
  next
    case True
    then obtain z where z: "z < 288" "sym = Some z" by blast
    have r: "zvalid zready (returnE b) (\<lambda>_. zready)" for b :: bool by (rule zvalid_return)
    show ?thesis
      unfolding z(2) option.case
      by (rule zvalid_pre, rule zvalid_if [OF zvalid_seq [OF zvalid_literal r] zvalid_if
              [OF r zvalid_seq [OF zvalid_match_length [OF z(1)] r]]]) simp
  qed
qed

lemma zvalid_parse_huffman_block: "zvalid zready (parse_huffman_block n al) (\<lambda>_. zready)"
proof (induction n)
  case (Suc n)
  show ?case
    unfolding parse_huffman_block.simps
    by (rule zvalid_seq [OF zvalid_huffman_round], rule zvalid_if [OF zvalid_return Suc.IH])
qed (simp add: zvalid_throw)

subsection \<open>Code lengths\<close>

lemmas receive_zok = zvalid_zreceive [OF _ disjI1 [OF refl]]

lemma zvalid_lift:
  assumes "\<And>a. P a \<Longrightarrow> (case f a of Inl e \<Rightarrow> allowed e | Inr v \<Rightarrow> Q v a)"
  shows "zvalid P (\<lambda>a. (f a, a)) Q"
  using assms by (fastforce simp: zvalid_def split: sum.splits)

lemma zvalid_read_sizes:
  "(\<forall>i \<in> set is. i < 19) \<Longrightarrow> (\<forall>x \<in> set sizes. x < 8) \<Longrightarrow> length sizes = 19 \<Longrightarrow>
   zvalid zok (read_codelength_sizes is sizes) (\<lambda>sizes a. zok a \<and> (\<forall>x \<in> set sizes. x < 8) \<and> length sizes = 19)"
proof (induction "is" sizes rule: read_codelength_sizes.induct)
  case (1 sizes)
  then show ?case by (auto intro!: zvalid_return)
next
  case (2 i "is" sizes)
  show ?case
    unfolding read_codelength_sizes.simps
  proof (rule zvalid_bind [OF receive_zok])
    fix s :: u32
    show "zvalid (\<lambda>a. zok a \<and> unat s < 2 ^ 3)
        (if i < length length_dezigzag then read_codelength_sizes is (sizes[length_dezigzag ! i := unat s])
         else throwE (Undefined ''length_dezigzag''))
        (\<lambda>sizes a. zok a \<and> (\<forall>x \<in> set sizes. x < 8) \<and> length sizes = 19)"
    proof (cases "unat s < 8")
      case True
      have "\<forall>x \<in> set (sizes[length_dezigzag ! i := unat s]). x < 8"
        using "2.prems"(2) True set_update_subset_insert [of sizes] by blast
      moreover have "i < length length_dezigzag" using "2.prems"(1) by (simp add: length_dezigzag_def)
      ultimately show ?thesis
        using "2.IH" [of s] "2.prems"(1,3) by (auto intro: zvalid_pre)
    next
      case False
      then show ?thesis by (simp add: zvalid_def)
    qed
  qed simp
qed

lemma zvalid_write_lens:
  assumes "\<forall>x \<in> set lens. x < 16" and "\<forall>x \<in> set new. x < 16"
  shows "zvalid zok (write_lens lens new) (\<lambda>lens a. zok a \<and> (\<forall>x \<in> set lens. x < 16))"
  using assms by (auto simp: write_lens_def hazards_def zvalid_def)

lemma zvalid_weaken: "zvalid P m Q \<Longrightarrow> (\<And>v a. Q v a \<Longrightarrow> R v a) \<Longrightarrow> zvalid P m R"
  unfolding zvalid_def by (auto split: prod.splits sum.splits)

text \<open>One entry of the code length sequence.\<close>

lemma zvalid_length_op:
  assumes l: "\<forall>x \<in> set lens. x < 16" and c: "c < 19"
  shows "zvalid zok
     (if c < 16 then write_lens lens [c]
      else if c = 16 then
        bindE (zreceive 2) (\<lambda>x.
          if lens = [] then throwE (Undefined ''lencodes[-1]'')
          else write_lens lens (replicate (unat x + 3) (last lens)))
      else if c = 17 then
        bindE (zreceive 3) (\<lambda>x. write_lens lens (replicate (unat x + 3) 0))
      else
        bindE (zreceive 7) (\<lambda>x. write_lens lens (replicate (unat x + 11) 0)))
     (\<lambda>lens a. zok a \<and> (\<forall>x \<in> set lens. x < 16))"
proof -
  have rep: "\<forall>x \<in> set (replicate n v). x < 16" if "v < 16" for n and v :: nat
    using that by simp
  have "zvalid (\<lambda>a. zok a \<and> unat x < 2 ^ 2)
      (if lens = [] then throwE (Undefined ''lencodes[-1]'')
       else write_lens lens (replicate (unat x + 3) (last lens)))
      (\<lambda>lens a. zok a \<and> (\<forall>x \<in> set lens. x < 16))" for x :: u32
  proof (cases "lens = []")
    case True
    then show ?thesis by (simp add: zvalid_def hazards_def)
  next
    case False
    then have "last lens < 16" using l last_in_set by blast
    then show ?thesis
      using zvalid_write_lens [OF l rep, of "last lens"] False by (auto intro: zvalid_pre)
  qed
  moreover have "zvalid (\<lambda>a. zok a \<and> unat x < 2 ^ k) (write_lens lens (replicate n 0))
      (\<lambda>lens a. zok a \<and> (\<forall>x \<in> set lens. x < 16))" for x :: u32 and n k
    using zvalid_write_lens [OF l rep, of 0] by (auto intro: zvalid_pre)
  ultimately show ?thesis
    using zvalid_write_lens [OF l, of "[c]"]
    by (auto intro!: zvalid_if zvalid_bind [OF receive_zok])
qed

lemma zvalid_read_lencodes:
  assumes t: "table_for xs zc" and len: "length xs = 19"
  shows "\<forall>x \<in> set lens. x < 16 \<Longrightarrow>
    zvalid zok (read_lencodes fuel ntot zc lens) (\<lambda>lens a. zok a \<and> (\<forall>x \<in> set lens. x < 16))"
proof (induction fuel arbitrary: lens)
  case 0
  then show ?case by (auto simp: zvalid_def)
next
  case (Suc fuel)
  show ?case
  proof (cases "length lens < ntot")
    case False
    then show ?thesis using Suc.prems by (auto simp: zvalid_def)
  next
    case True
    show ?thesis
      unfolding read_lencodes.simps if_P [OF True]
    proof (rule zvalid_bind [OF zvalid_decode [OF t disjI1 [OF refl]]])
      fix sym :: "nat option"
      show "zvalid (\<lambda>a. zok a \<and> (\<forall>i. sym = Some i \<longrightarrow> i < length xs)) (case sym of
            None \<Rightarrow> throwE (Err ''bad codelengths'')
          | Some c \<Rightarrow>
              if 19 \<le> c then throwE (Err ''bad codelengths'')
              else bindE
                (if c < 16 then write_lens lens [c]
                 else if c = 16 then
                   bindE (zreceive 2) (\<lambda>x.
                     if lens = [] then throwE (Undefined ''lencodes[-1]'')
                     else write_lens lens (replicate (unat x + 3) (last lens)))
                 else if c = 17 then
                   bindE (zreceive 3) (\<lambda>x. write_lens lens (replicate (unat x + 3) 0))
                 else
                   bindE (zreceive 7) (\<lambda>x. write_lens lens (replicate (unat x + 11) 0)))
                (\<lambda>lens. read_lencodes fuel ntot zc lens))
          (\<lambda>lens a. zok a \<and> (\<forall>x \<in> set lens. x < 16))"
      proof (cases "\<exists>c < 19. sym = Some c")
        case False
        then show ?thesis by (cases sym) (auto simp: zvalid_def)
      next
        case True
        then obtain c where c: "c < 19" "sym = Some c" by blast
        then have n: "\<not> 19 \<le> c" by simp
        have next_step: "zvalid (\<lambda>a. zok a \<and> (\<forall>x \<in> set ls. x < 16)) (read_lencodes fuel ntot zc ls)
            (\<lambda>lens a. zok a \<and> (\<forall>x \<in> set lens. x < 16))" for ls
          using Suc.IH [of ls] by (cases "\<forall>x \<in> set ls. x < 16") (auto intro: zvalid_pre simp: zvalid_def)
        show ?thesis
          unfolding c(2) option.case if_not_P [OF n]
          by (rule zvalid_pre [OF zvalid_bind [OF zvalid_length_op [OF Suc.prems c(1)] next_step]]) simp
      qed
    qed
  qed
qed

subsection \<open>Building the tables of a block\<close>

lemma table_shaped: "table_for xs z \<Longrightarrow> shaped z"
  by (simp add: table_for_def coded_def)

lemma build_result:
  assumes "shaped z" and "length xs \<le> 288" and "\<forall>x \<in> set xs. x < 16"
  shows "case zbuild_huffman z xs of Inl e \<Rightarrow> allowed e | Inr z' \<Rightarrow> table_for xs z'"
  using zbuild_huffman_cases [OF assms] by (auto split: if_splits)

lemma zvalid_build_length:
  assumes "length xs \<le> 288" and "\<forall>x \<in> set xs. x < 16"
  shows "zvalid zok (\<lambda>a. (zbuild_huffman (z_length a) xs, a)) (\<lambda>z a. zok a \<and> table_for xs z)"
proof (rule zvalid_lift)
  fix a assume a: "zok a"
  then have "shaped (z_length a)" by (simp add: zok_def)
  from build_result [OF this assms] a
  show "case zbuild_huffman (z_length a) xs of Inl e \<Rightarrow> allowed e | Inr z \<Rightarrow> zok a \<and> table_for xs z"
    by (auto split: sum.splits)
qed

lemma zvalid_build_distance:
  assumes "length xs \<le> 288" and "\<forall>x \<in> set xs. x < 16"
  shows "zvalid (\<lambda>a. zok a \<and> R (z_length a)) (\<lambda>a. (zbuild_huffman (z_distance a) xs, a))
    (\<lambda>z a. zok a \<and> R (z_length a) \<and> table_for xs z)"
proof (rule zvalid_lift)
  fix a assume a: "zok a \<and> R (z_length a)"
  then have "shaped (z_distance a)" by (simp add: zok_def)
  from build_result [OF this assms] a
  show "case zbuild_huffman (z_distance a) xs of Inl e \<Rightarrow> allowed e
      | Inr z \<Rightarrow> zok a \<and> R (z_length a) \<and> table_for xs z"
    by (auto split: sum.splits)
qed

lemma zvalid_set_tables:
  assumes "length xs \<le> 288" and "\<forall>x \<in> set xs. x < 16" and "length ys \<le> 32" and "\<forall>y \<in> set ys. y < 16"
  shows "zvalid zok (set_tables xs ys) (\<lambda>_. zready)"
  unfolding set_tables_def
proof (rule zvalid_bind [OF zvalid_build_length [OF assms(1,2)]], rule zvalid_seq)
  fix zl
  show "zvalid (\<lambda>a. zok a \<and> table_for xs zl) (modifyE (\<lambda>a. a\<lparr>z_length := zl\<rparr>))
      (\<lambda>_ a. zok a \<and> table_for xs (z_length a))"
    by (rule zvalid_modify) (auto simp: zok_def bits_ok_def out_ok_def table_shaped)
  have ys: "length ys \<le> 288" using assms(3) by simp
  show "zvalid (\<lambda>a. zok a \<and> table_for xs (z_length a))
      (bindE (\<lambda>a. (zbuild_huffman (z_distance a) ys, a)) (\<lambda>zd. modifyE (\<lambda>a. a\<lparr>z_distance := zd\<rparr>)))
      (\<lambda>_. zready)"
  proof (rule zvalid_bind [OF zvalid_build_distance [OF ys assms(4)]], rule zvalid_modify)
    fix zd a
    assume "zok a \<and> table_for xs (z_length a) \<and> table_for ys zd"
    then show "zready (a\<lparr>z_distance := zd\<rparr>)"
      using assms(3) by (auto simp: zready_def zok_def bits_ok_def out_ok_def table_shaped)
  qed
qed

lemma zvalid_assume: "(b \<Longrightarrow> zvalid P m Q) \<Longrightarrow> zvalid (\<lambda>a. P a \<and> b) m Q"
  by (cases b) (auto simp: zvalid_def)

lemma zvalid_dynamic_tables:
  assumes s: "\<forall>x \<in> set sizes. x < 8" "length sizes = 19" and "hlit \<le> 288" and "hdist \<le> 32"
  shows "zvalid zok (dynamic_tables hlit hdist sizes) (\<lambda>_. zready)"
  unfolding dynamic_tables_def
proof (rule zvalid_bind)
  have s16: "length sizes \<le> 288" "\<forall>x \<in> set sizes. x < 16" using s by auto
  show "zvalid zok (liftE (zbuild_huffman blank_huffman sizes)) (\<lambda>z a. zok a \<and> table_for sizes z)"
    by (rule zvalid_lift) (use build_result [OF shaped_blank s16] in \<open>auto split: sum.splits\<close>)
  fix zc
  show "zvalid (\<lambda>a. zok a \<and> table_for sizes zc)
      (bindE (read_lencodes (hlit + hdist) (hlit + hdist) zc []) (\<lambda>lencodes.
         if length lencodes \<noteq> hlit + hdist then throwE (Err ''bad codelengths'')
         else set_tables (take hlit lencodes) (take hdist (drop hlit lencodes)))) (\<lambda>_. zready)"
  proof (rule zvalid_assume, rule zvalid_bind [OF zvalid_read_lencodes [OF _ s(2)]])
    fix lens :: "nat list"
    show "zvalid (\<lambda>a. zok a \<and> (\<forall>x \<in> set lens. x < 16))
        (if length lens \<noteq> hlit + hdist then throwE (Err ''bad codelengths'')
         else set_tables (take hlit lens) (take hdist (drop hlit lens))) (\<lambda>_. zready)"
    proof (rule zvalid_assume, rule zvalid_if)
      assume l: "\<forall>x \<in> set lens. x < 16"
      have "length (take hlit lens) \<le> 288" "length (take hdist (drop hlit lens)) \<le> 32"
        using assms(3,4) by simp_all
      moreover have "\<forall>x \<in> set (take hlit lens). x < 16" "\<forall>x \<in> set (take hdist (drop hlit lens)). x < 16"
        using l by (meson in_set_takeD in_set_dropD)+
      ultimately show "zvalid zok (set_tables (take hlit lens) (take hdist (drop hlit lens))) (\<lambda>_. zready)"
        by (intro zvalid_set_tables)
    qed (simp add: zvalid_throw)
  qed simp_all
qed

lemma zvalid_compute_huffman_codes: "zvalid zok compute_huffman_codes (\<lambda>_. zready)"
  unfolding compute_huffman_codes_def bindE_Inr
proof (rule zvalid_bind [OF receive_zok], simp, rule zvalid_assume, rule zvalid_bind [OF receive_zok], simp,
    rule zvalid_assume, rule zvalid_bind [OF receive_zok], simp, rule zvalid_assume,
    rule zvalid_bind [OF zvalid_read_sizes])
  fix x y w :: u32 and sizes :: "nat list"
  assume x: "unat x < 2 ^ 5" and y: "unat y < 2 ^ 5"
  show "zvalid (\<lambda>a. zok a \<and> (\<forall>x \<in> set sizes. x < 8) \<and> length sizes = 19)
      (dynamic_tables (unat x + 257) (unat y + 1) sizes) (\<lambda>_. zready)"
    by (rule zvalid_assume, rule zvalid_dynamic_tables) (use x y in auto)
qed simp_all

subsection \<open>Stored blocks and the whole stream\<close>

lemma drain_header_ok:
  "bits_ok a \<Longrightarrow> num_bits a = 8 * k \<Longrightarrow> length header + k \<le> 4 \<Longrightarrow>
   \<exists>header' a'. drain_header header a = (Inr header', a') \<and> length header' = length header + k \<and>
     num_bits a' = 0 \<and> bits_ok a' \<and> same_output a a' \<and> zin a' = zin a"
proof (induction k arbitrary: header a)
  case 0
  then show ?case by (subst drain_header.simps) (simp add: same_output_refl)
next
  case (Suc k)
  let ?h = "header @ [ucast (code_buffer a AND 255)]" and ?a = "drop_bits 8 a"
  have n: "8 \<le> num_bits a" using Suc.prems(2) by simp
  have "drain_header header a = drain_header ?h ?a"
    using Suc.prems(2,3) by (subst drain_header.simps) simp
  moreover have "bits_ok ?a" "same_output a ?a" using take_bits_stream [OF Suc.prems(1) n] by simp_all
  moreover have "num_bits ?a = 8 * k" "zin ?a = zin a" using Suc.prems(2) by (simp_all add: drop_bits_def)
  moreover have "length ?h + k \<le> 4" using Suc.prems(3) by simp
  ultimately show ?case
    using Suc.IH [of ?a ?h] same_output_trans by fastforce
qed

lemma zvalid_drain: "zvalid (\<lambda>a. zok a \<and> 8 dvd num_bits a) (drain_header []) (\<lambda>header a. zok a \<and> length header \<le> 4)"
proof (rule zvalidI)
  fix a assume a: "zok a \<and> 8 dvd num_bits a"
  then obtain k where k: "num_bits a = 8 * k" by (auto simp: dvd_def)
  have "bits_ok a" using a by (simp add: zok_def)
  then have "length ([] :: u8 list) + k \<le> 4" using k by (simp add: bits_ok_def)
  from drain_header_ok [OF \<open>bits_ok a\<close> k this] a
  show "(\<exists>e a'. drain_header [] a = (Inl e, a') \<and> allowed e) \<or>
    (\<exists>v a'. drain_header [] a = (Inr v, a') \<and> zok a' \<and> length v \<le> 4)"
    using same_output_inv(1) \<open>length ([] :: u8 list) + k \<le> 4\<close> by auto
qed

lemma zget8_zok: "zok a \<Longrightarrow> zok (snd (zget8 a))"
  using zget8_frame [of a] by (auto simp: zok_def bits_ok_def out_ok_def same_output_def)

lemma fill_header_zok: "zok a \<Longrightarrow> zok (snd (fill_header n header a))"
proof (induction n header a rule: fill_header.induct)
  case (2 n header a)
  then show ?case using zget8_zok [of a] by (cases "zget8 a") simp
qed simp

lemma discard_aligned:
  assumes "zok a"
  defines "b \<equiv> if num_bits a AND 7 \<noteq> 0 then snd (received (num_bits a AND 7) a) else a"
  shows "zok b \<and> 8 dvd num_bits b"
proof -
  have m: "num_bits a AND 7 = num_bits a mod 8"
    using take_bit_eq_mask [of 3 "num_bits a"] take_bit_eq_mod [of 3 "num_bits a"]
    by (simp add: mask_eq_exp_minus_1)
  have "\<not> num_bits a < num_bits a mod 8" by (simp add: not_less)
  then have "num_bits (snd (received (num_bits a mod 8) a)) = num_bits a - num_bits a mod 8"
    by (simp only: received_def Let_def if_False snd_conv) simp
  moreover have "8 dvd num_bits a - num_bits a mod 8" by (rule dvd_minus_mod)
  moreover have "num_bits a mod 8 \<le> 25" by (rule order_trans [of _ 7]) (simp_all add: less_Suc_eq_le [symmetric])
  ultimately show ?thesis
    using received_inv(1) [of "num_bits a mod 8" a] assms(1) unfolding b_def m
    by (auto simp: mod_eq_0_iff_dvd)
qed

lemma zvalid_align:
  "zvalid zok (\<lambda>a. if num_bits a AND 7 \<noteq> 0 then bindE (zreceive (num_bits a AND 7)) (\<lambda>_. returnE ()) a else (Inr (), a))
    (\<lambda>_ a. zok a \<and> 8 dvd num_bits a)"
proof (rule zvalidI)
  fix a assume a: "zok a"
  then have "bits_ok a" by (simp add: zok_def)
  have "num_bits a AND 7 = num_bits a mod 8"
    using take_bit_eq_mask [of 3 "num_bits a"] take_bit_eq_mod [of 3 "num_bits a"] by (simp add: mask_eq_exp_minus_1)
  moreover have "num_bits a mod 8 < 8" by simp
  ultimately have "num_bits a AND 7 \<le> 25" by linarith
  then have z: "zreceive (num_bits a AND 7) a = (Inr (fst (received (num_bits a AND 7) a)), snd (received (num_bits a AND 7) a))"
    by (rule zreceive_eq [OF \<open>bits_ok a\<close>])
  show "(\<exists>e a'. (if num_bits a AND 7 \<noteq> 0 then bindE (zreceive (num_bits a AND 7)) (\<lambda>_. returnE ()) a else (Inr (), a)) = (Inl e, a') \<and> allowed e) \<or>
    (\<exists>v a'. (if num_bits a AND 7 \<noteq> 0 then bindE (zreceive (num_bits a AND 7)) (\<lambda>_. returnE ()) a else (Inr (), a)) = (Inr v, a') \<and>
      zok a' \<and> 8 dvd num_bits a')"
    using discard_aligned [OF a] z by (cases "num_bits a AND 7 = 0") (simp_all add: bindE_def)
qed

lemmas stored_frame =
  zvalid_ensure_room_frame [OF disjI1 [OF refl], where R = "\<lambda>_ i. len \<le> length i" for len]

lemma zvalid_copy_stored:
  "zvalid (\<lambda>a. (zok a \<and> len \<le> length (zin a)) \<and> length (written a) + len \<le> capacity a)
     (copy_stored len) (\<lambda>_. zok)"
  by (auto simp: zvalid_def copy_stored_def put_def zok_def bits_ok_def out_ok_def)

lemma zvalid_parse_uncompressed_block: "zvalid zok (parse_uncompressed_block al) (\<lambda>_. zok)"
proof -
  have "zvalid (\<lambda>a. zok a \<and> 8 dvd num_bits a)
     (bindE (drain_header []) (\<lambda>header.
         bindE (runE (fill_header (4 - length header) header)) (\<lambda>header.
         bindE (returnE (unat (header ! 1) * 256 + unat (header ! 0))) (\<lambda>len.
         bindE (returnE (unat (header ! 3) * 256 + unat (header ! 2))) (\<lambda>nlen.
           if nlen \<noteq> (len XOR 0xffff) then throwE (Err ''zlib corrupt'')
           else bindE (\<lambda>a. (if length (zin a) < len then Inl (Err ''read past buffer'') else Inr (), a)) (\<lambda>_.
                bindE (ensure_room al len) (\<lambda>_. copy_stored len))))))) (\<lambda>_. zok)"
    unfolding bindE_Inr
  proof (rule zvalid_bind [OF zvalid_drain], rule zvalid_assume, rule zvalid_seq)
    show "zvalid zok (runE (fill_header (4 - length header) header)) (\<lambda>_. zok)" for header :: "u8 list"
      by (rule zvalid_run) (rule fill_header_zok)
    fix header :: "u8 list"
    let ?len = "unat (header ! 1) * 256 + unat (header ! 0)"
    show "zvalid zok
        (if unat (header ! 3) * 256 + unat (header ! 2) \<noteq> (?len XOR 0xffff) then throwE (Err ''zlib corrupt'')
         else bindE (\<lambda>a. (if length (zin a) < ?len then Inl (Err ''read past buffer'') else Inr (), a)) (\<lambda>_.
              bindE (ensure_room al ?len) (\<lambda>_. copy_stored ?len))) (\<lambda>_. zok)"
    proof (rule zvalid_if)
      have c: "zvalid zok (\<lambda>a. (if length (zin a) < ?len then Inl (Err ''read past buffer'') else Inr (), a))
          (\<lambda>_ a. zok a \<and> ?len \<le> length (zin a))"
        by (simp add: zvalid_def)
      show "zvalid zok
          (bindE (\<lambda>a. (if length (zin a) < ?len then Inl (Err ''read past buffer'') else Inr (), a)) (\<lambda>_.
              bindE (ensure_room al ?len) (\<lambda>_. copy_stored ?len))) (\<lambda>_. zok)"
        by (rule zvalid_seq [OF c], rule zvalid_bind [OF stored_frame], rule zvalid_copy_stored)
    qed (simp add: zvalid_throw)
  qed
  then show ?thesis unfolding parse_uncompressed_block_def by (rule zvalid_bind [OF zvalid_align])
qed

lemma zvalid_parse_zlib_header: "zvalid zok parse_zlib_header (\<lambda>_. zok)"
  unfolding parse_zlib_header_def
proof (intro zvalid_seq)
  show "zvalid zok (runE zget8) (\<lambda>_. zok)" by (rule zvalid_run) (rule zget8_zok)
  then show "zvalid zok (runE zget8) (\<lambda>_. zok)" .
qed (auto intro!: zvalid_if zvalid_throw zvalid_return)

lemma zready_zok: "zready a \<Longrightarrow> zok a"
  by (simp add: zready_def)

lemma default_lengths: "length zdefault_length \<le> 288" "\<forall>x \<in> set zdefault_length. x < 16"
  "length zdefault_distance \<le> 32" "\<forall>x \<in> set zdefault_distance. x < 16"
  by (auto simp: zdefault_length_def zdefault_distance_def)

lemma zvalid_zlib_round: "zvalid zok (zlib_round n al) (\<lambda>_. zok)"
proof -
  have tables: "zvalid zok (if ty = 1 then set_tables zdefault_length zdefault_distance
      else compute_huffman_codes) (\<lambda>_. zready)" for ty :: u32
    by (intro zvalid_if zvalid_set_tables zvalid_compute_huffman_codes default_lengths)
  have huff: "zvalid zok (bindE (if ty = 1 then set_tables zdefault_length zdefault_distance
      else compute_huffman_codes) (\<lambda>_. parse_huffman_block n al)) (\<lambda>_. zok)" for ty :: u32
    by (rule zvalid_seq [OF tables], rule zvalid_weaken [OF zvalid_parse_huffman_block]) (rule zready_zok)
  have body: "zvalid zok (if ty = 0 then parse_uncompressed_block al
        else if ty = 3 then throwE (Err [])
        else bindE (if ty = 1 then set_tables zdefault_length zdefault_distance
          else compute_huffman_codes) (\<lambda>_. parse_huffman_block n al)) (\<lambda>_. zok)" for ty :: u32
    by (intro zvalid_if zvalid_parse_uncompressed_block huff zvalid_throw) simp
  have r: "zvalid zok (zreceive k) (\<lambda>_. zok)" if "k \<le> 25" for k
    by (rule zvalid_weaken [OF receive_zok [OF that]]) simp
  show ?thesis
    unfolding zlib_round_def
    by (rule zvalid_seq [OF r], simp, rule zvalid_seq [OF r], simp, rule zvalid_seq [OF body], rule zvalid_return)
qed

lemma zvalid_zlib_blocks: "zvalid zok (zlib_blocks n al) (\<lambda>_. zok)"
proof (induction n)
  case (Suc n)
  show ?case
    unfolding zlib_blocks.simps
    by (rule zvalid_seq [OF zvalid_zlib_round], rule zvalid_if [OF zvalid_return Suc.IH])
qed (simp add: zvalid_throw)

lemma zvalid_parse_zlib: "zvalid zok (parse_zlib n al h) (\<lambda>_. zok)"
proof -
  have "zvalid zok (if h then parse_zlib_header else returnE ()) (\<lambda>_. zok)"
    by (intro zvalid_if zvalid_parse_zlib_header zvalid_return)
  moreover have "zvalid zok (modifyE (\<lambda>a. a\<lparr>num_bits := 0, code_buffer := 0\<rparr>)) (\<lambda>_. zok)"
    by (rule zvalid_modify) (simp add: zok_def bits_ok_def out_ok_def)
  ultimately show ?thesis
    unfolding parse_zlib_def by (intro zvalid_seq [OF _ zvalid_seq [OF _ zvalid_zlib_blocks]])
qed

end
