(* ===== verification/ZlibLaws.thy ===== *)
theory ZlibLaws
  imports ZlibSafe
begin

text \<open>
  The properties of the zlib decoder: the bit reader, the Huffman tables, memory safety and
  its exceptions, stored blocks.
\<close>

subsection \<open>Tables with one symbol\<close>

text \<open>The smallest table: one symbol \<open>k\<close>, whose code is the bit 0.\<close>

definition single :: "nat \<Rightarrow> nat list" where
  "single k = replicate k 0 @ [1]"

lemma single_facts:
  "length (single k) = Suc k" "single k ! k = 1" "\<forall>x \<in> set (single k). x < 16"
  "cnt (single k) s = (if s = 1 then 1 else 0)"
  by (auto simp: single_def nth_append cnt_def count_replicate)

lemma single_fits: "fits (single k)"
  by (auto simp: fits_def single_facts)

lemma single_starts: "starts (single k) n k \<longleftrightarrow> even n"
proof -
  have "code_of (single k) k = 0"
    by (simp add: code_of_def rank_def single_facts) (simp add: single_def count_replicate)
  then show ?thesis
    by (simp add: starts_def single_facts even_iff_mod_2_eq_zero)
qed

lemma table_exists:
  assumes "length xs \<le> 288" and "\<forall>x \<in> set xs. x < 16" and "fits xs"
  obtains z where "table_for xs z"
  using zbuild_huffman_cases [OF shaped_blank assms(1,2)] assms(3) by auto

text \<open>A state with given tables at the start of a stream, for the examples.\<close>

definition sample :: "zhuffman \<Rightarrow> zhuffman \<Rightarrow> u8 list \<Rightarrow> u8 list \<Rightarrow> zbuf" where
  "sample zl zd input w =
     \<lparr>zin = input, num_bits = 0, code_buffer = 0, written = w, capacity = 100, z_expandable = False,
      z_length = zl, z_distance = zd\<rparr>"

lemma sample_ok: "bits_ok (sample zl zd input w)" "zstream (sample zl zd input w) = le_value input"
  by (simp_all add: sample_def bits_ok_def zstream_def)

subsection \<open>The bit reader\<close>

text \<open>
  Reading \<open>n\<close> bits, whatever is left of the buffer and however many bytes it takes to
  refill it, takes the remainder modulo \<open>2 ^ n\<close> of the number the rest of the input stands for
  and leaves the quotient; the assertion of the refill loop always holds and nothing else
  changes.
\<close>

theorem bit_reader_divides:
  assumes "bits_ok z" and "n \<le> 25"
  shows "\<exists>x z'. zreceive n z = (Inr x, z') \<and> unat x = zstream z mod 2 ^ n \<and> zstream z' = zstream z div 2 ^ n \<and>
    bits_ok z' \<and> same_output z z'"
  using received_ok [OF assms] zreceive_eq [OF assms] by simp

lemma bit_reader_divides_witness:
  "\<exists>x z'. zreceive 3 (sample blank_huffman blank_huffman [13, 1] []) = (Inr x, z') \<and> unat x = 5"
  using bit_reader_divides [OF sample_ok(1), of 3 blank_huffman blank_huffman "[13, 1]" "[]"]
  by (auto simp: sample_ok)

subsection \<open>Huffman codes\<close>

text \<open>
  C1: for every list of code lengths that fits, the tables are built, and decoding with them
  returns exactly the symbol whose canonical code the stream starts with and consumes just its
  bits, through the fast table or the slow path; if no code starts the stream, it reports an
  invalid code. Lists that do not fit are rejected.
\<close>

theorem huffman_tables_correct:
  assumes "shaped z0" and "length xs \<le> 288" and "\<forall>x \<in> set xs. x < 16"
  shows "if fits xs then
      \<exists>z. zbuild_huffman z0 xs = Inr z \<and>
        (\<forall>a. bits_ok a \<longrightarrow>
           (\<forall>i. starts xs (zstream a) i \<longrightarrow>
              (\<exists>a'. zhuffman_decode z a = (Inr (Some i), a') \<and> zstream a' = zstream a div 2 ^ (xs ! i) \<and>
                 same_output a a')) \<and>
           ((\<forall>i. \<not> starts xs (zstream a) i) \<longrightarrow>
              (\<exists>a'. zhuffman_decode z a = (Inr None, a') \<and> zstream a' = zstream a \<and> same_output a a')))
    else zbuild_huffman z0 xs \<in> {Inl (Err ''bad sizes''), Inl (Err ''bad codelengths'')}"
proof (cases "fits xs")
  case True
  then obtain z where z: "zbuild_huffman z0 xs = Inr z" "table_for xs z"
    using zbuild_huffman_cases [OF assms] by auto
  have "\<exists>a'. zhuffman_decode z a = (Inr (Some i), a') \<and> zstream a' = zstream a div 2 ^ (xs ! i) \<and>
      same_output a a'" if "bits_ok a" "starts xs (zstream a) i" for a i
    using decode_cases [OF z(2) that(1)] starts_unique [OF that(2)] that(2) by blast
  moreover have "\<exists>a'. zhuffman_decode z a = (Inr None, a') \<and> zstream a' = zstream a \<and> same_output a a'"
    if "bits_ok a" "\<forall>i. \<not> starts xs (zstream a) i" for a
    using decode_cases [OF z(2) that(1)] that(2) by blast
  ultimately show ?thesis using True z(1) by auto
next
  case False
  then show ?thesis using zbuild_huffman_cases [OF assms] by simp
qed

lemma huffman_tables_correct_witness:
  "\<exists>z a'. zbuild_huffman blank_huffman (single 5) = Inr z \<and>
     zhuffman_decode z (sample blank_huffman blank_huffman [6] []) = (Inr (Some 5), a') \<and> zstream a' = 3"
proof -
  let ?a = "sample blank_huffman blank_huffman [6] []"
  have "length (single 5) \<le> 288" by (simp add: single_facts)
  from huffman_tables_correct [OF shaped_blank this single_facts(3)]
  obtain z where z: "zbuild_huffman blank_huffman (single 5) = Inr z"
    "\<forall>a. bits_ok a \<longrightarrow> (\<forall>i. starts (single 5) (zstream a) i \<longrightarrow>
       (\<exists>a'. zhuffman_decode z a = (Inr (Some i), a') \<and> zstream a' = zstream a div 2 ^ (single 5 ! i) \<and>
          same_output a a'))"
    using single_fits [of 5] by auto
  have "starts (single 5) (zstream ?a) 5" by (simp add: single_starts sample_ok)
  then obtain a' where "zhuffman_decode z ?a = (Inr (Some 5), a')" "zstream a' = zstream ?a div 2 ^ (single 5 ! 5)"
    using z(2) sample_ok(1) by blast
  then show ?thesis using z(1) by (auto simp: sample_ok single_facts)
qed

subsection \<open>Memory safety\<close>

text \<open>
  C2: from any input, every array access of the decoder is in range and every assertion holds,
  with four exceptions, which are named; and a decoder that returns has written no more than
  the output buffer holds.
\<close>

theorem zlib_memory_safe:
  assumes "bits_ok a" and "length (written a) \<le> capacity a" and "shaped (z_length a)"
    and "shaped (z_distance a)" and "parse_zlib fuel al header a = (r, a')"
  shows "(\<forall>x. r = Inl (Undefined x) \<longrightarrow>
      x \<in> {''lencodes'', ''lencodes[-1]'', ''reads unwritten output'', ''int overflow''}) \<and>
    (r = Inr () \<longrightarrow> length (written a') \<le> capacity a')"
proof -
  have "zok a" using assms(1-4) by (simp add: zok_def out_ok_def)
  from zvalid_dest [OF zvalid_parse_zlib this assms(5)]
  show ?thesis by (auto simp: zok_def out_ok_def hazards_def)
qed

text \<open>The bytes announce the dynamic tables of a final block, with the fewest codes and only zeros behind.\<close>

lemma zlib_memory_safe_witness:
  "\<exists>r a'. parse_zlib 5 (\<lambda>_. True) False (sample blank_huffman blank_huffman [5, 0, 0, 0, 0, 0] []) = (r, a') \<and>
     r \<noteq> Inl (Undefined ''length_dezigzag'') \<and> r \<noteq> Inl (Undefined ''code_buffer'')"
proof -
  let ?a = "sample blank_huffman blank_huffman [5, 0, 0, 0, 0, 0] []"
  obtain r a' where p: "parse_zlib 5 (\<lambda>_. True) False ?a = (r, a')" by (cases "parse_zlib 5 (\<lambda>_. True) False ?a")
  have "r \<noteq> Inl (Undefined ''length_dezigzag'') \<and> r \<noteq> Inl (Undefined ''code_buffer'')"
    using zlib_memory_safe [OF sample_ok(1) _ _ _ p] shaped_blank by (auto simp: sample_def)
  with p show ?thesis by auto
qed

text \<open>
  \<open>lencodes\<close> is two bytes too short: when the header announces the most codes it can, 320,
  and the last but none is followed by the longest run of zeros, the run is written past the end.
\<close>

theorem lencodes_overflow:
  assumes "table_for xs zc" and "bits_ok a" and "starts xs (zstream a) 18"
    and "zstream a div 2 ^ (xs ! 18) mod 128 = 127" and "length lens = 319"
  shows "fst (read_lencodes (Suc fuel) 320 zc lens a) = Inl (Undefined ''lencodes'')"
proof -
  obtain a' where a': "zhuffman_decode zc a = (Inr (Some 18), a')" "zstream a' = zstream a div 2 ^ (xs ! 18)"
    "bits_ok a'"
    using decode_cases [OF assms(1,2)] starts_unique [OF assms(3)] assms(3) by blast
  have "unat (fst (received 7 a')) = 127" using received_ok(1) [OF a'(3), of 7] a'(2) assms(4) by simp
  then obtain x b where "zreceive 7 a' = (Inr x, b)" "unat x = 127" using zreceive_eq [OF a'(3), of 7] by auto
  then show ?thesis
    using a'(1) assms(5) by (simp add: bindE_def runE_def write_lens_def)
qed

lemma lencodes_overflow_witness:
  "\<exists>zc. fst (read_lencodes 1 320 zc (replicate 319 0) (sample blank_huffman blank_huffman [254] []))
     = Inl (Undefined ''lencodes'')"
proof -
  obtain zc where zc: "table_for (single 18) zc"
    using table_exists [of "single 18"] single_facts single_fits by auto
  have "starts (single 18) (zstream (sample blank_huffman blank_huffman [254] [])) 18"
    by (simp add: single_starts sample_ok)
  from lencodes_overflow [OF zc sample_ok(1) this, of "replicate 319 0" 0]
  show ?thesis by (auto simp: sample_ok single_facts)
qed

text \<open>
  The distance symbols 30 and 31, which DEFLATE does not use, are not rejected: their base
  is 0, so a match of positive length copies bytes the decoder has not written.
\<close>

theorem distance_30_reads_unwritten:
  assumes "table_for ys (z_distance a)" and "bits_ok a" and "starts ys (zstream a) d" and "d \<in> {30, 31}"
    and "0 < len" and "length (written a) + len \<le> capacity a"
  shows "fst (match_distance al len a) = Inl (Undefined ''reads unwritten output'')"
proof -
  obtain a' where a': "zhuffman_decode (z_distance a) a = (Inr (Some d), a')" "same_output a a'"
    using decode_cases [OF assms(1,2)] starts_unique [OF assms(3)] assms(3) by blast
  have "zdist_extra ! d = 0" "zdist_base ! d = 0" "\<not> 32 \<le> d"
    using assms(4) by (auto simp: zdist_extra_def zdist_base_def)
  moreover have "\<not> capacity a' < length (written a') + len"
    using a'(2) assms(6) by (simp add: same_output_def)
  ultimately show ?thesis
    using a'(1) assms(5)
    by (simp add: match_distance_def bindE_def receive_extra_def ensure_room_def emit_match_def put_def)
qed

lemma distance_30_reads_unwritten_witness:
  "\<exists>zd. fst (match_distance (\<lambda>_. True) 3 (sample blank_huffman zd [] [])) =
     Inl (Undefined ''reads unwritten output'')"
proof -
  obtain zd where zd: "table_for (single 30) zd"
    using table_exists [of "single 30"] single_facts single_fits by auto
  have "starts (single 30) (zstream (sample blank_huffman zd [] [])) 30"
    by (simp add: single_starts sample_ok)
  from distance_30_reads_unwritten [OF _ sample_ok(1) this, of 3 "\<lambda>_. True"] zd
  show ?thesis by (auto simp: sample_def)
qed

text \<open>
  C31: a stream can hang the decoder: with a code for the length symbol 286, whose length is
  0, an input that has ended keeps decoding that symbol from the padding zeros for ever. No
  amount of fuel is enough.
\<close>

theorem zero_length_match_hangs:
  assumes "table_for xs (z_length a)" and "starts xs 0 286" and "table_for ys (z_distance a)"
    and "starts ys 0 0" and "bits_ok a" and "zstream a = 0" and "written a \<noteq> []"
    and "length (written a) \<le> capacity a"
  shows "fst (parse_huffman_block n al a) = Inl OutOfFuel"
  using assms(1,3,5-8)
proof (induction n arbitrary: a)
  case 0
  then show ?case by simp
next
  case (Suc n)
  have ex: "zlength_extra ! 29 = 0" "zlength_base ! 29 = 0" "zdist_extra ! 0 = 0" "zdist_base ! 0 = 1"
    by (simp_all add: zlength_extra_def zlength_base_def zdist_extra_def zdist_base_def)
  have sa: "starts xs (zstream a) 286" using assms(2) Suc.prems(4) by simp
  obtain b where b: "zhuffman_decode (z_length a) a = (Inr (Some 286), b)"
    "zstream b = zstream a div 2 ^ (xs ! 286)" "bits_ok b" "same_output a b"
    using decode_cases [OF Suc.prems(1,3)] starts_unique [OF sa] sa by blast
  have zb0: "zstream b = 0" using b(2) Suc.prems(4) by simp
  have sb: "starts ys (zstream b) 0" using assms(4) zb0 by simp
  have zb: "table_for ys (z_distance b)" using b(4) Suc.prems(2) by (simp add: same_output_def)
  obtain c where c: "zhuffman_decode (z_distance b) b = (Inr (Some 0), c)"
    "zstream c = zstream b div 2 ^ (ys ! 0)" "bits_ok c" "same_output b c"
    using decode_cases [OF zb b(3)] starts_unique [OF sb] sb by blast
  have ac: "same_output a c" using b(4) c(4) by (rule same_output_trans)
  have w: "written c \<noteq> []" "length (written c) \<le> capacity c"
    using ac Suc.prems(5,6) by (simp_all add: same_output_def)
  have "emit_match 0 1 c = (Inr (), c)" using w by (simp add: emit_match_def put_def not_less Suc_le_eq)
  then have "match_distance al 0 b = (Inr (), c)"
    using c(1) w by (simp add: match_distance_def bindE_def receive_extra_def ex ensure_room_def not_less Suc_le_eq)
  then have "match_length al 286 b = (Inr (), c)"
    by (simp add: match_length_def receive_extra_def ex)
  then have "huffman_round al a = (Inr False, c)"
    using b(1) by (simp add: huffman_round_def bindE_def)
  then have "parse_huffman_block (Suc n) al a = parse_huffman_block n al c"
    by (simp add: bindE_def)
  moreover have "fst (parse_huffman_block n al c) = Inl OutOfFuel"
    by (rule Suc.IH) (use ac Suc.prems(1,2) c(2,3) zb0 w in \<open>simp_all add: same_output_def\<close>)
  ultimately show ?case by simp
qed

lemma zero_length_match_hangs_witness:
  "\<exists>zl zd. \<forall>n. fst (parse_huffman_block n (\<lambda>_. True) (sample zl zd [] [65])) = Inl OutOfFuel"
proof -
  obtain zl where zl: "table_for (single 286) zl"
    using table_exists [of "single 286"] single_facts single_fits by auto
  obtain zd where zd: "table_for (single 0) zd"
    using table_exists [of "single 0"] single_facts single_fits by auto
  have "fst (parse_huffman_block n (\<lambda>_. True) (sample zl zd [] [65])) = Inl OutOfFuel" for n
    by (rule zero_length_match_hangs [where xs = "single 286" and ys = "single 0"])
      (use zl zd in \<open>simp_all add: single_starts sample_ok\<close>, simp_all add: sample_def)
  then show ?thesis by blast
qed

end
