(* ===== verification/ZlibFormat.thy ===== *)
theory ZlibFormat
  imports ZlibSafe
begin

text \<open>
  The DEFLATE format as an encoder, and the decoder as its inverse: the copy of a match
  against its closed form, blocks of Huffman codes, whole streams with the fixed codes and
  streams of stored blocks.
\<close>

subsection \<open>Matches\<close>

text \<open>What a match stands for: the last \<open>dist\<close> bytes, repeated up to the length.\<close>

definition lz_copy :: "nat \<Rightarrow> nat \<Rightarrow> u8 list \<Rightarrow> u8 list" where
  "lz_copy len dist w = map (\<lambda>i. w ! (length w - dist + i mod dist)) [0..<len]"

lemma lz_copy_length [simp]: "length (lz_copy len dist w) = len"
  by (simp add: lz_copy_def)

lemma lz_copy_Suc:
  assumes "0 < dist" and "dist \<le> length w"
  shows "lz_copy (Suc len) dist w = w ! (length w - dist) # lz_copy len dist (w @ [w ! (length w - dist)])"
proof (rule nth_equalityI)
  fix i
  assume "i < length (lz_copy (Suc len) dist w)"
  then have i: "i < Suc len" by simp
  let ?x = "w ! (length w - dist)"
  show "lz_copy (Suc len) dist w ! i = (?x # lz_copy len dist (w @ [?x])) ! i"
  proof (cases i)
    case 0
    then show ?thesis using assms by (simp add: lz_copy_def del: upt.simps)
  next
    case (Suc j)
    then have j: "j < len" using i by simp
    have mod: "Suc j mod dist = (if Suc (j mod dist) = dist then 0 else Suc (j mod dist))"
      by (rule mod_Suc)
    have less: "j mod dist < dist" using assms(1) by simp
    have "(w @ [?x]) ! (Suc (length w) - dist + j mod dist) = w ! (length w - dist + Suc j mod dist)"
      using assms less by (auto simp: mod nth_append Suc_diff_le)
    then show ?thesis using Suc j i by (simp add: lz_copy_def del: upt.simps)
  qed
qed simp

lemma copy_match_lz:
  "0 < dist \<Longrightarrow> dist \<le> length w \<Longrightarrow> copy_match len dist w = w @ lz_copy len dist w"
proof (induction len arbitrary: w)
  case 0
  then show ?case by (simp add: lz_copy_def)
next
  case (Suc len)
  then show ?case using Suc.IH [of "w @ [w ! (length w - dist)]"] by (simp add: lz_copy_Suc)
qed

lemma run_lz: "w \<noteq> [] \<Longrightarrow> replicate len (last w) = lz_copy len 1 w"
  by (rule nth_equalityI) (simp_all add: lz_copy_def last_conv_nth)

lemma emit_match_lz:
  assumes "0 < dist" and "dist \<le> length (written a)" and "length (written a) + len \<le> capacity a"
  shows "emit_match len dist a = (Inr (), a\<lparr>written := written a @ lz_copy len dist (written a)\<rparr>)"
proof -
  have "\<not> length (written a) < dist" using assms(2) by simp
  moreover have "written a \<noteq> []" using assms(1,2) by auto
  ultimately show ?thesis
    using assms by (simp add: emit_match_def put_def copy_match_lz run_lz not_less)
qed

subsection \<open>Encoding\<close>

text \<open>
  \<open>put_bits k e m\<close> puts \<open>k\<close> bits in front of the stream \<open>m\<close>, \<open>put_sym\<close> the code of a symbol.
  A symbol of a block is a literal, or the four parts of a match: length symbol, extra bits,
  distance symbol, extra bits.
\<close>

definition put_bits :: "nat \<Rightarrow> nat \<Rightarrow> nat \<Rightarrow> nat" where
  "put_bits k e m = e + 2 ^ k * m"

definition put_sym :: "nat list \<Rightarrow> nat \<Rightarrow> nat \<Rightarrow> nat" where
  "put_sym xs i m = put_bits (xs ! i) (rev_bits (xs ! i) (code_of xs i)) m"

datatype deflate_sym = Literal nat | Pair nat nat nat nat

fun put_item :: "nat list \<Rightarrow> nat list \<Rightarrow> deflate_sym \<Rightarrow> nat \<Rightarrow> nat" where
  "put_item xs ys (Literal b) m = put_sym xs b m"
| "put_item xs ys (Pair s e d f) m =
     put_sym xs s (put_bits (zlength_extra ! (s - 257)) e (put_sym ys d (put_bits (zdist_extra ! d) f m)))"

definition put_block :: "nat list \<Rightarrow> nat list \<Rightarrow> deflate_sym list \<Rightarrow> nat \<Rightarrow> nat" where
  "put_block xs ys items m = foldr (put_item xs ys) items (put_sym xs 256 m)"

text \<open>What the symbols stand for, and when they can be encoded.\<close>

fun item_bytes :: "deflate_sym \<Rightarrow> u8 list \<Rightarrow> u8 list" where
  "item_bytes (Literal b) w = [of_nat b]"
| "item_bytes (Pair s e d f) w = lz_copy (zlength_base ! (s - 257) + e) (zdist_base ! d + f) w"

fun expand :: "deflate_sym list \<Rightarrow> u8 list \<Rightarrow> u8 list" where
  "expand [] w = w"
| "expand (t # ts) w = expand ts (w @ item_bytes t w)"

definition has_code :: "nat list \<Rightarrow> nat \<Rightarrow> bool" where
  "has_code xs i \<longleftrightarrow> i < length xs \<and> xs ! i \<noteq> 0"

fun item_ok :: "nat list \<Rightarrow> nat list \<Rightarrow> deflate_sym \<Rightarrow> u8 list \<Rightarrow> bool" where
  "item_ok xs ys (Literal b) w \<longleftrightarrow> b < 256 \<and> has_code xs b"
| "item_ok xs ys (Pair s e d f) w \<longleftrightarrow>
     257 \<le> s \<and> s \<le> 285 \<and> has_code xs s \<and> e < 2 ^ (zlength_extra ! (s - 257)) \<and>
     d < 30 \<and> has_code ys d \<and> f < 2 ^ (zdist_extra ! d) \<and> zdist_base ! d + f \<le> length w"

fun items_ok :: "nat list \<Rightarrow> nat list \<Rightarrow> deflate_sym list \<Rightarrow> u8 list \<Rightarrow> bool" where
  "items_ok xs ys [] w \<longleftrightarrow> has_code xs 256"
| "items_ok xs ys (t # ts) w \<longleftrightarrow> item_ok xs ys t w \<and> items_ok xs ys ts (w @ item_bytes t w)"

lemma expand_length: "length w \<le> length (expand ts w)"
  by (induction ts w rule: expand.induct) (auto intro: order_trans [rotated])

subsection \<open>Single steps\<close>

text \<open>\<open>next_state a b m\<close>: from \<open>a\<close>, with the output as it was, the stream has become \<open>m\<close>.\<close>

definition next_state :: "zbuf \<Rightarrow> zbuf \<Rightarrow> nat \<Rightarrow> bool" where
  "next_state a b m \<longleftrightarrow> zstream b = m \<and> bits_ok b \<and> same_output a b"

lemma next_state_trans: "next_state a b m \<Longrightarrow> next_state b c k \<Longrightarrow> next_state a c k"
  unfolding next_state_def using same_output_trans by blast

lemma put_bits_read:
  assumes "bits_ok a" and "zstream a = put_bits k e m" and "e < 2 ^ k" and "k \<le> 25"
  obtains x b where "zreceive k a = (Inr x, b)" and "unat x = e" and "next_state a b m"
proof -
  show ?thesis
    using that [OF zreceive_eq [OF assms(1,4)]] received_ok [OF assms(1,4)] assms(2,3)
    by (simp add: put_bits_def next_state_def)
qed

lemma put_sym_starts:
  assumes "fits xs" and "\<forall>x \<in> set xs. x < 16" and "has_code xs i"
  shows "starts xs (put_sym xs i m) i" and "put_sym xs i m div 2 ^ (xs ! i) = m"
proof -
  let ?s = "xs ! i"
  have i: "i < length xs" "?s \<noteq> 0" using assms(3) by (simp_all add: has_code_def)
  then have s: "?s < 16" using assms(2) by simp
  have less: "code_of xs i < 2 ^ ?s"
    using code_bounds(2) [OF i] fits_bound [OF assms(1) s] by simp
  have r: "rev_bits ?s (code_of xs i) < 2 ^ ?s" by (rule rev_bits_less)
  have "put_sym xs i m mod 2 ^ ?s = rev_bits ?s (code_of xs i)"
    using r by (simp add: put_sym_def put_bits_def)
  then have "rev_bits ?s (put_sym xs i m) = rev_bits ?s (rev_bits ?s (code_of xs i))"
    using rev_bits_mod [of ?s ?s "put_sym xs i m"] by simp
  also have "\<dots> = code_of xs i" using less by (simp add: rev_bits_rev)
  finally show "starts xs (put_sym xs i m) i" using i by (simp add: starts_def)
  show "put_sym xs i m div 2 ^ ?s = m" using r by (simp add: put_sym_def put_bits_def)
qed

lemma put_sym_read:
  assumes "table_for xs z" and "bits_ok a" and "zstream a = put_sym xs i m" and "has_code xs i"
  obtains b where "zhuffman_decode z a = (Inr (Some i), b)" and "next_state a b m"
proof -
  have x: "fits xs" "\<forall>x \<in> set xs. x < 16" using assms(1) by (simp_all add: table_for_def)
  have s: "starts xs (zstream a) i" using put_sym_starts(1) [OF x assms(4)] assms(3) by simp
  then obtain b where "zhuffman_decode z a = (Inr (Some i), b)" "zstream b = zstream a div 2 ^ (xs ! i)"
    "bits_ok b" "same_output a b"
    using decode_cases [OF assms(1,2)] starts_unique [OF s] by blast
  then show ?thesis
    using that put_sym_starts(2) [OF x assms(4)] assms(3) by (simp add: next_state_def)
qed

lemma put_extra_read:
  assumes "bits_ok a" and "zstream a = put_bits k e m" and "e < 2 ^ k" and "k \<le> 25"
  obtains b where "receive_extra k a = (Inr e, b)" and "next_state a b m"
proof (cases "k = 0")
  case True
  then show ?thesis
    using that [of a] assms by (simp add: receive_extra_def put_bits_def next_state_def same_output_refl)
next
  case False
  obtain x b where "zreceive k a = (Inr x, b)" "unat x = e" "next_state a b m"
    by (rule put_bits_read [OF assms])
  then show ?thesis using that [of b] False by (simp add: receive_extra_def bindE_return)
qed

subsection \<open>Blocks\<close>

definition with_out :: "u8 list \<Rightarrow> zbuf \<Rightarrow> zbuf" where
  "with_out w a = a\<lparr>written := w\<rparr>"

lemma with_out_simps [simp]:
  "written (with_out w a) = w" "capacity (with_out w a) = capacity a" "z_length (with_out w a) = z_length a"
  "z_distance (with_out w a) = z_distance a" "zstream (with_out w a) = zstream a" "bits_ok (with_out w a) = bits_ok a"
  "with_out w (with_out v a) = with_out w a"
  by (simp_all add: with_out_def zstream_def bits_ok_def)

lemma next_state_output:
  "next_state a b m \<Longrightarrow> next_state (with_out w a) (with_out w b) m"
  by (auto simp: next_state_def same_output_def with_out_def zstream_def bits_ok_def)

lemma next_state_simps:
  assumes "next_state a b m"
  shows "written b = written a" "capacity b = capacity a" "z_length b = z_length a"
    "z_distance b = z_distance a" "bits_ok b" "zstream b = m"
  using assms by (simp_all add: next_state_def same_output_def)

lemma room_enough: "length (written a) + n \<le> capacity a \<Longrightarrow> ensure_room al n a = (Inr (), a)"
  by (simp add: ensure_room_def)

lemma put_output: "length w \<le> capacity a \<Longrightarrow> put w a = (Inr (), with_out w a)"
  by (simp add: put_def with_out_def)

lemma symbol_ranges:
  "257 \<le> s \<Longrightarrow> s \<le> 285 \<Longrightarrow> s - 257 < (31 :: nat)" "d < 30 \<Longrightarrow> d < (32 :: nat)" "d < 30 \<Longrightarrow> 0 < zdist_base ! d"
proof -
  show "0 < zdist_base ! d" if "d < 30"
  proof -
    have "take 30 zdist_base ! d \<in> set (take 30 zdist_base)"
      by (rule nth_mem) (use that in \<open>simp add: zdist_base_def\<close>)
    moreover have "\<forall>x \<in> set (take 30 zdist_base). 0 < x" by (simp add: zdist_base_def)
    ultimately show ?thesis using that by (metis nth_take)
  qed
qed simp_all

lemma literal_round:
  assumes t: "table_for xs (z_length a)" and a: "bits_ok a" "zstream a = put_sym xs b m"
    and b: "b < 256" "has_code xs b" and room: "Suc (length (written a)) \<le> capacity a"
  shows "\<exists>a'. huffman_round al a = (Inr False, a') \<and> next_state (with_out (written a @ [of_nat b]) a) a' m"
proof -
  obtain c where c: "zhuffman_decode (z_length a) a = (Inr (Some b), c)" and n: "next_state a c m"
    by (rule put_sym_read [OF t a b(2)])
  have "emit_literal al b c = (Inr (), with_out (written c @ [of_nat b]) c)"
    using room next_state_simps [OF n] by (simp add: emit_literal_def bindE_def room_enough put_output)
  then have "huffman_round al a = (Inr False, with_out (written a @ [of_nat b]) c)"
    using c b(1) next_state_simps [OF n] by (simp add: huffman_round_def bindE_def)
  then show ?thesis using next_state_output [OF n] by blast
qed

lemma match_round:
  assumes t: "table_for xs (z_length a)" "table_for ys (z_distance a)"
    and a: "bits_ok a" "zstream a = put_item xs ys (Pair s e d f) m"
    and ok: "item_ok xs ys (Pair s e d f) (written a)"
    and room: "length (written a) + (zlength_base ! (s - 257) + e) \<le> capacity a"
  shows "\<exists>a'. huffman_round al a = (Inr False, a') \<and>
    next_state (with_out (written a @ item_bytes (Pair s e d f) (written a)) a) a' m"
proof -
  let ?len = "zlength_base ! (s - 257) + e" and ?dist = "zdist_base ! d + f"
  have s: "257 \<le> s" "s \<le> 285" "has_code xs s" "e < 2 ^ (zlength_extra ! (s - 257))"
    and d: "d < 30" "has_code ys d" "f < 2 ^ (zdist_extra ! d)" "?dist \<le> length (written a)"
    using ok by simp_all
  note sr = symbol_ranges(1) [OF s(1,2)] and dr = symbol_ranges(2) [OF d(1)]
  obtain a1 where a1: "zhuffman_decode (z_length a) a = (Inr (Some s), a1)"
    and n1: "next_state a a1 (put_bits (zlength_extra ! (s - 257)) e
      (put_sym ys d (put_bits (zdist_extra ! d) f m)))"
    by (rule put_sym_read [OF t(1) a(1) _ s(3)]) (use a(2) in simp_all)
  obtain a2 where a2: "receive_extra (zlength_extra ! (s - 257)) a1 = (Inr e, a2)"
    and n2: "next_state a1 a2 (put_sym ys d (put_bits (zdist_extra ! d) f m))"
    by (rule put_extra_read [OF next_state_simps(5,6) [OF n1] s(4) extra_small(1) [OF sr]])
  have t2: "table_for ys (z_distance a2)" using t(2) next_state_simps(4) [OF n1] next_state_simps(4) [OF n2] by simp
  obtain a3 where a3: "zhuffman_decode (z_distance a2) a2 = (Inr (Some d), a3)"
    and n3: "next_state a2 a3 (put_bits (zdist_extra ! d) f m)"
    by (rule put_sym_read [OF t2 next_state_simps(5,6) [OF n2] d(2)])
  obtain a4 where a4: "receive_extra (zdist_extra ! d) a3 = (Inr f, a4)" and n4: "next_state a3 a4 m"
    by (rule put_extra_read [OF next_state_simps(5,6) [OF n3] d(3) extra_small(2) [OF dr]])
  have n: "next_state a a4 m"
    by (rule next_state_trans [OF next_state_trans [OF next_state_trans [OF n1 n2] n3] n4])
  note w = next_state_simps [OF n]
  have "emit_match ?len ?dist a4 = (Inr (), a4\<lparr>written := written a4 @ lz_copy ?len ?dist (written a4)\<rparr>)"
    by (rule emit_match_lz) (use symbol_ranges(3) [OF d(1)] d(4) room w in simp_all)
  then have "match_distance al ?len a2 = (Inr (), with_out (written a @ lz_copy ?len ?dist (written a)) a4)"
    using a3 a4 dr d(4) room w
    by (simp add: match_distance_def bindE_def room_enough not_less with_out_def)
  then have "match_length al s a1 = (Inr (), with_out (written a @ lz_copy ?len ?dist (written a)) a4)"
    using a2 sr by (simp add: match_length_def bindE_def)
  then have "huffman_round al a = (Inr False, with_out (written a @ lz_copy ?len ?dist (written a)) a4)"
    using a1 s(1) by (simp add: huffman_round_def bindE_def)
  then show ?thesis using next_state_output [OF n] by auto
qed

lemma item_round:
  assumes "table_for xs (z_length a)" and "table_for ys (z_distance a)" and "bits_ok a"
    and "zstream a = put_item xs ys t m" and "item_ok xs ys t (written a)"
    and "length (written a @ item_bytes t (written a)) \<le> capacity a"
  shows "\<exists>a'. huffman_round al a = (Inr False, a') \<and>
    next_state (with_out (written a @ item_bytes t (written a)) a) a' m"
proof (cases t)
  case (Literal b)
  then show ?thesis using literal_round [of xs a b m al] assms by simp
next
  case (Pair s e d f)
  then show ?thesis using match_round [of xs a ys s e d f m al] assms by simp
qed

lemma block_inverse:
  assumes "table_for xs (z_length a)" and "table_for ys (z_distance a)" and "bits_ok a"
    and "zstream a = put_block xs ys ts m" and "items_ok xs ys ts (written a)"
    and "length (expand ts (written a)) \<le> capacity a" and "length ts < n"
  shows "\<exists>a'. parse_huffman_block n al a = (Inr (), a') \<and>
    next_state (with_out (expand ts (written a)) a) a' m"
  using assms
proof (induction ts arbitrary: n a)
  case Nil
  obtain k where k: "n = Suc k" using Nil.prems(7) by (cases n) simp_all
  have "has_code xs 256" "zstream a = put_sym xs 256 m" using Nil.prems(4,5) by (simp_all add: put_block_def)
  then obtain b where b: "zhuffman_decode (z_length a) a = (Inr (Some 256), b)" "next_state a b m"
    using put_sym_read [OF Nil.prems(1,3)] by blast
  then have "parse_huffman_block n al a = (Inr (), b)"
    by (simp add: k huffman_round_def bindE_def)
  moreover have "with_out (written a) a = a" by (simp add: with_out_def)
  ultimately show ?case using b(2) by auto
next
  case (Cons t ts)
  obtain k where k: "n = Suc k" "length ts < k" using Cons.prems(7) by (cases n) simp_all
  let ?w = "written a @ item_bytes t (written a)"
  have st: "zstream a = put_item xs ys t (put_block xs ys ts m)" using Cons.prems(4) by (simp add: put_block_def)
  have ok: "item_ok xs ys t (written a)" "items_ok xs ys ts ?w" using Cons.prems(5) by simp_all
  have room: "length ?w \<le> capacity a"
    using Cons.prems(6) expand_length [of ?w ts] by (simp del: length_append)
  obtain b where b: "huffman_round al a = (Inr False, b)" "next_state (with_out ?w a) b (put_block xs ys ts m)"
    using item_round [OF Cons.prems(1-3) st ok(1) room] by blast
  note nb = next_state_simps [OF b(2), simplified]
  have "\<exists>a'. parse_huffman_block k al b = (Inr (), a') \<and> next_state (with_out (expand ts (written b)) b) a' m"
    by (rule Cons.IH) (use Cons.prems(1,2,6) nb ok(2) k(2) in simp_all)
  moreover have "next_state (with_out (expand ts ?w) a) a' m"
    if "next_state (with_out (expand ts ?w) b) a' m" for a'
    using next_state_trans [OF next_state_output [OF b(2), of "expand ts ?w"], of a' m] that by simp
  moreover have "parse_huffman_block n al a = parse_huffman_block k al b"
    using b(1) by (simp add: k bindE_def)
  ultimately show ?case using nb by auto
qed

subsection \<open>Streams with the fixed codes\<close>

lemma first_code_numeral [simp]:
  "first_code xs (numeral k) = 2 * (first_code xs (pred_numeral k) + cnt xs (pred_numeral k))"
  by (simp add: numeral_eq_Suc)

lemma rev_bits_numeral [simp]:
  "rev_bits (numeral k) n = 2 * rev_bits (pred_numeral k) n + (n div 2 ^ pred_numeral k) mod 2"
  by (simp add: numeral_eq_Suc)

lemma default_counts:
  "cnt zdefault_length s = (if s = 7 then 24 else if s = 8 then 152 else if s = 9 then 112 else 0)"
  "cnt zdefault_distance s = (if s = 5 then 32 else 0)"
  by (auto simp: cnt_def zdefault_length_def zdefault_distance_def count_replicate)

lemma default_fits: "fits zdefault_length" "fits zdefault_distance"
proof -
  have "first_code zdefault_length s + cnt zdefault_length s \<le> 2 ^ s \<and>
      first_code zdefault_distance s + cnt zdefault_distance s \<le> 2 ^ s" if "s < 16" for s
    using less_16_cases [OF that] by (elim insertE emptyE) (simp_all add: default_counts)
  then show "fits zdefault_length" "fits zdefault_distance" by (simp_all add: fits_def)
qed

lemma default_tables:
  assumes "shaped (z_length a)" and "shaped (z_distance a)"
  obtains zl zd where "table_for zdefault_length zl" and "table_for zdefault_distance zd"
    and "set_tables zdefault_length zdefault_distance a = (Inr (), a\<lparr>z_length := zl, z_distance := zd\<rparr>)"
proof -
  obtain zl where zl: "zbuild_huffman (z_length a) zdefault_length = Inr zl" "table_for zdefault_length zl"
    using zbuild_huffman_cases [OF assms(1) default_lengths(1,2)] default_fits(1) by auto
  have "length zdefault_distance \<le> 288" "\<forall>x \<in> set zdefault_distance. x < 16"
    by (simp_all add: zdefault_distance_def)
  then obtain zd where zd: "zbuild_huffman (z_distance a) zdefault_distance = Inr zd" "table_for zdefault_distance zd"
    using zbuild_huffman_cases [OF assms(2)] default_fits(2) by fastforce
  show ?thesis
    by (rule that [OF zl(2) zd(2)]) (simp add: set_tables_def bindE_def zl(1) zd(1))
qed

text \<open>A stream of one final block with the fixed codes.\<close>

definition fixed_stream :: "deflate_sym list \<Rightarrow> nat \<Rightarrow> nat" where
  "fixed_stream ts m = put_bits 1 1 (put_bits 2 1 (put_block zdefault_length zdefault_distance ts m))"

lemma fixed_round:
  assumes "bits_ok a" and "shaped (z_length a)" and "shaped (z_distance a)"
    and "zstream a = fixed_stream ts m" and "items_ok zdefault_length zdefault_distance ts (written a)"
    and "length (expand ts (written a)) \<le> capacity a" and "length ts < n"
  shows "\<exists>a'. zlib_round n al a = (Inr True, a') \<and> written a' = expand ts (written a)"
proof -
  obtain x b where b: "zreceive 1 a = (Inr x, b)" "unat x = 1"
    "next_state a b (put_bits 2 1 (put_block zdefault_length zdefault_distance ts m))"
    by (rule put_bits_read [OF assms(1,4) [unfolded fixed_stream_def]]) simp_all
  obtain y c where c: "zreceive 2 b = (Inr y, c)" "unat y = 1"
    "next_state b c (put_block zdefault_length zdefault_distance ts m)"
    by (rule put_bits_read [OF next_state_simps(5,6) [OF b(3)]]) simp_all
  note n = next_state_simps [OF next_state_trans [OF b(3) c(3)]]
  obtain zl zd where t: "table_for zdefault_length zl" "table_for zdefault_distance zd"
    "set_tables zdefault_length zdefault_distance c = (Inr (), c\<lparr>z_length := zl, z_distance := zd\<rparr>)"
    by (rule default_tables [of c]) (use n assms(2,3) in simp_all)
  let ?c = "c\<lparr>z_length := zl, z_distance := zd\<rparr>"
  have "\<exists>a'. parse_huffman_block n al ?c = (Inr (), a') \<and> next_state (with_out (expand ts (written ?c)) ?c) a' m"
    by (rule block_inverse [OF _ _ _ _ _ _ assms(7)])
      (use t n assms(5,6) in \<open>simp_all add: zstream_def bits_ok_def\<close>)
  then obtain a' where p: "parse_huffman_block n al ?c = (Inr (), a')" "written a' = expand ts (written a)"
    using next_state_simps(1) n(1) by fastforce
  have xy: "x = 1" "y = 1"
    using b(2) c(2) by (simp_all add: word_unat_eq_iff)
  have "zlib_round n al a = (Inr True, a')"
    using b(1) c(1) t(3) p(1) xy by (simp add: zlib_round_def runE_apply bindE_def)
  then show ?thesis using p(2) by blast
qed

lemma one_round:
  assumes "zlib_round n al (a\<lparr>num_bits := 0, code_buffer := 0\<rparr>) = (Inr True, a')"
  shows "parse_zlib (Suc n) al False a = (Inr (), a')"
  using assms by (simp add: parse_zlib_def bindE_def)

subsection \<open>Stored blocks\<close>

definition stored_block :: "bool \<Rightarrow> u8 list \<Rightarrow> u8 list" where
  "stored_block final d =
     (let n = length d
      in [if final then 1 else 0, of_nat (n mod 256), of_nat (n div 256),
          of_nat (255 - n mod 256), of_nat (255 - n div 256)] @ d)"

fun stored_stream :: "u8 list list \<Rightarrow> u8 list" where
  "stored_stream [] = []"
| "stored_stream [d] = stored_block True d"
| "stored_stream (d # ds) = stored_block False d @ stored_stream ds"

lemma refilled_fresh:
  assumes "num_bits a = 0" and "code_buffer a = 0" and "zin a = b0 # b1 # b2 # b3 # bs"
  shows "num_bits (refilled a) = 32" and "zin (refilled a) = bs" and "bits_ok (refilled a)"
    and "unat (code_buffer (refilled a)) = unat b0 + 256 * (unat b1 + 256 * (unat b2 + 256 * unat b3))"
    and "same_output a (refilled a)"
proof -
  have ok: "bits_ok a" using assms(1,2) by (simp add: bits_ok_def)
  note f = refilled_ok [OF ok]
  show n: "num_bits (refilled a) = 32" and z: "zin (refilled a) = bs"
    using assms by (simp_all add: refilled.simps zget8_def)
  show "bits_ok (refilled a)" "same_output a (refilled a)" using f assms(1) by simp_all
  have "zstream (refilled a) = zstream a" using f assms(1) by simp
  then show "unat (code_buffer (refilled a)) = unat b0 + 256 * (unat b1 + 256 * (unat b2 + 256 * unat b3))"
    using assms by (simp add: zstream_def n z)
qed

text \<open>\<open>buffered a c k\<close>: the bit buffer holds the \<open>k\<close> bits of the number \<open>c\<close>.\<close>

definition buffered :: "zbuf \<Rightarrow> nat \<Rightarrow> nat \<Rightarrow> bool" where
  "buffered a c k \<longleftrightarrow> bits_ok a \<and> num_bits a = k \<and> unat (code_buffer a) = c"

lemma buffered_drop:
  assumes "buffered a c k" and "n \<le> k"
  shows "buffered (drop_bits n a) (c div 2 ^ n) (k - n)" and "unat (code_buffer a AND (push_bit n 1 - 1)) = c mod 2 ^ n"
    and "same_output a (drop_bits n a)" and "zin (drop_bits n a) = zin a"
proof -
  let ?a = "a\<lparr>zin := []\<rparr>"
  have a: "bits_ok ?a" "n \<le> num_bits ?a" "zstream ?a = c"
    using assms by (auto simp: buffered_def bits_ok_def zstream_def)
  note t = take_bits_stream [OF a(1,2)]
  show "unat (code_buffer a AND (push_bit n 1 - 1)) = c mod 2 ^ n" using t(1) a(3) by simp
  have "unat (code_buffer (drop_bits n a)) = c div 2 ^ n"
    using t(2) a(3) by (simp add: drop_bits_def zstream_def)
  moreover have "bits_ok (drop_bits n a)" using t(3) by (simp add: drop_bits_def bits_ok_def)
  ultimately show "buffered (drop_bits n a) (c div 2 ^ n) (k - n)"
    using assms(1) by (simp add: buffered_def drop_bits_def)
qed (simp_all add: same_output_def drop_bits_def)

lemma buffered_receive:
  assumes "buffered a c k" and "n \<le> k"
  shows "\<exists>x. zreceive n a = (Inr x, drop_bits n a) \<and> unat x = c mod 2 ^ n"
  using buffered_drop(2) [OF assms] assms by (simp add: zreceive_def need_bits_def bindE_def buffered_def drop_bits_def)

lemma buffered_drain:
  assumes "buffered a c 24"
  shows "\<exists>a' h0 h1 h2. drain_header [] a = (Inr [h0, h1, h2], a') \<and> num_bits a' = 0 \<and> code_buffer a' = 0 \<and>
    zin a' = zin a \<and> same_output a a' \<and>
    unat h0 = c mod 256 \<and> unat h1 = c div 256 mod 256 \<and> unat h2 = c div 65536 mod 256"
proof -
  let ?b = "drop_bits 8 a" and ?c = "drop_bits 8 (drop_bits 8 a)" and ?d = "drop_bits 8 (drop_bits 8 (drop_bits 8 a))"
  have b: "buffered ?b (c div 256) 16" using buffered_drop(1) [OF assms, of 8] by simp
  have c: "buffered ?c (c div 65536) 8" using buffered_drop(1) [OF b, of 8] by (simp flip: div_mult2_eq)
  have d: "buffered ?d (c div 16777216) 0" using buffered_drop(1) [OF c, of 8] by (simp flip: div_mult2_eq)
  have byte: "unat (ucast (code_buffer x AND 255) :: u8) = e mod 256" if "buffered x e k" "8 \<le> k" for x e k
  proof -
    have "unat (code_buffer x AND 255) = e mod 256"
      using buffered_drop(2) [OF that] by (simp add: push_bit_eq_mult)
    then show ?thesis by (simp add: unsigned_ucast_eq take_bit_eq_mod)
  qed
  have n: "num_bits a = 24" "num_bits ?b = 16" "num_bits ?c = 8" "num_bits ?d = 0"
    using assms b c d by (simp_all add: buffered_def)
  have "unat (code_buffer ?d) = 0" using d by (auto simp: buffered_def bits_ok_def)
  then have z: "code_buffer ?d = 0" by (simp add: word_unat_eq_iff)
  have s: "same_output a ?d" "zin ?d = zin a" by (simp_all add: same_output_def drop_bits_def)
  have "drain_header [] a = (Inr [ucast (code_buffer a AND 255), ucast (code_buffer ?b AND 255),
      ucast (code_buffer ?c AND 255)], ?d)"
    by (subst drain_header.simps, simp add: n, subst drain_header.simps, simp add: n,
        subst drain_header.simps, simp add: n, subst drain_header.simps, simp add: n)
  then show ?thesis
    using n(4) z s byte [OF assms] byte [OF b] byte [OF c] by auto
qed

lemma xor_mask:
  fixes x :: nat
  assumes "x < 65536"
  shows "x XOR 65535 = 65535 - x"
proof -
  have m: "(65535 :: nat) = mask 16" by (simp add: mask_eq_exp_minus_1)
  have less: "i < 16" if "bit x i" for i
  proof -
    have "take_bit 16 x = x" using assms by (intro take_bit_nat_eq_self) simp
    then show ?thesis using that by (metis bit_take_bit_iff)
  qed
  have "x + (x XOR mask 16) = x OR (x XOR mask 16)"
    by (rule disjunctive_add) (use less in \<open>auto simp: bit_simps\<close>)
  also have "\<dots> = mask 16"
  proof (rule bit_eqI)
    fix i
    show "bit (x OR (x XOR mask 16)) i = bit (mask 16 :: nat) i"
      using less by (auto simp: bit_simps)
  qed
  finally show ?thesis unfolding m by linarith
qed

lemma low_digit: "(x :: nat) < 256 \<Longrightarrow> (x + 256 * w) mod 256 = x" "(x :: nat) < 256 \<Longrightarrow> (x + 256 * w) div 256 = w"
  by simp_all

lemma digits3:
  fixes x y z :: nat
  assumes "x < 256" and "y < 256" and "z < 256"
  shows "(x + 256 * (y + 256 * z)) mod 256 = x" "(x + 256 * (y + 256 * z)) div 256 mod 256 = y"
    "(x + 256 * (y + 256 * z)) div 65536 mod 256 = z"
proof -
  show "(x + 256 * (y + 256 * z)) mod 256 = x" "(x + 256 * (y + 256 * z)) div 256 mod 256 = y"
    by (simp_all only: low_digit [OF assms(1)] low_digit [OF assms(2)])
  have "(x + 256 * (y + 256 * z)) div (256 * 256) = z"
    by (simp only: div_mult2_eq low_digit [OF assms(1)] low_digit [OF assms(2)])
  then show "(x + 256 * (y + 256 * z)) div 65536 mod 256 = z" using assms(3) by simp
qed

lemma header_bits:
  "(h :: nat) \<le> 1 \<Longrightarrow> (h + 256 * w) mod 2 = h" "(h :: nat) \<le> 1 \<Longrightarrow> (h + 256 * w) div 2 mod 4 = 0"
  by presburger+

lemma stored_round:
  assumes a: "num_bits a = 0" "code_buffer a = 0" "zin a = stored_block final d @ rest"
    and d: "length d < 65536" and room: "length (written a) + length d \<le> capacity a"
  shows "\<exists>a'. zlib_round n al a = (Inr final, a') \<and> num_bits a' = 0 \<and> code_buffer a' = 0 \<and> zin a' = rest \<and>
    written a' = written a @ d \<and> capacity a' = capacity a"
proof -
  let ?n = "length d"
  have div: "?n div 256 < 256" using d by simp
  have z: "zin a = (if final then 1 else 0) # of_nat (?n mod 256) # of_nat (?n div 256) #
      of_nat (255 - ?n mod 256) # of_nat (255 - ?n div 256) # d @ rest"
    using a(3) by (simp add: stored_block_def Let_def)
  have byte: "unat (of_nat k :: u8) = k" if "k < 256" for k
    using that by (simp add: unsigned_of_nat take_bit_eq_mod)
  note f = refilled_fresh [OF a(1,2) z]
  let ?hd = "if final then 1 else 0 :: nat"
  let ?f = "refilled a"
  let ?c = "?hd + 256 * (?n mod 256 + 256 * (?n div 256 + 256 * (255 - ?n mod 256)))"
  have b0: "buffered ?f ?c 32"
    using f(1,3,4) div by (cases final) (simp_all add: buffered_def byte del: of_nat_diff)
  let ?b = "drop_bits 1 ?f" and ?e = "drop_bits 2 (drop_bits 1 ?f)" and ?g = "drop_bits 5 (drop_bits 2 (drop_bits 1 ?f))"
  have b1: "buffered ?b (?c div 2) 31" using buffered_drop(1) [OF b0, of 1] by simp
  have b2: "buffered ?e (?c div 8) 29" using buffered_drop(1) [OF b1, of 2] by (simp flip: div_mult2_eq)
  have b3: "buffered ?g (?c div 256) 24" using buffered_drop(1) [OF b2, of 5] by (simp flip: div_mult2_eq)
  obtain x where x: "zreceive 1 ?f = (Inr x, ?b)" "unat x = ?c mod 2" using buffered_receive [OF b0, of 1] by auto
  obtain y where y: "zreceive 2 ?b = (Inr y, ?e)" "unat y = ?c div 2 mod 4" using buffered_receive [OF b1, of 2] by auto
  obtain w where w: "zreceive 5 ?e = (Inr w, ?g)" using buffered_receive [OF b2, of 5] by auto
  have "bits_ok a" using a(1,2) by (simp add: bits_ok_def)
  then have "need_bits 1 a = (Inr (), ?f)" using a(1) by (simp add: need_bits_eq)
  then have x0: "zreceive 1 a = (Inr x, ?b)"
    using x(1) f(1) by (simp add: zreceive_def bindE_def need_bits_def)
  have hd: "?hd \<le> 1" by simp
  have xy: "(x \<noteq> 0) = final" "y = 0"
    using x(2) y(2) unfolding header_bits [OF hd] by (auto simp: word_unat_eq_iff)
  have "same_output ?f ?g" by (simp add: same_output_def drop_bits_def)
  then have frame: "same_output a ?g" by (rule same_output_trans [OF f(5)])
  have gin: "zin ?g = of_nat (255 - ?n div 256) # d @ rest" using f(2) by (simp add: drop_bits_def)
  obtain g' h0 h1 h2 where dr: "drain_header [] ?g = (Inr [h0, h1, h2], g')" "num_bits g' = 0" "code_buffer g' = 0"
    "zin g' = zin ?g" "same_output ?g g'" "unat h0 = ?c div 256 mod 256" "unat h1 = ?c div 256 div 256 mod 256"
    "unat h2 = ?c div 256 div 65536 mod 256"
    using buffered_drain [OF b3] by blast
  have c1: "?c div 256 = ?n mod 256 + 256 * (?n div 256 + 256 * (255 - ?n mod 256))"
    by (rule low_digit(2)) simp
  have lt: "?n mod 256 < 256" "255 - ?n mod 256 < 256" by simp_all
  have h: "unat h0 = ?n mod 256" "unat h1 = ?n div 256" "unat h2 = 255 - ?n mod 256"
    using dr(6-8) unfolding c1 digits3 [OF lt(1) div lt(2)] by (simp_all only:)
  define h3 :: u8 where "h3 = of_nat (255 - ?n div 256)"
  have u3: "unat h3 = 255 - ?n div 256" unfolding h3_def by (rule byte) simp
  have one: "4 - length [h0, h1, h2] = Suc 0" by simp
  have fh: "fill_header (4 - length [h0, h1, h2]) [h0, h1, h2] g' = ([h0, h1, h2, h3], g'\<lparr>zin := d @ rest\<rparr>)"
    using gin dr(4) unfolding one h3_def [symmetric] by (simp add: zget8_def)
  have len: "unat h1 * 256 + unat h0 = ?n" unfolding h by (rule div_mult_mod_eq)
  have nlen: "unat h3 * 256 + unat h2 = (?n XOR 65535)"
  proof -
    have "(255 - ?n div 256) * 256 + (255 - ?n mod 256) = 65535 - (?n div 256 * 256 + ?n mod 256)"
      using div by (simp add: diff_mult_distrib)
    then show ?thesis unfolding u3 h xor_mask [OF d] div_mult_mod_eq .
  qed
  let ?k = "g'\<lparr>zin := d @ rest\<rparr>"
  have k: "written ?k = written a" "capacity ?k = capacity a"
    using same_output_trans [OF frame dr(5)] by (simp_all add: same_output_def)
  have "copy_stored ?n ?k = (Inr (), ?k\<lparr>zin := rest, written := written a @ d\<rparr>)"
    using k room by (simp add: copy_stored_def put_def)
  moreover have "ensure_room al ?n ?k = (Inr (), ?k)" using k room by (intro room_enough) simp
  moreover have "num_bits ?e = 29" using b2 by (simp add: buffered_def)
  then have e7: "num_bits ?e AND 7 = 5" by simp
  ultimately have "parse_uncompressed_block al ?e = (Inr (), ?k\<lparr>zin := rest, written := written a @ d\<rparr>)"
    unfolding parse_uncompressed_block_def
    using e7 w k len nlen fh dr(1) by (simp add: bindE_def runE_apply)
  then show ?thesis
    using x0 y(1) xy dr(2,3) k by (simp add: zlib_round_def bindE_def runE_apply)
qed

lemma stored_blocks:
  assumes "ds \<noteq> []" and "\<forall>d \<in> set ds. length d < 65536" and "num_bits a = 0" and "code_buffer a = 0"
    and "zin a = stored_stream ds @ rest" and "length (written a) + length (concat ds) \<le> capacity a"
    and "length ds \<le> n"
  shows "\<exists>a'. zlib_blocks n al a = (Inr (), a') \<and> written a' = written a @ concat ds"
  using assms
proof (induction ds arbitrary: a n rule: stored_stream.induct)
  case (2 d)
  obtain k where k: "n = Suc k" using "2.prems"(7) by (cases n) simp_all
  have "zin a = stored_block True d @ rest" "length d < 65536" "length (written a) + length d \<le> capacity a"
    using "2.prems"(2,5,6) by simp_all
  from stored_round [OF "2.prems"(3,4) this] obtain a' where
    "zlib_round k al a = (Inr True, a')" "written a' = written a @ d" by blast
  then show ?case by (simp add: k bindE_def)
next
  case (3 d e es)
  obtain k where k: "n = Suc k" "length (e # es) \<le> k" using "3.prems"(7) by (cases n) simp_all
  have "zin a = stored_block False d @ stored_stream (e # es) @ rest" "length d < 65536"
    "length (written a) + length d \<le> capacity a"
    using "3.prems"(2,5,6) by simp_all
  from stored_round [OF "3.prems"(3,4) this] obtain b where
    b: "zlib_round k al a = (Inr False, b)" "num_bits b = 0" "code_buffer b = 0"
    "zin b = stored_stream (e # es) @ rest" "written b = written a @ d" "capacity b = capacity a" by blast
  have "\<exists>a'. zlib_blocks k al b = (Inr (), a') \<and> written a' = written b @ concat (e # es)"
    by (rule "3.IH") (use "3.prems"(2,6) b k(2) in simp_all)
  then show ?case using b(1,5) by (auto simp: k(1) bindE_def)
qed simp

subsection \<open>Properties\<close>

lemma sample_codes:
  "zdefault_length ! 65 = 8" "zdefault_length ! 256 = 7" "length zdefault_length = 288"
  "code_of zdefault_length 65 = 113" "code_of zdefault_length 256 = 0"
proof -
  show n: "zdefault_length ! 65 = 8" "zdefault_length ! 256 = 7" "length zdefault_length = 288"
    by (simp_all add: zdefault_length_def nth_append)
  have "rank zdefault_length 65 = 65" "rank zdefault_length 256 = 0"
    unfolding rank_def n by (simp_all add: zdefault_length_def count_replicate)
  then show "code_of zdefault_length 65 = 113" "code_of zdefault_length 256 = 0"
    by (simp_all add: code_of_def n default_counts)
qed

text \<open>
  C6: a block of Huffman codes is decoded to exactly what it encodes. For any two code tables,
  any sequence of literals and matches that can be written with them, and anything after it,
  the decoder appends the literals and the copies the matches stand for (the last \<open>dist\<close> bytes,
  repeated up to the length), stops at the end-of-block code and consumes not a bit more.
\<close>

theorem huffman_block_round_trip:
  assumes "table_for xs (z_length a)" and "table_for ys (z_distance a)" and "bits_ok a"
    and "zstream a = put_block xs ys ts m" and "items_ok xs ys ts (written a)"
    and "length (expand ts (written a)) \<le> capacity a" and "length ts < n"
  shows "\<exists>a'. parse_huffman_block n al a = (Inr (), a') \<and> written a' = expand ts (written a) \<and>
    zstream a' = m \<and> bits_ok a'"
  using block_inverse [OF assms, of al] next_state_simps by fastforce

lemma huffman_block_round_trip_witness:
  "\<exists>zl zd a'. parse_huffman_block 2 (\<lambda>_. False)
     \<lparr>zin = [142, 0], num_bits = 0, code_buffer = 0, written = [], capacity = 1, z_expandable = False,
      z_length = zl, z_distance = zd\<rparr> = (Inr (), a') \<and> written a' = [65]"
proof -
  obtain zl zd where t: "table_for zdefault_length zl" "table_for zdefault_distance zd"
    by (rule default_tables [of "\<lparr>zin = [], num_bits = 0, code_buffer = 0, written = [], capacity = 0,
      z_expandable = False, z_length = blank_huffman, z_distance = blank_huffman\<rparr>"]) (simp_all add: shaped_blank)
  let ?a = "\<lparr>zin = [142, 0], num_bits = 0, code_buffer = 0, written = [], capacity = 1, z_expandable = False,
      z_length = zl, z_distance = zd\<rparr>"
  have "zstream ?a = put_block zdefault_length zdefault_distance [Literal 65] 0"
    by (simp add: zstream_def put_block_def put_sym_def put_bits_def sample_codes)
  from huffman_block_round_trip [OF _ _ _ this, of 2 "\<lambda>_. False"] t show ?thesis
    by (auto simp: bits_ok_def has_code_def sample_codes)
qed

text \<open>
  C8: a whole stream, with or without the zlib header, of one final block with the fixed codes
  is decoded to what its literals and matches stand for, whatever follows it.
\<close>

theorem fixed_stream_round_trip:
  assumes "le_value input = fixed_stream ts m" and "items_ok zdefault_length zdefault_distance ts []"
    and "length (expand ts []) \<le> olen" and "Suc (length ts) < fuel"
  shows "zlib_decode_noheader_buffer fuel olen input = Inr (expand ts []) \<and>
    zlib_decode_buffer fuel olen (0x78 # 0x01 # input) = Inr (expand ts [])"
proof -
  obtain n where n: "fuel = Suc n" "length ts < n" using assms(4) by (cases fuel) simp_all
  let ?a = "\<lparr>zin = input, num_bits = 0, code_buffer = 0, written = [], capacity = olen, z_expandable = False,
    z_length = blank_huffman, z_distance = blank_huffman\<rparr>"
  have "\<exists>a'. zlib_round n (\<lambda>_. False) ?a = (Inr True, a') \<and> written a' = expand ts (written ?a)"
    by (rule fixed_round [OF _ _ _ _ _ _ n(2)])
      (use assms(1-3) shaped_blank in \<open>simp_all add: zstream_def bits_ok_def\<close>)
  then obtain a' where a': "zlib_round n (\<lambda>_. False) ?a = (Inr True, a')" "written a' = expand ts []" by auto
  then show ?thesis
    by (simp add: zlib_decode_noheader_buffer_def zlib_decode_buffer_def do_zlib_def parse_zlib_def
        parse_zlib_header_def n bindE_def runE_apply zget8_def)
qed

lemma fixed_stream_round_trip_witness:
  "zlib_decode_noheader_buffer 3 10 [0x73, 0x04, 0x00] = Inr [65]"
proof -
  have "le_value [0x73, 0x04, 0x00] = fixed_stream [Literal 65] 0"
    by (simp add: fixed_stream_def put_block_def put_sym_def put_bits_def sample_codes)
  from fixed_stream_round_trip [OF this, of 10 3] show ?thesis by (simp add: has_code_def sample_codes)
qed

text \<open>
  C7: stored blocks survive the round trip: cut into pieces of less than 65536 bytes, any data
  that is stored and decoded, with or without the zlib header, comes back, whatever follows it.
\<close>

theorem stored_round_trip:
  assumes "ds \<noteq> []" and "\<forall>d \<in> set ds. length d < 65536" and "length (concat ds) \<le> olen" and "length ds \<le> fuel"
  shows "zlib_decode_noheader_buffer fuel olen (stored_stream ds @ rest) = Inr (concat ds) \<and>
    zlib_decode_buffer fuel olen ([0x78, 0x01] @ stored_stream ds @ rest) = Inr (concat ds)"
proof -
  let ?a = "\<lparr>zin = stored_stream ds @ rest, num_bits = 0, code_buffer = 0, written = [], capacity = olen,
    z_expandable = False, z_length = blank_huffman, z_distance = blank_huffman\<rparr>"
  obtain a' where "zlib_blocks fuel (\<lambda>_. False) ?a = (Inr (), a')" "written a' = concat ds"
    using stored_blocks [OF assms(1,2), of ?a rest fuel "\<lambda>_. False"] assms(3,4) by auto
  then show ?thesis
    by (simp add: zlib_decode_noheader_buffer_def zlib_decode_buffer_def do_zlib_def parse_zlib_def
        parse_zlib_header_def bindE_def runE_apply zget8_def)
qed

lemma stored_round_trip_witness:
  "zlib_decode_noheader_buffer 2 10 (stored_stream [[1, 2], [3]] @ [255]) = Inr [1, 2, 3]"
  using stored_round_trip [of "[[1, 2], [3]]" 10 2 "[255]"] by simp

end
