(* ===== verification/ImageFormats.thy ===== *)
theory ImageFormats
  imports Zlib
begin

text \<open>
  What the format decoders of \<open>include/util/stb_image.h\<close> share: the reading functions as effects on
  the context, the output array, and the conversion between numbers of channels (lines 1336 to 1378).
\<close>

subsection \<open>Reading\<close>

type_synonym ('u, 'a) im = "(stb_err, 'u ctx, 'a) comp"

abbreviation rd8 :: "('u, u8) im" where "rd8 \<equiv> runE get8"
abbreviation rd16 :: "('u, int) im" where "rd16 \<equiv> runE get16le"
abbreviation rd32 :: "('u, u32) im" where "rd32 \<equiv> runE get32le"
abbreviation rd16be :: "('u, int) im" where "rd16be \<equiv> runE get16be"
abbreviation rd32be :: "('u, u32) im" where "rd32be \<equiv> runE get32be"
abbreviation skipE :: "int \<Rightarrow> ('u, unit) im" where "skipE n \<equiv> modifyE (skip n)"

definition failE :: "string \<Rightarrow> ('u, 'a) im" where
  "failE reason = throwE (Err reason)"

text \<open>\<open>n\<close> reads whose values are discarded.\<close>

fun discard32 :: "nat \<Rightarrow> ('u, unit) im" where
  "discard32 0 = returnE ()"
| "discard32 (Suc n) = bindE rd32 (\<lambda>_. discard32 n)"

text \<open>A signed 32-bit computation, which must not overflow.\<close>

definition int32 :: "int \<Rightarrow> stb_err + int" where
  "int32 v = (if - (2 ^ 31) \<le> v \<and> v < 2 ^ 31 then Inr v else Inl (Undefined ''overflow''))"

text \<open>The value of a 32-bit unsigned expression.\<close>

abbreviation wrap32 :: "nat \<Rightarrow> nat" where "wrap32 n \<equiv> n mod 2 ^ 32"

subsection \<open>The output array\<close>

text \<open>A byte of allocated memory that has not been written is \<open>None\<close>.\<close>

type_synonym buffer = "u8 option list"

text \<open>\<open>stbi__malloc\<close> of a 32-bit size; \<open>al\<close> tells which sizes the allocator can serve.\<close>

definition malloc :: "(nat \<Rightarrow> bool) \<Rightarrow> nat \<Rightarrow> ('u, buffer) im" where
  "malloc al n = (if al (wrap32 n) then returnE (replicate (wrap32 n) None) else failE ''outofmem'')"

definition store :: "nat \<Rightarrow> u8 list \<Rightarrow> buffer \<Rightarrow> stb_err + buffer" where
  "store z bs buf =
     (if z + length bs \<le> length buf then Inr (take z buf @ map Some bs @ drop (z + length bs) buf)
      else Inl (Undefined ''out''))"

record picture =
  pic_x :: nat
  pic_y :: nat
  pic_comp :: nat
  pic_data :: buffer

subsection \<open>Converting the number of channels\<close>

definition compute_y :: "u8 \<Rightarrow> u8 \<Rightarrow> u8 \<Rightarrow> u8" where
  "compute_y r g b = word_of_int (drop_bit 8 (uint r * 77 + uint g * 150 + 29 * uint b))"

text \<open>
  One pixel; a sample that was never written stays undefined. \<open>None\<close> for the combinations that
  the switch does not have.
\<close>

definition luma :: "u8 option \<Rightarrow> u8 option \<Rightarrow> u8 option \<Rightarrow> u8 option" where
  "luma r g b = (case (r, g, b) of (Some r, Some g, Some b) \<Rightarrow> Some (compute_y r g b) | _ \<Rightarrow> None)"

definition convert_pixel :: "nat \<Rightarrow> nat \<Rightarrow> u8 option list \<Rightarrow> u8 option list option" where
  "convert_pixel img_n req_comp src =
     (if (img_n, req_comp) = (1, 2) then Some [src ! 0, Some 255]
      else if (img_n, req_comp) = (1, 3) then Some [src ! 0, src ! 0, src ! 0]
      else if (img_n, req_comp) = (1, 4) then Some [src ! 0, src ! 0, src ! 0, Some 255]
      else if (img_n, req_comp) = (2, 1) then Some [src ! 0]
      else if (img_n, req_comp) = (2, 3) then Some [src ! 0, src ! 0, src ! 0]
      else if (img_n, req_comp) = (2, 4) then Some [src ! 0, src ! 0, src ! 0, src ! 1]
      else if (img_n, req_comp) = (3, 4) then Some [src ! 0, src ! 1, src ! 2, Some 255]
      else if (img_n, req_comp) = (3, 1) then Some [luma (src ! 0) (src ! 1) (src ! 2)]
      else if (img_n, req_comp) = (3, 2) then Some [luma (src ! 0) (src ! 1) (src ! 2), Some 255]
      else if (img_n, req_comp) = (4, 1) then Some [luma (src ! 0) (src ! 1) (src ! 2)]
      else if (img_n, req_comp) = (4, 2) then Some [luma (src ! 0) (src ! 1) (src ! 2), src ! 3]
      else if (img_n, req_comp) = (4, 3) then Some [src ! 0, src ! 1, src ! 2]
      else None)"

text \<open>A row of \<open>n\<close> pixels.\<close>

fun convert_row :: "nat \<Rightarrow> nat \<Rightarrow> nat \<Rightarrow> buffer \<Rightarrow> stb_err + buffer" where
  "convert_row img_n req_comp 0 src = Inr []"
| "convert_row img_n req_comp (Suc n) src =
     (if length src < img_n then Inl (Undefined ''data'')
      else case convert_pixel img_n req_comp src of
             None \<Rightarrow> Inl (Undefined ''assert'')
           | Some px \<Rightarrow> (case convert_row img_n req_comp n (drop img_n src) of Inl e \<Rightarrow> Inl e | Inr out \<Rightarrow> Inr (px @ out)))"

text \<open>
  The rows \<open>j\<close> to \<open>y - 1\<close>, each at its wrapped offset, into the new array from its start; the
  columns and rows are counted with signed integers.
\<close>

fun convert_rows :: "nat \<Rightarrow> nat \<Rightarrow> nat \<Rightarrow> nat list \<Rightarrow> buffer \<Rightarrow> buffer \<Rightarrow> stb_err + buffer" where
  "convert_rows img_n req_comp x [] src good = Inr good"
| "convert_rows img_n req_comp x (j # js) src good =
     (case convert_row img_n req_comp x (drop (wrap32 (j * x * img_n)) src) of
        Inl e \<Rightarrow> Inl e
      | Inr row \<Rightarrow>
          (let at = wrap32 (j * x * req_comp)
           in if at + length row \<le> length good
              then convert_rows img_n req_comp x js src (take at good @ row @ drop (at + length row) good)
              else Inl (Undefined ''good'')))"

text \<open>The trips of a loop over \<open>i < (int) n\<close> from 0, and of one over \<open>i = n - 1\<close> down to 0.\<close>

definition signed_count :: "nat \<Rightarrow> nat" where
  "signed_count n = (if n < 2 ^ 31 then n else 0)"

definition down_count :: "nat \<Rightarrow> nat" where
  "down_count n = (if n \<le> 2 ^ 31 then n else 0)"

definition convert_format :: "(nat \<Rightarrow> bool) \<Rightarrow> buffer \<Rightarrow> nat \<Rightarrow> nat \<Rightarrow> nat \<Rightarrow> nat \<Rightarrow> ('u, buffer) im" where
  "convert_format al data img_n req_comp x y =
     (if req_comp = img_n then returnE data
      else if \<not> (1 \<le> req_comp \<and> req_comp \<le> 4) then throwE (Undefined ''assert'')
      else bindE (malloc al (req_comp * x * y)) (\<lambda>good.
           liftE (convert_rows img_n req_comp (down_count x) [0..<signed_count y] data good)))"

subsection \<open>Reading from memory\<close>

text \<open>The context is over a memory block, and these are the bytes still to come.\<close>

definition reads :: "'u ctx \<Rightarrow> u8 list \<Rightarrow> bool" where
  "reads s bs \<longleftrightarrow> mem_ok s \<and> pos s \<le> end_pos s \<and> mem_rest s = bs"

lemma reads_start: "reads (start_mem u file) file"
  by (simp add: reads_def mem_ok_def mem_rest_def start_mem_def)

named_theorems reads_rules \<open>total triples of the reading functions over memory\<close>

lemma get8_reads:
  assumes "reads s (b # bs)"
  shows "\<exists>s'. get8 s = (b, s') \<and> reads s' bs"
  using assms by (auto simp: reads_def get8_def mem_ok_def mem_rest_def drop_Suc hd_drop drop_eq_Nil2 simp flip: Cons_nth_drop_Suc split: if_splits)

lemma get16le_reads:
  assumes "reads s (a # b # bs)"
  shows "\<exists>s'. get16le s = (uint a + 2 ^ 8 * uint b, s') \<and> reads s' bs"
  using get8_reads [OF assms] by (auto simp: get16le_def push_bit_eq_mult dest!: get8_reads)

lemma get16be_reads:
  assumes "reads s (a # b # bs)"
  shows "\<exists>s'. get16be s = (2 ^ 8 * uint a + uint b, s') \<and> reads s' bs"
  using get8_reads [OF assms] by (auto simp: get16be_def push_bit_eq_mult dest!: get8_reads)

definition le32_value :: "u8 \<Rightarrow> u8 \<Rightarrow> u8 \<Rightarrow> u8 \<Rightarrow> int" where
  "le32_value a b c d = uint a + 2 ^ 8 * uint b + 2 ^ 16 * uint c + 2 ^ 24 * uint d"

lemma get32le_reads:
  assumes "reads s (a # b # c # d # bs)"
  shows "\<exists>s'. get32le s = (word_of_int (le32_value a b c d), s') \<and> reads s' bs"
proof -
  obtain s1 where 1: "get16le s = (uint a + 2 ^ 8 * uint b, s1)" "reads s1 (c # d # bs)" using get16le_reads [OF assms] by blast
  obtain s2 where 2: "get16le s1 = (uint c + 2 ^ 8 * uint d, s2)" "reads s2 bs" using get16le_reads [OF 1(2)] by blast
  have "le32_value a b c d = (uint a + 2 ^ 8 * uint b) + push_bit 16 (uint c + 2 ^ 8 * uint d)"
    by (simp add: le32_value_def push_bit_eq_mult)
  then show ?thesis using 1(1) 2 by (simp add: get32le_def flip: of_int_add)
qed

lemma get32be_reads:
  assumes "reads s (a # b # c # d # bs)"
  shows "\<exists>s'. get32be s = (word_of_int (le32_value d c b a), s') \<and> reads s' bs"
proof -
  obtain s1 where 1: "get16be s = (2 ^ 8 * uint a + uint b, s1)" "reads s1 (c # d # bs)" using get16be_reads [OF assms] by blast
  obtain s2 where 2: "get16be s1 = (2 ^ 8 * uint c + uint d, s2)" "reads s2 bs" using get16be_reads [OF 1(2)] by blast
  have "le32_value d c b a = push_bit 16 (2 ^ 8 * uint a + uint b) + (2 ^ 8 * uint c + uint d)"
    by (simp add: le32_value_def push_bit_eq_mult)
  moreover have "push_bit 16 (word_of_int i :: u32) = word_of_int (push_bit 16 i)" for i
    by (simp add: push_bit_eq_mult)
  ultimately show ?thesis using 1(1) 2 by (simp add: get32be_def flip: of_int_add)
qed

lemma skip_reads:
  assumes "reads s (xs @ bs)" and "n = int (length xs)"
  shows "reads (skip n s) bs"
proof -
  have io: "io s = None" "mem_ok s" "mem_rest s = xs @ bs" using assms(1) by (simp_all add: reads_def mem_ok_def)
  have "drop (pos s + length xs) (take (end_pos s) (bytes s)) = drop (length xs) (mem_rest s)"
    by (simp add: mem_rest_def add.commute)
  also have "\<dots> = bs" using io(3) by simp
  finally have "drop (pos s + length xs) (take (end_pos s) (bytes s)) = bs" .
  moreover have "length xs \<le> end_pos s - pos s"
  proof -
    have "length (mem_rest s) \<le> end_pos s - pos s" by (simp add: mem_rest_def)
    then show ?thesis using io(3) by simp
  qed
  ultimately show ?thesis using io assms(1) by (simp add: reads_def skip_def assms(2) mem_ok_def mem_rest_def)
qed

lemma getn_reads:
  assumes "reads s (xs @ bs)" and "n = length xs"
  shows "\<exists>s'. getn n s = (Some xs, s') \<and> reads s' bs"
proof -
  have io: "io s = None" "mem_ok s" "mem_rest s = xs @ bs" using assms(1) by (simp_all add: reads_def mem_ok_def)
  have full: "mem_rest s = drop (pos s) (bytes s)" using io(2) by (simp add: mem_rest_def mem_ok_def)
  have "length (mem_rest s) = end_pos s - pos s" using full io(2) by (simp add: mem_ok_def)
  then have "length xs \<le> end_pos s - pos s" using io(3) by simp
  then have "pos s + n \<le> end_pos s" using assms unfolding reads_def by linarith
  moreover have "take n (drop (pos s) (bytes s)) = xs" using io(3) full assms(2) by simp
  moreover have "drop (pos s + n) (bytes s) = bs" using io(3) full assms(2) by (metis add.commute append_eq_conv_conj drop_drop)
  ultimately show ?thesis using io(1,2) by (simp add: getn_def reads_def mem_ok_def mem_rest_def)
qed

lemma ensures_rd8 [reads_rules]: "reads s (b # bs) \<Longrightarrow> (\<And>s'. reads s' bs \<Longrightarrow> Q b s') \<Longrightarrow> ensures rd8 s Q"
  using get8_reads [of s b bs] by (auto simp: ensures_def runE_apply)

lemma ensures_skip: "reads s (xs @ bs) \<Longrightarrow> n = int (length xs) \<Longrightarrow> (\<And>s'. reads s' bs \<Longrightarrow> Q () s') \<Longrightarrow> ensures (skipE n) s Q"
  using skip_reads [of s xs bs n] by (auto simp: ensures_def)

subsection \<open>Numbers in bytes\<close>

lemma sint_small: "n < 2 ^ 31 \<Longrightarrow> sint (word_of_nat n :: u32) = int n"
  by (subst signed_of_nat) (simp add: signed_take_bit_int_eq_self)

definition le16 :: "nat \<Rightarrow> u8 list" where
  "le16 n = [word_of_nat n, word_of_nat (n div 2 ^ 8)]"

definition le32 :: "nat \<Rightarrow> u8 list" where
  "le32 n = [word_of_nat n, word_of_nat (n div 2 ^ 8), word_of_nat (n div 2 ^ 16), word_of_nat (n div 2 ^ 24)]"

definition be32 :: "nat \<Rightarrow> u8 list" where
  "be32 n = [word_of_nat (n div 2 ^ 24), word_of_nat (n div 2 ^ 16), word_of_nat (n div 2 ^ 8), word_of_nat n]"

lemma uint_byte: "uint (word_of_nat n :: u8) = int n mod 2 ^ 8"
  by (simp add: uint_nat unat_of_nat zmod_int)

lemma four_digits:
  fixes m :: int
  assumes "m = r0 + 256 * q1" and "q1 = r1 + 256 * q2" and "q2 = r2 + 256 * q3"
  shows "r0 + 256 * r1 + 65536 * r2 + 16777216 * q3 = m"
  using assms by simp

lemma le32_digits:
  assumes "n < 2 ^ 32"
  shows "le32_value (word_of_nat n) (word_of_nat (n div 2 ^ 8)) (word_of_nat (n div 2 ^ 16)) (word_of_nat (n div 2 ^ 24)) = int n"
proof -
  define m where "m = int n"
  have "n div 16777216 < 256" using assms by (simp add: less_mult_imp_div_less)
  then have top: "m div 16777216 mod 256 = m div 16777216" by (simp add: m_def flip: zdiv_int)
  have digit: "k = k mod 256 + 256 * (k div 256)" for k :: int by simp
  have "m div 256 = m div 256 mod 256 + 256 * (m div 65536)" "m div 65536 = m div 65536 mod 256 + 256 * (m div 16777216)"
    using digit [of "m div 256"] digit [of "m div 65536"] by (simp_all only: zdiv_zmult2_eq [symmetric] zero_le_numeral mult_num_simps numeral_times_numeral)
  from four_digits [OF digit this] top show ?thesis
    by (simp add: le32_value_def uint_byte zdiv_int m_def)
qed

lemma ensures_rd16 [reads_rules]:
  "reads s (le16 n @ bs) \<Longrightarrow> n < 2 ^ 16 \<Longrightarrow> (\<And>s'. reads s' bs \<Longrightarrow> Q (int n) s') \<Longrightarrow> ensures rd16 s Q"
proof -
  assume a: "reads s (le16 n @ bs)" "n < 2 ^ 16" "\<And>s'. reads s' bs \<Longrightarrow> Q (int n) s'"
  define m where "m = int n"
  have "0 \<le> m" "m < 65536" using a(2) by (simp_all add: m_def)
  then have "m mod 256 + 256 * (m div 256 mod 256) = m"
    using mult_div_mod_eq [of 256 m] by (simp add: mod_pos_pos_trivial div_pos_pos_trivial)
  then show ?thesis
    using get16le_reads [of s "word_of_nat n" "word_of_nat (n div 2 ^ 8)" bs] a(1,3)
    by (auto simp: le16_def ensures_def runE_apply uint_byte zdiv_int m_def)
qed

lemma ensures_rd32 [reads_rules]:
  "reads s (le32 n @ bs) \<Longrightarrow> n < 2 ^ 32 \<Longrightarrow> (\<And>s'. reads s' bs \<Longrightarrow> Q (word_of_nat n) s') \<Longrightarrow> ensures rd32 s Q"
  using get32le_reads [of s "word_of_nat n" "word_of_nat (n div 2 ^ 8)" "word_of_nat (n div 2 ^ 16)" "word_of_nat (n div 2 ^ 24)" bs] le32_digits [of n]
  by (auto simp: le32_def ensures_def runE_apply)

lemma ensures_rd32be:
  "reads s (be32 n @ bs) \<Longrightarrow> n < 2 ^ 32 \<Longrightarrow> (\<And>s'. reads s' bs \<Longrightarrow> Q (word_of_nat n) s') \<Longrightarrow> ensures rd32be s Q"
  using get32be_reads [of s "word_of_nat (n div 2 ^ 24)" "word_of_nat (n div 2 ^ 16)" "word_of_nat (n div 2 ^ 8)" "word_of_nat n" bs] le32_digits [of n]
  by (auto simp: be32_def ensures_def runE_apply)

lemma ensures_discard32 [reads_rules]:
  "reads s (xs @ bs) \<Longrightarrow> length xs = 4 * n \<Longrightarrow> (\<And>s'. reads s' bs \<Longrightarrow> Q () s') \<Longrightarrow> ensures (discard32 n) s Q"
proof (induction n arbitrary: xs s)
  case (Suc n)
  then obtain a b c d ys where xs: "xs = a # b # c # d # ys" by (auto simp: length_Suc_conv numeral_eq_Suc)
  with Suc.prems(1) obtain s' where "get32le s = (word_of_int (le32_value a b c d), s')" "reads s' (ys @ bs)"
    using get32le_reads [of s a b c d "ys @ bs"] by auto
  then show ?case
    using Suc.IH [of s' ys] Suc.prems(2,3) xs by (auto simp: ensures_def bindE_runE)
qed (simp add: ensures_return)

end
