(* ===== verification/Bmp.thy ===== *)
theory Bmp
  imports ImageFormats "HOL-Library.Signed_Division"
begin

text \<open>
  The BMP decoder of \<open>include/util/stb_image.h\<close>, lines 4656 to 4957: the header, and the images
  with a palette, with plain 24 and 32 bit pixels, and with masks.
\<close>

subsection \<open>The header\<close>

record bmp_info =
  bpp :: int
  offset :: int
  hsz :: int
  mr :: u32
  mg :: u32
  mb :: u32
  ma :: u32
  all_a :: u32
  img_x :: u32
  img_y :: u32

definition bmp_sizes :: "int set" where
  "bmp_sizes = {12, 40, 56, 108, 124}"

definition bmp_test_raw :: "('u, bool) im" where
  "bmp_test_raw =
     bindE rd8 (\<lambda>b. if b \<noteq> 0x42 then returnE False else
     bindE rd8 (\<lambda>m. if m \<noteq> 0x4D then returnE False else
     bindE rd32 (\<lambda>_. bindE rd16 (\<lambda>_. bindE rd16 (\<lambda>_. bindE rd32 (\<lambda>_.
     bindE rd32 (\<lambda>sz. returnE (sint sz \<in> bmp_sizes))))))))"

definition bmp_test :: "('u, bool) im" where
  "bmp_test = bindE bmp_test_raw (\<lambda>r. bindE (modifyE rewind) (\<lambda>_. returnE r))"

definition bmp_masks :: "int \<Rightarrow> int \<Rightarrow> int \<Rightarrow> ('u, u32 \<times> u32 \<times> u32 \<times> u32 \<times> u32) im" where
  "bmp_masks header_size depth compress =
     (if header_size = 40 \<or> header_size = 56 then
        bindE (if header_size = 56 then discard32 4 else returnE ()) (\<lambda>_.
        if depth = 16 \<or> depth = 32 then
          if compress = 0 then
            if depth = 32 then returnE (push_bit 16 0xFF, push_bit 8 0xFF, 0xFF, push_bit 24 0xFF, 0)
            else returnE (push_bit 10 31, push_bit 5 31, 31, 0, 255)
          else if compress = 3 then
            bindE rd32 (\<lambda>r. bindE rd32 (\<lambda>g. bindE rd32 (\<lambda>b.
            if r = g \<and> g = b then failE ''bad BMP'' else returnE (r, g, b, 0, 255))))
          else failE ''bad BMP''
        else returnE (0, 0, 0, 0, 255))
      else if header_size \<noteq> 108 \<and> header_size \<noteq> 124 then failE ''bad BMP''
      else
        bindE rd32 (\<lambda>r. bindE rd32 (\<lambda>g. bindE rd32 (\<lambda>b. bindE rd32 (\<lambda>a.
        bindE (discard32 13) (\<lambda>_.
        bindE (if header_size = 124 then discard32 4 else returnE ()) (\<lambda>_.
        returnE (r, g, b, a, 255))))))))"

definition bmp_parse_header :: "('u, bmp_info) im" where
  "bmp_parse_header =
     bindE rd8 (\<lambda>b. if b \<noteq> 0x42 then failE ''not BMP'' else
     bindE rd8 (\<lambda>m. if m \<noteq> 0x4D then failE ''not BMP'' else
     bindE rd32 (\<lambda>_. bindE rd16 (\<lambda>_. bindE rd16 (\<lambda>_.
     bindE rd32 (\<lambda>off.
     bindE rd32 (\<lambda>size.
     if sint size \<notin> bmp_sizes then failE ''unknown BMP'' else
     bindE (if sint size = 12 then bindE rd16 (\<lambda>x. bindE rd16 (\<lambda>y. returnE (word_of_int x, word_of_int y)))
            else bindE rd32 (\<lambda>x. bindE rd32 (\<lambda>y. returnE (x, y)))) (\<lambda>(x, y).
     bindE rd16 (\<lambda>planes.
     if planes \<noteq> 1 then failE ''bad BMP'' else
     bindE rd16 (\<lambda>depth.
     if depth = 1 then failE ''monochrome'' else
     bindE (if sint size \<noteq> 12 then
              bindE rd32 (\<lambda>c.
              if sint c = 1 \<or> sint c = 2 then failE ''BMP RLE'' else
              bindE (discard32 5) (\<lambda>_. bmp_masks (sint size) depth (sint c)))
            else returnE (0, 0, 0, 0, 255)) (\<lambda>(r, g, b, a, all).
     returnE \<lparr>bpp = depth, offset = sint off, hsz = sint size, mr = r, mg = g, mb = b, ma = a, all_a = all,
              img_x = x, img_y = y\<rparr>)))))))))))"

subsection \<open>Masks\<close>

text \<open>Comma-separated updates of \<open>n\<close> and \<open>z\<close>, one per line of the code.\<close>

definition high_bit :: "u32 \<Rightarrow> int" where
  "high_bit z =
     (if z = 0 then - 1
      else let (n, z) = (if z \<ge> 0x10000 then (16, drop_bit 16 z) else (0, z));
               (n, z) = (if z \<ge> 0x00100 then (n + 8, drop_bit 8 z) else (n, z));
               (n, z) = (if z \<ge> 0x00010 then (n + 4, drop_bit 4 z) else (n, z));
               (n, z) = (if z \<ge> 0x00004 then (n + 2, drop_bit 2 z) else (n, z));
               (n, z) = (if z \<ge> 0x00002 then (n + 1, drop_bit 1 z) else (n, z))
           in n)"

definition bitcount :: "u32 \<Rightarrow> int" where
  "bitcount a =
     (let a = (a AND 0x55555555) + (drop_bit 1 a AND 0x55555555);
          a = (a AND 0x33333333) + (drop_bit 2 a AND 0x33333333);
          a = (a + drop_bit 4 a) AND 0x0F0F0F0F;
          a = a + drop_bit 8 a;
          a = a + drop_bit 16 a
      in uint (a AND 0xFF))"

text \<open>The loop does not end for \<open>bits = 0\<close>; a right shift of a negative number keeps the sign.\<close>

partial_function (option) shift_loop :: "int \<Rightarrow> int \<Rightarrow> int \<Rightarrow> int \<Rightarrow> int option" where
  "shift_loop v bits z result =
     (if z < 8 then shift_loop v bits (z + bits) (result + drop_bit (nat z) v) else Some result)"

declare shift_loop.simps [code]

definition shiftsigned :: "int \<Rightarrow> int \<Rightarrow> int \<Rightarrow> int option" where
  "shiftsigned v shift bits =
     (let v = (if shift < 0 then push_bit (nat (- shift)) v else drop_bit (nat shift) v)
      in shift_loop v bits bits v)"

definition sample :: "u32 \<Rightarrow> u32 \<Rightarrow> ('u, int) im" where
  "sample v m =
     (case shiftsigned (sint (v AND m)) (high_bit m - 7) (bitcount m) of
        Some r \<Rightarrow> returnE r | None \<Rightarrow> throwE OutOfFuel)"

subsection \<open>Pixels\<close>

text \<open>The writing position and the array.\<close>

definition put_pixel :: "nat \<Rightarrow> u8 \<Rightarrow> u8 \<Rightarrow> u8 \<Rightarrow> u8 \<Rightarrow> nat \<times> buffer \<Rightarrow> ('u, nat \<times> buffer) im" where
  "put_pixel target r g b a = (\<lambda>(z, buf).
     let px = [r, g, b] @ (if target = 4 then [a] else [])
     in bindE (liftE (store z px buf)) (\<lambda>buf. returnE (z + length px, buf)))"

type_synonym palette = "(u8 \<times> u8 \<times> u8) list"

definition put_colour :: "palette \<Rightarrow> nat \<Rightarrow> u8 \<Rightarrow> nat \<times> buffer \<Rightarrow> ('u, nat \<times> buffer) im" where
  "put_colour pal target v o' =
     (if unat v < length pal then (case pal ! unat v of (r, g, b) \<Rightarrow> put_pixel target r g b 255 o')
      else throwE (Undefined ''pal''))"

text \<open>A row of \<open>n\<close> pixels with a palette, two at a time: four-bit pixels share a byte.\<close>

fun palette_row :: "int \<Rightarrow> palette \<Rightarrow> nat \<Rightarrow> nat \<Rightarrow> nat \<times> buffer \<Rightarrow> ('u, nat \<times> buffer) im" where
  "palette_row depth pal target 0 o' = returnE o'"
| "palette_row depth pal target (Suc 0) o' =
     bindE rd8 (\<lambda>v. put_colour pal target (if depth = 4 then drop_bit 4 v else v) o')"
| "palette_row depth pal target (Suc (Suc n)) o' =
     bindE rd8 (\<lambda>v.
     bindE (put_colour pal target (if depth = 4 then drop_bit 4 v else v) o') (\<lambda>o'.
     bindE (if depth = 8 then rd8 else returnE (if depth = 4 then v AND 15 else 0)) (\<lambda>v2.
     bindE (put_colour pal target v2 o') (\<lambda>o'.
     palette_row depth pal target n o'))))"

text \<open>A row of plain pixels, blue first; \<open>all\<close> collects the alpha values.\<close>

fun easy_row :: "nat \<Rightarrow> nat \<Rightarrow> nat \<Rightarrow> (nat \<times> buffer) \<times> u32 \<Rightarrow> ('u, (nat \<times> buffer) \<times> u32) im" where
  "easy_row easy target 0 s = returnE s"
| "easy_row easy target (Suc n) s =
     bindE rd8 (\<lambda>b. bindE rd8 (\<lambda>g. bindE rd8 (\<lambda>r.
     bindE (if easy = 2 then rd8 else returnE 255) (\<lambda>a.
     bindE (put_pixel target r g b a (fst s)) (\<lambda>o'.
     easy_row easy target n (o', snd s OR ucast a))))))"

definition masked_pixel :: "bmp_info \<Rightarrow> u32 \<Rightarrow> ('u, int \<times> int \<times> int \<times> int) im" where
  "masked_pixel info v =
     bindE (sample v (mr info)) (\<lambda>r.
     bindE (sample v (mg info)) (\<lambda>g.
     bindE (sample v (mb info)) (\<lambda>b.
     bindE (if ma info \<noteq> 0 then sample v (ma info) else returnE 255) (\<lambda>a.
     returnE (r, g, b, a)))))"

fun masked_row :: "bmp_info \<Rightarrow> nat \<Rightarrow> nat \<Rightarrow> (nat \<times> buffer) \<times> u32 \<Rightarrow> ('u, (nat \<times> buffer) \<times> u32) im" where
  "masked_row info target 0 s = returnE s"
| "masked_row info target (Suc n) s =
     bindE (if bpp info = 16 then bindE rd16 (\<lambda>w. returnE (word_of_int w)) else rd32) (\<lambda>v.
     bindE (masked_pixel info v) (\<lambda>(r, g, b, a).
     bindE (put_pixel target (word_of_int r) (word_of_int g) (word_of_int b) (word_of_int a) (fst s)) (\<lambda>o'.
     masked_row info target n (o', snd s OR word_of_int a))))"

text \<open>Rows, each followed by the padding.\<close>

fun rows :: "('s \<Rightarrow> ('u, 's) im) \<Rightarrow> int \<Rightarrow> nat \<Rightarrow> 's \<Rightarrow> ('u, 's) im" where
  "rows row pad 0 s = returnE s"
| "rows row pad (Suc n) s = bindE (row s) (\<lambda>s. bindE (skipE pad) (\<lambda>_. rows row pad n s))"

subsection \<open>The image\<close>

text \<open>C's division rounds towards zero.\<close>

definition palette_size :: "bmp_info \<Rightarrow> stb_err + int" where
  "palette_size info =
     (if hsz info = 12 then
        if bpp info < 24 then map_sum id (\<lambda>n. n sdiv 3) (int32 (offset info - 14 - 24)) else Inr 0
      else if bpp info < 16 then map_sum id (\<lambda>n. drop_bit 2 n) (int32 (offset info - 14 - hsz info)) else Inr 0)"

text \<open>The colours from number \<open>i\<close> on are stored into \<open>pal[256][4]\<close>.\<close>

fun read_palette :: "bool \<Rightarrow> nat \<Rightarrow> nat \<Rightarrow> ('u, palette) im" where
  "read_palette quads i 0 = returnE []"
| "read_palette quads i (Suc n) =
     bindE rd8 (\<lambda>b. if 256 \<le> i then throwE (Undefined ''pal[i]'') else
     bindE rd8 (\<lambda>g. bindE rd8 (\<lambda>r.
     bindE (if quads then bindE rd8 (\<lambda>_. returnE ()) else returnE ()) (\<lambda>_.
     bindE (read_palette quads (i + 1) n) (\<lambda>pal. returnE ((r, g, b) # pal))))))"

definition padding_of :: "int \<Rightarrow> stb_err + int" where
  "padding_of width = map_sum id (\<lambda>w. w AND 3) (int32 (- width))"

definition palette_image :: "bmp_info \<Rightarrow> int \<Rightarrow> nat \<Rightarrow> nat \<Rightarrow> nat \<Rightarrow> buffer \<Rightarrow> ('u, buffer) im" where
  "palette_image info psize x y target buf =
     (if psize = 0 \<or> psize > 256 then failE ''invalid''
      else bindE (read_palette (hsz info \<noteq> 12) 0 (nat psize)) (\<lambda>pal.
        bindE (liftE (int32 (offset info - 14 - hsz info - psize * (if hsz info = 12 then 3 else 4)))) (\<lambda>n.
        bindE (skipE n) (\<lambda>_.
        bindE (if bpp info = 4 then returnE (sint (drop_bit 1 (img_x info + 1)))
               else if bpp info = 8 then returnE (sint (img_x info)) else failE ''bad bpp'') (\<lambda>width.
        bindE (liftE (padding_of width)) (\<lambda>pad.
        bindE (rows (palette_row (bpp info) pal target (signed_count x)) pad (signed_count y) (0, buf)) (\<lambda>(z, buf).
        returnE buf)))))))"

definition easy_kind :: "bmp_info \<Rightarrow> nat" where
  "easy_kind info =
     (if bpp info = 24 then 1
      else if bpp info = 32 \<and> mb info = 0xFF \<and> mg info = 0xFF00 \<and> mr info = 0x00FF0000 \<and> ma info = 0xFF000000 then 2
      else 0)"

definition direct_image :: "bmp_info \<Rightarrow> nat \<Rightarrow> nat \<Rightarrow> nat \<Rightarrow> buffer \<Rightarrow> ('u, buffer \<times> u32) im" where
  "direct_image info x y target buf =
     bindE (liftE (int32 (offset info - 14 - hsz info))) (\<lambda>n.
     bindE (skipE n) (\<lambda>_.
     bindE (liftE (padding_of (if bpp info = 24 then sint (3 * img_x info) else if bpp info = 16 then sint (2 * img_x info) else 0))) (\<lambda>pad.
     if easy_kind info = 0 \<and> (mr info = 0 \<or> mg info = 0 \<or> mb info = 0) then failE ''bad masks''
     else bindE (rows (if easy_kind info \<noteq> 0 then easy_row (easy_kind info) target (signed_count x)
                       else masked_row info target (signed_count x)) pad (signed_count y) ((0, buf), all_a info)) (\<lambda>((z, buf), all).
          returnE (buf, all)))))"

text \<open>The loop from \<open>i\<close> down to 0 in steps of four.\<close>

fun set_alpha :: "nat \<Rightarrow> buffer \<Rightarrow> stb_err + buffer" where
  "set_alpha i buf =
     (if length buf \<le> i then Inl (Undefined ''out'')
      else let buf = buf[i := Some 255] in if i < 4 then Inr buf else set_alpha (i - 4) buf)"

declare set_alpha.simps [simp del]

definition fix_alpha :: "bmp_info \<Rightarrow> buffer \<Rightarrow> stb_err + buffer" where
  "fix_alpha info buf =
     (let start = sint (4 * img_x info * img_y info - 1) in if start < 0 then Inr buf else set_alpha (nat start) buf)"

fun swap_bytes :: "nat \<Rightarrow> nat \<Rightarrow> nat \<Rightarrow> buffer \<Rightarrow> stb_err + buffer" where
  "swap_bytes p1 p2 0 buf = Inr buf"
| "swap_bytes p1 p2 (Suc n) buf =
     (if p1 < length buf \<and> p2 < length buf then swap_bytes (Suc p1) (Suc p2) n (buf[p1 := buf ! p2, p2 := buf ! p1])
      else Inl (Undefined ''out''))"

fun flip_loop :: "nat \<Rightarrow> nat \<Rightarrow> nat \<Rightarrow> nat list \<Rightarrow> buffer \<Rightarrow> stb_err + buffer" where
  "flip_loop x y target [] buf = Inr buf"
| "flip_loop x y target (j # js) buf =
     (if signed_count x * target < 2 ^ 31 then
        case swap_bytes (wrap32 (j * x * target)) (wrap32 ((y - 1 - j) * x * target)) (signed_count x * target) buf of
          Inl e \<Rightarrow> Inl e | Inr buf \<Rightarrow> flip_loop x y target js buf
      else Inl (Undefined ''overflow''))"

definition flip_rows :: "nat \<Rightarrow> nat \<Rightarrow> nat \<Rightarrow> buffer \<Rightarrow> stb_err + buffer" where
  "flip_rows x y target buf = flip_loop x y target [0..<signed_count y div 2] buf"

definition bmp_load :: "(nat \<Rightarrow> bool) \<Rightarrow> nat \<Rightarrow> ('u, picture) im" where
  "bmp_load al req_comp =
     bindE bmp_parse_header (\<lambda>info.
     bindE (liftE (int32 \<bar>sint (img_y info)\<bar>)) (\<lambda>height.
     bindE (returnE (unat (img_x info), nat height)) (\<lambda>(x, y).
     bindE (returnE (info\<lparr>img_y := word_of_int height\<rparr>)) (\<lambda>info'.
     bindE (liftE (palette_size info)) (\<lambda>psize.
     bindE (returnE (if ma info \<noteq> 0 then 4 else 3)) (\<lambda>img_n.
     bindE (returnE (if req_comp \<ge> 3 then req_comp else img_n)) (\<lambda>target.
     bindE (malloc al (target * x * y)) (\<lambda>buf.
     bindE (if bpp info < 16 then bindE (palette_image info psize x y target buf) (\<lambda>buf. returnE (buf, all_a info))
            else direct_image info x y target buf) (\<lambda>(buf, all).
     bindE (liftE (if target = 4 \<and> all = 0 then fix_alpha info' buf else Inr buf)) (\<lambda>buf.
     bindE (liftE (if 0 < sint (img_y info) then flip_rows x y target buf else Inr buf)) (\<lambda>buf.
     bindE (if req_comp \<noteq> 0 \<and> req_comp \<noteq> target then convert_format al buf target req_comp x y else returnE buf) (\<lambda>buf.
     returnE \<lparr>pic_x = x, pic_y = y, pic_comp = img_n, pic_data = buf\<rparr>))))))))))))"

text \<open>\<open>stbi__bmp_info\<close>: width, height (signed) and number of channels.\<close>

definition bmp_picture_info :: "'u ctx \<Rightarrow> (u32 \<times> u32 \<times> nat) option \<times> 'u ctx" where
  "bmp_picture_info s = (case bmp_parse_header s of
      (Inl e, s') \<Rightarrow> (None, rewind s')
    | (Inr info, s') \<Rightarrow> (Some (img_x info, img_y info, if ma info \<noteq> 0 then 4 else 3), rewind s'))"

end
