(* ===== verification/BmpMasks.thy ===== *)
theory BmpMasks
  imports Bmp
begin

text \<open>
  The bit tricks of the BMP decoder: \<open>bitcount\<close> counts the bits of a mask, by adding up fields of one, two
  and four bits in parallel; hence the loop of \<open>shiftsigned\<close> ends for every mask but zero.
\<close>

subsection \<open>Numbers in fields of bits\<close>

primrec fields :: "nat \<Rightarrow> nat list \<Rightarrow> nat" where
  "fields b [] = 0"
| "fields b (d # ds) = d + b * fields b ds"

lemma and_fields:
  assumes "x < 2 ^ k" and "m < 2 ^ k"
  shows "(x + 2 ^ k * a) AND (m + 2 ^ k * b) = (x AND m) + 2 ^ k * (a AND (b :: nat))"
proof -
  have low: "take_bit k (v + 2 ^ k * c) = v" "drop_bit k (v + 2 ^ k * c) = c" if "v < 2 ^ k" for v c :: nat
    using that by (simp_all add: take_bit_eq_mod drop_bit_eq_div)
  let ?r = "(x + 2 ^ k * a) AND (m + 2 ^ k * b)"
  have "take_bit k ?r = x AND m" "drop_bit k ?r = a AND b" using low assms by simp_all
  then show ?thesis using bits_ident [of k ?r] by (simp add: push_bit_eq_mult mult.commute)
qed

lemma add_fields: "length ds = length es \<Longrightarrow> fields b ds + fields b es = fields b (map2 (+) ds es)"
  by (induction ds es rule: list_induct2) (simp_all add: add.assoc add.left_commute flip: add_mult_distrib2)

text \<open>Two neighbouring fields make one of twice the width.\<close>

fun pairs :: "nat list \<Rightarrow> (nat \<times> nat) list" where
  "pairs (l # h # ds) = (l, h) # pairs ds"
| "pairs ds = []"

abbreviation joined :: "nat \<Rightarrow> (nat \<times> nat) list \<Rightarrow> nat" where
  "joined k ps \<equiv> fields (2 ^ k * 2 ^ k) (map (\<lambda>(l, h). l + 2 ^ k * h) ps)"

definition sums :: "nat list \<Rightarrow> nat list" where
  "sums ds = map (\<lambda>(l, h). l + h) (pairs ds)"

lemma pairs_joined: "even (length ds) \<Longrightarrow> fields (2 ^ k) ds = joined k (pairs ds)"
  by (induction ds rule: pairs.induct) (simp_all add: algebra_simps)

lemma sums_facts:
  "length (sums ds) = length ds div 2"
  "even (length ds) \<Longrightarrow> sum_list (sums ds) = sum_list ds"
  "\<forall>d \<in> set ds. d \<le> m \<Longrightarrow> \<forall>d \<in> set (sums ds). d \<le> 2 * m"
  by (induction ds rule: pairs.induct) (auto simp: sums_def)

definition all_below :: "nat \<Rightarrow> (nat \<times> nat) list \<Rightarrow> bool" where
  "all_below m ps \<longleftrightarrow> (\<forall>(l, h) \<in> set ps. l < m \<and> h < m)"

lemma all_below_pairs: "\<forall>d \<in> set ds. d < m \<Longrightarrow> all_below m (pairs ds)"
  by (induction ds rule: pairs.induct) (auto simp: all_below_def)

lemma masked_pairs:
  "all_below (2 ^ k) ps \<Longrightarrow> joined k ps AND fields (2 ^ k * 2 ^ k) (replicate (length ps) (2 ^ k - 1)) = fields (2 ^ k * 2 ^ k) (map fst ps)"
proof (induction ps)
  case (Cons p ps)
  obtain l h where p: "p = (l, h)" by (cases p)
  have lh: "l < 2 ^ k" "h < 2 ^ k" "all_below (2 ^ k) ps" using Cons.prems by (auto simp: all_below_def p)
  have "l + 2 ^ k * h < 2 ^ k * Suc h" using lh(1) by simp
  also have "\<dots> \<le> 2 ^ k * 2 ^ k" using lh(2) by (intro mult_le_mono) simp_all
  finally have "l + 2 ^ k * h < 2 ^ (2 * k)" by (simp add: power_add mult_2)
  moreover have "(2 :: nat) ^ k - 1 < 2 ^ (2 * k)"
    by (rule order.strict_trans2 [of _ "2 ^ k"]) (simp_all add: power_increasing)
  moreover have "(l + 2 ^ k * h) AND (2 ^ k - 1) = l"
    using lh(1) take_bit_eq_mask [of k "l + 2 ^ k * h"] by (simp add: take_bit_eq_mod mask_eq_exp_minus_1)
  ultimately show ?case
    using and_fields [of "l + 2 ^ k * h" "2 * k" "2 ^ k - 1"] Cons.IH [OF lh(3)] by (simp add: p power_add mult_2)
qed simp

fun shifted :: "(nat \<times> nat) list \<Rightarrow> (nat \<times> nat) list" where
  "shifted [] = []"
| "shifted ((l, h) # ps) = (h, case ps of [] \<Rightarrow> 0 | (l', h') # _ \<Rightarrow> l') # shifted ps"

lemma shifted_facts: "all_below m ps \<Longrightarrow> 0 < m \<Longrightarrow> all_below m (shifted ps)" "length (shifted ps) = length ps" "map fst (shifted ps) = map snd ps"
  by (induction ps rule: shifted.induct) (auto simp: all_below_def split: list.split)

lemma shift_pairs: "all_below (2 ^ k) ps \<Longrightarrow> joined k ps div 2 ^ k = joined k (shifted ps)"
proof (induction ps rule: shifted.induct)
  case (2 l h ps)
  have lh: "l < 2 ^ k" "all_below (2 ^ k) ps" using "2.prems" by (auto simp: all_below_def)
  have "joined k ps mod 2 ^ k = (case ps of [] \<Rightarrow> 0 | (l', h') # _ \<Rightarrow> l')"
    using lh(2) by (auto simp: all_below_def mult.assoc split: list.split)
  then have "joined k ps = (case ps of [] \<Rightarrow> 0 | (l', h') # _ \<Rightarrow> l') + 2 ^ k * joined k (shifted ps)"
    using "2.IH" [OF lh(2)] by (metis mod_mult_div_eq add.commute)
  then have "joined k ((l, h) # ps) = l + 2 ^ k * joined k (shifted ((l, h) # ps))" by (simp add: algebra_simps)
  moreover have "(l + 2 ^ k * v) div 2 ^ k = v" for v using lh(1) by simp
  ultimately show ?case by (simp only:)
qed simp

text \<open>One step of the count: the sums of neighbouring fields.\<close>

lemma count_step:
  assumes "even (length ds)" and "\<forall>d \<in> set ds. d < 2 ^ k" and "v = fields (2 ^ k) ds"
    and "m = fields (2 ^ k * 2 ^ k) (replicate n (2 ^ k - 1))" and "length ds = 2 * n"
  shows "(v AND m) + (v div 2 ^ k AND m) = fields (2 ^ k * 2 ^ k) (sums ds)"
proof -
  note below = all_below_pairs [OF assms(2)]
  have len: "length (pairs ds) = n" using sums_facts(1) [of ds] assms(5) by (simp add: sums_def)
  have v: "v = joined k (pairs ds)" using pairs_joined [OF assms(1)] assms(3) by simp
  have "v AND m = fields (2 ^ k * 2 ^ k) (map fst (pairs ds))"
    using masked_pairs [OF below] by (simp add: v assms(4) len)
  moreover have "v div 2 ^ k AND m = fields (2 ^ k * 2 ^ k) (map snd (pairs ds))"
    using masked_pairs [OF shifted_facts(1) [OF below]] shift_pairs [OF below] by (simp add: v assms(4) len shifted_facts(2,3))
  moreover have "map2 (+) (map fst ps) (map snd ps) = map (\<lambda>(l, h). l + h) ps" for ps :: "(nat \<times> nat) list"
    by (induction ps) auto
  ultimately show ?thesis by (simp add: add_fields sums_def)
qed

text \<open>The third step adds first and masks then; the sums of two fields still fit into one.\<close>

lemma count_step_late:
  assumes "even (length ds)" and "\<forall>d \<in> set ds. 2 * d < 2 ^ k" and "v = fields (2 ^ k) ds"
    and "m = fields (2 ^ k * 2 ^ k) (replicate n (2 ^ k - 1))" and "length ds = 2 * n"
  shows "(v + v div 2 ^ k) AND m = fields (2 ^ k * 2 ^ k) (sums ds)"
proof -
  have below: "all_below (2 ^ k) (pairs ds)" using assms(2) by (intro all_below_pairs) force
  let ?both = "\<lambda>ps. map2 (\<lambda>(l, h) (l', h'). (l + l', h + h')) ps (shifted ps)"
  have len: "length (pairs ds) = n" using sums_facts(1) [of ds] assms(5) by (simp add: sums_def)
  have v: "v = joined k (pairs ds)" using pairs_joined [OF assms(1)] assms(3) by simp
  have "map (\<lambda>(l, h). l + 2 ^ k * h) (?both ps) = map2 (+) (map (\<lambda>(l, h). l + 2 ^ k * h) ps) (map (\<lambda>(l, h). l + 2 ^ k * h) (shifted ps))" for ps
    by (induction ps rule: shifted.induct) (auto simp: algebra_simps split: list.split)
  then have sum: "v + v div 2 ^ k = joined k (?both (pairs ds))"
    using shift_pairs [OF below] by (simp add: v add_fields shifted_facts(2))
  have fst: "map fst (?both ps) = map (\<lambda>(l, h). l + h) ps" for ps
    by (induction ps rule: shifted.induct) (auto split: list.split)
  have "\<forall>(l, h) \<in> set (pairs ds). 2 * l < 2 ^ k \<and> 2 * h < 2 ^ k"
    using assms(2) by (induction ds rule: pairs.induct) auto
  moreover have "all_below (2 ^ k) (?both ps)" if "\<forall>(l, h) \<in> set ps. 2 * l < 2 ^ k \<and> 2 * h < 2 ^ k" for ps
    using that by (induction ps rule: shifted.induct) (auto simp: all_below_def split: list.splits)
  ultimately have "all_below (2 ^ k) (?both (pairs ds))" by blast
  from masked_pairs [OF this] show ?thesis using sum len fst by (simp add: assms(4) sums_def shifted_facts(2))
qed

subsection \<open>The bits of a mask\<close>

definition mask_bits :: "u32 \<Rightarrow> nat list" where
  "mask_bits a = map (\<lambda>i. of_bool (bit a i)) [0..<32]"

lemma mask_fields: "unat a = fields 2 (mask_bits a)"
proof -
  have "fields 2 (map of_bool bs) = horner_sum of_bool 2 bs" for bs by (induction bs) simp_all
  moreover have "mask_bits a = map of_bool (map (bit (unat a)) [0..<32])" by (simp add: mask_bits_def bit_unsigned_iff)
  ultimately have "fields 2 (mask_bits a) = horner_sum of_bool 2 (map (bit (unat a)) [0..<32])" by (simp only:)
  also have "\<dots> = unat a" using take_bit_nat_eq_self [OF unsigned_less [of a]] by (simp add: horner_sum_bit_eq_take_bit)
  finally show ?thesis ..
qed

lemma field_masks:
  "fields (2 ^ 1 * 2 ^ 1) (replicate 16 (2 ^ 1 - 1)) = 0x55555555"
  "fields (2 ^ 2 * 2 ^ 2) (replicate 8 (2 ^ 2 - 1)) = 0x33333333"
  "fields (2 ^ 4 * 2 ^ 4) (replicate 4 (2 ^ 4 - 1)) = 0x0F0F0F0F"
proof -
  have "fields b (replicate (numeral k) d) = d + b * fields b (replicate (pred_numeral k) d)" for b d k
    by (simp add: numeral_eq_Suc)
  note steps = this
  show "fields (2 ^ 1 * 2 ^ 1) (replicate 16 (2 ^ 1 - 1)) = 0x55555555"
    "fields (2 ^ 2 * 2 ^ 2) (replicate 8 (2 ^ 2 - 1)) = 0x33333333"
    "fields (2 ^ 4 * 2 ^ 4) (replicate 4 (2 ^ 4 - 1)) = 0x0F0F0F0F"
    by (simp_all add: steps)
qed

text \<open>The same computation on natural numbers.\<close>

lemma count_by_fields:
  assumes "n = fields 2 ds" and "length ds = 32" and "\<forall>d \<in> set ds. d \<le> 1"
    and "n1 = (n AND 0x55555555) + (n div 2 AND 0x55555555)"
    and "n2 = (n1 AND 0x33333333) + (n1 div 4 AND 0x33333333)"
    and "n3 = (n2 + n2 div 16) AND 0x0F0F0F0F"
  shows "n3 = fields 256 (sums (sums (sums ds)))"
proof -
  note len = sums_facts(1) [of ds] sums_facts(1) [of "sums ds"] sums_facts(1) [of "sums (sums ds)"]
  have small: "\<forall>d \<in> set (sums ds). d \<le> 2" "\<forall>d \<in> set (sums (sums ds)). d \<le> 4"
    using sums_facts(3) [OF assms(3)] sums_facts(3) [of "sums ds" 2] by simp_all
  then have less: "\<forall>d \<in> set (sums ds). d < 2 ^ 2" "\<forall>d \<in> set (sums (sums ds)). 2 * d < 2 ^ 4" by fastforce+
  have "\<forall>d \<in> set ds. d < 2" using assms(3) by auto
  then have "n1 = fields (2 ^ 1 * 2 ^ 1) (sums ds)"
    using count_step [of ds 1 n _ 16, OF _ _ _ refl] assms(1,2,4) unfolding field_masks by simp
  then have "n2 = fields (2 ^ 2 * 2 ^ 2) (sums (sums ds))"
    using count_step [of "sums ds" 2 n1 _ 8, OF _ _ _ refl] assms(2,5) less(1) len unfolding field_masks by simp
  then show ?thesis
    using count_step_late [of "sums (sums ds)" 4 n2 _ 4, OF _ _ _ refl] assms(2,6) less(2) len unfolding field_masks by simp
qed

lemma last_steps:
  assumes "\<forall>d \<in> set ds. d \<le> 8" and "length ds = 4" and "n3 = fields 256 ds" and "n4 = n3 + n3 div 2 ^ 8" and "n5 = n4 + n4 div 2 ^ 16"
  shows "n4 < 2 ^ 32" "n5 < 2 ^ 32" "n5 mod 256 = sum_list ds"
proof -
  obtain a b c d where ds: "ds = [a, b, c, d]" using assms(2) by (auto simp: length_Suc_conv numeral_eq_Suc)
  then have le: "a \<le> 8" "b \<le> 8" "c \<le> 8" "d \<le> 8" using assms(1) by auto
  have n3: "n3 = a + 256 * b + 65536 * c + 16777216 * d" by (simp add: assms(3) ds)
  have digit: "(r + q * 256) div 256 = q" "(r + q * 256) mod 256 = r" if "r < 256" for q r :: nat using that by simp_all
  have digits: "(r + q * 65536) div 65536 = q" if "r < 65536" for q r :: nat using that by simp
  have "n3 = a + (b + 256 * c + 65536 * d) * 256" using n3 by simp
  then have "n3 div 256 = b + 256 * c + 65536 * d" using digit(1) [of a] le(1) by simp
  then have n4: "n4 = (a + b) + 256 * (b + c) + 65536 * (c + d) + 16777216 * d" using n3 assms(4) by simp
  then have "n4 = (a + b + 256 * (b + c)) + ((c + d) + 256 * d) * 65536" by simp
  then have "n4 div 65536 = (c + d) + 256 * d" using digits [of "a + b + 256 * (b + c)"] le by simp
  then have n5: "n5 = (a + b + c + d) + 256 * (b + c + d) + 65536 * (c + d) + 16777216 * d" using n4 assms(5) by simp
  then have n5': "n5 = (a + b + c + d) + (b + c + d + 256 * (c + d) + 65536 * d) * 256" by simp
  have "a + b + c + d < 256" using le by simp
  from digit(2) [OF this, of "b + c + d + 256 * (c + d) + 65536 * d"] n5' have "n5 mod 256 = a + b + c + d" by (simp only:)
  then show "n5 mod 256 = sum_list ds" by (simp add: ds)
  show "n4 < 2 ^ 32" using n4 le by simp
  show "n5 < 2 ^ 32" using n5 le by simp
qed

lemma masked_small: "n AND 0x55555555 \<le> 0x55555555" "n AND 0x33333333 \<le> 0x33333333" for n :: nat
  by (simp_all add: and_nat_def nat_le_iff AND_upper2)

lemma sum_of_bools: "sum_list (map (\<lambda>i. of_bool (P i)) xs) = length (filter P xs)"
  by (induction xs) simp_all

text \<open>\<open>bitcount\<close> counts the bits that are set.\<close>

lemma bitcount_counts: "bitcount a = int (length (filter (bit a) [0..<32]))"
proof -
  define a1 where "a1 = (a AND 0x55555555) + (drop_bit 1 a AND 0x55555555)"
  define a2 where "a2 = (a1 AND 0x33333333) + (drop_bit 2 a1 AND 0x33333333)"
  define a3 where "a3 = (a2 + drop_bit 4 a2) AND 0x0F0F0F0F"
  define a4 where "a4 = a3 + drop_bit 8 a3"
  define a5 where "a5 = a4 + drop_bit 16 a4"
  let ?n = "unat a" and ?ds = "mask_bits a"
  let ?n1 = "(?n AND 0x55555555) + (?n div 2 AND 0x55555555)"
  let ?n2 = "(?n1 AND 0x33333333) + (?n1 div 4 AND 0x33333333)"
  let ?n3 = "(?n2 + ?n2 div 16) AND 0x0F0F0F0F"
  have drop: "unat (drop_bit k w) = unat w div 2 ^ k" for k and w :: u32
    using drop_bit_eq_div [of k "unat w"] by (simp add: unat_drop_bit_eq)
  note ops = unsigned_and_eq drop
  have plus: "unat (v + w) = unat v + unat w" if "unat v + unat w < 2 ^ 32" for v w :: u32
    using that by (simp add: unat_word_ariths)
  have n1: "unat a1 = ?n1"
    unfolding a1_def using masked_small(1) [of ?n] masked_small(1) [of "?n div 2"] by (subst plus) (simp_all add: ops)
  have le2: "?n2 \<le> 0x66666666" using masked_small(2) [of ?n1] masked_small(2) [of "?n1 div 4"] by linarith
  have n2: "unat a2 = ?n2"
    unfolding a2_def using masked_small(2) [of ?n1] masked_small(2) [of "?n1 div 4"] by (subst plus) (simp_all add: ops n1)
  have "?n2 div 16 \<le> 0x66666666 div 16" using le2 by (rule div_le_mono)
  then have n3: "unat a3 = ?n3"
    unfolding a3_def unsigned_and_eq using le2 by (subst plus) (simp_all add: ops n2)
  have bits: "length ?ds = 32" "\<forall>d \<in> set ?ds. d \<le> 1" by (auto simp: mask_bits_def)
  have bytes: "\<forall>d \<in> set (sums (sums (sums ?ds))). d \<le> 8" "length (sums (sums (sums ?ds))) = 4" "sum_list (sums (sums (sums ?ds))) = sum_list ?ds"
    using sums_facts(3) [OF sums_facts(3) [OF sums_facts(3) [OF bits(2)]]] bits(1) by (simp_all add: sums_facts(1,2))
  note last = last_steps [OF bytes(1,2) count_by_fields [OF mask_fields bits refl refl refl] refl refl, folded n3]
  have n4: "unat a4 = unat a3 + unat a3 div 2 ^ 8"
    unfolding a4_def using last(1) by (subst plus) (simp_all add: ops)
  have n5: "unat a5 = unat a4 + unat a4 div 2 ^ 16"
    unfolding a5_def using last(2) n4 by (subst plus) (simp_all add: ops)
  have "unat a5 AND 255 = unat a5 mod 2 ^ 8"
    using take_bit_eq_mask [of 8 "unat a5"] by (simp add: mask_eq_exp_minus_1 take_bit_eq_mod)
  then have "unat (a5 AND 0xFF) = unat a5 mod 2 ^ 8" by (simp add: unsigned_and_eq)
  then have "unat (a5 AND 0xFF) = sum_list ?ds" using last(3) bytes(3) by (simp add: n4 n5)
  moreover have "sum_list ?ds = length (filter (bit a) [0..<32])" by (simp add: mask_bits_def sum_of_bools)
  moreover have "bitcount a = uint (a5 AND 0xFF)"
    unfolding bitcount_def Let_def a5_def a4_def a3_def a2_def a1_def by (rule refl)
  ultimately show ?thesis by (simp only: uint_nat)
qed

lemma bitcount_positive:
  assumes "a \<noteq> 0"
  shows "0 < bitcount a"
proof -
  obtain i where i: "bit a i" using assms by (metis bit_0_eq bit_eqI bot_apply bot_bool_def)
  then have "i < 32" using bit_imp_le_length [of a i] by simp
  then have "i \<in> set (filter (bit a) [0..<32])" using i by simp
  then show ?thesis using bitcount_counts [of a] length_pos_if_in_set by fastforce
qed

subsection \<open>Scaling a sample\<close>

text \<open>The loop ends for every positive number of bits.\<close>

lemma shift_loop_ends:
  assumes "0 < bits"
  shows "\<exists>r. shift_loop v bits z result = Some r"
proof (induction "nat (8 - z)" arbitrary: z result rule: less_induct)
  case less
  show ?case
  proof (cases "z < 8")
    case True
    then have "nat (8 - (z + bits)) < nat (8 - z)" using assms by simp
    from less [OF this] show ?thesis using True by (subst shift_loop.simps) simp
  next
    case False
    then show ?thesis by (subst shift_loop.simps) simp
  qed
qed

lemma sample_returns:
  assumes "m \<noteq> 0"
  shows "\<exists>r. sample v m = returnE r"
proof -
  obtain r where "shiftsigned (sint (v AND m)) (high_bit m - 7) (bitcount m) = Some r"
    using shift_loop_ends [OF bitcount_positive [OF assms]] unfolding shiftsigned_def Let_def by blast
  then have "sample v m = returnE r" by (simp add: sample_def)
  then show ?thesis by (rule exI)
qed

end
