(* ===== verification/BmpLaws.thy ===== *)
theory BmpLaws
  imports Bmp
begin

text \<open>
  What the BMP decoder is good for: a file of plain pixels decodes to its picture, the first row of
  the file being the last one of the picture.
\<close>

subsection \<open>The output array\<close>

text \<open>An array of which a first part has been written.\<close>

definition filled :: "u8 list \<Rightarrow> nat \<Rightarrow> nat \<times> buffer" where
  "filled bs m = (length bs, map Some bs @ replicate m None)"

definition pixel :: "nat \<Rightarrow> u8 \<times> u8 \<times> u8 \<Rightarrow> u8 list" where
  "pixel target = (\<lambda>(r, g, b). [r, g, b] @ (if target = 4 then [255] else []))"

lemma put_pixel_filled:
  "length px \<le> m \<Longrightarrow> px = [r, g, b] @ (if target = 4 then [a] else []) \<Longrightarrow>
     put_pixel target r g b a (filled bs m) = returnE (filled (bs @ px) (m - length px))"
  by (simp add: put_pixel_def filled_def store_def Let_def bindE_liftE drop_replicate numeral_eq_Suc)

subsection \<open>Flipping\<close>

lemma swap_blocks:
  assumes "length a = n" and "length b = n"
  shows "swap_bytes (length pre) (length (pre @ a @ mid)) n (pre @ a @ mid @ b @ post) = Inr (pre @ b @ mid @ a @ post)"
  using assms
proof (induction n arbitrary: pre a mid b)
  case (Suc n)
  obtain x a' y b' where ab: "a = x # a'" "b = y # b'" using Suc.prems by (metis length_Suc_conv)
  have "swap_bytes (length (pre @ [y])) (length ((pre @ [y]) @ a' @ (mid @ [x]))) n ((pre @ [y]) @ a' @ (mid @ [x]) @ b' @ post) =
      Inr ((pre @ [y]) @ b' @ (mid @ [x]) @ a' @ post)"
    using Suc.IH Suc.prems ab by (metis Suc_inject length_Cons)
  then show ?case by (simp add: ab nth_append list_update_append)
qed simp

lemma flip_blocks:
  assumes "\<forall>r \<in> set (outer @ mid @ outer'). length r = x * target" and "length outer = k" and "length outer' = k"
    and "length (outer @ mid @ outer') = y" and "x * target < 2 ^ 31" and "x < 2 ^ 31" and "y * (x * target) < 2 ^ 32"
  shows "flip_loop x y target [k..<y div 2] (concat (outer @ mid @ outer')) = Inr (concat (outer @ rev mid @ outer'))"
  using assms
proof (induction mid arbitrary: outer outer' k rule: measure_induct_rule [of length])
  case (less mid)
  have y: "length mid + 2 * k = y" using less.prems(2,3,4) by simp
  show ?case
  proof (cases "length mid \<le> 1")
    case True
    then have "y div 2 \<le> k" using y by simp
    moreover have "rev mid = mid" using True by (cases mid) auto
    ultimately show ?thesis by simp
  next
    case False
    obtain a mid1 where "mid = a # mid1" using False by (cases mid) auto
    moreover obtain mid2 b where "mid1 = mid2 @ [b]" using False calculation by (metis One_nat_def Suc_leI Suc_le_lessD length_Cons list.size(3) not_less_eq rev_exhaust zero_less_Suc)
    ultimately have mid: "mid = a # mid2 @ [b]" by simp
    let ?pre = "concat outer" and ?post = "concat outer'" and ?m = "x * target"
    have len: "length a = ?m" "length b = ?m" "length ?pre = k * ?m" "length (concat mid2) = length mid2 * ?m"
      using less.prems(1,2) mid by (auto simp: length_concat sum_list_triv cong: map_cong)
    have k: "k < y div 2" "Suc k \<le> y" "y - 1 - k = k + 1 + length mid2" using y mid by auto
    have "k * x * target = length ?pre" "(y - 1 - k) * x * target = length (?pre @ a @ concat mid2)"
      unfolding k(3) mult.assoc length_append len by (simp_all add: algebra_simps)
    moreover have "(y - 1 - k) * ?m \<le> y * ?m" "k * ?m \<le> y * ?m" using k(2) by (simp_all only: mult_le_mono1 diff_le_self Suc_leD diff_diff_left)
    then have "(y - 1 - k) * x * target < 2 ^ 32" "k * x * target < 2 ^ 32"
      using less.prems(7) unfolding mult.assoc by linarith+
    ultimately have w: "wrap32 (k * x * target) = length ?pre" "wrap32 ((y - 1 - k) * x * target) = length (?pre @ a @ concat mid2)"
      by (simp_all only: mod_less)
    have "swap_bytes (length ?pre) (length (?pre @ a @ concat mid2)) ?m (?pre @ a @ concat mid2 @ b @ ?post) =
        Inr (?pre @ b @ concat mid2 @ a @ ?post)" by (rule swap_blocks) (rule len)+
    then have "flip_loop x y target [k..<y div 2] (concat (outer @ mid @ outer')) =
        flip_loop x y target [Suc k..<y div 2] (concat ((outer @ [b]) @ mid2 @ (a # outer')))"
      using less.prems(5,6) w by (simp add: upt_conv_Cons [OF k(1)] mid signed_count_def)
    also have "\<dots> = Inr (concat ((outer @ [b]) @ rev mid2 @ (a # outer')))"
      using less.prems mid by (intro less.IH) auto
    finally show ?thesis by (simp add: mid)
  qed
qed

lemma flip_rows_rev:
  assumes "\<forall>r \<in> set rs. length r = x * target" and "length rs = y" and "x * target < 2 ^ 31" and "x < 2 ^ 31" and "y * (x * target) < 2 ^ 32"
    and "y < 2 ^ 31"
  shows "flip_rows x y target (concat rs) = Inr (concat (rev rs))"
  using flip_blocks [of "[]" rs "[]" x target 0 y] assms by (simp add: flip_rows_def signed_count_def)

subsection \<open>A file of 24-bit pixels\<close>

definition bmp_pad :: "nat \<Rightarrow> nat" where
  "bmp_pad w = nat (- (3 * int w) mod 4)"

definition bmp_row :: "(u8 \<times> u8 \<times> u8) list \<Rightarrow> u8 list" where
  "bmp_row row = concat (map (\<lambda>(r, g, b). [b, g, r]) row) @ replicate (bmp_pad (length row)) 0"

text \<open>The rows of the picture from the top; the words that the decoder discards are arbitrary.\<close>

definition bmp24_file :: "u8 list \<Rightarrow> u8 list \<Rightarrow> nat \<Rightarrow> (u8 \<times> u8 \<times> u8) list list \<Rightarrow> u8 list" where
  "bmp24_file sizes extra w rs =
     [0x42, 0x4D] @ sizes @ le32 54 @ le32 40 @ le32 w @ le32 (length rs) @ le16 1 @ le16 24 @ le32 0 @ extra @
     concat (map bmp_row (rev rs))"

lemma easy_row_reads:
  assumes "reads s (concat (map (\<lambda>(r, g, b). [b, g, r]) px) @ bs)" and "target \<in> {3, 4}" and "length px * target \<le> m"
    and "\<And>s'. reads s' bs \<Longrightarrow> Q (filled (done @ concat (map (pixel target) px)) (m - length px * target), 255) s'"
  shows "ensures (easy_row 1 target (length px) (filled done m, 255)) s Q"
  using assms
proof (induction px arbitrary: s m "done")
  case Nil
  then show ?case by (simp add: ensures_return)
next
  case (Cons p px)
  obtain r g b where p: "p = (r, g, b)" by (cases p)
  have len: "length (pixel target p) = target" using Cons.prems(2) by (auto simp: pixel_def p)
  have put: "put_pixel target r g b 255 (filled done m) = returnE (filled (done @ pixel target p) (m - target))"
    using put_pixel_filled [of "pixel target p" m r g b target 255 "done"] Cons.prems(3) len by (simp add: pixel_def p)
  have next_row: "ensures (easy_row 1 target (length px) (filled (done @ pixel target p) (m - target), 255)) s' Q"
    if "reads s' (concat (map (\<lambda>(r, g, b). [b, g, r]) px) @ bs)" for s'
    using Cons.prems by (intro Cons.IH [OF that Cons.prems(2)]) (auto simp: diff_diff_left add.commute)
  show ?case
    using Cons.prems(1)
    by (auto simp: p put intro!: ensures_bind ensures_return reads_rules next_row [unfolded p One_nat_def])
qed

lemma rows_reads:
  assumes "reads s (concat (map bmp_row rs) @ bs)" and "target \<in> {3, 4}" and "\<forall>r \<in> set rs. length r = w"
    and "length rs * (w * target) \<le> m"
    and "\<And>s'. reads s' bs \<Longrightarrow> Q (filled (done @ concat (map (\<lambda>r. concat (map (pixel target) r)) rs)) (m - length rs * (w * target)), 255) s'"
  shows "ensures (rows (easy_row 1 target w) (int (bmp_pad w)) (length rs) (filled done m, 255)) s Q"
  using assms
proof (induction rs arbitrary: s m "done")
  case Nil
  then show ?case by (simp add: ensures_return)
next
  case (Cons r rs)
  let ?done = "done @ concat (map (pixel target) r)"
  have row: "reads s (concat (map (\<lambda>(r, g, b). [b, g, r]) r) @ replicate (bmp_pad w) 0 @ concat (map bmp_row rs) @ bs)"
    using Cons.prems(1,3) unfolding list.map concat.simps bmp_row_def [of r] by simp
  have rest: "ensures (rows (easy_row 1 target w) (int (bmp_pad w)) (length rs) (filled ?done (m - w * target), 255)) s' Q"
    if "reads s' (concat (map bmp_row rs) @ bs)" for s'
    using Cons.prems by (intro Cons.IH [OF that Cons.prems(2)]) (auto simp: diff_diff_left)
  have "ensures (easy_row 1 target (length r) (filled done m, 255)) s (\<lambda>st s'.
      ensures (bindE (skipE (int (bmp_pad w))) (\<lambda>_. rows (easy_row 1 target w) (int (bmp_pad w)) (length rs) st)) s' Q)"
  proof (rule easy_row_reads [OF row Cons.prems(2)])
    show "length r * target \<le> m" using Cons.prems(3,4) by simp
  next
    fix s' :: "'a ctx"
    assume s': "reads s' (replicate (bmp_pad w) 0 @ concat (map bmp_row rs) @ bs)"
    show "ensures (bindE (skipE (int (bmp_pad w))) (\<lambda>_. rows (easy_row 1 target w) (int (bmp_pad w)) (length rs)
        (filled ?done (m - length r * target), 255))) s' Q"
      using Cons.prems(3) rest by (intro ensures_bind ensures_skip [OF s']) simp_all
  qed
  then show ?case using Cons.prems(3) by (simp add: ensures_bind)
qed

lemma bmp_pad_model:
  assumes "3 * w < 2 ^ 31"
  shows "padding_of (sint (3 * word_of_nat w :: u32)) = Inr (int (bmp_pad w))"
proof -
  have "sint (word_of_nat (3 * w) :: u32) = int (3 * w)" by (rule sint_small [OF assms])
  then have "sint (3 * word_of_nat w :: u32) = 3 * int w" by simp
  moreover have "- (3 * int w) AND 3 = - (3 * int w) mod 4"
    using take_bit_eq_mask [of 2 "- (3 * int w)"] by (simp add: mask_eq_exp_minus_1 take_bit_eq_mod)
  moreover have "0 \<le> - (3 * int w) mod 4" by simp
  ultimately show ?thesis using assms by (simp add: padding_of_def int32_def bmp_pad_def)
qed

lemma ensures_rd16_any: "reads s (a # b # bs) \<Longrightarrow> (\<And>v s'. reads s' bs \<Longrightarrow> Q v s') \<Longrightarrow> ensures rd16 s Q"
  using get16le_reads [of s a b bs] by (auto simp: ensures_def runE_apply)

lemma ensures_rd32_any: "reads s (a # b # c # d # bs) \<Longrightarrow> (\<And>v s'. reads s' bs \<Longrightarrow> Q v s') \<Longrightarrow> ensures rd32 s Q"
  using get32le_reads [of s a b c d bs] by (auto simp: ensures_def runE_apply)

lemma sint_numerals: "sint (54 :: u32) = 54" "sint (40 :: u32) = 40" "sint (0 :: u32) = 0"
  using sint_small [of 54] sint_small [of 40] by simp_all

lemma bmp24_header:
  assumes "reads s (bmp24_file sizes extra w rs)" and "length sizes = 8" and "length extra = 20"
    and "w < 2 ^ 31" and "length rs < 2 ^ 31"
  shows "ensures bmp_parse_header s (\<lambda>info s'. info = \<lparr>bpp = 24, offset = 54, hsz = 40, mr = 0, mg = 0, mb = 0, ma = 0, all_a = 255,
      img_x = word_of_nat w, img_y = word_of_nat (length rs)\<rparr> \<and> reads s' (concat (map bmp_row (rev rs))))"
proof -
  let ?data = "concat (map bmp_row (rev rs))"
  obtain a b c d e f g h where sizes: "sizes = [a, b, c, d, e, f, g, h]"
    using assms(2) by (auto simp: length_Suc_conv numeral_eq_Suc)
  have layout: "bmp24_file sizes extra w rs = 0x42 # 0x4D # a # b # c # d # e # f # g # h # le32 54 @ le32 40 @ le32 w @ le32 (length rs) @
      le16 1 @ le16 24 @ le32 0 @ extra @ ?data" by (simp add: bmp24_file_def sizes)
  define fin where "fin = (\<lambda>info (s' :: 'a ctx). info = \<lparr>bpp = 24, offset = 54, hsz = 40, mr = 0, mg = 0, mb = 0, ma = 0, all_a = 255,
      img_x = word_of_nat w, img_y = word_of_nat (length rs)\<rparr> \<and> reads s' ?data)"
  have w: "w < 2 ^ 32" "length rs < 2 ^ 32" using assms(4,5) by simp_all
  have "ensures bmp_parse_header s fin"
    unfolding bmp_parse_header_def bmp_masks_def
    using assms(1) unfolding layout
    apply -
    apply (rule ensures_bind, erule ensures_rd8, simp)
    apply (rule ensures_bind, erule ensures_rd8, simp)
    apply (rule ensures_bind, erule ensures_rd32_any)
    apply (rule ensures_bind, erule ensures_rd16_any)
    apply (rule ensures_bind, erule ensures_rd16_any)
    apply (rule ensures_bind, erule ensures_rd32, simp)
    apply (rule ensures_bind, erule ensures_rd32, simp, simp add: sint_numerals bmp_sizes_def)
    apply (rule ensures_bind, rule ensures_bind, erule ensures_rd32, rule w, rule ensures_bind, erule ensures_rd32, rule w, rule ensures_return, simp)
    apply (rule ensures_bind, erule ensures_rd16, simp, simp)
    apply (rule ensures_bind, erule ensures_rd16, simp, simp)
    apply (rule ensures_bind, rule ensures_bind, erule ensures_rd32, simp, simp add: sint_numerals)
    apply (rule ensures_bind, erule ensures_discard32, simp add: assms(3))
    apply (auto simp: fin_def intro!: ensures_return)
    done
  then show ?thesis by (simp add: fin_def)
qed

lemma ensures_lift: "r = Inr a \<Longrightarrow> Q a s \<Longrightarrow> ensures (liftE r) s Q"
  by (simp add: ensures_def)

lemma direct_image_reads:
  assumes "reads s (concat (map bmp_row rs))" and "\<forall>r \<in> set rs. length r = w" and "length rs = h" and "target \<in> {3, 4}"
    and "4 * w * h < 2 ^ 31" and "w < 2 ^ 29" and "h < 2 ^ 31"
    and "info = \<lparr>bpp = 24, offset = 54, hsz = 40, mr = 0, mg = 0, mb = 0, ma = 0, all_a = 255, img_x = word_of_nat w, img_y = word_of_nat h\<rparr>"
    and "\<And>s'. Q (map Some (concat (map (\<lambda>r. concat (map (pixel target) r)) rs)), 255) s'"
  shows "ensures (direct_image info w h target (replicate (target * w * h) None)) s Q"
proof -
  have pad: "padding_of (sint (3 * word_of_nat w :: u32)) = Inr (int (bmp_pad w))" using assms(6) by (intro bmp_pad_model) simp
  have none: "(0, replicate (target * w * h) None) = filled [] (target * w * h)" by (simp add: filled_def)
  have size: "length rs * (w * target) \<le> target * w * h" using assms(3) by (simp add: ac_simps)
  have rows: "ensures (rows (easy_row 1 target w) (int (bmp_pad w)) (length rs) (filled [] (target * w * h), 255)) s' R"
    if "reads s' (concat (map bmp_row rs))"
      "\<And>s'. R (filled (concat (map (\<lambda>r. concat (map (pixel target) r)) rs)) 0, 255) s'" for s' R
    using rows_reads [of s' rs "[]" target w "target * w * h" R "[]"] that assms(2,3,4) size by (simp add: ac_simps)
  have count: "signed_count w = w" "signed_count h = h" using assms(6,7) by (simp_all add: signed_count_def)
  have kind: "easy_kind info = 1" using assms(8) by (simp add: easy_kind_def)
  show ?thesis
    unfolding direct_image_def none kind
    using assms(1)
    apply -
    apply (rule ensures_bind, rule ensures_lift [of _ 0], simp add: assms(8) int32_def)
    apply (rule ensures_bind, rule ensures_skip [where xs = "[]"], simp, simp)
    apply (rule ensures_bind, rule ensures_lift [of _ "int (bmp_pad w)"], simp add: assms(8) pad)
    apply (simp add: assms(8) count del: One_nat_def)
    apply (rule ensures_bind, rule rows [unfolded assms(3)], assumption)
    apply (simp add: filled_def ensures_return assms(9))
    done
qed

text \<open>The sizes of a picture that is not too big.\<close>

lemma picture_small:
  assumes "4 * w * h < 2 ^ 31" and "0 < w" and "0 < h" and "target \<in> {3, 4}"
  shows "w < 2 ^ 29" "w < 2 ^ 32" "h < 2 ^ 31" "h < 2 ^ 32" "target * w * h < 2 ^ 32" "h * (w * target) < 2 ^ 32" "w * target < 2 ^ 31"
    "unat (word_of_nat w :: u32) = w" "unat (word_of_nat h :: u32) = h" "sint (word_of_nat h :: u32) = int h"
proof -
  define n where "n = w * h"
  have n: "w \<le> n" "h \<le> n" "4 * n < 2 ^ 31" using assms(1-3) by (simp_all add: n_def Suc_le_eq)
  then show w: "w < 2 ^ 29" "w < 2 ^ 32" "h < 2 ^ 31" "h < 2 ^ 32" by simp_all
  have "target * n \<le> 4 * n" "w * target \<le> n * 4" using assms(4) n(1) by (intro mult_le_mono; auto)+
  then have "target * n < 2 ^ 31" "w * target < 2 ^ 31" using n(3) by linarith+
  moreover have e: "target * w * h = target * n" "h * (w * target) = target * n" by (simp_all add: n_def ac_simps)
  ultimately show "target * w * h < 2 ^ 32" "h * (w * target) < 2 ^ 32" "w * target < 2 ^ 31" unfolding e by simp_all
  show "unat (word_of_nat w :: u32) = w" "unat (word_of_nat h :: u32) = h" "sint (word_of_nat h :: u32) = int h"
    using w(2,4) sint_small [OF w(3)] by (simp_all add: unat_of_nat)
qed

text \<open>The samples of the picture, and the flip that brings its rows into their order.\<close>

definition samples :: "nat \<Rightarrow> (u8 \<times> u8 \<times> u8) list list \<Rightarrow> buffer" where
  "samples target rs = map Some (concat (map (\<lambda>r. concat (map (pixel target) r)) rs))"

lemma flip_samples:
  assumes "\<forall>r \<in> set rs. length r = w" and "target \<in> {3, 4}" and "w * target < 2 ^ 31" and "w < 2 ^ 31"
    and "length rs * (w * target) < 2 ^ 32" and "length rs < 2 ^ 31"
  shows "flip_rows w (length rs) target (samples target (rev rs)) = Inr (samples target rs)"
proof -
  have pixels: "length (concat (map (pixel target) r)) = length r * target" for r
    using assms(2) by (induction r) (auto simp: pixel_def)
  have "flip_rows w (length rs) target (concat (rev (map (\<lambda>r. map Some (concat (map (pixel target) r))) rs))) =
      Inr (concat (rev (rev (map (\<lambda>r. map Some (concat (map (pixel target) r))) rs))))"
    using assms by (intro flip_rows_rev) (auto simp: pixels)
  then show ?thesis by (simp add: samples_def map_concat comp_def rev_map)
qed

text \<open>What the decoder does with a header of a file of plain pixels.\<close>

abbreviation plain_info :: "nat \<Rightarrow> nat \<Rightarrow> bmp_info" where
  "plain_info w h \<equiv> \<lparr>bpp = 24, offset = 54, hsz = 40, mr = 0, mg = 0, mb = 0, ma = 0, all_a = 255,
    img_x = word_of_nat w, img_y = word_of_nat h\<rparr>"

lemma plain_picture:
  assumes "\<forall>r \<in> set rs. length r = w" and "0 < w" and "rs \<noteq> []" and "4 * w * length rs < 2 ^ 31"
    and "req_comp = 0 \<or> req_comp = target" and "target \<in> {3, 4}" and "reads s' (concat (map bmp_row (rev rs)))"
    and "h = length rs" and "Q \<lparr>pic_x = w, pic_y = h, pic_comp = 3, pic_data = samples target rs\<rparr>"
  shows "ensures (bindE (direct_image (plain_info w h) w h target (replicate (target * w * h) None)) (\<lambda>(buf, all).
      bindE (liftE (if target = 4 \<and> all = 0 then fix_alpha info' buf else Inr buf)) (\<lambda>buf.
      bindE (liftE (if 0 < sint (word_of_nat h :: u32) then flip_rows w h target buf else Inr buf)) (\<lambda>buf.
      bindE (if req_comp \<noteq> 0 \<and> req_comp \<noteq> target then convert_format al buf target req_comp w h else returnE buf) (\<lambda>buf.
      returnE \<lparr>pic_x = w, pic_y = h, pic_comp = 3, pic_data = buf\<rparr>))))) s' (\<lambda>p s'. Q p)"
proof -
  have h: "0 < h" using assms(3,8) by simp
  note small = picture_small [OF assms(4) [folded assms(8)] assms(2) h assms(6)]
  have flip: "flip_rows w h target (samples target (rev rs)) = Inr (samples target rs)"
    using flip_samples [OF assms(1,6)] small assms(8) by simp
  have image: "ensures (direct_image (plain_info w h) w h target (replicate (target * w * h) None)) s' R"
    if "\<And>s'. R (samples target (rev rs), 255) s'" for R
    using direct_image_reads [OF assms(7) _ _ assms(6) assms(4) [folded assms(8)] small(1,3) refl, of R] assms(1,8) that
    by (simp add: samples_def)
  show ?thesis
    using assms(5) h by (intro ensures_bind image) (auto simp: small(10) flip ensures_return bindE_liftE assms(9))
qed

text \<open>
  C14: a BMP file of plain 24-bit pixels decodes to its picture. Whatever the sizes and the
  resolution in its header say, the pixels come back in the order of the picture's rows, red first,
  with an opaque alpha channel where four channels are asked for.
\<close>

theorem bmp24_round_trip:
  assumes "\<forall>r \<in> set rs. length r = w" and "0 < w" and "rs \<noteq> []" and "4 * w * length rs < 2 ^ 31"
    and "length sizes = 8" and "length extra = 20" and "req_comp \<in> {0, 3, 4}" and "target = (if req_comp = 4 then 4 else 3)"
    and "al (target * w * length rs)"
  shows "\<exists>s'. bmp_load al req_comp (start_mem u (bmp24_file sizes extra w rs)) =
    (Inr \<lparr>pic_x = w, pic_y = length rs, pic_comp = 3, pic_data = map Some (concat (map (\<lambda>r. concat (map (pixel target) r)) rs))\<rparr>, s')"
proof -
  let ?h = "length rs"
  have target: "target \<in> {3, 4}" "(if 3 \<le> req_comp then req_comp else 3) = target" "req_comp = 0 \<or> req_comp = target"
    using assms(7,8) by auto
  have h: "0 < ?h" using assms(3) by simp
  note small = picture_small [OF assms(4,2) h target(1)]
  define s where "s = start_mem u (bmp24_file sizes extra w rs)"
  define info where "info = plain_info w ?h"
  have "reads s (bmp24_file sizes extra w rs)" by (simp add: s_def reads_start)
  from bmp24_header [OF this assms(5,6)] small
  have header: "ensures bmp_parse_header s (\<lambda>i s'. i = info \<and> reads s' (concat (map bmp_row (rev rs))))"
    by (simp add: info_def)
  have i: "img_x info = word_of_nat w" "img_y info = word_of_nat ?h" "(if ma info \<noteq> 0 then 4 else (3::nat)) = 3" "\<not> bpp info < 16"
    by (simp_all add: info_def)
  have m: "malloc al (target * w * ?h) = returnE (replicate (target * w * ?h) None)"
    using assms(9) small(5) by (simp add: malloc_def)
  have r: "palette_size info = Inr 0" "int32 \<bar>sint (word_of_nat ?h :: u32)\<bar> = Inr (int ?h)"
    using small(3,10) by (simp_all add: info_def palette_size_def int32_def)
  have l: "bindE (liftE (palette_size info)) f = f 0" "bindE (liftE (int32 \<bar>sint (word_of_nat ?h :: u32)\<bar>)) f = f (int ?h)"
    for f :: "int \<Rightarrow> ('a, picture) im" by (simp_all only: r bindE_liftE sum.case)
  have "ensures (bmp_load al req_comp) s (\<lambda>p s'. p = \<lparr>pic_x = w, pic_y = ?h, pic_comp = 3, pic_data = samples target rs\<rparr>)"
    unfolding bmp_load_def
    apply (rule ensures_bind, rule ensures_mono [OF header])
    apply (elim conjE)
    apply (simp only: i l small(8) nat_int prod.case if_False bindE_Inr target(2) m)
    apply (rule plain_picture [where h = ?h, OF assms(1-4) target(3,1), folded info_def], assumption)
    apply simp_all
    done
  then show ?thesis by (auto simp: ensures_def s_def samples_def)
qed

lemma bmp24_round_trip_witness:
  "\<exists>s'. bmp_load (\<lambda>n. n \<le> 100) 4 (start_mem () (bmp24_file (replicate 8 0) (replicate 20 7) 2
      [[(1, 2, 3), (4, 5, 6)], [(7, 8, 9), (10, 11, 12)]])) =
    (Inr \<lparr>pic_x = 2, pic_y = 2, pic_comp = 3, pic_data = map Some [1, 2, 3, 255, 4, 5, 6, 255, 7, 8, 9, 255, 10, 11, 12, 255]\<rparr>, s')"
  using bmp24_round_trip [of "[[(1, 2, 3), (4, 5, 6)], [(7, 8, 9), (10, 11, 12)]]" 2 "replicate 8 0" "replicate 20 7" 4 4 "\<lambda>n. n \<le> 100" "()"]
  by (simp add: pixel_def flip: numeral_2_eq_2)

end
