(* ===== verification/BmpSafe.thy ===== *)
theory BmpSafe
  imports BmpMasks BmpLaws
begin

text \<open>
  The memory safety of the BMP decoder: if the dimensions in the header are moderate, then whatever
  the rest of the file holds, the decoder stays inside its arrays, ends, and returns a picture of the
  size the header gives. Two faults of the code remain possible: an index outside the palette, and an overflow of
  the signed arithmetic on the offset in the header.
\<close>

definition bmp_fault :: "stb_err \<Rightarrow> bool" where
  "bmp_fault e \<longleftrightarrow> (\<exists>reason. e = Err reason) \<or> e = Undefined ''pal'' \<or> e = Undefined ''overflow''"

abbreviation bmp_safe :: "('u, 'a) im \<Rightarrow> ('a \<Rightarrow> bool) \<Rightarrow> bool" where
  "bmp_safe \<equiv> safely bmp_fault"

lemma safely_after:
  "m s = (Inr a, s1) \<Longrightarrow> safely ok (f a) Q \<Longrightarrow> case bindE m f s of (Inl e, s') \<Rightarrow> ok e | (Inr p, s') \<Rightarrow> Q p"
  by (simp add: bindE_def safely_def)

lemma bmp_safe_basic [safely_rules]:
  "bmp_safe (failE reason) Q" "(\<And>n. r = Inr n \<Longrightarrow> Q n) \<Longrightarrow> (\<And>e. r = Inl e \<Longrightarrow> bmp_fault e) \<Longrightarrow> bmp_safe (liftE r) Q"
  by (simp_all add: failE_def safely_throw bmp_fault_def safely_lift split: sum.split)

lemma int32_fault: "int32 v = Inl e \<Longrightarrow> bmp_fault e"
  by (auto simp: int32_def bmp_fault_def split: if_splits)

lemma map_int32_fault: "map_sum id g (int32 v) = Inl e \<Longrightarrow> bmp_fault e"
  by (cases "int32 v") (auto dest: int32_fault)

lemma sizes_fault: "palette_size info = Inl e \<Longrightarrow> bmp_fault e" "padding_of v = Inl e \<Longrightarrow> bmp_fault e"
  by (auto simp: palette_size_def padding_of_def dest: map_int32_fault split: if_splits)

subsection \<open>Pixels\<close>

text \<open>In an array of \<open>len\<close> bytes there is room for \<open>n\<close> more pixels.\<close>

definition room :: "nat \<Rightarrow> nat \<Rightarrow> nat \<Rightarrow> nat \<times> buffer \<Rightarrow> bool" where
  "room len target n o' \<longleftrightarrow> length (snd o') = len \<and> fst o' + n * target \<le> len"

lemma put_pixel_safe:
  assumes "room len target (Suc n) o'" and "target \<in> {3, 4}"
  shows "bmp_safe (put_pixel target r g b a o') (room len target n)"
proof -
  obtain z buf where o: "o' = (z, buf)" by (cases o')
  define px where "px = [r, g, b] @ (if target = 4 then [a] else [])"
  have "length px = target" using assms(2) by (auto simp: px_def)
  then have "room len target n (z + length px, take z buf @ map Some px @ drop (z + length px) buf)" "z + length px \<le> length buf"
    using assms(1) by (auto simp: room_def o)
  then show ?thesis
    unfolding o put_pixel_def prod.case Let_def px_def [symmetric] store_def bindE_liftE by (simp add: safely_return)
qed

lemma put_colour_safe:
  assumes "room len target (Suc n) o'" and "target \<in> {3, 4}"
  shows "bmp_safe (put_colour pal target v o') (room len target n)"
  unfolding put_colour_def
  by (intro safely_if safely_prod put_pixel_safe [OF assms] safely_throw) (simp add: bmp_fault_def)

lemma any_byte: "bmp_safe rd8 (\<lambda>_. True)"
  by (rule safely_run) simp

lemma palette_row_safe:
  "room len target (n + k) o' \<Longrightarrow> target \<in> {3, 4} \<Longrightarrow> bmp_safe (palette_row depth pal target n o') (room len target k)"
proof (induction depth pal target n o' rule: palette_row.induct)
  case (1 depth pal target o')
  then show ?case by (simp add: safely_return)
next
  case (2 depth pal target o')
  then show ?case unfolding palette_row.simps by (intro safely_bind [OF any_byte] put_colour_safe) simp_all
next
  case (3 depth pal target n o')
  show ?case
    unfolding palette_row.simps using 3
    apply -
    apply (rule safely_bind [OF any_byte])
    apply (rule safely_bind [OF put_colour_safe [of len target "Suc (n + k)"]], simp, simp)
    apply (rule safely_bind [where R = "\<lambda>_. True"], intro safely_if any_byte safely_return, simp)
    apply (rule safely_bind [OF put_colour_safe [of len target "n + k"]], simp_all)
    done
qed

lemma easy_row_safe:
  "room len target (n + k) (fst s) \<Longrightarrow> target \<in> {3, 4} \<Longrightarrow> bmp_safe (easy_row easy target n s) (\<lambda>s. room len target k (fst s))"
proof (induction easy target n s rule: easy_row.induct)
  case (1 easy target s)
  then show ?case by (simp add: safely_return)
next
  case (2 easy target n s)
  have "bmp_safe (if easy = 2 then rd8 else returnE 255) (\<lambda>_. True)" by (intro safely_if any_byte safely_return) simp
  then show ?case
    unfolding easy_row.simps using 2
    by (intro safely_bind [OF any_byte] safely_bind [where R = "\<lambda>_. True"] safely_bind [OF put_pixel_safe [of len target "n + k"]]) simp_all
qed

definition masks_ok :: "bmp_info \<Rightarrow> bool" where
  "masks_ok info \<longleftrightarrow> mr info \<noteq> 0 \<and> mg info \<noteq> 0 \<and> mb info \<noteq> 0"

lemma sample_safe:
  assumes "m \<noteq> 0"
  shows "bmp_safe (sample v m :: ('u, int) im) (\<lambda>_. True)"
proof -
  obtain r where "(sample v m :: ('u, int) im) = returnE r" using sample_returns [OF assms] by blast
  then show ?thesis by (simp add: safely_return)
qed

lemma masked_pixel_safe:
  assumes "masks_ok info"
  shows "bmp_safe (masked_pixel info v) (\<lambda>_. True)"
proof -
  have "bmp_safe (if ma info \<noteq> 0 then sample v (ma info) else returnE 255) (\<lambda>_. True)"
    by (intro safely_if sample_safe safely_return) simp_all
  then show ?thesis
    unfolding masked_pixel_def using assms by (intro safely_bind [where R = "\<lambda>_. True"] sample_safe safely_return) (simp_all add: masks_ok_def)
qed

lemma masked_row_safe:
  "room len target (n + k) (fst s) \<Longrightarrow> target \<in> {3, 4} \<Longrightarrow> masks_ok info \<Longrightarrow>
     bmp_safe (masked_row info target n s) (\<lambda>s. room len target k (fst s))"
proof (induction info target n s rule: masked_row.induct)
  case (1 info target s)
  then show ?case by (simp add: safely_return)
next
  case (2 info target n s)
  have "bmp_safe (if bpp info = 16 then bindE rd16 (\<lambda>w. returnE (word_of_int w)) else rd32) (\<lambda>_. True)"
    by (intro safely_if safely_bind [where R = "\<lambda>_. True"] safely_run safely_return) simp_all
  then show ?case
    unfolding masked_row.simps using 2 masked_pixel_safe
    by (intro safely_bind [where R = "\<lambda>_. True"] safely_prod safely_bind [OF put_pixel_safe [of len target "n + k"]]) simp_all
qed

text \<open>All rows.\<close>

lemma rows_safe:
  assumes "\<And>k s. room len target (w + k) (f s) \<Longrightarrow> bmp_safe (row s) (\<lambda>s. room len target k (f s))"
  shows "room len target (n * w) (f s) \<Longrightarrow> bmp_safe (rows row pad n s) (\<lambda>s. length (snd (f s)) = len)"
proof (induction n arbitrary: s)
  case 0
  then show ?case by (simp add: safely_return room_def)
next
  case (Suc n)
  show ?case
    unfolding rows.simps using Suc assms [of "n * w" s]
    by (intro safely_bind [where R = "\<lambda>s. room len target (n * w) (f s)"] safely_bind [where R = "\<lambda>_. True"] safely_modify) simp_all
qed

subsection \<open>The image\<close>

lemma signed_count_le: "signed_count n \<le> n"
  by (simp add: signed_count_def)

lemma room_at_start:
  "length buf = target * x * y \<Longrightarrow> room (target * x * y) target (signed_count y * signed_count x) (0, buf)"
  using mult_le_mono [OF mult_le_mono [OF signed_count_le [of y] signed_count_le [of x]] order_refl, of target]
  by (simp add: room_def ac_simps)

lemma read_palette_safe: "i + n \<le> 256 \<Longrightarrow> bmp_safe (read_palette quads i n :: ('u, palette) im) (\<lambda>_. True)"
proof (induction quads i n rule: read_palette.induct)
  case (2 quads i n)
  then have rest: "bmp_safe (read_palette quads (i + 1) n :: ('u, palette) im) (\<lambda>_. True)" and i: "(256 \<le> i) = False" by simp_all
  show ?case
    unfolding read_palette.simps i if_False
    by (intro safely_bind [OF any_byte] safely_bind [OF rest] safely_bind [where R = "\<lambda>_. True"] safely_if safely_return any_byte TrueI)
qed (simp add: safely_return)

lemma safe_lift: "(\<And>e. r = Inl e \<Longrightarrow> bmp_fault e) \<Longrightarrow> bmp_safe (liftE r) (\<lambda>_. True)"
  by (simp add: safely_lift split: sum.split)

lemma palette_image_safe:
  assumes "target \<in> {3, 4}" and "length buf = target * x * y"
  shows "bmp_safe (palette_image info psize x y target buf) (\<lambda>buf. length buf = target * x * y)"
proof -
  have row: "bmp_safe (palette_row d pal target (signed_count x) s) (room (target * x * y) target k)"
    if "room (target * x * y) target (signed_count x + k) s" for d pal s k
    using palette_row_safe [OF that assms(1)] .
  have rows: "bmp_safe (rows (palette_row d pal target (signed_count x)) pad (signed_count y) (0, buf)) (\<lambda>s. length (snd s) = target * x * y)" for d pal pad
    using room_at_start [OF assms(2)] by (intro rows_safe [where f = "\<lambda>s. s", OF row]) simp_all
  show ?thesis
  proof (cases "psize = 0 \<or> psize > 256")
    case True
    then show ?thesis by (simp add: palette_image_def bmp_safe_basic)
  next
    case False
    then have "0 + nat psize \<le> 256" by (simp add: nat_le_iff)
    note colours = read_palette_safe [OF this]
    show ?thesis
      unfolding palette_image_def if_not_P [OF False]
    apply (rule safely_bind [OF colours])
    apply (rule safely_bind [OF safe_lift], erule int32_fault)
    apply (rule safely_bind [where R = "\<lambda>_. True"], rule safely_modify, rule TrueI)
    apply (rule safely_bind [where R = "\<lambda>_. True"], intro safely_if safely_return bmp_safe_basic TrueI)
    apply (rule safely_bind [OF safe_lift], erule sizes_fault)
    apply (rule safely_bind [OF rows], rule safely_prod, rule safely_return, simp)
    done
  qed
qed

lemma direct_image_safe:
  assumes "target \<in> {3, 4}" and "length buf = target * x * y"
  shows "bmp_safe (direct_image info x y target buf) (\<lambda>(buf, all). length buf = target * x * y)"
proof -
  let ?len = "target * x * y"
  let ?row = "if easy_kind info \<noteq> 0 then easy_row (easy_kind info) target (signed_count x) else masked_row info target (signed_count x)"
  have row: "bmp_safe (?row s) (\<lambda>s. room ?len target k (fst s))"
    if "room ?len target (signed_count x + k) (fst s)" "easy_kind info = 0 \<longrightarrow> masks_ok info" for s k
    using that(2) by (auto intro: easy_row_safe [OF that(1) assms(1)] masked_row_safe [OF that(1) assms(1)])
  have rows: "bmp_safe (rows ?row pad (signed_count y) ((0, buf), all)) (\<lambda>s. length (snd (fst s)) = ?len)"
    if "easy_kind info = 0 \<longrightarrow> masks_ok info" for pad all
    using that room_at_start [OF assms(2)] by (intro rows_safe [where f = fst, OF row]) simp_all
  show ?thesis
    unfolding direct_image_def
    apply (rule safely_bind [OF safe_lift], erule int32_fault)
    apply (rule safely_bind [where R = "\<lambda>_. True"], rule safely_modify, rule TrueI)
    apply (rule safely_bind [OF safe_lift], erule sizes_fault)
    apply (rule safely_if, rule bmp_safe_basic)
    apply (rule safely_bind [OF rows], force simp: masks_ok_def)
    apply (auto simp: safely_return split: prod.splits)
    done
qed

lemma set_alpha_length: "i < length buf \<Longrightarrow> \<exists>buf'. set_alpha i buf = Inr buf' \<and> length buf' = length buf"
proof (induction i buf rule: set_alpha.induct)
  case (1 i buf)
  then show ?case by (subst set_alpha.simps) (simp add: Let_def less_imp_diff_less)
qed

lemma swap_bytes_length:
  "p1 + n \<le> length buf \<Longrightarrow> p2 + n \<le> length buf \<Longrightarrow> \<exists>buf'. swap_bytes p1 p2 n buf = Inr buf' \<and> length buf' = length buf"
  by (induction p1 p2 n buf rule: swap_bytes.induct) auto

lemma flip_loop_length:
  assumes "x * target < 2 ^ 31" and "target * x * y < 2 ^ 32" and "\<forall>j \<in> set js. j < y"
  shows "length buf = target * x * y \<Longrightarrow> \<exists>buf'. flip_loop x y target js buf = Inr buf' \<and> length buf' = target * x * y"
  using assms(3)
proof (induction js arbitrary: buf)
  case (Cons j js)
  have place: "wrap32 (i * x * target) + signed_count x * target \<le> target * x * y" if "i < y" for i
  proof -
    have "i * (x * target) + x * target \<le> y * (x * target)" using that mult_le_mono1 [of "Suc i" y "x * target"] by simp
    then have "i * x * target + x * target \<le> target * x * y" by (simp add: ac_simps)
    moreover have "signed_count x * target \<le> x * target" by (intro mult_le_mono1 signed_count_le)
    moreover have "wrap32 (i * x * target) \<le> i * x * target" by simp
    ultimately show ?thesis by linarith
  qed
  have "signed_count x * target < 2 ^ 31" using le_less_trans [OF mult_le_mono1 [OF signed_count_le [of x]] assms(1)] .
  moreover have "j < y" "y - 1 - j < y" using Cons.prems(2) by auto
  then obtain buf' where "swap_bytes (wrap32 (j * x * target)) (wrap32 ((y - 1 - j) * x * target)) (signed_count x * target) buf = Inr buf'"
    "length buf' = target * x * y"
    using swap_bytes_length place Cons.prems(1) by metis
  ultimately show ?case using Cons.IH [of buf'] Cons.prems(2) by simp
qed simp

lemma convert_pixel_length:
  "img_n \<in> {3, 4} \<Longrightarrow> req_comp \<in> {1, 2} \<Longrightarrow> \<exists>px. convert_pixel img_n req_comp src = Some px \<and> length px = req_comp"
  by (auto simp: convert_pixel_def)

lemma convert_row_length:
  "img_n \<in> {3, 4} \<Longrightarrow> req_comp \<in> {1, 2} \<Longrightarrow> n * img_n \<le> length src \<Longrightarrow>
     \<exists>row. convert_row img_n req_comp n src = Inr row \<and> length row = n * req_comp"
proof (induction img_n req_comp n src rule: convert_row.induct)
  case (2 img_n req_comp n src)
  obtain px where px: "convert_pixel img_n req_comp src = Some px" "length px = req_comp"
    using convert_pixel_length [OF "2.prems"(1,2)] by blast
  have "\<not> length src < img_n" using "2.prems"(3) by simp
  moreover have "n * img_n \<le> length (drop img_n src)" using "2.prems"(3) by simp
  ultimately show ?case using "2.IH" [OF _ px(1)] "2.prems"(1,2) px by auto
qed simp

lemma convert_rows_length:
  assumes "img_n \<in> {3, 4}" and "req_comp \<in> {1, 2}" and "length src = img_n * x * y" and "x' \<le> x" and "\<forall>j \<in> set js. j < y"
  shows "length good = req_comp * x * y \<Longrightarrow> \<exists>good'. convert_rows img_n req_comp x' js src good = Inr good' \<and> length good' = req_comp * x * y"
  using assms(5)
proof (induction js arbitrary: good)
  case (Cons j js)
  have place: "wrap32 (j * x' * n) + x' * n \<le> n * x * y" for n
  proof -
    have "Suc j \<le> y" using Cons.prems(2) by simp
    then have "Suc j * (x' * n) \<le> y * (x * n)" by (intro mult_le_mono assms(4) order_refl)
    moreover have "wrap32 (j * x' * n) \<le> j * x' * n" by simp
    moreover have "j * x' * n + x' * n = Suc j * (x' * n)" "y * (x * n) = n * x * y" by (simp_all add: algebra_simps)
    ultimately show ?thesis by linarith
  qed
  have "x' * img_n \<le> length (drop (wrap32 (j * x' * img_n)) src)" using place [of img_n] by (simp add: assms(3))
  from convert_row_length [OF assms(1,2) this] obtain row
    where row: "convert_row img_n req_comp x' (drop (wrap32 (j * x' * img_n)) src) = Inr row" "length row = x' * req_comp" by blast
  have "wrap32 (j * x' * req_comp) + length row \<le> length good" using place [of req_comp] Cons.prems(1) row(2) by simp
  with row show ?case
    using Cons.IH [of "take (wrap32 (j * x' * req_comp)) good @ row @ drop (wrap32 (j * x' * req_comp) + length row) good"] Cons.prems
    by (simp add: Let_def)
qed simp

subsection \<open>The header\<close>

lemma discard32_safe: "bmp_safe (discard32 n) (\<lambda>_. True)"
  by (induction n) (auto intro!: safely_return safely_bind [where R = "\<lambda>_. True"] safely_run)

lemma bmp_masks_safe: "bmp_safe (bmp_masks header_size bits compress) (\<lambda>_. True)"
  unfolding bmp_masks_def
  by (intro safely_if safely_bind [where R = "\<lambda>_. True"] discard32_safe safely_return safely_run bmp_safe_basic TrueI)

lemma bmp_parse_header_safe: "bmp_safe bmp_parse_header (\<lambda>_. True)"
  unfolding bmp_parse_header_def
  by (intro safely_if safely_prod safely_bind [where R = "\<lambda>_. True"] discard32_safe bmp_masks_safe safely_return safely_run bmp_safe_basic TrueI)

subsection \<open>The decoder\<close>

definition picture_ok :: "nat \<Rightarrow> nat \<Rightarrow> nat \<Rightarrow> picture \<Rightarrow> bool" where
  "picture_ok req_comp x y p \<longleftrightarrow> pic_x p = x \<and> pic_y p = y \<and> pic_comp p \<in> {3, 4} \<and>
     length (pic_data p) = (if req_comp = 0 then pic_comp p else req_comp) * x * y"

text \<open>What follows the header.\<close>

text \<open>The steps after the pixels are read keep the length of the picture, up to the conversion at the end.\<close>

lemma alpha_safe:
  assumes "4 * x * y < 2 ^ 31" and "x = unat (img_x info)" and "info' = info\<lparr>img_y := word_of_nat y\<rparr>" and "length buf = target * x * y"
  shows "bmp_safe (liftE (if target = 4 \<and> all = (0 :: u32) then fix_alpha info' buf else Inr buf)) (\<lambda>buf. length buf = target * x * y)"
proof (cases "target = 4 \<and> all = 0")
  case True
  show ?thesis
  proof (cases "x * y = 0")
    case True
    then have "img_x info = 0 \<or> y = 0" using assms(2) by (auto simp: unsigned_eq_0_iff)
    then have "4 * img_x info' * img_y info' - 1 = (- 1 :: u32)" by (auto simp: assms(3))
    then have "fix_alpha info' buf = Inr buf" by (simp add: fix_alpha_def)
    then show ?thesis using assms(4) by (simp add: safely_lift)
  next
    case False
    define m where "m = 4 * x * y - 1"
    have m: "4 * x * y = m + 1" "m < 2 ^ 31" using False assms(1) by (simp_all add: m_def)
    have "4 * img_x info * word_of_nat y - 1 = (word_of_nat (4 * x * y) - 1 :: u32)" by (simp add: assms(2))
    also have "\<dots> = word_of_nat m" unfolding m(1) by simp
    finally have "sint (4 * img_x info' * img_y info' - 1) = int m" using sint_small [OF m(2)] assms(3) by simp
    then show ?thesis
      using \<open>target = 4 \<and> all = 0\<close> m set_alpha_length [of m buf] assms(4) by (auto simp: fix_alpha_def safely_lift)
  qed
qed (use assms(4) in \<open>auto simp: safely_return\<close>)

lemma flip_safe:
  assumes "target * x * y < 2 ^ 31" and "length buf = target * x * y"
  shows "bmp_safe (liftE (if up then flip_rows x y target buf else Inr buf)) (\<lambda>buf. length buf = target * x * y)"
proof (cases "y = 0")
  case True
  then show ?thesis using assms(2) by (simp add: flip_rows_def signed_count_def safely_lift)
next
  case False
  then have "x * target \<le> target * x * y" by simp
  then have "x * target < 2 ^ 31" using assms(1) by (rule le_less_trans)
  moreover have "\<forall>j \<in> set [0..<signed_count y div 2]. j < y" using signed_count_le [of y] by auto
  ultimately have "\<exists>buf'. flip_rows x y target buf = Inr buf' \<and> length buf' = target * x * y"
    unfolding flip_rows_def using assms by (intro flip_loop_length) simp_all
  then show ?thesis using assms(2) by (auto simp: safely_lift)
qed

lemma convert_safe:
  assumes "target \<in> {3, 4}" and "req_comp \<le> 4" and "3 \<le> req_comp \<longrightarrow> req_comp = target" and "req_comp * x * y < 2 ^ 31"
    and "length buf = target * x * y"
  shows "bmp_safe (if req_comp \<noteq> 0 \<and> req_comp \<noteq> target then convert_format al buf target req_comp x y else returnE buf)
      (\<lambda>buf. length buf = (if req_comp = 0 then target else req_comp) * x * y)"
proof (cases "req_comp \<noteq> 0 \<and> req_comp \<noteq> target")
  case True
  then have r: "req_comp \<in> {1, 2}" "req_comp \<le> 2" using assms(2,3) by auto
  have js: "down_count x \<le> x" "\<forall>j \<in> set [0..<signed_count y]. j < y" using signed_count_le [of y] by (auto simp: down_count_def)
  have rows: "bmp_safe (liftE (convert_rows target req_comp (down_count x) [0..<signed_count y] buf good)) (\<lambda>buf. length buf = req_comp * x * y)"
    if "length good = req_comp * x * y" for good
    using convert_rows_length [OF assms(1) r(1) assms(5) js that] by (auto simp: safely_lift)
  have "bmp_safe (malloc al (req_comp * x * y)) (\<lambda>buf. length buf = req_comp * x * y)"
    unfolding malloc_def using assms(4) by (intro safely_if safely_return bmp_safe_basic) simp
  then have "bmp_safe (convert_format al buf target req_comp x y) (\<lambda>buf. length buf = req_comp * x * y)"
    using True r by (simp add: convert_format_def) (rule safely_bind, assumption, rule rows)
  then show ?thesis using True by simp
qed (use assms(5) in \<open>auto simp: safely_return\<close>)

lemma decode_safe:
  assumes "4 * x * y < 2 ^ 31" and "x = unat (img_x info)" and "y = nat \<bar>sint (img_y info)\<bar>" and "req_comp \<le> 4"
    and "n \<in> {3, 4}" and "target = (if 3 \<le> req_comp then req_comp else n)" and "info' = info\<lparr>img_y := word_of_nat y\<rparr>"
  shows "bmp_safe (bindE (malloc al (target * x * y)) (\<lambda>buf.
     bindE (if bpp info < 16 then bindE (palette_image info psize x y target buf) (\<lambda>buf. returnE (buf, all_a info))
            else direct_image info x y target buf) (\<lambda>(buf, all).
     bindE (liftE (if target = 4 \<and> all = 0 then fix_alpha info' buf else Inr buf)) (\<lambda>buf.
     bindE (liftE (if 0 < sint (img_y info) then flip_rows x y target buf else Inr buf)) (\<lambda>buf.
     bindE (if req_comp \<noteq> 0 \<and> req_comp \<noteq> target then convert_format al buf target req_comp x y else returnE buf) (\<lambda>buf.
     returnE \<lparr>pic_x = x, pic_y = y, pic_comp = n, pic_data = buf\<rparr>)))))) (picture_ok req_comp x y)"
proof -
  let ?len = "target * x * y" and ?ok = "\<lambda>buf. length buf = target * x * y"
  have t: "target \<in> {3, 4}" "target \<le> 4" "3 \<le> req_comp \<longrightarrow> req_comp = target" using assms(4-6) by auto
  have small: "k * x * y < 2 ^ 31" if "k \<le> 4" for k
  proof -
    have "k * (x * y) \<le> 4 * (x * y)" using that by (rule mult_le_mono1)
    then show ?thesis using assms(1) unfolding mult.assoc by (rule le_less_trans)
  qed
  note len = small [OF t(2)]
  have alloc: "bmp_safe (malloc al ?len) ?ok"
    unfolding malloc_def using len by (intro safely_if safely_return bmp_safe_basic) simp
  have pixels: "bmp_safe (if bpp info < 16 then bindE (palette_image info psize x y target buf) (\<lambda>buf. returnE (buf, all_a info))
      else direct_image info x y target buf) (\<lambda>(buf, all). ?ok buf)" if "?ok buf" for buf psize
    by (intro safely_if safely_bind [OF palette_image_safe [OF t(1) that]] direct_image_safe [OF t(1) that] safely_return) simp
  have result: "picture_ok req_comp x y \<lparr>pic_x = x, pic_y = y, pic_comp = n, pic_data = buf\<rparr>"
    if "length buf = (if req_comp = 0 then target else req_comp) * x * y" for buf
    using that assms(5,6) by (auto simp: picture_ok_def)
  show ?thesis
    apply (rule safely_bind [OF alloc])
    apply (rule safely_bind [OF pixels], assumption, rule safely_prod)
    apply (rule safely_bind [OF alpha_safe [OF assms(1,2,7)]], simp)
    apply (rule safely_bind [OF flip_safe [OF len]], assumption)
    apply (rule safely_bind [OF convert_safe [OF t(1) assms(4) t(3) small [OF assms(4)]]], assumption)
    apply (rule safely_return, erule result)
    done
qed

text \<open>
  C18: the BMP decoder is memory safe for pictures of moderate size. Once the header is read and its
  dimensions are less than 2^29 pixels, then whatever the rest of the file holds, and wherever it ends, every access
  to the output and every loop is in order: the decoder gives up with a reason, or it is one of the two
  named faults, or it returns a picture of the size in the header with all its bytes.
\<close>

theorem bmp_memory_safe:
  assumes "bmp_parse_header s = (Inr info, s1)" and "4 * unat (img_x info) * nat \<bar>sint (img_y info)\<bar> < 2 ^ 31" and "req_comp \<le> 4"
  shows "case bmp_load al req_comp s of
      (Inl e, s') \<Rightarrow> bmp_fault e
    | (Inr p, s') \<Rightarrow> picture_ok req_comp (unat (img_x info)) (nat \<bar>sint (img_y info)\<bar>) p"
proof -
  have y: "word_of_nat (nat \<bar>i\<bar>) = word_of_int \<bar>i\<bar>" for i by (simp add: of_nat_nat)
  show ?thesis
    unfolding bmp_load_def
    apply (rule safely_after [where m = bmp_parse_header, OF assms(1)])
    apply (rule safely_bind [where R = "\<lambda>h. h = \<bar>sint (img_y info)\<bar>"], rule bmp_safe_basic, force simp: int32_def split: if_splits, erule int32_fault)
    apply (simp only: bindE_Inr prod.case)
    apply (rule safely_bind [OF safe_lift], erule sizes_fault)
    apply (rule decode_safe [OF assms(2) refl refl assms(3)])
    apply (simp_all add: y)
    done
qed

lemma bmp_memory_safe_witness:
  "case bmp_load (\<lambda>_. True) 3 (start_mem () (bmp24_file (replicate 8 0) (replicate 20 0) 1 [[(1, 2, 3)]])) of
      (Inl e, s') \<Rightarrow> bmp_fault e | (Inr p, s') \<Rightarrow> picture_ok 3 1 1 p"
proof -
  let ?s = "start_mem () (bmp24_file (replicate 8 0) (replicate 20 0) 1 [[(1, 2, 3)]])"
  have "ensures bmp_parse_header ?s (\<lambda>info s'. img_x info = 1 \<and> img_y info = 1)"
    by (rule ensures_mono [OF bmp24_header [OF reads_start]]) simp_all
  then obtain info s1 where header: "bmp_parse_header ?s = (Inr info, s1)" "img_x info = 1" "img_y info = 1"
    by (auto simp: ensures_def)
  have one: "unat (1 :: u32) = 1" "nat \<bar>sint (1 :: u32)\<bar> = 1" by simp_all
  show ?thesis using bmp_memory_safe [OF header(1), of 3 "\<lambda>_. True"] unfolding header(2,3) one by simp
qed

end
