(* ===== verification/Pnm.thy ===== *)
theory Pnm
  imports ImageFormats
begin

text \<open>
  The PGM and PPM decoder of \<open>include/util/stb_image.h\<close>, lines 6410 to 6511: the textual header with
  its comments, the image, and what a decoded file is.
\<close>

subsection \<open>The decoder\<close>

text \<open>\<open>char\<close> is only compared with ASCII characters.\<close>

definition pnm_isspace :: "u8 \<Rightarrow> bool" where
  "pnm_isspace c \<longleftrightarrow> c = 0x20 \<or> c = 0x09 \<or> c = 0x0A \<or> c = 0x0B \<or> c = 0x0C \<or> c = 0x0D"

definition pnm_isdigit :: "u8 \<Rightarrow> bool" where
  "pnm_isdigit c \<longleftrightarrow> 0x30 \<le> c \<and> c \<le> 0x39"

text \<open>
  The loops over the current character \<open>c\<close>; callbacks that never report the end of the file can keep
  them running, so they are partial.
\<close>

partial_function (option) pnm_spaces :: "u8 \<Rightarrow> 'u ctx \<Rightarrow> (u8 \<times> 'u ctx) option" where
  "pnm_spaces c s =
     (if \<not> at_eof s \<and> pnm_isspace c then (case get8 s of (c, s) \<Rightarrow> pnm_spaces c s) else Some (c, s))"

partial_function (option) pnm_comment :: "u8 \<Rightarrow> 'u ctx \<Rightarrow> (u8 \<times> 'u ctx) option" where
  "pnm_comment c s =
     (if \<not> at_eof s \<and> c \<noteq> 0x0A \<and> c \<noteq> 0x0D then (case get8 s of (c, s) \<Rightarrow> pnm_comment c s) else Some (c, s))"

partial_function (option) pnm_skip_whitespace :: "u8 \<Rightarrow> 'u ctx \<Rightarrow> (u8 \<times> 'u ctx) option" where
  "pnm_skip_whitespace c s =
     Option.bind (pnm_spaces c s) (\<lambda>(c, s).
     if at_eof s \<or> c \<noteq> 0x23 then Some (c, s)
     else Option.bind (pnm_comment c s) (\<lambda>(c, s). pnm_skip_whitespace c s))"

text \<open>The value is an \<open>int\<close>, whose overflow is undefined.\<close>

partial_function (option) pnm_digits :: "int \<Rightarrow> u8 \<Rightarrow> 'u ctx \<Rightarrow> ((stb_err + int \<times> u8) \<times> 'u ctx) option" where
  "pnm_digits v c s =
     (if \<not> at_eof s \<and> pnm_isdigit c
      then (case int32 (v * 10 + (uint c - 0x30)) of
              Inl e \<Rightarrow> Some (Inl e, s)
            | Inr v \<Rightarrow> (case get8 s of (c, s) \<Rightarrow> pnm_digits v c s))
      else Some (Inr (v, c), s))"

declare pnm_spaces.simps [code] pnm_comment.simps [code] pnm_skip_whitespace.simps [code] pnm_digits.simps [code]

definition pnm_space :: "u8 \<Rightarrow> ('u, u8) im" where
  "pnm_space c s = (case pnm_skip_whitespace c s of None \<Rightarrow> (Inl OutOfFuel, s) | Some (c, s) \<Rightarrow> (Inr c, s))"

definition pnm_getinteger :: "u8 \<Rightarrow> ('u, int \<times> u8) im" where
  "pnm_getinteger c s = (case pnm_digits 0 c s of None \<Rightarrow> (Inl OutOfFuel, s) | Some (r, s) \<Rightarrow> (r, s))"

definition pnm_identifier :: "('u, u8 option) im" where
  "pnm_identifier =
     bindE rd8 (\<lambda>p. bindE rd8 (\<lambda>t.
     if p \<noteq> 0x50 \<or> (t \<noteq> 0x35 \<and> t \<noteq> 0x36) then bindE (modifyE rewind) (\<lambda>_. returnE None) else returnE (Some t)))"

definition pnm_test :: "('u, bool) im" where
  "pnm_test = bindE pnm_identifier (\<lambda>t. returnE (t \<noteq> None))"

text \<open>Width, height and number of channels.\<close>

definition pnm_info :: "('u, int \<times> int \<times> nat) im" where
  "pnm_info =
     bindE (modifyE rewind) (\<lambda>_.
     bindE pnm_identifier (\<lambda>magic. case magic of None \<Rightarrow> failE [] | Some t \<Rightarrow>
     bindE (returnE (if t = 0x36 then 3 else 1)) (\<lambda>n.
     bindE rd8 (\<lambda>c.
     bindE (pnm_space c) (\<lambda>c.
     bindE (pnm_getinteger c) (\<lambda>(x, c).
     bindE (pnm_space c) (\<lambda>c.
     bindE (pnm_getinteger c) (\<lambda>(y, c).
     bindE (pnm_space c) (\<lambda>c.
     bindE (pnm_getinteger c) (\<lambda>(maxv, c).
     if maxv > 255 then failE ''max value > 255'' else returnE (x, y, n)))))))))))"

text \<open>
  What \<open>stbi__getn\<close> stores in the caller's array, also when it reports a failure; its size is an
  \<open>int\<close>, so that a larger one reaches \<open>memcpy\<close> as a negative number.
\<close>

definition getn_stored :: "nat \<Rightarrow> 'u ctx \<Rightarrow> u8 list" where
  "getn_stored n s =
     (let direct = (if pos s + n \<le> end_pos s then take n (drop (pos s) (bytes s)) else [])
      in case io s of
        Some cb \<Rightarrow>
          (let blen = end_pos s - pos s
           in if blen < n then take blen (drop (pos s) (bytes s)) @ fst (io_read cb (io_user s) (n - blen)) else direct)
      | None \<Rightarrow> direct)"

definition getn_into :: "nat \<Rightarrow> buffer \<Rightarrow> ('u, buffer) im" where
  "getn_into n buf s =
     (if n < 2 ^ 31 then
        (let bs = getn_stored n s in (store 0 bs buf, snd (getn n s)))
      else (Inl (Undefined ''memcpy''), s))"

definition pnm_load :: "(nat \<Rightarrow> bool) \<Rightarrow> nat \<Rightarrow> ('u, picture) im" where
  "pnm_load al req_comp =
     bindE pnm_info (\<lambda>(x, y, n).
     bindE (returnE (nat x, nat y)) (\<lambda>(x, y).
     bindE (malloc al (n * x * y)) (\<lambda>buf.
     bindE (getn_into (wrap32 (n * x * y)) buf) (\<lambda>buf.
     bindE (if req_comp \<noteq> 0 \<and> req_comp \<noteq> n then convert_format al buf n req_comp x y else returnE buf) (\<lambda>buf.
     returnE \<lparr>pic_x = x, pic_y = y, pic_comp = n, pic_data = buf\<rparr>)))))"

subsection \<open>The files\<close>

text \<open>
  What may stand between two numbers: spaces, and comments from \<open>#\<close> to the end of the line. The flag
  tells whether the text starts inside a comment.
\<close>

fun blank :: "bool \<Rightarrow> u8 list \<Rightarrow> bool" where
  "blank comment [] \<longleftrightarrow> \<not> comment"
| "blank True (b # bs) \<longleftrightarrow> blank (b \<noteq> 0x0A \<and> b \<noteq> 0x0D) bs"
| "blank False (b # bs) \<longleftrightarrow> (if b = 0x23 then blank True bs else pnm_isspace b \<and> blank False bs)"

definition number :: "int \<Rightarrow> u8 list \<Rightarrow> int" where
  "number = foldl (\<lambda>v d. v * 10 + (uint d - 0x30))"

definition is_number :: "u8 list \<Rightarrow> bool" where
  "is_number ds \<longleftrightarrow> ds \<noteq> [] \<and> (\<forall>d \<in> set ds. pnm_isdigit d) \<and> number 0 ds < 2 ^ 31"

definition pnm_file :: "u8 \<Rightarrow> u8 list \<Rightarrow> u8 list \<Rightarrow> u8 list \<Rightarrow> u8 list \<Rightarrow> u8 list \<Rightarrow> u8 list \<Rightarrow> u8 \<Rightarrow> u8 list \<Rightarrow> u8 list" where
  "pnm_file kind sep1 ws sep2 hs sep3 ms c data = [0x50, kind] @ sep1 @ ws @ sep2 @ hs @ sep3 @ ms @ [c] @ data"

subsection \<open>Spaces\<close>

lemma reads_eof: "reads s bs \<Longrightarrow> at_eof s \<longleftrightarrow> bs = []"
  by (auto simp: reads_def at_eof_def mem_ok_def mem_rest_def)

definition skip_comment :: "u8 \<Rightarrow> 'u ctx \<Rightarrow> (u8 \<times> 'u ctx) option" where
  "skip_comment c s = Option.bind (pnm_comment c s) (\<lambda>(c, s). pnm_skip_whitespace c s)"

lemma skip_space_step:
  "\<not> at_eof s \<Longrightarrow> pnm_isspace c \<Longrightarrow> get8 s = (d, t) \<Longrightarrow> pnm_skip_whitespace c s = pnm_skip_whitespace d t"
  by (subst (1 2) pnm_skip_whitespace.simps, subst pnm_spaces.simps) simp

lemma skip_comment_start:
  "\<not> at_eof s \<Longrightarrow> pnm_skip_whitespace 0x23 s = skip_comment 0x23 s"
  by (subst pnm_skip_whitespace.simps, subst pnm_spaces.simps) (simp add: pnm_isspace_def skip_comment_def)

lemma skip_comment_step:
  "\<not> at_eof s \<Longrightarrow> c \<noteq> 0x0A \<Longrightarrow> c \<noteq> 0x0D \<Longrightarrow> get8 s = (d, t) \<Longrightarrow> skip_comment c s = skip_comment d t"
  unfolding skip_comment_def by (subst pnm_comment.simps) simp

lemma skip_comment_end: "c = 0x0A \<or> c = 0x0D \<Longrightarrow> skip_comment c s = pnm_skip_whitespace c s"
  unfolding skip_comment_def by (subst pnm_comment.simps) auto

lemma skip_stop: "\<not> pnm_isspace c \<Longrightarrow> c \<noteq> 0x23 \<Longrightarrow> pnm_skip_whitespace c s = Some (c, s)"
  by (subst pnm_skip_whitespace.simps, subst pnm_spaces.simps) simp

lemma skip_blank:
  assumes "blank comment sep" and "reads s bs" and "c # bs = sep @ d # rest" and "rest \<noteq> []"
    and "\<not> pnm_isspace d" and "d \<noteq> 0x23"
  shows "\<exists>s'. (if comment then skip_comment else pnm_skip_whitespace) c s = Some (d, s') \<and> reads s' rest"
  using assms(1-3)
proof (induction comment sep arbitrary: c bs s rule: blank.induct)
  case (1 comment)
  then show ?case using skip_stop [OF assms(5,6)] by auto
next
  case (2 b bs')
  then obtain e es where bs: "bs = e # es" "c = b" "bs' @ d # rest = e # es" by (cases bs) auto
  obtain t where t: "get8 s = (e, t)" "reads t es" using get8_reads 2(3) bs(1) by blast
  have eof: "\<not> at_eof s" using reads_eof [OF 2(3)] bs(1) by simp
  note IH = "2.IH" [of t es e]
  show ?case
  proof (cases "b \<noteq> 0x0A \<and> b \<noteq> 0x0D")
    case True
    then show ?thesis using IH "2.prems"(1) t bs skip_comment_step [OF eof _ _ t(1)] by simp
  next
    case False
    then have "skip_comment b s = pnm_skip_whitespace e t"
      using skip_comment_end [of b s] skip_space_step [OF eof _ t(1), of b] by (auto simp: pnm_isspace_def)
    then show ?thesis using IH "2.prems"(1) t bs False by simp
  qed
next
  case (3 b bs')
  then obtain e es where bs: "bs = e # es" "c = b" "bs' @ d # rest = e # es" by (cases bs) auto
  obtain t where t: "get8 s = (e, t)" "reads t es" using get8_reads 3(4) bs(1) by blast
  have eof: "\<not> at_eof s" using reads_eof [OF 3(4)] bs(1) by simp
  show ?case
  proof (cases "b = 0x23")
    case True
    have "pnm_skip_whitespace b s = skip_comment e t"
      using True skip_comment_start [OF eof] skip_comment_step [OF eof _ _ t(1), of "0x23"] by simp
    then show ?thesis using "3.IH"(1) [of t es e] "3.prems"(1) t bs True by simp
  next
    case False
    then show ?thesis using "3.IH"(2) [of t es e] "3.prems"(1) t bs skip_space_step [OF eof _ t(1), of b] by simp
  qed
qed

lemma number_mono: "\<forall>d \<in> set ds. pnm_isdigit d \<Longrightarrow> 0 \<le> v \<Longrightarrow> v \<le> number v ds \<and> 0 \<le> number v ds"
proof (induction ds arbitrary: v)
  case (Cons d ds)
  then have "0x30 \<le> uint d" by (simp add: pnm_isdigit_def word_le_def)
  then have "0 \<le> v * 10 + (uint d - 0x30)" "v \<le> v * 10 + (uint d - 0x30)" using Cons.prems(2) by simp_all
  then show ?case using Cons.IH [of "v * 10 + (uint d - 0x30)"] Cons.prems(1) by (simp add: number_def)
qed (simp add: number_def)

lemma digits_number:
  assumes "\<forall>d \<in> set ds. pnm_isdigit d" and "0 \<le> v" and "number v ds < 2 ^ 31"
    and "reads s bs" and "c # bs = ds @ e # rest" and "\<not> pnm_isdigit e"
  shows "\<exists>s'. pnm_digits v c s = Some (Inr (number v ds, e), s') \<and> reads s' rest"
  using assms(1-5)
proof (induction ds arbitrary: v c bs s)
  case Nil
  then show ?case using assms(6) by (auto simp: number_def pnm_digits.simps [of v e s])
next
  case (Cons d ds)
  let ?v = "v * 10 + (uint d - 0x30)"
  obtain f es where bs: "bs = f # es" "c = d" "ds @ e # rest = f # es" using Cons.prems(5) by (cases bs) auto
  obtain t where t: "get8 s = (f, t)" "reads t es" using get8_reads Cons.prems(4) bs(1) by blast
  have eof: "\<not> at_eof s" using reads_eof [OF Cons.prems(4)] bs(1) by simp
  have d: "pnm_isdigit d" "\<forall>d \<in> set ds. pnm_isdigit d" using Cons.prems(1) by simp_all
  then have "0x30 \<le> uint d" by (simp add: pnm_isdigit_def word_le_def)
  then have v: "0 \<le> ?v" using Cons.prems(2) by simp
  have n: "number v (d # ds) = number ?v ds" by (simp add: number_def)
  then have "?v < 2 ^ 31" using number_mono [OF d(2) v] Cons.prems(3) by simp
  then have i: "int32 ?v = Inr ?v" using v by (simp add: int32_def)
  have step: "pnm_digits v c s = pnm_digits ?v f t"
    by (subst pnm_digits.simps) (simp add: eof d(1) bs(2) i t(1))
  have "\<exists>s'. pnm_digits ?v f t = Some (Inr (number ?v ds, e), s') \<and> reads s' rest"
    using Cons.prems(3) bs(3) by (intro Cons.IH [OF d(2) v _ t(2)]) (simp_all add: n)
  then show ?case by (simp only: step n)
qed

subsection \<open>Decoding the files\<close>

lemma ensures_space:
  assumes "blank False sep" and "reads s bs" and "c # bs = sep @ d # rest" and "rest \<noteq> []" and "pnm_isdigit d"
    and "\<And>s'. reads s' rest \<Longrightarrow> Q d s'"
  shows "ensures (pnm_space c) s Q"
proof -
  have "\<not> pnm_isspace d" "d \<noteq> 0x23" using assms(5) by (auto simp: pnm_isdigit_def pnm_isspace_def)
  then show ?thesis using skip_blank [OF assms(1-4)] assms(6) by (auto simp: ensures_def pnm_space_def)
qed

lemma ensures_getinteger:
  assumes "is_number ds" and "reads s bs" and "c # bs = ds @ e # rest" and "\<not> pnm_isdigit e"
    and "\<And>s'. reads s' rest \<Longrightarrow> Q (number 0 ds, e) s'"
  shows "ensures (pnm_getinteger c) s Q"
  using digits_number [of ds 0 s bs c e rest] assms by (auto simp: ensures_def pnm_getinteger_def is_number_def)

lemma blank_head: "blank False sep \<Longrightarrow> sep \<noteq> [] \<Longrightarrow> \<not> pnm_isdigit (hd sep)"
  by (cases sep) (auto simp: pnm_isdigit_def pnm_isspace_def split: if_splits)

text \<open>A number after spaces; the parser has read up to the byte after the number.\<close>

lemma ensures_field:
  assumes "blank False sep" and "is_number ds" and "\<not> pnm_isdigit e"
    and "reads s bs" and "c # bs = sep @ ds @ e # rest"
    and "\<And>s'. reads s' rest \<Longrightarrow> ensures (k (number 0 ds, e)) s' Q"
  shows "ensures (bindE (pnm_space c) (\<lambda>c. bindE (pnm_getinteger c) k)) s Q"
proof -
  obtain d ds' where ds: "ds = d # ds'" using assms(2) by (cases ds) (auto simp: is_number_def)
  have d: "pnm_isdigit d" using assms(2) by (simp add: ds is_number_def)
  show ?thesis
    by (intro ensures_bind ensures_space [OF assms(1,4), of c d "ds' @ e # rest"] d)
      (use assms(5) in \<open>auto simp: ds intro!: ensures_getinteger [OF assms(2), of _ "ds' @ e # rest" _ e rest] assms(3,6)\<close>)
qed

lemma pnm_info_reads:
  assumes "kind = 0x35 \<or> kind = 0x36" and "blank False sep1" and "is_number ws" and "blank False sep2" and "sep2 \<noteq> []"
    and "is_number hs" and "blank False sep3" and "sep3 \<noteq> []" and "is_number ms" and "number 0 ms \<le> 255" and "\<not> pnm_isdigit c"
    and "\<And>s'. reads s' data \<Longrightarrow> Q (number 0 ws, number 0 hs, if kind = 0x36 then 3 else 1) s'"
  shows "ensures pnm_info (start_mem u (pnm_file kind sep1 ws sep2 hs sep3 ms c data)) Q"
proof -
  let ?s = "start_mem u (pnm_file kind sep1 ws sep2 hs sep3 ms c data)"
  have rewound: "ensures (modifyE rewind) ?s R \<longleftrightarrow> R () ?s" for R by (simp add: ensures_def rewind_def start_mem_def)
  have known: "(if (0x50 :: u8) \<noteq> 0x50 \<or> kind \<noteq> 0x35 \<and> kind \<noteq> 0x36 then m else n) = n" for m n :: "('a, u8 option) im"
    using assms(1) by auto
  obtain e2 sep2' where sep2: "sep2 = e2 # sep2'" using assms(5) by (cases sep2) auto
  obtain e3 sep3' where sep3: "sep3 = e3 # sep3'" using assms(8) by (cases sep3) auto
  have e: "\<not> pnm_isdigit e2" "\<not> pnm_isdigit e3" using blank_head [OF assms(4,5)] blank_head [OF assms(7,8)] by (simp_all add: sep2 sep3)
  obtain b bs where first: "sep1 @ ws @ sep2 @ hs @ sep3 @ ms @ [c] @ data = b # bs"
    by (cases "sep1 @ ws @ sep2 @ hs @ sep3 @ ms @ [c] @ data") auto
  have r: "reads ?s (0x50 # kind # b # bs)" using reads_start by (simp add: pnm_file_def flip: first)
  have fields: "ensures (bindE (pnm_space b) (\<lambda>c. bindE (pnm_getinteger c) (\<lambda>(x, c).
      bindE (pnm_space c) (\<lambda>c. bindE (pnm_getinteger c) (\<lambda>(y, c).
      bindE (pnm_space c) (\<lambda>c. bindE (pnm_getinteger c) (\<lambda>(maxv, c).
      if maxv > 255 then failE ''max value > 255'' else returnE (x, y, n)))))))) s' Q"
    if "reads s' bs" "n = (if kind = 0x36 then 3 else 1)" for s' n
    apply (rule ensures_field [OF assms(2,3) e(1) that(1), of _ "sep2' @ hs @ sep3 @ ms @ [c] @ data"])
     apply (simp add: sep2 flip: first)
    apply simp
    apply (rule ensures_field [OF assms(4,6) e(2), of _ _ _ "sep3' @ ms @ [c] @ data"], assumption)
     apply (simp add: sep2 sep3)
    apply simp
    apply (rule ensures_field [OF assms(7,9,11), of _ _ _ data], assumption)
     apply (simp add: sep3)
    apply (use assms(10,12) that(2) in \<open>simp add: ensures_return\<close>)
    done
  show ?thesis
    unfolding pnm_info_def pnm_identifier_def bindE_assoc
    apply (rule ensures_bind, simp only: rewound)
    apply (rule ensures_bind, rule ensures_rd8 [OF r])
    apply (rule ensures_bind, rule ensures_rd8, assumption)
    apply (simp only: known bindE_Inr option.case)
    apply (rule ensures_bind, rule ensures_rd8, assumption)
    apply (erule fields, simp)
    done
qed

lemma getn_into_reads:
  assumes "reads s data" and "n < 2 ^ 31"
  shows "fst (getn_into n (replicate n None) s) = Inr (if n \<le> length data then map Some (take n data) else replicate n None)"
proof -
  have r: "io s = None" "pos s \<le> end_pos s" "end_pos s = length (bytes s)" "data = drop (pos s) (bytes s)"
    using assms(1) by (auto simp: reads_def mem_ok_def mem_rest_def)
  then have "pos s + n \<le> end_pos s \<longleftrightarrow> n \<le> length data" by auto
  then show ?thesis using r assms(2) by (simp add: getn_into_def getn_stored_def store_def)
qed

text \<open>
  C19: what a PGM or PPM file in memory decodes to. For any spaces and comments between its numbers the
  picture has the width and the height of the header and one or three channels, and its samples are
  the bytes that follow; but if too few bytes follow, the picture is returned all the same, and none
  of its samples has been written.
\<close>

theorem pnm_load_meaning:
  assumes "kind = 0x35 \<or> kind = 0x36" and "n = (if kind = 0x36 then 3 else 1)"
    and "blank False sep1" and "is_number ws" and "blank False sep2" and "sep2 \<noteq> []"
    and "is_number hs" and "blank False sep3" and "sep3 \<noteq> []" and "is_number ms" and "number 0 ms \<le> 255" and "\<not> pnm_isdigit c"
    and "number 0 ws = int w" and "number 0 hs = int h" and "n * w * h < 2 ^ 31" and "al (n * w * h)" and "req_comp = 0 \<or> req_comp = n"
  shows "\<exists>s'. pnm_load al req_comp (start_mem u (pnm_file kind sep1 ws sep2 hs sep3 ms c data)) =
    (Inr \<lparr>pic_x = w, pic_y = h, pic_comp = n,
          pic_data = (if n * w * h \<le> length data then map Some (take (n * w * h) data) else replicate (n * w * h) None)\<rparr>, s')"
proof -
  let ?size = "n * w * h"
  let ?p = "\<lparr>pic_x = w, pic_y = h, pic_comp = n,
    pic_data = (if ?size \<le> length data then map Some (take ?size data) else replicate ?size None)\<rparr>"
  have size: "wrap32 ?size = ?size" using assms(15) by simp
  have comp: "(if req_comp \<noteq> 0 \<and> req_comp \<noteq> n then convert_format al buf n req_comp w h else returnE buf) = returnE buf" for buf
    using assms(17) by auto
  have into: "ensures (getn_into ?size (replicate ?size None)) s' (\<lambda>buf _. buf = pic_data ?p)" if "reads s' data" for s' :: "'a ctx"
    using getn_into_reads [OF that assms(15)] by (cases "getn_into ?size (replicate ?size None) s'") (auto simp: ensures_def)
  have "ensures (pnm_load al req_comp) (start_mem u (pnm_file kind sep1 ws sep2 hs sep3 ms c data)) (\<lambda>p _. p = ?p)"
    unfolding pnm_load_def
    apply (rule ensures_bind, rule pnm_info_reads [OF assms(1,3-12)])
    apply (simp only: assms(13,14) assms(2) [symmetric] prod.case nat_int bindE_Inr malloc_def size assms(16) if_True comp)
    apply (rule ensures_bind, rule ensures_mono [OF into], assumption)
    apply (simp add: ensures_return)
    done
  then show ?thesis by (auto simp: ensures_def)
qed

text \<open>A file with a comment, and one that ends too early.\<close>

lemma pnm_load_meaning_witness:
  "(\<exists>s'. pnm_load (\<lambda>_. True) 0 (start_mem () (pnm_file 0x36 [0x0A, 0x23, 0x61, 0x0A] [0x32] [0x20] [0x31] [0x0A] [0x32, 0x35, 0x35] 0x0A [1, 2, 3, 4, 5, 6, 7])) =
      (Inr \<lparr>pic_x = 2, pic_y = 1, pic_comp = 3, pic_data = map Some [1, 2, 3, 4, 5, 6]\<rparr>, s')) \<and>
   (\<exists>s'. pnm_load (\<lambda>_. True) 0 (start_mem () (pnm_file 0x35 [0x20] [0x32] [0x20] [0x31] [0x0A] [0x32, 0x35, 0x35] 0x0A [1])) =
      (Inr \<lparr>pic_x = 2, pic_y = 1, pic_comp = 1, pic_data = [None, None]\<rparr>, s'))"
proof -
  have n: "is_number [0x32]" "is_number [0x31]" "is_number [0x32, 0x35, 0x35]"
    "number 0 [0x32] = int 2" "number 0 [0x31] = int 1" "number 0 [0x32, 0x35, 0x35] \<le> 255"
    by (simp_all add: is_number_def number_def pnm_isdigit_def)
  have b: "blank False [0x0A, 0x23, 0x61, 0x0A]" "blank False [0x20]" "blank False [0x0A]" by (simp_all add: pnm_isspace_def)
  have e: "\<not> pnm_isdigit 0x0A" "replicate 2 None = [None, None]"
    by (simp add: pnm_isdigit_def) (simp add: numeral_2_eq_2)
  show ?thesis
    using pnm_load_meaning [of "0x36" 3, OF _ _ b(1) n(1) b(2) _ n(2) b(3) _ n(3,6) e(1) n(4,5), of "\<lambda>_. True" 0 "()" "[1, 2, 3, 4, 5, 6, 7]"]
      pnm_load_meaning [of "0x35" 1, OF _ _ b(2) n(1) b(2) _ n(2) b(3) _ n(3,6) e(1) n(4,5), of "\<lambda>_. True" 0 "()" "[1]"]
    by (simp add: e(2))
qed

end
