(* ===== verification/PngPixels.thy ===== *)
theory PngPixels
  imports ImageFormats
begin

text \<open>
  From decompressed data to pixels in the PNG decoder of \<open>include/util/stb_image.h\<close>, lines 3956 to
  4430: the five filters, samples of less than eight bits, 16-bit samples, de-interlacing, the
  transparent colour, the palette and the repair of the variant that the iPhone tools write.
\<close>

subsection \<open>The output array\<close>

text \<open>
  The code walks the array through pointers; they are indices here, and may be negative before the
  first row. Reading or writing outside the array is undefined. A byte computed from a byte
  that was never written counts as never written.
\<close>

type_synonym 'a px = "(stb_err, buffer, 'a) comp"

definition peek :: "int \<Rightarrow> u8 option px" where
  "peek i buf = (if 0 \<le> i \<and> i < int (length buf) then Inr (buf ! nat i) else Inl (Undefined ''out''), buf)"

definition poke :: "int \<Rightarrow> u8 option \<Rightarrow> unit px" where
  "poke i v buf =
     (if 0 \<le> i \<and> i < int (length buf) then (Inr (), buf[nat i := v]) else (Inl (Undefined ''out''), buf))"

definition run_px :: "unit px \<Rightarrow> buffer \<Rightarrow> stb_err + buffer" where
  "run_px m buf = (case m buf of (Inl e, _) \<Rightarrow> Inl e | (Inr _, buf) \<Rightarrow> Inr buf)"

text \<open>\<open>STBI__BYTECAST\<close> of an \<open>int\<close>.\<close>

abbreviation bytecast :: "int \<Rightarrow> u8" where "bytecast \<equiv> word_of_int"

definition assertE :: "bool \<Rightarrow> unit px" where
  "assertE b = (if b then returnE () else throwE (Undefined ''assert''))"

subsection \<open>Filters\<close>

datatype png_filter = F_none | F_sub | F_up | F_avg | F_paeth | F_avg_first | F_paeth_first

definition filters :: "png_filter list" where
  "filters = [F_none, F_sub, F_up, F_avg, F_paeth]"

definition first_row_filter :: "png_filter list" where
  "first_row_filter = [F_none, F_sub, F_none, F_avg_first, F_paeth_first]"

definition paeth :: "int \<Rightarrow> int \<Rightarrow> int \<Rightarrow> int" where
  "paeth a b c =
     (let p = a + b - c; pa = \<bar>p - a\<bar>; pb = \<bar>p - b\<bar>; pc = \<bar>p - c\<bar>
      in if pa \<le> pb \<and> pa \<le> pc then a else if pb \<le> pc then b else c)"

definition depth_scale_table :: "u8 list" where
  "depth_scale_table = [0, 0xFF, 0x55, 0, 0x11, 0, 0, 0, 0x01]"

text \<open>The values the two switches store; only the bytes they name are read.\<close>

definition first_value :: "png_filter \<Rightarrow> u8 \<Rightarrow> int \<Rightarrow> u8 option px" where
  "first_value f x up =
     (case f of
        F_up \<Rightarrow> bindE (peek up) (\<lambda>b. returnE (map_option (\<lambda>b. bytecast (uint x + uint b)) b))
      | F_avg \<Rightarrow> bindE (peek up) (\<lambda>b. returnE (map_option (\<lambda>b. bytecast (uint x + drop_bit 1 (uint b))) b))
      | F_paeth \<Rightarrow> bindE (peek up) (\<lambda>b. returnE (map_option (\<lambda>b. bytecast (uint x + paeth 0 (uint b) 0)) b))
      | _ \<Rightarrow> returnE (Some x))"

definition next_value :: "png_filter \<Rightarrow> u8 \<Rightarrow> int \<Rightarrow> int \<Rightarrow> int \<Rightarrow> u8 option px" where
  "next_value f x left up upleft =
     (case f of
        F_none \<Rightarrow> returnE (Some x)
      | F_sub \<Rightarrow> bindE (peek left) (\<lambda>a. returnE (map_option (\<lambda>a. bytecast (uint x + uint a)) a))
      | F_up \<Rightarrow> bindE (peek up) (\<lambda>b. returnE (map_option (\<lambda>b. bytecast (uint x + uint b)) b))
      | F_avg \<Rightarrow> bindE (peek up) (\<lambda>b. bindE (peek left) (\<lambda>a.
          returnE (case (a, b) of (Some a, Some b) \<Rightarrow> Some (bytecast (uint x + drop_bit 1 (uint b + uint a))) | _ \<Rightarrow> None)))
      | F_paeth \<Rightarrow> bindE (peek left) (\<lambda>a. bindE (peek up) (\<lambda>b. bindE (peek upleft) (\<lambda>c.
          returnE (case (a, b, c) of (Some a, Some b, Some c) \<Rightarrow> Some (bytecast (uint x + paeth (uint a) (uint b) (uint c))) | _ \<Rightarrow> None))))
      | F_avg_first \<Rightarrow> bindE (peek left) (\<lambda>a. returnE (map_option (\<lambda>a. bytecast (uint x + drop_bit 1 (uint a))) a))
      | F_paeth_first \<Rightarrow> bindE (peek left) (\<lambda>a. returnE (map_option (\<lambda>a. bytecast (uint x + paeth (uint a) 0 0)) a)))"

definition at_raw :: "u8 list \<Rightarrow> nat \<Rightarrow> u8 px" where
  "at_raw raw r = (if r < length raw then returnE (raw ! r) else throwE (Undefined ''raw''))"

text \<open>One filtered byte: the \<open>k\<close>th one from \<open>raw\<close> to \<open>cur\<close>.\<close>

definition first_byte :: "png_filter \<Rightarrow> u8 list \<Rightarrow> nat \<Rightarrow> int \<Rightarrow> int \<Rightarrow> nat \<Rightarrow> unit px" where
  "first_byte f raw r cur prior k =
     bindE (at_raw raw (r + k)) (\<lambda>x. bindE (first_value f x (prior + int k)) (poke (cur + int k)))"

definition next_byte :: "png_filter \<Rightarrow> u8 list \<Rightarrow> nat \<Rightarrow> int \<Rightarrow> int \<Rightarrow> int \<Rightarrow> nat \<Rightarrow> unit px" where
  "next_byte f raw r cur prior back k =
     bindE (at_raw raw (r + k)) (\<lambda>x.
     bindE (next_value f x (cur + int k - back) (prior + int k) (prior + int k - back)) (poke (cur + int k)))"

text \<open>What a call of \<open>stbi__create_png_image_raw\<close> is about.\<close>

record pass =
  pass_x :: nat
  pass_y :: nat
  out_n :: nat
  img_n :: nat
  depth :: nat
  color :: nat

definition sample_bytes :: "pass \<Rightarrow> nat" where
  "sample_bytes g = (if depth g = 16 then 2 else 1)"

definition stride :: "pass \<Rightarrow> nat" where
  "stride g = wrap32 (pass_x g * out_n g * sample_bytes g)"

definition img_width_bytes :: "pass \<Rightarrow> nat" where
  "img_width_bytes g = wrap32 (img_n g * pass_x g * depth g + 7) div 8"

text \<open>
  One row from position \<open>r\<close> of the data; the value is the position of the next row. For samples of
  less than eight bits \<open>cur\<close> is moved to the right end of the row, after \<open>prior\<close> was computed.
\<close>

definition unfilter_row :: "pass \<Rightarrow> u8 list \<Rightarrow> nat \<Rightarrow> nat \<Rightarrow> nat px" where
  "unfilter_row g raw j r =
     (let output_bytes = out_n g * sample_bytes g;
          cur = int (wrap32 (stride g * j));
          prior = cur - int (stride g)
      in bindE (at_raw raw r) (\<lambda>t.
         if unat t > 4 then throwE (Err ''invalid filter'') else
         bindE (assertE (depth g < 8 \<longrightarrow> img_width_bytes g \<le> pass_x g)) (\<lambda>_.
         let cur = (if depth g < 8 then cur + int (wrap32 (pass_x g * out_n g - img_width_bytes g)) else cur);
             filter_bytes = (if depth g < 8 then 1 else img_n g * sample_bytes g);
             width = (if depth g < 8 then img_width_bytes g else pass_x g);
             f = (if j = 0 then first_row_filter else filters) ! unat t;
             r = Suc r
         in bindE (forE (first_byte f raw r cur prior) [0..<filter_bytes]) (\<lambda>_.
            bindE (if depth g = 8 then
                     if img_n g \<noteq> out_n g then poke (cur + int (img_n g)) (Some 255) else returnE ()
                   else if depth g = 16 then
                     if img_n g \<noteq> out_n g
                     then bindE (poke (cur + int filter_bytes) (Some 255)) (\<lambda>_. poke (cur + int filter_bytes + 1) (Some 255))
                     else returnE ()
                   else returnE ()) (\<lambda>_.
            let step = (if depth g = 8 then out_n g else if depth g = 16 then output_bytes else 1);
                r = r + (if depth g = 8 then img_n g else if depth g = 16 then filter_bytes else 1);
                cur' = cur + int step; prior' = prior + int step
            in if depth g < 8 \<or> img_n g = out_n g then
                 bindE (forE (next_byte f raw r cur' prior' (int filter_bytes)) [0..<(width - 1) * filter_bytes]) (\<lambda>_.
                 returnE (r + (width - 1) * filter_bytes))
               else
                 bindE (assertE (img_n g + 1 = out_n g)) (\<lambda>_.
                 bindE (forE (\<lambda>i.
                     let r = r + i * filter_bytes; cur = cur' + int (i * output_bytes); prior = prior' + int (i * output_bytes)
                     in bindE (forE (next_byte f raw r cur prior (int output_bytes)) [0..<filter_bytes]) (\<lambda>_.
                        poke (cur + int filter_bytes) (Some 255))) [0..<pass_x g - 1]) (\<lambda>_.
                 bindE (if depth g = 16
                        then forE (\<lambda>i. poke (cur + int (i * output_bytes) + int filter_bytes + 1) (Some 255)) [0..<pass_x g]
                        else returnE ()) (\<lambda>_.
                 returnE (r + (pass_x g - 1) * filter_bytes)))))))))"

fun unfilter_rows :: "pass \<Rightarrow> u8 list \<Rightarrow> nat list \<Rightarrow> nat \<Rightarrow> unit px" where
  "unfilter_rows g raw [] r = returnE ()"
| "unfilter_rows g raw (j # js) r = bindE (unfilter_row g raw j r) (unfilter_rows g raw js)"

subsection \<open>Samples that are not bytes\<close>

text \<open>Sample \<open>i\<close> of a byte of 1, 2 or 4 bit samples, the first one in the high bits.\<close>

definition sample_of :: "nat \<Rightarrow> nat \<Rightarrow> u8 \<Rightarrow> u8" where
  "sample_of d i v = drop_bit (8 - d * Suc i) v AND mask d"

definition expand_row :: "pass \<Rightarrow> nat \<Rightarrow> unit px" where
  "expand_row g j =
     (let cur = int (wrap32 (stride g * j));
          inp = cur + int (wrap32 (pass_x g * out_n g - img_width_bytes g));
          scale = (if color g = 0 then depth_scale_table ! depth g else 1);
          per_byte = 8 div depth g
      in bindE (forE (\<lambda>k.
            bindE (peek (inp + int (k div per_byte))) (\<lambda>v.
            poke (cur + int k) (map_option (\<lambda>v. scale * sample_of (depth g) (k mod per_byte) v) v))) [0..<pass_x g * img_n g]) (\<lambda>_.
         if img_n g \<noteq> out_n g then
           if img_n g = 1 then
             forE (\<lambda>q. bindE (poke (cur + int (q * 2 + 1)) (Some 255)) (\<lambda>_.
               bindE (peek (cur + int q)) (poke (cur + int (q * 2))))) (rev [0..<pass_x g])
           else
             bindE (assertE (img_n g = 3)) (\<lambda>_.
             forE (\<lambda>q. bindE (poke (cur + int (q * 4 + 3)) (Some 255)) (\<lambda>_.
               bindE (bindE (peek (cur + int (q * 3 + 2))) (poke (cur + int (q * 4 + 2)))) (\<lambda>_.
               bindE (bindE (peek (cur + int (q * 3 + 1))) (poke (cur + int (q * 4 + 1)))) (\<lambda>_.
               bindE (peek (cur + int (q * 3))) (poke (cur + int (q * 4))))))) (rev [0..<pass_x g]))
         else returnE ()))"

text \<open>To little-endian 16-bit samples.\<close>

definition swap_sample :: "nat \<Rightarrow> unit px" where
  "swap_sample i =
     bindE (peek (int (2 * i))) (\<lambda>hi. bindE (peek (int (2 * i + 1))) (\<lambda>lo.
     bindE (poke (int (2 * i)) lo) (\<lambda>_. poke (int (2 * i + 1)) hi)))"

definition widen_samples :: "pass \<Rightarrow> unit px" where
  "widen_samples g =
     (if depth g < 8 then forE (expand_row g) [0..<pass_y g]
      else if depth g = 16 then forE swap_sample [0..<wrap32 (pass_x g * pass_y g * out_n g)]
      else returnE ())"

definition create_png_image_raw :: "(nat \<Rightarrow> bool) \<Rightarrow> bool \<Rightarrow> pass \<Rightarrow> u8 list \<Rightarrow> nat \<Rightarrow> stb_err + buffer" where
  "create_png_image_raw al whole g raw raw_len =
     (let size = wrap32 (pass_x g * pass_y g * (out_n g * sample_bytes g));
          img_len = wrap32 ((img_width_bytes g + 1) * pass_y g)
      in if \<not> (out_n g = img_n g \<or> out_n g = img_n g + 1) then Inl (Undefined ''assert'')
         else if \<not> al size then Inl (Err ''outofmem'')
         else if (if whole then raw_len \<noteq> img_len else raw_len < img_len) then Inl (Err ''not enough pixels'')
         else run_px (bindE (unfilter_rows g raw [0..<pass_y g] 0) (\<lambda>_. widen_samples g)) (replicate size None))"

subsection \<open>De-interlacing\<close>

definition copy_bytes :: "buffer \<Rightarrow> nat \<Rightarrow> nat \<Rightarrow> nat \<Rightarrow> unit px" where
  "copy_bytes src from to n final =
     (if from + n \<le> length src \<and> to + n \<le> length final
      then (Inr (), take to final @ take n (drop from src) @ drop (to + n) final)
      else (Inl (Undefined ''memcpy''), final))"

text \<open>Origin and spacing of the seven passes, and the size of a pass over \<open>n\<close> columns or rows.\<close>

definition pass_table :: "(nat \<times> nat \<times> nat \<times> nat) list" where
  "pass_table = zip [0, 4, 0, 2, 0, 1, 0] (zip [0, 0, 4, 0, 2, 0, 1] (zip [8, 8, 4, 4, 2, 2, 1] [8, 8, 8, 4, 4, 2, 2]))"

definition pass_size :: "nat \<Rightarrow> nat \<Rightarrow> nat \<Rightarrow> nat" where
  "pass_size n orig spc = (n + (spc - 1) - orig) div spc"

text \<open>\<open>n\<close> bytes are copied for each pixel, whatever the size of a sample.\<close>

definition spread_pass :: "nat \<Rightarrow> nat \<Rightarrow> nat \<times> nat \<times> nat \<times> nat \<Rightarrow> nat \<Rightarrow> nat \<Rightarrow> buffer \<Rightarrow> unit px" where
  "spread_pass img_x n p x y src =
     (case p of (xorig, yorig, xspc, yspc) \<Rightarrow>
        forE (\<lambda>j. forE (\<lambda>i.
          let out_y = j * yspc + yorig; out_x = i * xspc + xorig
          in copy_bytes src ((j * x + i) * n) (wrap32 (out_y * img_x * n) + out_x * n) n) [0..<x]) [0..<y])"

fun interlaced_passes :: "(nat \<Rightarrow> bool) \<Rightarrow> pass \<Rightarrow> (nat \<times> nat \<times> nat \<times> nat) list \<Rightarrow> u8 list \<Rightarrow> nat \<Rightarrow> buffer option \<Rightarrow> stb_err + buffer option" where
  "interlaced_passes al g [] raw raw_len final = Inr final"
| "interlaced_passes al g (p # ps) raw raw_len final =
     (let x = pass_size (pass_x g) (fst p) (fst (snd (snd p)));
          y = pass_size (pass_y g) (fst (snd p)) (snd (snd (snd p)))
      in if x = 0 \<or> y = 0 then interlaced_passes al g ps raw raw_len final
         else case int32 (((int (img_n g * x * depth g) + 7) div 8 + 1) * int y) of
                Inl e \<Rightarrow> Inl e
              | Inr img_len \<Rightarrow>
         (case create_png_image_raw al (x = pass_x g \<and> y = pass_y g) (g\<lparr>pass_x := x, pass_y := y\<rparr>) raw raw_len of
            Inl e \<Rightarrow> Inl e
          | Inr out \<Rightarrow>
            (case final of
               None \<Rightarrow> Inl (Undefined ''final'')
             | Some final \<Rightarrow>
               (case run_px (spread_pass (pass_x g) (out_n g) p x y out) final of
                  Inl e \<Rightarrow> Inl e
                | Inr final \<Rightarrow> interlaced_passes al g ps (drop (nat img_len) raw) (raw_len - nat img_len) (Some final)))))"

text \<open>The pass of the whole picture has its size. The result of the allocation is not tested.\<close>

definition create_png_image :: "(nat \<Rightarrow> bool) \<Rightarrow> pass \<Rightarrow> u8 list \<Rightarrow> bool \<Rightarrow> stb_err + buffer" where
  "create_png_image al g raw interlaced =
     (if \<not> interlaced then create_png_image_raw al True g raw (length raw)
      else let size = wrap32 (pass_x g * pass_y g * out_n g)
           in case interlaced_passes al g pass_table raw (length raw) (if al size then Some (replicate size None) else None) of
                Inl e \<Rightarrow> Inl e
              | Inr None \<Rightarrow> Inl (Undefined ''final'')
              | Inr (Some final) \<Rightarrow> Inr final)"

subsection \<open>Colours\<close>

text \<open>Is the pixel the transparent colour? Unknown if a byte of it was never written.\<close>

definition is_colour :: "'a option list \<Rightarrow> 'a option list \<Rightarrow> bool option" where
  "is_colour px tc = (if None \<in> set px \<or> None \<in> set tc then None else Some (px = tc))"

definition compute_transparency :: "u8 option list \<Rightarrow> nat \<Rightarrow> nat \<Rightarrow> unit px" where
  "compute_transparency tc n pixel_count =
     bindE (assertE (n = 2 \<or> n = 4)) (\<lambda>_.
     forE (\<lambda>i. let p = int (i * n) in
       if n = 2 then
         bindE (peek p) (\<lambda>v. poke (p + 1) (map_option (\<lambda>b. if b then 0 else 255) (is_colour [v] [tc ! 0])))
       else
         bindE (peek p) (\<lambda>r. bindE (peek (p + 1)) (\<lambda>g. bindE (peek (p + 2)) (\<lambda>b.
         case is_colour [r, g, b] tc of
           None \<Rightarrow> poke (p + 3) None
         | Some t \<Rightarrow> if t then poke (p + 3) (Some 0) else returnE ())))) [0..<pixel_count])"

definition peek16 :: "int \<Rightarrow> 16 word option px" where
  "peek16 i =
     bindE (peek (2 * i)) (\<lambda>lo. bindE (peek (2 * i + 1)) (\<lambda>hi.
     returnE (case (lo, hi) of (Some lo, Some hi) \<Rightarrow> Some (push_bit 8 (ucast hi) OR ucast lo) | _ \<Rightarrow> None)))"

definition poke16 :: "int \<Rightarrow> 16 word option \<Rightarrow> unit px" where
  "poke16 i v =
     bindE (poke (2 * i) (map_option ucast v)) (\<lambda>_. poke (2 * i + 1) (map_option (\<lambda>v. ucast (drop_bit 8 v)) v))"

definition compute_transparency16 :: "16 word option list \<Rightarrow> nat \<Rightarrow> nat \<Rightarrow> unit px" where
  "compute_transparency16 tc n pixel_count =
     bindE (assertE (n = 2 \<or> n = 4)) (\<lambda>_.
     forE (\<lambda>i. let p = int (i * n) in
       if n = 2 then
         bindE (peek16 p) (\<lambda>v. poke16 (p + 1) (map_option (\<lambda>b. if b then 0 else 65535) (is_colour [v] [tc ! 0])))
       else
         bindE (peek16 p) (\<lambda>r. bindE (peek16 (p + 1)) (\<lambda>g. bindE (peek16 (p + 2)) (\<lambda>b.
         case is_colour [r, g, b] tc of
           None \<Rightarrow> poke16 (p + 3) None
         | Some t \<Rightarrow> if t then poke16 (p + 3) (Some 0) else returnE ())))) [0..<pixel_count])"

text \<open>The palette has 256 entries of four bytes, of which some may never have been written.\<close>

definition palette_entry :: "u8 option list \<Rightarrow> nat \<Rightarrow> u8 option \<Rightarrow> u8 option list" where
  "palette_entry palette n v = (case v of None \<Rightarrow> replicate n None | Some v \<Rightarrow> take n (drop (4 * unat v) palette))"

definition expand_png_palette :: "(nat \<Rightarrow> bool) \<Rightarrow> u8 option list \<Rightarrow> nat \<Rightarrow> nat \<Rightarrow> buffer \<Rightarrow> stb_err + buffer" where
  "expand_png_palette al palette pal_img_n pixel_count orig =
     (let n = (if pal_img_n = 3 then 3 else 4); size = wrap32 (pixel_count * pal_img_n)
      in if \<not> al size then Inl (Err ''outofmem'')
         else if length orig < pixel_count then Inl (Undefined ''orig'')
         else if size < pixel_count * n then Inl (Undefined ''p'')
         else Inr (concat (map (palette_entry palette n) (take pixel_count orig)) @ replicate (size - pixel_count * n) None))"

text \<open>
  The high bytes of the 16-bit samples. The length is an \<open>int\<close>; a negative one asks for more memory
  than there is, and the decoder returns a null picture. After the allocation the code tests the wrong pointer, so a
  failed one is written through.
\<close>

definition reduce_png :: "(nat \<Rightarrow> bool) \<Rightarrow> nat \<Rightarrow> nat \<Rightarrow> buffer \<Rightarrow> stb_err + buffer" where
  "reduce_png al d img_len orig =
     (if d \<noteq> 16 then Inr orig
      else if 2 ^ 31 \<le> img_len then Inl (Err [])
      else if length orig < 2 * img_len then Inl (Undefined ''orig'')
      else if \<not> al img_len then (if img_len = 0 then Inr [] else Inl (Undefined ''reduced''))
      else Inr (map (\<lambda>i. orig ! (2 * i + 1)) [0..<img_len]))"

record globals =
  unpremultiply_on_load :: bool
  de_iphone_flag :: bool

definition scale_back :: "u8 option \<Rightarrow> u8 \<Rightarrow> u8 option" where
  "scale_back v a = map_option (\<lambda>v. bytecast (uint v * 255 div uint a)) v"

definition de_iphone :: "globals \<Rightarrow> nat \<Rightarrow> nat \<Rightarrow> unit px" where
  "de_iphone gl n pixel_count =
     bindE (assertE (n = 3 \<or> n = 4)) (\<lambda>_.
     forE (\<lambda>i. let p = int (i * n) in
       bindE (peek p) (\<lambda>t. bindE (peek (p + 2)) (\<lambda>b.
       if n = 4 \<and> unpremultiply_on_load gl then
         bindE (peek (p + 3)) (\<lambda>a. bindE (peek (p + 1)) (\<lambda>g.
         case a of
           None \<Rightarrow> bindE (poke p None) (\<lambda>_. bindE (poke (p + 1) None) (\<lambda>_. poke (p + 2) None))
         | Some a \<Rightarrow>
             if a \<noteq> 0 then
               bindE (poke p (scale_back b a)) (\<lambda>_. bindE (poke (p + 1) (scale_back g a)) (\<lambda>_. poke (p + 2) (scale_back t a)))
             else bindE (poke p b) (\<lambda>_. poke (p + 2) t)))
       else bindE (poke p b) (\<lambda>_. poke (p + 2) t)))) [0..<pixel_count])"

end
