(* ===== verification/PngFilters.thy ===== *)
theory PngFilters
  imports PngPixels
begin

text \<open>
  The PNG filters as the format defines them, and the proof that the decoder's unfiltering is their
  inverse for 8-bit samples, with and without an alpha channel added on the way.
\<close>

subsection \<open>The filters of the format\<close>

text \<open>
  The prediction of a byte from the byte to its left \<open>a\<close>, above it \<open>b\<close> and above the left one \<open>c\<close>;
  bytes outside the image are zero.
\<close>

text \<open>The predictor of the last filter: the first of the three that is nearest to \<open>a + b - c\<close>.\<close>

definition nearest :: "int \<Rightarrow> int \<Rightarrow> int \<Rightarrow> int" where
  "nearest a b c = hd (filter (\<lambda>v. \<forall>u \<in> set [a, b, c]. \<bar>a + b - c - v\<bar> \<le> \<bar>a + b - c - u\<bar>) [a, b, c])"

definition prediction :: "nat \<Rightarrow> int \<Rightarrow> int \<Rightarrow> int \<Rightarrow> int" where
  "prediction t a b c =
     (if t = 0 then 0 else if t = 1 then a else if t = 2 then b else if t = 3 then (a + b) div 2 else nearest a b c)"

text \<open>Byte \<open>k\<close> of pixel \<open>i\<close>; rows are lists of pixels, and pixels lists of \<open>n\<close> bytes.\<close>

definition filtered_byte :: "nat \<Rightarrow> u8 list list \<Rightarrow> u8 list list \<Rightarrow> nat \<Rightarrow> nat \<Rightarrow> u8" where
  "filtered_byte t prev row i k =
     (let before = (\<lambda>r. if i = 0 then 0 else uint (r ! (i - 1) ! k))
      in bytecast (uint (row ! i ! k) - prediction t (before row) (uint (prev ! i ! k)) (before prev)))"

definition filter_row :: "nat \<Rightarrow> nat \<Rightarrow> u8 list list \<Rightarrow> u8 list list \<Rightarrow> u8 list" where
  "filter_row n t prev row = concat (map (\<lambda>i. map (filtered_byte t prev row i) [0..<n]) [0..<length row])"

fun filter_rows :: "nat \<Rightarrow> u8 list list \<Rightarrow> (nat \<times> u8 list list) list \<Rightarrow> u8 list" where
  "filter_rows n prev [] = []"
| "filter_rows n prev ((t, row) # rows) = word_of_nat t # filter_row n t prev row @ filter_rows n row rows"

definition filter_image :: "nat \<Rightarrow> nat \<Rightarrow> (nat \<times> u8 list list) list \<Rightarrow> u8 list" where
  "filter_image n w rows = filter_rows n (replicate w (replicate n 0)) rows"

text \<open>The predictor of the decoder is the one of the format.\<close>

lemma paeth_nearest: "paeth a b c = nearest a b c"
  by (auto simp: paeth_def nearest_def Let_def)

lemma prediction_cases:
  "prediction t a b c = (if t = 0 then 0 else if t = 1 then a else if t = 2 then b else if t = 3 then (a + b) div 2 else paeth a b c)"
  by (simp add: prediction_def paeth_nearest)

lemma paeth_zero: "0 \<le> a \<Longrightarrow> paeth a 0 0 = a" "0 \<le> b \<Longrightarrow> paeth 0 b 0 = b"
  by (auto simp: paeth_def Let_def)

subsection \<open>An array written from its start\<close>

definition written_to :: "nat \<Rightarrow> u8 list \<Rightarrow> buffer" where
  "written_to cap bs = map Some bs @ replicate (cap - length bs) None"

lemma peek_written: "i = int p \<Longrightarrow> p < length bs \<Longrightarrow> length bs \<le> cap \<Longrightarrow> peek i (written_to cap bs) = (Inr (Some (bs ! p)), written_to cap bs)"
  by (simp add: peek_def written_to_def nth_append)

lemma poke_written:
  assumes "i = int (length bs)" and "length bs < cap"
  shows "poke i (Some v) (written_to cap bs) = (Inr (), written_to cap (bs @ [v]))"
proof -
  obtain m where m: "cap - length bs = Suc m" using assms(2) by (metis Suc_diff_Suc)
  then have "cap - length (bs @ [v]) = m" by simp
  with m show ?thesis using assms by (simp add: poke_def written_to_def list_update_append)
qed

lemma forE_states:
  assumes "\<And>i. i < n \<Longrightarrow> body i (S i) = (Inr (), S (Suc i))"
  shows "forE body [0..<n] (S 0) = (Inr (), S n)"
proof -
  have "forE body [k..<n] (S k) = (Inr (), S n)" if "k \<le> n" for k
    using that by (induction rule: inc_induct) (simp_all add: upt_conv_Cons bindE_return assms)
  from this [of 0] show ?thesis by simp
qed

lemma forE_reaches:
  assumes "\<And>i. i < n \<Longrightarrow> body i (S i) = (Inr (), S (Suc i))" and "s = S 0" and "s' = S n"
  shows "forE body [0..<n] s = (Inr (), s')"
  unfolding assms(2,3) by (rule forE_states) (rule assms(1))

subsection \<open>One byte\<close>

definition row_filter :: "bool \<Rightarrow> nat \<Rightarrow> png_filter" where
  "row_filter is_top t = (if is_top then first_row_filter else filters) ! t"

lemma type_cases: "t \<le> 4 \<Longrightarrow> t = 0 \<or> t = 1 \<or> t = 2 \<or> t = 3 \<or> t = (4 :: nat)"
  by auto

lemma next_value_predicts:
  assumes "t \<le> 4" and "peek left buf = (Inr (Some a), buf)"
    and "if is_top then b = 0 \<and> c = 0 else peek up buf = (Inr (Some b), buf) \<and> peek upleft buf = (Inr (Some c), buf)"
  shows "next_value (row_filter is_top t) x left up upleft buf = (Inr (Some (bytecast (uint x + prediction t (uint a) (uint b) (uint c)))), buf)"
  using assms(2,3) type_cases [OF assms(1)]
  by (auto simp: next_value_def row_filter_def first_row_filter_def filters_def prediction_cases bindE_return
      paeth_zero drop_bit_eq_div add.commute split: if_splits)

lemma first_value_predicts:
  assumes "t \<le> 4" and "if is_top then b = 0 else peek up buf = (Inr (Some b), buf)"
  shows "first_value (row_filter is_top t) x up buf = (Inr (Some (bytecast (uint x + prediction t 0 (uint b) 0))), buf)"
  using assms(2) type_cases [OF assms(1)]
  by (auto simp: first_value_def row_filter_def first_row_filter_def filters_def prediction_cases
      bindE_return paeth_zero drop_bit_eq_div split: if_splits)

lemma restores: "bytecast (uint (bytecast (uint v - p)) + p) = v"
  by simp

subsection \<open>One row\<close>

definition alpha_of :: "pass \<Rightarrow> u8 list" where
  "alpha_of g = (if img_n g = out_n g then [] else [255])"

definition interleave :: "pass \<Rightarrow> u8 list list \<Rightarrow> u8 list" where
  "interleave g row = concat (map (\<lambda>px. px @ alpha_of g) row)"

definition row_ok :: "pass \<Rightarrow> u8 list list \<Rightarrow> bool" where
  "row_ok g row \<longleftrightarrow> length row = pass_x g \<and> (\<forall>px \<in> set row. length px = img_n g)"

definition bytes_ok :: "pass \<Rightarrow> bool" where
  "bytes_ok g \<longleftrightarrow> depth g = 8 \<and> (out_n g = img_n g \<or> out_n g = img_n g + 1) \<and> 0 < img_n g \<and> 0 < pass_x g"

text \<open>The rows so far are in \<open>done\<close>; the last of them is \<open>prev\<close>, which is zero before the first row.\<close>

definition before_row :: "pass \<Rightarrow> nat \<Rightarrow> bool \<Rightarrow> u8 list \<Rightarrow> u8 list list \<Rightarrow> bool" where
  "before_row g cap is_top so_far prev \<longleftrightarrow>
     row_ok g prev \<and> length so_far + pass_x g * out_n g \<le> cap \<and>
     (if is_top then so_far = [] \<and> prev = replicate (pass_x g) (replicate (img_n g) 0)
      else \<exists>earlier. so_far = earlier @ interleave g prev)"

definition in_row :: "pass \<Rightarrow> nat \<Rightarrow> u8 list \<Rightarrow> u8 list list \<Rightarrow> nat \<Rightarrow> buffer" where
  "in_row g cap so_far row q = written_to cap (so_far @ take q (interleave g row))"

lemma interleave_pixels:
  assumes "bytes_ok g" and "row_ok g row"
  shows "length (interleave g row) = pass_x g * out_n g"
    and "\<And>i k. i < pass_x g \<Longrightarrow> k < out_n g \<Longrightarrow> interleave g row ! (i * out_n g + k) = (row ! i @ alpha_of g) ! k"
proof -
  have n: "\<forall>xs \<in> set (map (\<lambda>px. px @ alpha_of g) row). length xs = out_n g"
    using assms by (auto simp: bytes_ok_def row_ok_def alpha_of_def)
  show "length (interleave g row) = pass_x g * out_n g"
    using length_concat_chunks [OF n] assms(2) by (simp add: interleave_def row_ok_def)
  show "interleave g row ! (i * out_n g + k) = (row ! i @ alpha_of g) ! k" if "i < pass_x g" "k < out_n g" for i k
    using nth_concat_chunks [OF n, of i k] that assms(2) by (simp add: interleave_def row_ok_def mult.commute)
qed

lemma position_less: "i < x \<Longrightarrow> k < n \<Longrightarrow> i * n + k < x * (n :: nat)"
  using mult_le_mono1 [of "Suc i" x n] by simp

lemma poke_row:
  assumes "bytes_ok g" and "row_ok g row" and "before_row g cap is_top so_far prev"
    and "i < pass_x g" and "k < out_n g" and "v = (row ! i @ alpha_of g) ! k" and "c = int (length so_far + (i * out_n g + k))"
  shows "poke c (Some v) (in_row g cap so_far row (i * out_n g + k)) = (Inr (), in_row g cap so_far row (Suc (i * out_n g + k)))"
proof -
  note row = interleave_pixels [OF assms(1,2)]
  have q: "i * out_n g + k < length (interleave g row)" using position_less [OF assms(4,5)] row(1) by simp
  then have "take (Suc (i * out_n g + k)) (interleave g row) = take (i * out_n g + k) (interleave g row) @ [v]"
    using row(2) [OF assms(4,5)] assms(6) by (simp add: take_Suc_conv_app_nth)
  then show ?thesis
    unfolding in_row_def using q row(1) assms(3,7)
    by (simp add: before_row_def flip: append_assoc) (subst poke_written; simp add: min_def)
qed

lemma peek_row:
  assumes "bytes_ok g" and "row_ok g row" and "before_row g cap is_top so_far prev"
    and "i < pass_x g" and "k < img_n g" and "i * out_n g + k < q" and "q \<le> pass_x g * out_n g" and "c = int (length so_far + (i * out_n g + k))"
  shows "peek c (in_row g cap so_far row q) = (Inr (Some (row ! i ! k)), in_row g cap so_far row q)"
proof -
  note row = interleave_pixels [OF assms(1,2)]
  have k: "k < out_n g" "k < length (row ! i)" using assms(1,2,4,5) by (auto simp: bytes_ok_def row_ok_def)
  have "(so_far @ take q (interleave g row)) ! (length so_far + (i * out_n g + k)) = row ! i ! k"
    using row(2) [OF assms(4) k(1)] k(2) assms(6) by (simp add: nth_append)
  then show ?thesis
    unfolding in_row_def using row(1) assms(3,6,7,8)
    by (subst peek_written [where p = "length so_far + (i * out_n g + k)"]) (simp_all add: before_row_def min_def)
qed

lemma peek_above:
  assumes "bytes_ok g" and "before_row g cap False so_far prev" and "row_ok g row"
    and "i < pass_x g" and "k < img_n g" and "q \<le> pass_x g * out_n g"
    and "c = int (length so_far + (i * out_n g + k)) - int (pass_x g * out_n g)"
  shows "peek c (in_row g cap so_far row q) = (Inr (Some (prev ! i ! k)), in_row g cap so_far row q)"
proof -
  obtain earlier where e: "so_far = earlier @ interleave g prev" and ok: "row_ok g prev"
    using assms(2) by (auto simp: before_row_def)
  note prev = interleave_pixels [OF assms(1) ok]
  have k: "k < out_n g" "k < length (prev ! i)" using assms(1,4,5) ok by (auto simp: bytes_ok_def row_ok_def)
  have q: "i * out_n g + k < pass_x g * out_n g" by (rule position_less [OF assms(4) k(1)])
  have c: "c = int (length earlier + (i * out_n g + k))" using assms(7) e prev(1) by simp
  have "(so_far @ take q (interleave g row)) ! (length earlier + (i * out_n g + k)) = prev ! i ! k"
    using prev(2) [OF assms(4) k(1)] k(2) q prev(1) by (simp add: e nth_append)
  then show ?thesis
    unfolding in_row_def using c q prev(1) e assms(2,6) interleave_pixels(1) [OF assms(1,3)]
    by (subst peek_written [where p = "length earlier + (i * out_n g + k)"]) (simp_all add: before_row_def min_def)
qed

text \<open>The byte \<open>k\<close> of pixel \<open>i\<close> comes from its filtered value.\<close>

lemma next_step:
  assumes "bytes_ok g" and "row_ok g row" and "before_row g cap is_top so_far prev" and "t \<le> 4"
    and "0 < i" and "i < pass_x g" and "k < img_n g" and "r < length raw" and "raw ! r = filtered_byte t prev row i k"
    and "c = int (length so_far + (i * out_n g + k))"
  shows "bindE (at_raw raw r) (\<lambda>x. bindE (next_value (row_filter is_top t) x (c - int (out_n g)) (c - int (pass_x g * out_n g))
      (c - int (pass_x g * out_n g) - int (out_n g))) (poke c)) (in_row g cap so_far row (i * out_n g + k)) =
    (Inr (), in_row g cap so_far row (Suc (i * out_n g + k)))"
proof -
  let ?q = "i * out_n g + k"
  obtain j where i: "i = Suc j" using assms(5) by (cases i) auto
  have n: "img_n g \<le> out_n g" "k < out_n g" using assms(1,7) by (auto simp: bytes_ok_def)
  have q: "?q \<le> pass_x g * out_n g" using position_less [OF assms(6) n(2)] by simp
  let ?above = "\<lambda>j. if is_top then 0 else prev ! j ! k"
  have zero: "prev ! j ! k = 0" if "is_top" "j < pass_x g" for j
    using assms(3,7) that by (simp add: before_row_def)
  have left: "peek (c - int (out_n g)) (in_row g cap so_far row ?q) = (Inr (Some (row ! j ! k)), in_row g cap so_far row ?q)"
    using assms(6,10) i n(2) by (intro peek_row [OF assms(1-3) _ assms(7) _ q]) simp_all
  have above: "peek (c - int (pass_x g * out_n g)) (in_row g cap so_far row ?q) = (Inr (Some (prev ! i ! k)), in_row g cap so_far row ?q)"
    "peek (c - int (pass_x g * out_n g) - int (out_n g)) (in_row g cap so_far row ?q) = (Inr (Some (prev ! j ! k)), in_row g cap so_far row ?q)"
    if "\<not> is_top"
  proof -
    have b: "before_row g cap False so_far prev" using assms(3) that by simp
    show "peek (c - int (pass_x g * out_n g)) (in_row g cap so_far row ?q) = (Inr (Some (prev ! i ! k)), in_row g cap so_far row ?q)"
      by (rule peek_above [OF assms(1) b assms(2,6,7) q]) (simp add: assms(10))
    show "peek (c - int (pass_x g * out_n g) - int (out_n g)) (in_row g cap so_far row ?q) = (Inr (Some (prev ! j ! k)), in_row g cap so_far row ?q)"
      using assms(6) i by (intro peek_above [OF assms(1) b assms(2) _ assms(7) q]) (simp_all add: assms(10))
  qed
  have "next_value (row_filter is_top t) (raw ! r) (c - int (out_n g)) (c - int (pass_x g * out_n g))
      (c - int (pass_x g * out_n g) - int (out_n g)) (in_row g cap so_far row ?q) =
    (Inr (Some (bytecast (uint (raw ! r) + prediction t (uint (row ! j ! k)) (uint (prev ! i ! k)) (uint (prev ! j ! k))))), in_row g cap so_far row ?q)"
    using above zero [of i] zero [of j] assms(6) i by (intro next_value_predicts [OF assms(4) left]) auto
  moreover have "bytecast (uint (raw ! r) + prediction t (uint (row ! j ! k)) (uint (prev ! i ! k)) (uint (prev ! j ! k))) = row ! i ! k"
    unfolding assms(9) by (simp add: filtered_byte_def i)
  moreover have "poke c (Some (row ! i ! k)) (in_row g cap so_far row ?q) = (Inr (), in_row g cap so_far row (Suc ?q))"
    using assms(2,6,7) by (intro poke_row [OF assms(1-3,6) n(2) _ assms(10)]) (simp add: row_ok_def nth_append)
  ultimately show ?thesis using assms(8) by (simp add: at_raw_def bindE_return)
qed

lemma first_step:
  assumes "bytes_ok g" and "row_ok g row" and "before_row g cap is_top so_far prev" and "t \<le> 4"
    and "k < img_n g" and "r + k < length raw" and "raw ! (r + k) = filtered_byte t prev row 0 k" and "c = int (length so_far)"
  shows "first_byte (row_filter is_top t) raw r c (c - int (pass_x g * out_n g)) k (in_row g cap so_far row k) =
    (Inr (), in_row g cap so_far row (Suc k))"
proof -
  have x: "0 < pass_x g" and n1: "k < out_n g" using assms(1,5) by (auto simp: bytes_ok_def)
  note n = n1 less_imp_le [OF position_less [OF x n1, simplified]]
  have up: "if is_top then prev ! 0 ! k = 0 else
      peek (c - int (pass_x g * out_n g) + int k) (in_row g cap so_far row k) = (Inr (Some (prev ! 0 ! k)), in_row g cap so_far row k)"
  proof (cases is_top)
    case True
    then show ?thesis using assms(3,5) x by (simp add: before_row_def)
  next
    case False
    then show ?thesis using assms(3) by (simp, intro peek_above [OF assms(1) _ assms(2) x assms(5) n(2)]) (simp_all add: assms(8))
  qed
  have "first_value (row_filter is_top t) (raw ! (r + k)) (c - int (pass_x g * out_n g) + int k) (in_row g cap so_far row k) =
    (Inr (Some (bytecast (uint (raw ! (r + k)) + prediction t 0 (uint (prev ! 0 ! k)) 0))), in_row g cap so_far row k)"
    using up by (intro first_value_predicts [OF assms(4)]) (auto split: if_splits)
  moreover have "bytecast (uint (raw ! (r + k)) + prediction t 0 (uint (prev ! 0 ! k)) 0) = row ! 0 ! k"
    unfolding assms(7) by (simp add: filtered_byte_def)
  moreover have "poke (c + int k) (Some (row ! 0 ! k)) (in_row g cap so_far row k) = (Inr (), in_row g cap so_far row (Suc k))"
    using poke_row [OF assms(1-3) x n(1), of "row ! 0 ! k" "c + int k"] assms(2,5,8) x by (simp add: row_ok_def nth_append)
  ultimately show ?thesis using assms(6) by (simp add: first_byte_def at_raw_def bindE_return)
qed

text \<open>The data of a row is its filter type and its filtered bytes.\<close>

lemma filter_row_chunks: "\<forall>xs \<in> set (map (\<lambda>i. map (filtered_byte t prev row i) [0..<n]) [0..<length row]). length xs = n"
  by auto

lemma filter_row_length: "length (filter_row n t prev row) = length row * n"
  using length_concat_chunks [OF filter_row_chunks] by (simp add: filter_row_def)

lemma filter_row_nth:
  "i < length row \<Longrightarrow> k < n \<Longrightarrow> filter_row n t prev row ! (i * n + k) = filtered_byte t prev row i k"
  using nth_concat_chunks [OF filter_row_chunks [of t prev row n], of i k] by (simp add: filter_row_def mult.commute)

definition row_data :: "pass \<Rightarrow> u8 list \<Rightarrow> nat \<Rightarrow> nat \<Rightarrow> u8 list list \<Rightarrow> u8 list list \<Rightarrow> bool" where
  "row_data g raw r t prev row \<longleftrightarrow> (\<exists>before after. raw = before @ word_of_nat t # filter_row (img_n g) t prev row @ after \<and> r = length before)"

lemma row_data_nth:
  assumes "row_data g raw r t prev row" and "row_ok g row" and "i < pass_x g" and "k < img_n g"
  shows "raw ! r = word_of_nat t" "r < length raw"
    "Suc r + (i * img_n g + k) < length raw" "raw ! (Suc r + (i * img_n g + k)) = filtered_byte t prev row i k"
proof -
  obtain before after where raw: "raw = before @ word_of_nat t # filter_row (img_n g) t prev row @ after" "r = length before"
    using assms(1) by (auto simp: row_data_def)
  have i: "i < length row" using assms(2,3) by (simp add: row_ok_def)
  note f = filter_row_nth [OF i assms(4), of t prev] filter_row_length [of "img_n g" t prev row]
  have "i * img_n g + k < length row * img_n g" by (rule position_less [OF i assms(4)])
  then show "raw ! r = word_of_nat t" "r < length raw"
    "Suc r + (i * img_n g + k) < length raw" "raw ! (Suc r + (i * img_n g + k)) = filtered_byte t prev row i k"
    using f by (simp_all add: raw nth_append)
qed

text \<open>The bytes of the pixels from \<open>r\<close> on, without and with an alpha channel to add.\<close>

lemma plain_bytes:
  assumes "bytes_ok g" and "row_ok g row" and "before_row g cap is_top so_far prev" and "t \<le> 4"
    and "row_data g raw r t prev row" and "img_n g = out_n g" and "c = int (length so_far + out_n g)"
  shows "forE (next_byte (row_filter is_top t) raw (Suc r + img_n g) c (c - int (pass_x g * out_n g)) (int (img_n g)))
      [0..<(pass_x g - 1) * img_n g] (in_row g cap so_far row (img_n g)) = (Inr (), in_row g cap so_far row (pass_x g * out_n g))"
proof -
  let ?n = "img_n g"
  have n: "0 < ?n" "0 < pass_x g" using assms(1) by (simp_all add: bytes_ok_def)
  show ?thesis
  proof (rule forE_reaches [where S = "\<lambda>q. in_row g cap so_far row (?n + q)"])
    fix q
    assume less: "q < (pass_x g - 1) * ?n"
    define i k where "i = Suc (q div ?n)" and "k = q mod ?n"
    have "q div ?n < pass_x g - 1" using less n by (simp add: less_mult_imp_div_less)
    then have i: "0 < i" "i < pass_x g" by (simp_all add: i_def)
    have k: "k < ?n" using n by (simp add: k_def)
    have q: "i * ?n + k = ?n + q" by (simp add: i_def k_def)
    then have q': "i * out_n g + k = out_n g + q" using assms(6) by simp
    from next_step [OF assms(1-4) i k row_data_nth(3,4) [OF assms(5,2) i(2) k, unfolded q], of "c + int q", unfolded q'] assms(6,7)
    show "next_byte (row_filter is_top t) raw (Suc r + ?n) c (c - int (pass_x g * out_n g)) (int ?n) q (in_row g cap so_far row (?n + q)) =
      (Inr (), in_row g cap so_far row (?n + Suc q))"
      by (simp add: next_byte_def algebra_simps)
  qed (use n assms(6) in \<open>cases "pass_x g"; simp\<close>)+
qed

lemma alpha_bytes:
  assumes "bytes_ok g" and "row_ok g row" and "before_row g cap is_top so_far prev" and "t \<le> 4"
    and "row_data g raw r t prev row" and "img_n g \<noteq> out_n g" and "c = int (length so_far + out_n g)"
  shows "forE (\<lambda>i. let r = Suc r + img_n g + i * img_n g; cur = c + int (i * out_n g);
        prior = c - int (pass_x g * out_n g) + int (i * out_n g)
      in bindE (forE (next_byte (row_filter is_top t) raw r cur prior (int (out_n g))) [0..<img_n g]) (\<lambda>_.
         poke (cur + int (img_n g)) (Some 255))) [0..<pass_x g - 1] (in_row g cap so_far row (out_n g)) =
    (Inr (), in_row g cap so_far row (pass_x g * out_n g))"
proof -
  let ?n = "img_n g"
  have o: "out_n g = Suc ?n" "0 < pass_x g" "alpha_of g = [255]" using assms(1,6) by (auto simp: bytes_ok_def alpha_of_def)
  show ?thesis
  proof (rule forE_reaches [where S = "\<lambda>i. in_row g cap so_far row (out_n g + i * out_n g)"])
    fix i
    assume "i < pass_x g - 1"
    then have i: "0 < Suc i" "Suc i < pass_x g" by simp_all
    let ?cur = "c + int (i * out_n g)"
    have pixel: "forE (next_byte (row_filter is_top t) raw (Suc r + ?n + i * ?n) ?cur (c - int (pass_x g * out_n g) + int (i * out_n g)) (int (out_n g)))
      [0..<?n] (in_row g cap so_far row (out_n g + i * out_n g)) = (Inr (), in_row g cap so_far row (Suc i * out_n g + ?n))"
    proof (rule forE_reaches [where S = "\<lambda>k. in_row g cap so_far row (Suc i * out_n g + k)"])
      fix k
      assume k: "k < ?n"
      from next_step [OF assms(1-4) i k row_data_nth(3,4) [OF assms(5,2) i(2) k], of "?cur + int k"] assms(7)
      show "next_byte (row_filter is_top t) raw (Suc r + ?n + i * ?n) ?cur (c - int (pass_x g * out_n g) + int (i * out_n g)) (int (out_n g)) k
        (in_row g cap so_far row (Suc i * out_n g + k)) = (Inr (), in_row g cap so_far row (Suc i * out_n g + Suc k))"
        by (simp add: next_byte_def algebra_simps)
    qed simp_all
    have poked: "poke (?cur + int ?n) (Some 255) (in_row g cap so_far row (Suc i * out_n g + ?n)) = (Inr (), in_row g cap so_far row (Suc (Suc i * out_n g + ?n)))"
      using assms(2) i(2) assms(7) o by (intro poke_row [OF assms(1-3) i(2)]) (simp_all add: nth_append row_ok_def algebra_simps)
    show "(let r = Suc r + ?n + i * ?n; cur = c + int (i * out_n g); prior = c - int (pass_x g * out_n g) + int (i * out_n g)
      in bindE (forE (next_byte (row_filter is_top t) raw r cur prior (int (out_n g))) [0..<?n]) (\<lambda>_.
         poke (cur + int ?n) (Some 255))) (in_row g cap so_far row (out_n g + i * out_n g)) =
      (Inr (), in_row g cap so_far row (out_n g + Suc i * out_n g))"
      unfolding Let_def by (subst bindE_return, rule pixel) (use poked o(1) in \<open>simp add: algebra_simps\<close>)
  qed (use o(2) in \<open>cases "pass_x g"; simp\<close>)+
qed

text \<open>A whole row.\<close>

lemma unfilter_row_restores:
  assumes "bytes_ok g" and "row_ok g row" and "before_row g cap (j = 0) so_far prev" and "t \<le> 4" and "row_data g raw r t prev row"
    and "length so_far = j * (pass_x g * out_n g)" and "cap < 2 ^ 32"
  shows "unfilter_row g raw j r (written_to cap so_far) =
    (Inr (Suc r + pass_x g * img_n g), written_to cap (so_far @ interleave g row))"
proof -
  let ?n = "img_n g" and ?w = "pass_x g * out_n g" and ?S = "in_row g cap so_far row"
  let ?f = "row_filter (j = 0) t" and ?c = "int (length so_far)"
  have g: "depth g = 8" "0 < ?n" "0 < pass_x g" "sample_bytes g = 1" "?n = out_n g \<or> ?n + 1 = out_n g"
    using assms(1) by (auto simp: bytes_ok_def sample_bytes_def)
  have small: "length so_far + ?w \<le> cap" using assms(3) by (simp add: before_row_def)
  have stride: "stride g = ?w" "wrap32 (?w * j) = length so_far"
    using small assms(6,7) g(4) by (simp_all add: stride_def mult.commute)
  have type: "at_raw raw r s = (Inr (word_of_nat t), s)" "unat (word_of_nat t :: u8) = t" for s
    using row_data_nth(1,2) [OF assms(5,2) g(3,2)] assms(4) by (simp_all add: at_raw_def unat_of_nat)
  have start: "?S 0 = written_to cap so_far" "?S (out_n g * pass_x g) = written_to cap (so_far @ interleave g row)"
    by (simp_all add: in_row_def interleave_pixels(1) [OF assms(1,2), symmetric] mult.commute [of "out_n g"])
  have first: "forE (first_byte ?f raw (Suc r) ?c (?c - int ?w)) [0..<?n] (?S 0) = (Inr (), ?S ?n)"
  proof (rule forE_reaches [where S = ?S])
    fix k
    assume k: "k < ?n"
    show "first_byte ?f raw (Suc r) ?c (?c - int ?w) k (?S k) = (Inr (), ?S (Suc k))"
      using row_data_nth(3,4) [OF assms(5,2) g(3) k] by (intro first_step [OF assms(1-4) k]) simp_all
  qed simp_all
  have alpha: "(if ?n \<noteq> out_n g then poke (?c + int ?n) (Some 255) else returnE ()) (?S ?n) = (Inr (), ?S (out_n g))"
    using poke_row [OF assms(1-3) g(3), of ?n 255 "?c + int ?n"] g assms(2) by (auto simp: alpha_of_def row_ok_def nth_append)
  have tail: "r + Suc (?n + (pass_x g - 1) * ?n) = r + Suc (pass_x g * ?n)" using g(3) by (cases "pass_x g") simp_all
  show ?thesis
  proof (cases "?n = out_n g")
    case True
    note plain_bytes [OF assms(1-5) True, of "?c + int (out_n g)"]
    then show ?thesis
      unfolding unfilter_row_def Let_def stride(1) stride(2)
      using g(1,4) assms(4) first alpha tail True
      by (simp add: type start bindE_return assertE_def algebra_simps flip: row_filter_def)
  next
    case False
    note alpha_bytes [OF assms(1-5) False, of "?c + int (out_n g)"]
    then show ?thesis
      unfolding unfilter_row_def Let_def stride(1) stride(2)
      using g(1,4,5) assms(4) first alpha tail False
      by (simp add: type start bindE_return assertE_def algebra_simps flip: row_filter_def)
  qed
qed

subsection \<open>The image\<close>

definition image_ok :: "pass \<Rightarrow> (nat \<times> u8 list list) list \<Rightarrow> bool" where
  "image_ok g rows \<longleftrightarrow> length rows = pass_y g \<and> (\<forall>(t, row) \<in> set rows. t \<le> 4 \<and> row_ok g row)"

lemma unfilter_rows_restores:
  assumes "bytes_ok g" and "\<forall>(t, row) \<in> set rows. t \<le> 4 \<and> row_ok g row" and "rows \<noteq> [] \<Longrightarrow> before_row g cap (j = 0) so_far prev"
    and "length so_far = j * (pass_x g * out_n g)" and "cap < 2 ^ 32" and "(j + length rows) * (pass_x g * out_n g) \<le> cap"
    and "raw = before @ filter_rows (img_n g) prev rows" and "r = length before"
  shows "unfilter_rows g raw [j..<j + length rows] r (written_to cap so_far) =
    (Inr (), written_to cap (so_far @ concat (map (interleave g) (map snd rows))))"
  using assms(2-4,6-8)
proof (induction rows arbitrary: j so_far prev before r)
  case (Cons tr rows)
  obtain t row where tr: "tr = (t, row)" by (cases tr)
  let ?w = "pass_x g * out_n g"
  have row: "t \<le> 4" "row_ok g row" using Cons.prems(1) by (simp_all add: tr)
  have len: "length (interleave g row) = ?w" by (rule interleave_pixels(1) [OF assms(1) row(2)])
  have data: "row_data g raw r t prev row" using Cons.prems(5,6) by (auto simp: row_data_def tr)
  have "length (filter_row (img_n g) t prev row) = pass_x g * img_n g"
    using filter_row_length [of "img_n g" t prev row] row(2) by (simp add: row_ok_def)
  then have r: "Suc r + pass_x g * img_n g = length (before @ word_of_nat t # filter_row (img_n g) t prev row)"
    using Cons.prems(6) by simp
  have fits: "Suc j * ?w + length rows * ?w \<le> cap" using Cons.prems(4) by (simp add: tr algebra_simps)
  have now: "before_row g cap (j = 0) so_far prev" using Cons.prems(2) by simp
  have next_row: "before_row g cap (Suc j = 0) (so_far @ interleave g row) row" if "rows \<noteq> []"
  proof -
    have "?w \<le> length rows * ?w" using that by (cases rows) simp_all
    then have "length so_far + ?w + ?w \<le> cap" using fits unfolding Cons.prems(3) mult_Suc by linarith
    then show ?thesis using row(2) len by (auto simp: before_row_def)
  qed
  have "unfilter_rows g raw [Suc j..<Suc j + length rows] (Suc r + pass_x g * img_n g) (written_to cap (so_far @ interleave g row)) =
    (Inr (), written_to cap ((so_far @ interleave g row) @ concat (map (interleave g) (map snd rows))))"
    using Cons.prems(1,3,5) fits len by (intro Cons.IH [OF _ next_row _ _ _ r]) (simp_all add: tr algebra_simps)
  moreover note unfilter_row_restores [OF assms(1) row(2) now row(1) data Cons.prems(3) assms(5)]
  moreover have "[j..<j + length (tr # rows)] = j # [Suc j..<Suc j + length rows]" by (simp add: upt_conv_Cons del: upt_Suc)
  ultimately show ?case by (simp add: tr bindE_return del: upt_Suc)
qed simp

lemma filter_rows_length:
  "\<forall>(t, row) \<in> set rows. row_ok g row \<Longrightarrow> length (filter_rows (img_n g) prev rows) = (img_n g * pass_x g + 1) * length rows"
  by (induction rows arbitrary: prev) (auto simp: filter_row_length row_ok_def)

lemma unfilter_image:
  assumes "bytes_ok g" and "image_ok g rows" and "0 < pass_y g" and "pass_x g * pass_y g * (8 * img_n g + 8) < 2 ^ 32"
    and "al (pass_x g * pass_y g * out_n g)" and "raw = filter_image (img_n g) (pass_x g) rows"
  shows "create_png_image_raw al True g raw (length raw) = Inr (map Some (concat (map (interleave g) (map snd rows))))"
proof -
  let ?cap = "pass_x g * pass_y g * out_n g" and ?xy = "pass_x g * pass_y g"
  have g: "depth g = 8" "sample_bytes g = 1" "out_n g \<le> img_n g + 1" "0 < img_n g" "out_n g = img_n g \<or> out_n g = img_n g + 1" "0 < pass_x g"
    using assms(1) by (auto simp: bytes_ok_def sample_bytes_def)
  have rows: "\<forall>(t, row) \<in> set rows. t \<le> 4 \<and> row_ok g row" "\<forall>(t, row) \<in> set rows. row_ok g row" "length rows = pass_y g"
    using assms(2) by (auto simp: image_ok_def)
  have "?cap \<le> ?xy * (8 * img_n g + 8)" using g(3) by (intro mult_le_mono) simp_all
  from le_less_trans [OF this assms(4)] have "?cap < 2 ^ 32" .
  note cap = mod_less [OF this] this
  have "img_n g * pass_x g * 8 + 7 < 2 ^ 32"
  proof -
    have "pass_x g \<le> ?xy" using assms(3) by simp
    then have "img_n g * pass_x g * 8 + 8 \<le> ?xy * (8 * img_n g + 8)"
      using g(6) by (simp add: algebra_simps add_mono mult_le_mono trans_le_add2)
    then show ?thesis using assms(4) by simp
  qed
  then have width: "img_width_bytes g = img_n g * pass_x g" using g(1) by (simp add: img_width_bytes_def)
  have len: "length raw = (img_n g * pass_x g + 1) * pass_y g" using filter_rows_length [OF rows(2)] rows(3) assms(6) by (simp add: filter_image_def)
  have "(img_n g * pass_x g + 1) * pass_y g \<le> ?xy * (8 * img_n g + 8)"
  proof -
    have "pass_y g \<le> ?xy" using g(6) by simp
    then show ?thesis by (simp add: algebra_simps add_mono trans_le_add1)
  qed
  then have total: "wrap32 ((img_width_bytes g + 1) * pass_y g) = length raw" using assms(4) len width by simp
  have prev: "before_row g ?cap True [] (replicate (pass_x g) (replicate (img_n g) 0))"
    using assms(3) by (simp add: before_row_def row_ok_def)
  have "unfilter_rows g raw [0..<0 + length rows] 0 (written_to ?cap []) =
      (Inr (), written_to ?cap ([] @ concat (map (interleave g) (map snd rows))))"
    using prev cap(2) rows(3) assms(6)
    by (intro unfilter_rows_restores [OF assms(1) rows(1), where before = "[]" and prev = "replicate (pass_x g) (replicate (img_n g) 0)"])
      (simp_all add: filter_image_def mult.commute mult.left_commute)
  moreover have "length (concat (map (interleave g) (map snd rows))) = ?cap"
  proof -
    have "\<forall>xs \<in> set (map (interleave g) (map snd rows)). length xs = pass_x g * out_n g"
      using rows(2) interleave_pixels(1) [OF assms(1)] by auto
    from length_concat_chunks [OF this] show ?thesis using rows(3) by (simp add: ac_simps)
  qed
  moreover have "widen_samples g = returnE ()" using g(1) by (simp add: widen_samples_def)
  ultimately show ?thesis
    using g(2,5) assms(5) cap(1) total rows(3)
    by (auto simp: create_png_image_raw_def run_px_def bindE_return written_to_def Let_def)
qed

end
