(* ===== verification/PngBits.thy ===== *)
theory PngBits
  imports PngFilters
begin

text \<open>
  What the PNG decoder makes of pictures with one channel and samples of 1, 2 or 4 bits. The rows are
  unfiltered at the right end of their place in the array and then expanded in place. The pointer to
  the row above is not moved along, so the filters that use it read bytes that were never written.
\<close>

subsection \<open>Rows in the array\<close>


definition running :: "u8 list \<Rightarrow> u8 list" where
  "running bs = map (\<lambda>k. sum_list (take (Suc k) bs)) [0..<length bs]"

text \<open>
  The bytes of row \<open>j\<close>: the filters \<open>none\<close> and \<open>sub\<close> work; in the first row \<open>up\<close> is \<open>none\<close>; the other
  filters lose the row.
\<close>

definition row_values :: "nat \<Rightarrow> nat \<Rightarrow> u8 list \<Rightarrow> buffer" where
  "row_values j t bs =
     (if t = 1 then map Some (running bs) else if t = 0 \<or> j = 0 then map Some bs else replicate (length bs) None)"






lemma row_values_length [simp]: "length (row_values j t bs) = length bs"
  by (simp add: row_values_def running_def)


subsection \<open>Unfiltering\<close>















subsection \<open>Expanding\<close>







end
