(* ===== verification/Png.thy ===== *)
theory Png
  imports PngPixels
begin

text \<open>
  The PNG decoder of \<open>include/util/stb_image.h\<close>, lines 3929 to 3954 and 4438 to 4651: the chunks of the
  file, the steps from the compressed data to the picture, and the entry points.
\<close>

subsection \<open>Chunks\<close>

record pngchunk =
  chunk_length :: u32
  chunk_type :: u32

definition get_chunk_header :: "('u, pngchunk) im" where
  "get_chunk_header = bindE rd32be (\<lambda>l. bindE rd32be (\<lambda>t. returnE \<lparr>chunk_length = l, chunk_type = t\<rparr>))"

definition png_sig :: "u8 list" where
  "png_sig = [137, 80, 78, 71, 13, 10, 26, 10]"

fun check_sig :: "u8 list \<Rightarrow> ('u, unit) im" where
  "check_sig [] = returnE ()"
| "check_sig (b # bs) = bindE rd8 (\<lambda>c. if c \<noteq> b then failE ''bad png sig'' else check_sig bs)"

definition check_png_header :: "('u, unit) im" where
  "check_png_header = check_sig png_sig"

definition png_type :: "u8 \<Rightarrow> u8 \<Rightarrow> u8 \<Rightarrow> u8 \<Rightarrow> u32" where
  "png_type a b c d = push_bit 24 (ucast a) + push_bit 16 (ucast b) + push_bit 8 (ucast c) + ucast d"

definition CgBI :: u32 where "CgBI = png_type 0x43 0x67 0x42 0x49"
definition IHDR :: u32 where "IHDR = png_type 0x49 0x48 0x44 0x52"
definition PLTE :: u32 where "PLTE = png_type 0x50 0x4C 0x54 0x45"
definition tRNS :: u32 where "tRNS = png_type 0x74 0x52 0x4E 0x53"
definition IDAT :: u32 where "IDAT = png_type 0x49 0x44 0x41 0x54"
definition IEND :: u32 where "IEND = png_type 0x49 0x45 0x4E 0x44"

text \<open>\<open>stbi__skip\<close> takes an \<open>int\<close>.\<close>

definition skip_chunk :: "u32 \<Rightarrow> ('u, unit) im" where
  "skip_chunk l = skipE (sint l)"

datatype scan = SCAN_load | SCAN_type | SCAN_header

text \<open>
  The decoder's state: \<open>stbi__png\<close>, the picture's part of the context, and the variables of
  \<open>stbi__parse_png_file\<close>. \<open>ioff\<close> is the length of the compressed data read so far; \<open>idata\<close> is \<open>None\<close>
  for a null pointer.
\<close>

record png =
  first :: bool
  is_iphone :: bool
  width :: nat
  height :: nat
  channels :: nat
  out_channels :: nat
  bit_depth :: nat
  colour_type :: nat
  interlace :: bool
  palette :: "u8 option list"
  pal_len :: nat
  pal_img_n :: nat
  has_trans :: bool
  tc :: "u8 option list"
  tc16 :: "16 word option list"
  idata :: "u8 list option"
  idata_limit :: nat
  out :: buffer

definition new_png :: png where
  "new_png = \<lparr>first = True, is_iphone = False, width = 0, height = 0, channels = 0, out_channels = 0, bit_depth = 0,
     colour_type = 0, interlace = False, palette = replicate 1024 None, pal_len = 0, pal_img_n = 0, has_trans = False,
     tc = replicate 3 None, tc16 = replicate 3 None, idata = None, idata_limit = 0, out = []\<rparr>"

definition guard_first :: "png \<Rightarrow> ('u, unit) im" where
  "guard_first z = (if first z then failE ''first not IHDR'' else returnE ())"

text \<open>A chunk's value tells whether the parser returns with it.\<close>

definition read_ihdr :: "scan \<Rightarrow> u32 \<Rightarrow> png \<Rightarrow> ('u, png \<times> bool) im" where
  "read_ihdr scan l z =
     (if \<not> first z then failE ''multiple IHDR'' else
      if l \<noteq> 13 then failE ''bad IHDR len'' else
      bindE rd32be (\<lambda>x. if unat x > 2 ^ 24 then failE ''too large'' else
      bindE rd32be (\<lambda>y. if unat y > 2 ^ 24 then failE ''too large'' else
      bindE rd8 (\<lambda>d. if unat d \<notin> {1, 2, 4, 8, 16} then failE ''1/2/4/8/16-bit only'' else
      bindE rd8 (\<lambda>c. if c > 6 then failE ''bad ctype'' else
      if c = 3 \<and> d = 16 then failE ''bad ctype'' else
      if c \<noteq> 3 \<and> c AND 1 \<noteq> 0 then failE ''bad ctype'' else
      bindE rd8 (\<lambda>compression. if compression \<noteq> 0 then failE ''bad comp method'' else
      bindE rd8 (\<lambda>filter. if filter \<noteq> 0 then failE ''bad filter method'' else
      bindE rd8 (\<lambda>inter. if inter > 1 then failE ''bad interlace method'' else
      if x = 0 \<or> y = 0 then failE ''0-pixel image'' else
      let n = (if c = 3 then 1 else (if c AND 2 \<noteq> 0 then 3 else 1) + (if c AND 4 \<noteq> 0 then 1 else 0));
          z = z\<lparr>first := False, width := unat x, height := unat y, channels := n, bit_depth := unat d,
                colour_type := unat c, interlace := (inter = 1), pal_img_n := (if c = 3 then 3 else 0)\<rparr>
      in if 2 ^ 30 div unat x div (if c = 3 then 4 else n) < unat y then failE ''too large''
         else returnE (z, c \<noteq> 3 \<and> scan = SCAN_header)))))))))"

definition set_entry :: "nat \<Rightarrow> u8 list \<Rightarrow> u8 option list \<Rightarrow> u8 option list" where
  "set_entry i bs p = take i p @ map Some bs @ drop (i + length bs) p"

fun read_entries :: "nat \<Rightarrow> nat \<Rightarrow> u8 option list \<Rightarrow> ('u, u8 option list) im" where
  "read_entries i 0 p = returnE p"
| "read_entries i (Suc n) p =
     bindE rd8 (\<lambda>r. bindE rd8 (\<lambda>g. bindE rd8 (\<lambda>b. read_entries (Suc i) n (set_entry (4 * i) [r, g, b, 255] p))))"

definition read_plte :: "u32 \<Rightarrow> png \<Rightarrow> ('u, png \<times> bool) im" where
  "read_plte l z =
     bindE (guard_first z) (\<lambda>_.
     if unat l > 256 * 3 then failE ''invalid PLTE'' else
     let n = unat l div 3 in
     if n * 3 \<noteq> unat l then failE ''invalid PLTE'' else
     bindE (read_entries 0 n (palette z)) (\<lambda>p. returnE (z\<lparr>pal_len := n, palette := p\<rparr>, False)))"

fun read_alphas :: "nat \<Rightarrow> nat \<Rightarrow> u8 option list \<Rightarrow> ('u, u8 option list) im" where
  "read_alphas i 0 p = returnE p"
| "read_alphas i (Suc n) p = bindE rd8 (\<lambda>a. read_alphas (Suc i) n (p[4 * i + 3 := Some a]))"

fun read_tc16 :: "nat \<Rightarrow> nat \<Rightarrow> 16 word option list \<Rightarrow> ('u, 16 word option list) im" where
  "read_tc16 k 0 t = returnE t"
| "read_tc16 k (Suc n) t = bindE rd16be (\<lambda>v. read_tc16 (Suc k) n (t[k := Some (word_of_int v)]))"

fun read_tc :: "u8 \<Rightarrow> nat \<Rightarrow> nat \<Rightarrow> u8 option list \<Rightarrow> ('u, u8 option list) im" where
  "read_tc scale k 0 t = returnE t"
| "read_tc scale k (Suc n) t = bindE rd16be (\<lambda>v. read_tc scale (Suc k) n (t[k := Some (word_of_int (v AND 255) * scale)]))"

definition read_trns :: "scan \<Rightarrow> u32 \<Rightarrow> png \<Rightarrow> ('u, png \<times> bool) im" where
  "read_trns scan l z =
     bindE (guard_first z) (\<lambda>_.
     if idata z \<noteq> None then failE ''tRNS after IDAT'' else
     if pal_img_n z \<noteq> 0 then
       if scan = SCAN_header then returnE (z\<lparr>channels := 4\<rparr>, True) else
       if pal_len z = 0 then failE ''tRNS before PLTE'' else
       if unat l > pal_len z then failE ''bad tRNS len'' else
       bindE (read_alphas 0 (unat l) (palette z)) (\<lambda>p. returnE (z\<lparr>pal_img_n := 4, palette := p\<rparr>, False))
     else
       if channels z mod 2 = 0 then failE ''tRNS with alpha'' else
       if unat l \<noteq> channels z * 2 then failE ''bad tRNS len'' else
       if bit_depth z = 16 then
         bindE (read_tc16 0 (channels z) (tc16 z)) (\<lambda>t. returnE (z\<lparr>has_trans := True, tc16 := t\<rparr>, False))
       else
         bindE (read_tc (depth_scale_table ! bit_depth z) 0 (channels z) (tc z)) (\<lambda>t. returnE (z\<lparr>has_trans := True, tc := t\<rparr>, False)))"

text \<open>The loop that doubles \<open>idata_limit\<close>; a limit is positive and below the size it has to reach.\<close>

function double_limit :: "nat \<Rightarrow> nat \<Rightarrow> nat" where
  "double_limit need limit = (if 0 < limit \<and> limit < need then double_limit need (limit * 2) else limit)"
  by pat_completeness auto
termination by (relation "measure (\<lambda>(need, limit). need - limit)") auto

declare double_limit.simps [simp del]

definition ioff :: "png \<Rightarrow> nat" where
  "ioff z = (case idata z of None \<Rightarrow> 0 | Some d \<Rightarrow> length d)"

definition read_idat :: "(nat \<Rightarrow> bool) \<Rightarrow> scan \<Rightarrow> u32 \<Rightarrow> png \<Rightarrow> ('u, png \<times> bool) im" where
  "read_idat al scan l z =
     bindE (guard_first z) (\<lambda>_.
     if pal_img_n z \<noteq> 0 \<and> pal_len z = 0 then failE ''no PLTE'' else
     if scan = SCAN_header then returnE (z\<lparr>channels := pal_img_n z\<rparr>, True) else
     if sint (word_of_nat (ioff z) + l) < sint (word_of_nat (ioff z) :: u32) then failE [] else
     let need = ioff z + unat l;
         limit = (if need > idata_limit z
                  then double_limit need (if idata_limit z = 0 then max (unat l) 4096 else idata_limit z) else idata_limit z)
     in bindE (if need > idata_limit z \<and> \<not> al limit then failE ''outofmem'' else returnE ()) (\<lambda>_.
        let old = (if need > idata_limit z then Some (case idata z of None \<Rightarrow> [] | Some d \<Rightarrow> d) else idata z)
        in bindE (runE (getn (unat l))) (\<lambda>data. case data of
             None \<Rightarrow> failE ''outofdata''
           | Some data \<Rightarrow> returnE (z\<lparr>idata := map_option (\<lambda>d. d @ data) old, idata_limit := limit\<rparr>, False))))"

text \<open>The size argument of the decompressor is an \<open>int\<close> that becomes a 64-bit \<open>size_t\<close>.\<close>

definition size_arg :: "nat \<Rightarrow> nat" where
  "size_arg n = (if n < 2 ^ 31 then n else n + (2 ^ 64 - 2 ^ 32))"

definition pass_of :: "png \<Rightarrow> pass" where
  "pass_of z = \<lparr>pass_x = width z, pass_y = height z, out_n = out_channels z, img_n = channels z, depth = bit_depth z,
                color = colour_type z\<rparr>"

definition raw_guess :: "png \<Rightarrow> nat" where
  "raw_guess z = wrap32 (wrap32 (width z * bit_depth z + 7) div 8 * height z * channels z + height z)"

definition pixel_count :: "png \<Rightarrow> nat" where
  "pixel_count z = wrap32 (width z * height z)"

definition choose_channels :: "nat \<Rightarrow> png \<Rightarrow> png" where
  "choose_channels req_comp z =
     z\<lparr>out_channels := (if (req_comp = channels z + 1 \<and> req_comp \<noteq> 3 \<and> pal_img_n z = 0) \<or> has_trans z
                         then channels z + 1 else channels z)\<rparr>"

definition finish_png :: "(nat \<Rightarrow> bool) \<Rightarrow> globals \<Rightarrow> nat \<Rightarrow> u8 list \<Rightarrow> png \<Rightarrow> stb_err + png" where
  "finish_png al gl req_comp expanded z0 =
     (let z = choose_channels req_comp z0;
          n = out_channels z;
          recolour = bindE (if has_trans z then
                              if bit_depth z = 16 then compute_transparency16 (tc16 z) n (pixel_count z)
                              else compute_transparency (tc z) n (pixel_count z)
                            else returnE ()) (\<lambda>_.
                     if is_iphone z \<and> de_iphone_flag gl \<and> n > 2 then de_iphone gl n (pixel_count z) else returnE ())
      in case create_png_image al (pass_of z) expanded (interlace z) of Inl e \<Rightarrow> Inl e | Inr buf \<Rightarrow>
         case run_px recolour buf of Inl e \<Rightarrow> Inl e | Inr buf \<Rightarrow>
         if pal_img_n z \<noteq> 0 then
           let z = z\<lparr>channels := pal_img_n z, out_channels := (if req_comp \<ge> 3 then req_comp else pal_img_n z)\<rparr>
           in case expand_png_palette al (palette z) (out_channels z) (pixel_count z) buf of Inl e \<Rightarrow> Inl e
              | Inr buf \<Rightarrow> Inr (z\<lparr>out := buf\<rparr>)
         else Inr (z\<lparr>out := buf\<rparr>))"

definition read_iend :: "nat \<Rightarrow> (nat \<Rightarrow> bool) \<Rightarrow> globals \<Rightarrow> scan \<Rightarrow> nat \<Rightarrow> png \<Rightarrow> ('u, png \<times> bool) im" where
  "read_iend fuel al gl scan req_comp z =
     bindE (guard_first z) (\<lambda>_.
     if scan \<noteq> SCAN_load then returnE (z, True) else
     case idata z of None \<Rightarrow> failE ''no IDAT'' | Some d \<Rightarrow>
     bindE (liftE (zlib_decode_malloc_guesssize_headerflag fuel al d (size_arg (raw_guess z)) (\<not> is_iphone z))) (\<lambda>expanded.
     bindE (liftE (finish_png al gl req_comp expanded (z\<lparr>idata := None\<rparr>))) (\<lambda>z. returnE (z, True))))"

text \<open>An unknown chunk is skipped if bit 5 of the first letter of its type is set; else the type is reported.\<close>

definition skip_unknown :: "pngchunk \<Rightarrow> png \<Rightarrow> ('u, png \<times> bool) im" where
  "skip_unknown c z =
     bindE (guard_first z) (\<lambda>_.
     if chunk_type c AND push_bit 29 1 = 0 then failE ''XXXX PNG chunk not known''
     else bindE (skip_chunk (chunk_length c)) (\<lambda>_. returnE (z, False)))"

definition read_chunk :: "nat \<Rightarrow> (nat \<Rightarrow> bool) \<Rightarrow> globals \<Rightarrow> scan \<Rightarrow> nat \<Rightarrow> png \<Rightarrow> ('u, png \<times> bool) im" where
  "read_chunk fuel al gl scan req_comp z =
     bindE get_chunk_header (\<lambda>c.
     bindE (if chunk_type c = CgBI then bindE (skip_chunk (chunk_length c)) (\<lambda>_. returnE (z\<lparr>is_iphone := True\<rparr>, False))
            else if chunk_type c = IHDR then read_ihdr scan (chunk_length c) z
            else if chunk_type c = PLTE then read_plte (chunk_length c) z
            else if chunk_type c = tRNS then read_trns scan (chunk_length c) z
            else if chunk_type c = IDAT then read_idat al scan (chunk_length c) z
            else if chunk_type c = IEND then read_iend fuel al gl scan req_comp z
            else skip_unknown c z) (\<lambda>(z, stop).
     if stop then returnE (z, True) else bindE rd32be (\<lambda>_. returnE (z, False))))"

text \<open>The fuel is the number of chunks; the decompressor gets the same.\<close>

fun read_chunks :: "nat \<Rightarrow> (nat \<Rightarrow> bool) \<Rightarrow> globals \<Rightarrow> scan \<Rightarrow> nat \<Rightarrow> nat \<Rightarrow> png \<Rightarrow> ('u, png) im" where
  "read_chunks fuel al gl scan req_comp 0 z = throwE OutOfFuel"
| "read_chunks fuel al gl scan req_comp (Suc n) z =
     bindE (read_chunk fuel al gl scan req_comp z) (\<lambda>(z, stop).
     if stop then returnE z else read_chunks fuel al gl scan req_comp n z)"

definition parse_png_file :: "nat \<Rightarrow> (nat \<Rightarrow> bool) \<Rightarrow> globals \<Rightarrow> scan \<Rightarrow> nat \<Rightarrow> ('u, png) im" where
  "parse_png_file fuel al gl scan req_comp =
     bindE check_png_header (\<lambda>_.
     if scan = SCAN_type then returnE new_png else read_chunks fuel al gl scan req_comp fuel new_png)"

subsection \<open>Entry points\<close>

definition do_png :: "nat \<Rightarrow> (nat \<Rightarrow> bool) \<Rightarrow> globals \<Rightarrow> nat \<Rightarrow> ('u, picture) im" where
  "do_png fuel al gl req_comp =
     (if req_comp > 4 then failE ''bad req_comp'' else
      bindE (parse_png_file fuel al gl SCAN_load req_comp) (\<lambda>z.
      bindE (liftE (reduce_png al (bit_depth z) (wrap32 (width z * height z * out_channels z)) (out z))) (\<lambda>buf.
      bindE (if req_comp \<noteq> 0 \<and> req_comp \<noteq> out_channels z
             then convert_format al buf (out_channels z) req_comp (width z) (height z) else returnE buf) (\<lambda>buf.
      returnE \<lparr>pic_x = width z, pic_y = height z, pic_comp = channels z, pic_data = buf\<rparr>))))"

definition png_load :: "nat \<Rightarrow> (nat \<Rightarrow> bool) \<Rightarrow> globals \<Rightarrow> nat \<Rightarrow> ('u, picture) im" where
  "png_load fuel al gl req_comp = do_png fuel al gl req_comp"

definition png_test :: "'u ctx \<Rightarrow> bool \<times> 'u ctx" where
  "png_test s = (case check_png_header s of (Inl e, s') \<Rightarrow> (False, rewind s') | (Inr _, s') \<Rightarrow> (True, rewind s'))"

definition png_info_raw :: "nat \<Rightarrow> (nat \<Rightarrow> bool) \<Rightarrow> globals \<Rightarrow> 'u ctx \<Rightarrow> (nat \<times> nat \<times> nat) option \<times> 'u ctx" where
  "png_info_raw fuel al gl s =
     (case parse_png_file fuel al gl SCAN_header 0 s of
        (Inl e, s') \<Rightarrow> (None, rewind s')
      | (Inr z, s') \<Rightarrow> (Some (width z, height z, channels z), s'))"

definition png_info :: "nat \<Rightarrow> (nat \<Rightarrow> bool) \<Rightarrow> globals \<Rightarrow> 'u ctx \<Rightarrow> (nat \<times> nat \<times> nat) option \<times> 'u ctx" where
  "png_info fuel al gl s = png_info_raw fuel al gl s"

end
