(* ===== verification/PngLaws.thy ===== *)
theory PngLaws
  imports Png PngFilters ZlibFormat
begin

text \<open>
  What the PNG decoder makes of a file: the picture that was filtered and compressed into its
  IDAT chunks, however it is cut into chunks and whatever ancillary chunks lie between them.
\<close>

subsection \<open>Files\<close>

definition chunk_bytes :: "u8 list \<times> u8 list \<times> u8 list \<Rightarrow> u8 list" where
  "chunk_bytes = (\<lambda>(ty, data, crc). be32 (length data) @ ty @ data @ crc)"

definition idat_type :: "u8 list" where "idat_type = [0x49, 0x44, 0x41, 0x54]"
definition trns_type :: "u8 list" where "trns_type = [0x74, 0x52, 0x4E, 0x53]"

text \<open>Bit 5 of the first letter tells that a chunk is ancillary; \<open>tRNS\<close> is the one the decoder knows.\<close>

definition ancillary :: "u8 list \<Rightarrow> bool" where
  "ancillary ty \<longleftrightarrow> length ty = 4 \<and> bit (ty ! 0) 5 \<and> ty \<noteq> trns_type"

definition piece_ok :: "u8 list \<times> u8 list \<times> u8 list \<Rightarrow> bool" where
  "piece_ok = (\<lambda>(ty, data, crc). (ty = idat_type \<or> ancillary ty) \<and> length data < 2 ^ 31 \<and> length crc = 4)"

definition compressed :: "(u8 list \<times> u8 list \<times> u8 list) list \<Rightarrow> u8 list" where
  "compressed pieces = concat (map (\<lambda>(ty, data, crc). if ty = idat_type then data else []) pieces)"

definition ihdr :: "nat \<Rightarrow> nat \<Rightarrow> u8 \<Rightarrow> u8 \<Rightarrow> u8 \<Rightarrow> u8 list" where
  "ihdr w h b c i = be32 w @ be32 h @ [b, c, 0, 0, i]"

definition png_file :: "u8 list \<Rightarrow> u8 list \<Rightarrow> (u8 list \<times> u8 list \<times> u8 list) list \<Rightarrow> u8 list \<Rightarrow> u8 list" where
  "png_file header crc pieces end_crc =
     png_sig @ chunk_bytes ([0x49, 0x48, 0x44, 0x52], header, crc) @ concat (map chunk_bytes pieces) @
     chunk_bytes ([0x49, 0x45, 0x4E, 0x44], [], end_crc)"

subsection \<open>Chunk types\<close>

definition type_word :: "u8 list \<Rightarrow> u32" where
  "type_word ty = word_of_int (le32_value (ty ! 3) (ty ! 2) (ty ! 1) (ty ! 0))"

lemma type_words:
  "type_word [0x49, 0x48, 0x44, 0x52] = IHDR" "type_word idat_type = IDAT" "type_word [0x49, 0x45, 0x4E, 0x44] = IEND"
  by (simp_all add: type_word_def le32_value_def IHDR_def IDAT_def IEND_def png_type_def idat_type_def)

lemma type_numbers:
  "CgBI = 0x43674249" "IHDR = 0x49484452" "PLTE = 0x504C5445" "tRNS = 0x74524E53" "IDAT = 0x49444154" "IEND = 0x49454E44"
  by (simp_all add: CgBI_def IHDR_def PLTE_def tRNS_def IDAT_def IEND_def png_type_def)

lemma le32_value_bytes:
  "0 \<le> le32_value a b c d" "le32_value a b c d < 2 ^ 32"
  "le32_value a b c d mod 2 ^ 8 = uint a" "le32_value a b c d div 2 ^ 8 mod 2 ^ 8 = uint b"
  "le32_value a b c d div 2 ^ 16 mod 2 ^ 8 = uint c" "le32_value a b c d div 2 ^ 24 = uint d"
proof -
  have digit: "(uint x + 256 * q) mod 256 = uint x" "(uint x + 256 * q) div 256 = q" for x :: u8 and q
    using uint_lt2p [of x] by simp_all
  have p: "(2 :: int) ^ 8 = 256" "(2 :: int) ^ 16 = 65536" "(2 :: int) ^ 24 = 16777216" by simp_all
  have v: "le32_value a b c d = uint a + 256 * (uint b + 256 * (uint c + 256 * uint d))" by (simp add: le32_value_def)
  have div16: "n div 65536 = n div 256 div 256" and div24: "n div 16777216 = n div 256 div 256 div 256" for n :: int
    by (simp_all flip: zdiv_zmult2_eq)
  show "le32_value a b c d mod 2 ^ 8 = uint a" "le32_value a b c d div 2 ^ 8 mod 2 ^ 8 = uint b"
    "le32_value a b c d div 2 ^ 16 mod 2 ^ 8 = uint c" "le32_value a b c d div 2 ^ 24 = uint d"
    by (simp_all only: p v digit div16 div24)
  show "0 \<le> le32_value a b c d" by (simp add: v)
  show "le32_value a b c d < 2 ^ 32"
    using uint_lt2p [of a] uint_lt2p [of b] uint_lt2p [of c] uint_lt2p [of d] by (simp add: le32_value_def)
qed

lemma ancillary_word:
  assumes "ancillary ty"
  shows "type_word ty AND push_bit 29 1 \<noteq> 0" and "type_word ty \<notin> {CgBI, IHDR, PLTE, tRNS, IDAT, IEND}"
proof -
  obtain a b c d where ty: "ty = [a, b, c, d]" using assms by (auto simp: ancillary_def length_Suc_conv numeral_eq_Suc)
  let ?v = "le32_value d c b a"
  have w: "type_word ty = word_of_int ?v" by (simp add: type_word_def ty)
  have v: "uint (word_of_int ?v :: u32) = ?v"
    using le32_value_bytes(1,2) [of d c b a] by (simp add: uint_word_of_int)
  have "bit (uint a) 5" using assms by (simp add: ancillary_def ty bit_uint_iff)
  then have "bit (?v div 2 ^ 24) 5" by (simp only: le32_value_bytes(6))
  then have "bit ?v 29" by (simp add: bit_iff_odd div_mult2_eq [symmetric] zdiv_zmult2_eq [symmetric])
  then have bit: "bit (type_word ty) 29" by (simp add: w bit_word_of_int_iff)
  then have "bit (type_word ty AND push_bit 29 1) 29" by (simp add: bit_simps)
  then show ancillary_bit: "type_word ty AND push_bit 29 1 \<noteq> 0" by auto
  have "type_word ty \<noteq> tRNS"
  proof
    assume "type_word ty = tRNS"
    then have "uint (type_word ty) = uint (0x74524E53 :: u32)" by (simp add: type_numbers)
    then have "?v = 0x74524E53" unfolding w v by simp
    with le32_value_bytes [of d c b a] have "uint d = 0x53" "uint c = 0x4E" "uint b = 0x52" "uint a = 0x74" by simp_all
    then have "ty = trns_type" by (simp add: ty trns_type_def word_uint_eq_iff)
    then show False using assms by (simp add: ancillary_def)
  qed
  moreover have "type_word ty \<noteq> w" if "w AND push_bit 29 1 = 0" for w
    using ancillary_bit that by auto
  ultimately show "type_word ty \<notin> {CgBI, IHDR, PLTE, tRNS, IDAT, IEND}" by (simp add: type_numbers)
qed

subsection \<open>Reading the chunks\<close>

lemma ensures_word:
  "reads s (ty @ bs) \<Longrightarrow> length ty = 4 \<Longrightarrow> (\<And>s'. reads s' bs \<Longrightarrow> Q (type_word ty) s') \<Longrightarrow> ensures rd32be s Q"
  using get32be_reads [of s "ty ! 0" "ty ! 1" "ty ! 2" "ty ! 3" bs]
  by (auto simp: ensures_def runE_apply type_word_def length_Suc_conv numeral_eq_Suc)

lemma ensures_chunk_header:
  assumes "reads s (be32 n @ ty @ bs)" and "n < 2 ^ 32" and "length ty = 4"
    and "\<And>s'. reads s' bs \<Longrightarrow> Q \<lparr>chunk_length = word_of_nat n, chunk_type = type_word ty\<rparr> s'"
  shows "ensures get_chunk_header s Q"
  unfolding get_chunk_header_def
  by (intro ensures_bind ensures_rd32be [OF assms(1,2)] ensures_word [OF _ assms(3)] ensures_return assms(4))

lemma ensures_skip_chunk:
  "reads s (xs @ bs) \<Longrightarrow> length xs = n \<Longrightarrow> n < 2 ^ 31 \<Longrightarrow> (\<And>s'. reads s' bs \<Longrightarrow> Q () s') \<Longrightarrow> ensures (skip_chunk (word_of_nat n)) s Q"
  using ensures_skip [of s xs bs] sint_small [of n] by (simp add: skip_chunk_def)

lemma ensures_sig: "reads s (sig @ bs) \<Longrightarrow> (\<And>s'. reads s' bs \<Longrightarrow> Q () s') \<Longrightarrow> ensures (check_sig sig) s Q"
  by (induction sig arbitrary: s) (auto intro!: ensures_bind ensures_return elim!: ensures_rd8)

text \<open>The state after the header, and while the compressed data are collected.\<close>

definition after_header :: "nat \<Rightarrow> nat \<Rightarrow> nat \<Rightarrow> u8 \<Rightarrow> u8 \<Rightarrow> u8 \<Rightarrow> png" where
  "after_header w h n b c i = new_png\<lparr>first := False, width := w, height := h, channels := n, bit_depth := unat b,
     colour_type := unat c, interlace := (i = 1)\<rparr>"

lemma after_header_simps [simp]:
  "width (after_header w h n b c i) = w" "height (after_header w h n b c i) = h" "channels (after_header w h n b c i) = n"
  "bit_depth (after_header w h n b c i) = unat b" "colour_type (after_header w h n b c i) = unat c"
  "interlace (after_header w h n b c i) = (i = 1)"
  by (simp_all add: after_header_def)

definition collecting :: "png \<Rightarrow> u8 list \<Rightarrow> png \<Rightarrow> bool" where
  "collecting base d z \<longleftrightarrow> (\<exists>w h n b c i limit. base = after_header w h n b c i \<and>
     (if d = [] then limit = 0 else 0 < limit \<and> length d \<le> limit) \<and>
     z = base\<lparr>idata := (if d = [] then None else Some d), idata_limit := limit\<rparr>)"

lemma collecting_simps:
  assumes "collecting base d z"
  shows "\<not> first z" "\<not> is_iphone z" "width z = width base" "height z = height base" "channels z = channels base"
    "bit_depth z = bit_depth base" "interlace z = interlace base" "pal_img_n z = 0" "\<not> has_trans z" "ioff z = length d"
    "idata z = (if d = [] then None else Some d)" "length d \<le> idata_limit z" "d = [] \<longleftrightarrow> idata_limit z = 0"
    "colour_type z = colour_type base"
  using assms by (auto simp: collecting_def after_header_def new_png_def ioff_def split: if_splits)

lemma collecting_more:
  "collecting base d z \<Longrightarrow> d' \<noteq> [] \<Longrightarrow> 0 < limit \<Longrightarrow> length d' \<le> limit \<Longrightarrow>
     collecting base d' (z\<lparr>idata := Some d', idata_limit := limit\<rparr>)"
  by (auto simp: collecting_def)

lemma collecting_start: "collecting (after_header w h n b c i) [] (after_header w h n b c i)"
  unfolding collecting_def by (intro exI conjI, rule refl, simp) (simp add: after_header_def new_png_def)

lemma double_limit_reaches: "0 < l \<Longrightarrow> need \<le> double_limit need l \<and> l \<le> double_limit need l \<and> double_limit need l \<le> max l (2 * need)"
proof (induction need l rule: double_limit.induct)
  case (1 need l)
  show ?case
  proof (cases "l < need")
    case True
    then show ?thesis using 1 by (subst (1 2 3) double_limit.simps) (auto simp: max_def split: if_splits)
  next
    case False
    then show ?thesis using 1(2) by (subst (1 2 3) double_limit.simps) simp
  qed
qed

lemma read_idat_reads:
  fixes s :: "'u ctx"
  assumes "collecting base d z" and "reads s (data @ rest)" and "length d + length data < 2 ^ 31" and "\<forall>k < 2 ^ 32. al k"
    and "\<And>s' z'. reads s' rest \<Longrightarrow> collecting base (d @ data) z' \<Longrightarrow> Q (z', False) s'"
  shows "ensures (read_idat al SCAN_load (word_of_nat (length data)) z) s Q"
proof -
  note z = collecting_simps [OF assms(1)]
  let ?l = "word_of_nat (length data) :: u32"
  have len: "unat ?l = length data" using assms(3) by (simp add: unat_of_nat)
  have "sint (word_of_nat (length d) + ?l) = int (length d + length data)"
    using sint_small [OF assms(3)] by (simp only: of_nat_add)
  moreover have "sint (word_of_nat (length d) :: u32) = int (length d)" using assms(3) by (intro sint_small) simp
  ultimately have order: "\<not> sint (word_of_nat (length d) + ?l) < sint (word_of_nat (length d) :: u32)" by simp
  define need where "need = length d + length data"
  define start where "start = (if idata_limit z = 0 then max (length data) 4096 else idata_limit z)"
  define limit where "limit = (if need > idata_limit z then double_limit need start else idata_limit z)"
  define old where "old = (if need > idata_limit z then Some (case idata z of None \<Rightarrow> [] | Some d \<Rightarrow> d) else idata z)"
  have start: "0 < start" by (simp add: start_def less_max_iff_disj)
  have al: "\<not> (need > idata_limit z \<and> \<not> al limit)"
  proof -
    have "limit < 2 ^ 32" if "need > idata_limit z"
    proof -
      have "start < 2 ^ 32" "need < 2 ^ 31" using that assms(3) by (simp_all add: start_def need_def)
      then show ?thesis using double_limit_reaches [OF start, of need] that by (simp add: limit_def max_def split: if_splits)
    qed
    then show ?thesis using assms(4) by auto
  qed
  have more: "collecting base (d @ data) (z\<lparr>idata := map_option (\<lambda>d. d @ data) old, idata_limit := limit\<rparr>)"
  proof (cases "need > idata_limit z")
    case True
    then have "0 < limit" "need \<le> limit" "old = Some d" "d @ data \<noteq> []"
      using double_limit_reaches [OF start, of need] z(11) start
      by (auto simp: limit_def old_def need_def)
    then show ?thesis using collecting_more [OF assms(1), of "d @ data" limit] by (simp add: need_def)
  next
    case False
    show ?thesis
    proof (cases "d = []")
      case True
      then have "data = []" "z\<lparr>idata := map_option (\<lambda>d. d @ data) old, idata_limit := limit\<rparr> = z"
        using False z(11,13) by (simp_all add: need_def limit_def old_def)
      then show ?thesis using assms(1) by simp
    next
      case ne: False
      then show ?thesis using False z(11,12,13) collecting_more [OF assms(1), of "d @ data" limit] by (simp add: need_def limit_def old_def)
    qed
  qed
  obtain s' where s': "getn (length data) s = (Some data, s')" "reads s' rest" using getn_reads [OF assms(2)] by blast
  have "ensures (runE (getn (length data))) s (\<lambda>r t. r = Some data \<and> reads t rest)" using s' by (simp add: ensures_def runE_apply)
  then have data: "ensures (bindE (runE (getn (length data))) (\<lambda>r. case r of None \<Rightarrow> failE ''outofdata''
      | Some data \<Rightarrow> returnE (z\<lparr>idata := map_option (\<lambda>d. d @ data) old, idata_limit := limit\<rparr>, False))) s Q"
    by (intro ensures_bind) (erule ensures_mono, auto intro!: ensures_return assms(5) more)
  have "(read_idat al SCAN_load ?l z :: ('u, png \<times> bool) im) = bindE (runE (getn (length data))) (\<lambda>r. case r of None \<Rightarrow> failE ''outofdata''
      | Some data \<Rightarrow> returnE (z\<lparr>idata := map_option (\<lambda>d. d @ data) old, idata_limit := limit\<rparr>, False))"
    unfolding read_idat_def guard_first_def Let_def z(10) len need_def [symmetric] start_def [symmetric] limit_def [symmetric] old_def [symmetric]
    by (simp only: z(1,8) if_False bindE_Inr order al scan.distinct simp_thms)
  then show ?thesis using data by simp
qed

text \<open>A chunk between the header and the end.\<close>

definition piece_data :: "u8 list \<times> u8 list \<times> u8 list \<Rightarrow> u8 list" where
  "piece_data = (\<lambda>(ty, data, crc). if ty = idat_type then data else [])"

lemma ensures_crc: "reads s (crc @ bs) \<Longrightarrow> length crc = 4 \<Longrightarrow> (\<And>a s'. reads s' bs \<Longrightarrow> Q a s') \<Longrightarrow> ensures rd32be s Q"
  by (rule ensures_word)

lemma read_piece:
  assumes "piece_ok p" and "collecting base d z" and "reads s (chunk_bytes p @ rest)" and "length d + length (piece_data p) < 2 ^ 31"
    and "\<forall>k < 2 ^ 32. al k"
    and "\<And>s' z'. reads s' rest \<Longrightarrow> collecting base (d @ piece_data p) z' \<Longrightarrow> Q (z', False) s'"
  shows "ensures (read_chunk fuel al gl SCAN_load req_comp z) s Q"
proof -
  obtain ty data crc where p: "p = (ty, data, crc)" by (cases p)
  have ok: "ty = idat_type \<or> ancillary ty" "length data < 2 ^ 31" "length crc = 4" using assms(1) by (auto simp: piece_ok_def p)
  have ty: "length ty = 4" using ok(1) by (auto simp: ancillary_def idat_type_def)
  have bytes: "reads s (be32 (length data) @ ty @ data @ crc @ rest)" using assms(3) by (simp add: chunk_bytes_def p)
  let ?l = "word_of_nat (length data) :: u32"
  have body: "ensures (if type_word ty = CgBI then bindE (skip_chunk ?l) (\<lambda>_. returnE (z\<lparr>is_iphone := True\<rparr>, False))
      else if type_word ty = IHDR then read_ihdr SCAN_load ?l z
      else if type_word ty = PLTE then read_plte ?l z
      else if type_word ty = tRNS then read_trns SCAN_load ?l z
      else if type_word ty = IDAT then read_idat al SCAN_load ?l z
      else if type_word ty = IEND then read_iend fuel al gl SCAN_load req_comp z
      else skip_unknown \<lparr>chunk_length = ?l, chunk_type = type_word ty\<rparr> z) s'
      (\<lambda>(z', stop) s''. \<not> stop \<and> collecting base (d @ piece_data p) z' \<and> reads s'' (crc @ rest))"
    if r: "reads s' (data @ crc @ rest)" for s'
  proof (cases "ty = idat_type")
    case True
    have "type_word ty = IDAT" "IDAT \<noteq> CgBI" "IDAT \<noteq> IHDR" "IDAT \<noteq> PLTE" "IDAT \<noteq> tRNS" by (simp add: True type_words) (simp_all add: type_numbers)
    moreover have "ensures (read_idat al SCAN_load ?l z) s' (\<lambda>(z', stop) s''. \<not> stop \<and> collecting base (d @ piece_data p) z' \<and> reads s'' (crc @ rest))"
      using assms(4,5) by (intro read_idat_reads [OF assms(2) r]) (simp_all add: True p piece_data_def)
    ultimately show ?thesis by simp
  next
    case False
    then have a: "ancillary ty" using ok(1) by simp
    have "ensures (skip_unknown \<lparr>chunk_length = ?l, chunk_type = type_word ty\<rparr> z) s'
        (\<lambda>(z', stop) s''. \<not> stop \<and> collecting base (d @ piece_data p) z' \<and> reads s'' (crc @ rest))"
      using ancillary_word(1) [OF a] collecting_simps(1) [OF assms(2)] False assms(2)
      by (auto simp: skip_unknown_def guard_first_def p piece_data_def
          intro!: ensures_bind ensures_skip_chunk [OF r refl ok(2)] ensures_return)
    then show ?thesis using ancillary_word(2) [OF a] by simp
  qed
  show ?thesis
    unfolding read_chunk_def
    apply (rule ensures_bind, rule ensures_chunk_header [OF bytes _ ty])
    using ok(2) apply simp
    apply (simp only: pngchunk.simps)
    apply (rule ensures_bind, rule ensures_mono [OF body], assumption)
    apply (auto intro!: ensures_bind ensures_crc [OF _ ok(3)] ensures_return assms(6))
    done
qed

lemma compressed_simps: "compressed [] = []" "compressed (p # ps) = piece_data p @ compressed ps"
  by (simp_all add: compressed_def piece_data_def split: prod.split)

lemma read_pieces:
  assumes "list_all piece_ok pieces" and "collecting base d z" and "reads s (concat (map chunk_bytes pieces) @ rest)"
    and "length d + length (compressed pieces) < 2 ^ 31" and "\<forall>k < 2 ^ 32. al k"
    and "\<And>s' z'. reads s' rest \<Longrightarrow> collecting base (d @ compressed pieces) z' \<Longrightarrow> ensures (read_chunks fuel al gl SCAN_load req_comp m z') s' Q"
  shows "ensures (read_chunks fuel al gl SCAN_load req_comp (length pieces + m) z) s Q"
  using assms(1-4,6)
proof (induction pieces arbitrary: d z s)
  case (Cons p ps)
  have r: "reads s (chunk_bytes p @ concat (map chunk_bytes ps) @ rest)" using Cons.prems(3) by simp
  show ?case
    using Cons.prems(1,4,5)
    by (auto simp: compressed_simps intro!: ensures_bind read_piece [OF _ Cons.prems(2) r _ assms(5)] Cons.IH)
qed (simp add: compressed_simps)

text \<open>The header, for 8-bit grey, RGB, grey with alpha and RGB with alpha.\<close>

definition colour_channels :: "u8 \<Rightarrow> nat \<Rightarrow> bool" where
  "colour_channels c n \<longleftrightarrow> (c, n) \<in> {(0, 1), (2, 3), (4, 2), (6, 4)}"

lemma read_ihdr_reads:
  assumes "reads s (ihdr w h b c i @ rest)" and "colour_channels c n \<and> (b = 8 \<or> b = 16) \<and> (i = 0 \<or> i = 1)" and "0 < w" and "w \<le> 2 ^ 24" and "0 < h" and "h \<le> 2 ^ 24"
    and "w * h * n \<le> 2 ^ 30" and "\<And>s' z'. reads s' rest \<Longrightarrow> collecting (after_header w h n b c i) [] z' \<Longrightarrow> Q (z', False) s'"
  shows "ensures (read_ihdr SCAN_load 13 new_png) s Q"
proof -
  have wh: "unat (word_of_nat w :: u32) = w" "unat (word_of_nat h :: u32) = h" "word_of_nat w \<noteq> (0 :: u32)" "word_of_nat h \<noteq> (0 :: u32)"
    using assms(3-6) by (simp_all add: unat_of_nat) (simp_all add: unat_eq_0 [symmetric] unat_of_nat)
  have n: "0 < n" using assms(2) by (auto simp: colour_channels_def)
  have big: "\<not> 2 ^ 30 div w div n < h"
    using assms(3,7) n by (simp add: not_less less_eq_div_iff_mult_less_eq ac_simps flip: div_mult2_eq)
  have c: "\<not> c > 6" "c \<noteq> 3" "c AND 1 = 0" "(if c AND 2 \<noteq> 0 then 3 else 1) + (if c AND 4 \<noteq> 0 then 1 else 0) = n"
    using assms(2) by (auto simp: colour_channels_def)
  have z: "new_png\<lparr>first := False, width := w, height := h, channels := n, bit_depth := unat b,
    colour_type := unat c, interlace := (i = 1), pal_img_n := 0\<rparr> = after_header w h n b c i" by (simp add: after_header_def new_png_def)
  have bytes: "reads s (be32 w @ be32 h @ b # c # 0 # 0 # i # rest)" using assms(1) by (simp add: ihdr_def)
  have limits: "\<not> unat (word_of_nat w :: u32) > 2 ^ 24" "\<not> unat (word_of_nat h :: u32) > 2 ^ 24" "w < 2 ^ 32" "h < 2 ^ 32"
    using assms(4,6) wh(1,2) by simp_all
  have depth: "\<not> unat b \<notin> {1, 2, 4, 8, 16}" "\<not> (c = 3 \<and> b = 16)" "\<not> (c \<noteq> 3 \<and> c AND 1 \<noteq> 0)"
    "\<not> (0 :: u8) \<noteq> 0" "\<not> i > 1"
    using c assms(2) by auto
  have fresh: "\<not> \<not> first new_png" "\<not> (13 :: u32) \<noteq> 13" by (simp_all add: new_png_def)
  have pixels: "\<not> (word_of_nat w = (0 :: u32) \<or> word_of_nat h = (0 :: u32))" using wh(3,4) by simp
  show ?thesis
    unfolding read_ihdr_def
    apply (simp only: fresh if_False)
    apply (rule ensures_bind, rule ensures_rd32be [OF bytes limits(3)], simp only: limits if_False)
    apply (rule ensures_bind, rule ensures_rd32be [OF _ limits(4)], assumption, simp only: limits if_False)
    apply (rule ensures_bind, rule ensures_rd8, assumption, simp only: depth if_False)
    apply (rule ensures_bind, rule ensures_rd8, assumption, simp only: c(1) depth if_False)
    apply (rule ensures_bind, rule ensures_rd8, assumption, simp only: depth if_False)
    apply (rule ensures_bind, rule ensures_rd8, assumption, simp only: depth if_False)
    apply (rule ensures_bind, rule ensures_rd8, assumption, simp only: depth pixels if_False)
    apply (simp only: c(2,4) if_False wh(1,2) Let_def big scan.distinct simp_thms z)
    apply (rule ensures_return, rule assms(8) [OF _ collecting_start], assumption)
    done
qed

subsection \<open>From the compressed data to the picture\<close>

lemma interleave_image:
  "concat (map (interleave g) rows) = concat (map (\<lambda>px. px @ alpha_of g) (concat rows))"
  by (induction rows) (simp_all add: interleave_def)

definition plain_pass :: "nat \<Rightarrow> nat \<Rightarrow> nat \<Rightarrow> nat \<Rightarrow> nat \<Rightarrow> pass" where
  "plain_pass w h n m c = \<lparr>pass_x = w, pass_y = h, out_n = m, img_n = n, depth = 8, color = c\<rparr>"

lemma finish_plain:
  assumes "collecting (after_header w h n 8 c 0) d z" and "0 < n" and "0 < w" and "0 < h" and "w * h * (8 * n + 8) < 2 ^ 32"
    and "length rows = h" and "\<forall>(t, row) \<in> set rows. t \<le> 4 \<and> length row = w \<and> (\<forall>px \<in> set row. length px = n)"
    and "\<forall>k < 2 ^ 32. al k" and "m = (if req_comp = n + 1 \<and> req_comp \<noteq> 3 then n + 1 else n)"
  shows "\<exists>z'. finish_png al gl req_comp (filter_image n w rows) (z\<lparr>idata := None\<rparr>) = Inr z' \<and>
    png.out z' = map Some (concat (map (\<lambda>px. px @ (if m = n then [] else [255])) (concat (map snd rows)))) \<and>
    out_channels z' = m \<and> channels z' = n \<and> width z' = w \<and> height z' = h \<and> bit_depth z' = 8"
proof -
  note z = collecting_simps [OF assms(1), simplified]
  let ?g = "plain_pass w h n m (unat c)"
  have g: "bytes_ok ?g" "image_ok ?g rows" "alpha_of ?g = (if m = n then [] else [255])"
    using assms(2,3,6,7,9) by (auto simp: bytes_ok_def image_ok_def row_ok_def plain_pass_def alpha_of_def)
  have "al (w * h * m)"
  proof -
    have "w * h * m \<le> w * h * (8 * n + 8)" using assms(9) by (intro mult_le_mono) (auto split: if_splits)
    then show ?thesis using assms(5,8) by (meson le_less_trans)
  qed
  then have "create_png_image_raw al True ?g (filter_image n w rows) (length (filter_image n w rows)) =
      Inr (map Some (concat (map (interleave ?g) (map snd rows))))"
    using assms(4,5) by (intro unfilter_image [OF g(1,2)]) (simp_all add: plain_pass_def)
  then have image: "create_png_image_raw al True ?g (filter_image n w rows) (length (filter_image n w rows)) =
      Inr (map Some (concat (map (\<lambda>px. px @ (if m = n then [] else [255])) (concat (map snd rows)))))"
    by (simp only: interleave_image g(3))
  have choice: "choose_channels req_comp (z\<lparr>idata := None\<rparr>) = z\<lparr>idata := None, out_channels := m\<rparr>"
    by (simp add: choose_channels_def z assms(9))
  have pass: "pass_of (z\<lparr>idata := None, out_channels := m\<rparr>) = ?g" by (simp add: pass_of_def plain_pass_def z)
  show ?thesis
    unfolding finish_png_def choice Let_def pass by (simp add: create_png_image_def z image run_px_def)
qed

lemma read_end:
  assumes "collecting base d z" and "d \<noteq> []" and "reads s (chunk_bytes ([0x49, 0x45, 0x4E, 0x44], [], crc))"
    and "zlib_decode_malloc_guesssize_headerflag fuel al d (size_arg (raw_guess z)) True = Inr raw"
    and "finish_png al gl req_comp raw (z\<lparr>idata := None\<rparr>) = Inr z'" and "\<And>s'. Q (z', True) s'"
  shows "ensures (read_chunk fuel al gl SCAN_load req_comp z) s Q"
proof -
  have bytes: "reads s (be32 0 @ [0x49, 0x45, 0x4E, 0x44] @ crc)" using assms(3) by (simp add: chunk_bytes_def)
  note z = collecting_simps [OF assms(1)]
  have types: "IEND \<noteq> CgBI" "IEND \<noteq> IHDR" "IEND \<noteq> PLTE" "IEND \<noteq> tRNS" "IEND \<noteq> IDAT" by (simp_all add: type_numbers)
  have body: "read_iend fuel al gl SCAN_load req_comp z = returnE (z', True)"
    using assms(2,4,5) z by (simp add: read_iend_def guard_first_def)
  show ?thesis
    unfolding read_chunk_def
    apply (rule ensures_bind, rule ensures_chunk_header [OF bytes])
      apply (simp_all only: pngchunk.simps type_words types if_False simp_thms body bindE_Inr prod.case if_True)
      apply (simp_all add: ensures_return assms(6))
    done
qed

lemma read_start:
  assumes "reads s (chunk_bytes ([0x49, 0x48, 0x44, 0x52], ihdr w h b c i, crc) @ rest)" and "colour_channels c n \<and> (b = 8 \<or> b = 16) \<and> (i = 0 \<or> i = 1)" and "0 < w"
    and "w \<le> 2 ^ 24" and "0 < h" and "h \<le> 2 ^ 24" and "w * h * n \<le> 2 ^ 30" and "length crc = 4"
    and "\<And>s' z'. reads s' rest \<Longrightarrow> collecting (after_header w h n b c i) [] z' \<Longrightarrow> Q (z', False) s'"
  shows "ensures (read_chunk fuel al gl SCAN_load req_comp new_png) s Q"
proof -
  have bytes: "reads s (be32 13 @ [0x49, 0x48, 0x44, 0x52] @ ihdr w h b c i @ crc @ rest)"
    using assms(1) by (simp add: chunk_bytes_def ihdr_def be32_def)
  have types: "IHDR \<noteq> CgBI" by (simp add: type_numbers)
  show ?thesis
    unfolding read_chunk_def
    apply (rule ensures_bind, rule ensures_chunk_header [OF bytes])
      apply (simp_all only: pngchunk.simps type_words types if_False simp_thms if_True)
      apply simp_all
    apply (rule ensures_bind, rule read_ihdr_reads [OF _ assms(2-7)], assumption)
    apply (simp, rule ensures_bind, rule ensures_crc [OF _ assms(8)], assumption)
    apply (rule ensures_return, rule assms(9); assumption)
    done
qed

text \<open>A file of the chunks above, with whatever is made of its data.\<close>

lemma parse_png_reads:
  fixes Q :: "png \<Rightarrow> bool" and u :: 'u
  assumes "colour_channels c n \<and> (b = 8 \<or> b = 16) \<and> (i = 0 \<or> i = 1)" and "0 < w" and "w \<le> 2 ^ 24" and "0 < h" and "h \<le> 2 ^ 24"
    and "w * h * n \<le> 2 ^ 30" and "list_all piece_ok pieces" and "compressed pieces \<noteq> []" and "length (compressed pieces) < 2 ^ 31"
    and "length crc = 4" and "length end_crc = 4" and "\<forall>k < 2 ^ 32. al k" and "length pieces + 2 \<le> fuel"
    and "\<And>z. collecting (after_header w h n b c i) (compressed pieces) z \<Longrightarrow>
      zlib_decode_malloc_guesssize_headerflag fuel al (compressed pieces) (size_arg (raw_guess z)) True = Inr raw \<and>
      (\<exists>z'. finish_png al gl req_comp raw (z\<lparr>idata := None\<rparr>) = Inr z' \<and> Q z')"
  shows "ensures (parse_png_file fuel al gl SCAN_load req_comp) (start_mem u (png_file (ihdr w h b c i) crc pieces end_crc)) (\<lambda>z _. Q z)"
proof -
  let ?tail = "chunk_bytes ([0x49, 0x45, 0x4E, 0x44], [], end_crc)"
  obtain m where m: "fuel = Suc (length pieces + Suc m)" using assms(13) by (metis add_2_eq_Suc' add_Suc_right le_Suc_ex add_Suc)
  have last: "ensures (read_chunks fuel al gl SCAN_load req_comp (Suc m) z) s (\<lambda>z _. Q z)"
    if "reads s ?tail" and z: "collecting (after_header w h n b c i) ([] @ compressed pieces) z" for z and s :: "'u ctx"
  proof -
    have z: "collecting (after_header w h n b c i) (compressed pieces) z" using z by simp
    obtain z' where "finish_png al gl req_comp raw (z\<lparr>idata := None\<rparr>) = Inr z'" "Q z'"
      and zlib: "zlib_decode_malloc_guesssize_headerflag fuel al (compressed pieces) (size_arg (raw_guess z)) True = Inr raw"
      using assms(14) [OF z] by blast
    then show ?thesis
      unfolding read_chunks.simps
      by (intro ensures_bind read_end [OF z assms(8) that(1) zlib]) (auto intro: ensures_return)
  qed
  have chunks: "ensures (read_chunks fuel al gl SCAN_load req_comp fuel new_png) s (\<lambda>z _. Q z)"
    if "reads s (chunk_bytes ([0x49, 0x48, 0x44, 0x52], ihdr w h b c i, crc) @ concat (map chunk_bytes pieces) @ ?tail)" for s :: "'u ctx"
    unfolding m read_chunks.simps
    by (rule ensures_bind, rule read_start [OF that assms(1-6,10)])
      (simp only: prod.case if_False, rule read_pieces [where d = "[]", OF assms(7) _ _ _ assms(12) last [unfolded m]];
        use assms(9) in simp)
  have start: "reads (start_mem u (png_file (ihdr w h b c i) crc pieces end_crc))
    (png_sig @ chunk_bytes ([0x49, 0x48, 0x44, 0x52], ihdr w h b c i, crc) @ concat (map chunk_bytes pieces) @ ?tail)"
    using reads_start [of u "png_file (ihdr w h b c i) crc pieces end_crc"] by (simp add: png_file_def)
  show ?thesis
    unfolding parse_png_file_def check_png_header_def
    by (rule ensures_bind, rule ensures_sig [OF start], simp only: scan.distinct if_False, rule chunks)
qed

text \<open>
  A PNG file decodes to its picture. The compressed data are any that the zlib decoder takes back to the
  filtered rows.
\<close>

lemma png_decodes:
  assumes "colour_channels c n" and "0 < w" and "w \<le> 2 ^ 24" and "0 < h" and "h \<le> 2 ^ 24" and "w * h * (8 * n + 8) < 2 ^ 30"
    and "length rows = h" and "\<forall>(t, row) \<in> set rows. t \<le> 4 \<and> length row = w \<and> (\<forall>px \<in> set row. length px = n)"
    and "list_all piece_ok pieces" and "compressed pieces \<noteq> []" and "length (compressed pieces) < 2 ^ 31"
    and "length crc = 4" and "length end_crc = 4" and "\<forall>k < 2 ^ 32. al k" and "length pieces + 2 \<le> fuel"
    and "zlib_decode_malloc_guesssize_headerflag fuel al (compressed pieces) (w * h * n + h) True = Inr (filter_image n w rows)"
    and "req_comp = 0 \<or> req_comp = n \<or> odd n \<and> req_comp = n + 1"
  shows "\<exists>s'. png_load fuel al gl req_comp (start_mem u (png_file (ihdr w h 8 c 0) crc pieces end_crc)) =
    (Inr \<lparr>pic_x = w, pic_y = h, pic_comp = n,
          pic_data = map Some (concat (map (\<lambda>px. px @ (if req_comp = n + 1 then [255] else [])) (concat (map snd rows))))\<rparr>, s')"
proof -
  let ?m = "if req_comp = n + 1 \<and> req_comp \<noteq> 3 then n + 1 else n"
  let ?pixels = "map Some (concat (map (\<lambda>px. px @ (if ?m = n then [] else [255])) (concat (map snd rows))))"
  let ?p = "\<lparr>pic_x = w, pic_y = h, pic_comp = n, pic_data = ?pixels\<rparr>"
  have "n = 1 \<or> n = 2 \<or> n = 3 \<or> n = 4" using assms(1) by (simp add: colour_channels_def) blast
  then have n: "0 < n" "n \<le> 4" "?m = (if req_comp = n + 1 then n + 1 else n)" "req_comp = 0 \<or> req_comp = ?m" "\<not> req_comp > 4"
    using assms(17) by (elim disjE; simp)+
  have small: "w * h * n + h < 2 ^ 30" "w * h * n \<le> 2 ^ 30" "w * h * (8 * n + 8) < 2 ^ 32"
  proof -
    define p where "p = w * h"
    have "h \<le> p" using assms(2) by (simp add: p_def)
    moreover have "p * (8 * n + 8) = 8 * (p * n) + 8 * p" by (simp add: algebra_simps)
    ultimately show "w * h * n + h < 2 ^ 30" "w * h * n \<le> 2 ^ 30" "w * h * (8 * n + 8) < 2 ^ 32"
      using assms(6) unfolding p_def [symmetric] by simp_all
  qed
  have guess: "size_arg (raw_guess z) = w * h * n + h" if "collecting (after_header w h n 8 c 0) d z" for d z
    using collecting_simps [OF that] small(1) assms(3) by (simp add: raw_guess_def size_arg_def)
  have kind: "colour_channels c n \<and> ((8 :: u8) = 8 \<or> (8 :: u8) = 16) \<and> ((0 :: u8) = 0 \<or> (0 :: u8) = 1)" using assms(1) by simp
  let ?s = "start_mem u (png_file (ihdr w h 8 c 0) crc pieces end_crc)"
  define decoded where "decoded = (\<lambda>z' :: png. png.out z' = ?pixels \<and> out_channels z' = ?m \<and> channels z' = n \<and>
    width z' = w \<and> height z' = h \<and> bit_depth z' = 8)"
  have parse: "ensures (parse_png_file fuel al gl SCAN_load req_comp) ?s (\<lambda>z _. decoded z)"
  proof (rule parse_png_reads [OF kind assms(2-5) small(2) assms(9-15)])
    fix z
    assume z: "collecting (after_header w h n 8 c 0) (compressed pieces) z"
    show "zlib_decode_malloc_guesssize_headerflag fuel al (compressed pieces) (size_arg (raw_guess z)) True = Inr (filter_image n w rows) \<and>
        (\<exists>z'. finish_png al gl req_comp (filter_image n w rows) (z\<lparr>idata := None\<rparr>) = Inr z' \<and> decoded z')"
      using finish_plain [OF z n(1) assms(2,4) small(3) assms(7,8,14) refl, of gl req_comp] by (simp add: decoded_def guess [OF z] assms(16))
  qed
  have finish: "ensures (bindE (liftE (reduce_png al (bit_depth z) (wrap32 (width z * height z * out_channels z)) (png.out z))) (\<lambda>buf.
      bindE (if req_comp \<noteq> 0 \<and> req_comp \<noteq> out_channels z
             then convert_format al buf (out_channels z) req_comp (width z) (height z) else returnE buf) (\<lambda>buf.
      returnE \<lparr>pic_x = width z, pic_y = height z, pic_comp = channels z, pic_data = buf\<rparr>))) s (\<lambda>p _. p = ?p)"
    if "decoded z" for z and s :: "'a ctx"
  proof -
    have "\<not> (req_comp \<noteq> 0 \<and> req_comp \<noteq> out_channels z)" "reduce_png al (bit_depth z) k (png.out z) = Inr ?pixels" for k
      using that n(4) by (auto simp: decoded_def reduce_png_def)
    then show ?thesis using that by (simp only: if_False bindE_Inr) (simp add: decoded_def ensures_return)
  qed
  have "ensures (png_load fuel al gl req_comp) ?s (\<lambda>p _. p = ?p)"
    unfolding png_load_def do_png_def using n(5)
    by (simp only: if_False) (rule ensures_bind, rule ensures_mono [OF parse], erule finish)
  then show ?thesis using n(3) by (auto simp: ensures_def)
qed

text \<open>Stored blocks are data that the zlib decoder takes back.\<close>

lemma stored_decodes:
  assumes "ds \<noteq> []" and "\<forall>d \<in> set ds. length d < 65536" and "length (concat ds) \<le> k" and "length ds \<le> fuel" and "al k"
  shows "zlib_decode_malloc_guesssize_headerflag fuel al ([0x78, 0x01] @ stored_stream ds @ rest) k True = Inr (concat ds)"
proof -
  let ?a = "\<lparr>zin = stored_stream ds @ rest, num_bits = 0, code_buffer = 0, written = [], capacity = k,
    z_expandable = True, z_length = blank_huffman, z_distance = blank_huffman\<rparr>"
  obtain a' where "zlib_blocks fuel al ?a = (Inr (), a')" "written a' = concat ds"
    using stored_blocks [OF assms(1,2), of ?a rest fuel al] assms(3,4) by auto
  then show ?thesis
    using assms(5)
    by (simp add: zlib_decode_malloc_guesssize_headerflag_def do_zlib_def parse_zlib_def parse_zlib_header_def bindE_def runE_apply zget8_def)
qed

end
