(* ===== verification/PngFaults.thy ===== *)
theory PngFaults
  imports PngLaws
begin

text \<open>
  A fault of the PNG decoder: an interlaced picture with 16-bit samples is read past the end of its
  array. Everything the decoder does to the array keeps its length, which is one byte per sample.
\<close>

subsection \<open>Computations that keep the length of the array\<close>

definition keeps_length :: "'a px \<Rightarrow> bool" where
  "keeps_length m \<longleftrightarrow> (\<forall>buf. length (snd (m buf)) = length buf)"

named_theorems keeps_rules \<open>introduction rules for keeps_length\<close>

lemma keeps_bind [keeps_rules]: "keeps_length m \<Longrightarrow> (\<And>a. keeps_length (f a)) \<Longrightarrow> keeps_length (bindE m f)"
  unfolding keeps_length_def bindE_def by (auto split: prod.split sum.split) (metis snd_conv)+

lemma keeps_basic [keeps_rules]:
  "keeps_length (peek i)" "keeps_length (poke i v)" "keeps_length (assertE b)" "keeps_length (liftE r)"
  by (simp_all add: keeps_length_def peek_def poke_def assertE_def)

lemma keeps_copy [keeps_rules]: "keeps_length (copy_bytes src from to n)"
  by (auto simp: keeps_length_def copy_bytes_def min_absorb2)

lemma keeps_forE [keeps_rules]: "(\<And>x. keeps_length (f x)) \<Longrightarrow> keeps_length (forE f xs)"
  by (induction xs) (auto intro: keeps_rules)

lemma keeps_if [keeps_rules]: "(b \<Longrightarrow> keeps_length m) \<Longrightarrow> (\<not> b \<Longrightarrow> keeps_length n) \<Longrightarrow> keeps_length (if b then m else n)"
  by simp

lemma keeps_option [keeps_rules]: "keeps_length m \<Longrightarrow> (\<And>a. keeps_length (f a)) \<Longrightarrow> keeps_length (case v of None \<Rightarrow> m | Some a \<Rightarrow> f a)"
  by (cases v) simp_all

lemma keeps_run: "keeps_length m \<Longrightarrow> run_px m buf = Inr buf' \<Longrightarrow> length buf' = length buf"
  by (auto simp: keeps_length_def run_px_def split: prod.splits sum.splits) (metis snd_conv)

lemma keeps_words [keeps_rules]: "keeps_length (peek16 i)" "keeps_length (poke16 i w)"
  by (auto simp: peek16_def poke16_def intro!: keeps_rules)

lemma keeps_recolour [keeps_rules]:
  "keeps_length (compute_transparency key n c)" "keeps_length (compute_transparency16 key16 n c)" "keeps_length (de_iphone gl n c)"
  by (auto simp: compute_transparency_def compute_transparency16_def de_iphone_def Let_def intro!: keeps_rules)

lemma keeps_spread [keeps_rules]: "keeps_length (spread_pass w n p x y src)"
  by (cases p) (auto simp: spread_pass_def Let_def intro!: keeps_rules)

lemma passes_length:
  "interlaced_passes al g ps raw raw_len (Some final) = Inr (Some final') \<Longrightarrow> length final' = length final"
proof (induction ps arbitrary: raw raw_len final)
  case (Cons p ps)
  then show ?case
    by (auto simp: Let_def split: if_splits sum.splits) (metis keeps_run keeps_spread)
qed simp

lemma passes_null: "interlaced_passes al g ps raw raw_len None \<noteq> Inr (Some final')"
  by (induction ps arbitrary: raw raw_len) (auto simp: Let_def split: if_splits sum.splits)

lemma interlaced_length:
  assumes "create_png_image al g raw True = Inr buf"
  shows "length buf = wrap32 (pass_x g * pass_y g * out_n g)"
  using assms passes_null [of al g pass_table raw "length raw" buf]
  by (auto simp: create_png_image_def Let_def dest!: passes_length split: sum.splits option.splits if_splits)

subsection \<open>Interlaced pictures with 16-bit samples\<close>

lemma finish_interlaced_length:
  assumes "finish_png al gl req_comp raw z = Inr z'" and "interlace z" and "pal_img_n z = 0"
  shows "length (png.out z') = wrap32 (width z' * height z' * out_channels z')" and "bit_depth z' = bit_depth z"
    and "interlace z' = interlace z" and "pal_img_n z' = pal_img_n z"
proof -
  let ?z = "choose_channels req_comp z"
  have same: "interlace ?z" "pal_img_n ?z = 0" "width ?z = width z" "height ?z = height z" "bit_depth ?z = bit_depth z"
    using assms(2,3) by (simp_all add: choose_channels_def)
  obtain image image' m where r: "create_png_image al (pass_of ?z) raw True = Inr image" "run_px m image = Inr image'"
      "keeps_length m" "z' = ?z\<lparr>png.out := image'\<rparr>"
    using assms(1) same
    by (auto simp: finish_png_def Let_def split: sum.splits intro!: keeps_rules that)
  show "length (png.out z') = wrap32 (width z' * height z' * out_channels z')"
    using interlaced_length [OF r(1)] keeps_run [OF r(3,2)] r(4) by (simp add: pass_of_def)
  show "bit_depth z' = bit_depth z" "interlace z' = interlace z" "pal_img_n z' = pal_img_n z"
    using r(4) by (simp_all add: choose_channels_def)
qed

text \<open>What the parser returns with has been finished from a state with a valid header.\<close>

definition header_ok :: "png \<Rightarrow> bool" where
  "header_ok z \<longleftrightarrow> first z \<or> (0 < width z \<and> 0 < height z \<and> 0 < channels z \<and> (bit_depth z = 16 \<longrightarrow> pal_img_n z = 0))"

definition finished :: "(nat \<Rightarrow> bool) \<Rightarrow> globals \<Rightarrow> nat \<Rightarrow> png \<Rightarrow> bool" where
  "finished al gl req_comp z' \<longleftrightarrow> (\<exists>z raw. header_ok z \<and> \<not> first z \<and> finish_png al gl req_comp raw z = Inr z')"

lemma safely_any: "(\<And>a. safely (\<lambda>_. True) (f a) Q) \<Longrightarrow> safely (\<lambda>_. True) (bindE m f) Q"
  by (rule safely_bind [of _ _ "\<lambda>_. True"]) (auto simp: safely_def split: prod.split sum.split)

abbreviation stays :: "(nat \<Rightarrow> bool) \<Rightarrow> globals \<Rightarrow> nat \<Rightarrow> png \<times> bool \<Rightarrow> bool" where
  "stays al gl req_comp \<equiv> (\<lambda>(z, stop). if stop then finished al gl req_comp z else header_ok z)"

lemma guard_safely: "(\<not> first z \<Longrightarrow> safely (\<lambda>_. True) m Q) \<Longrightarrow> safely (\<lambda>_. True) (bindE (guard_first z) (\<lambda>_. m)) Q"
proof (cases "first z")
  case True
  then show ?thesis by (simp add: guard_first_def failE_def safely_throw)
qed (simp add: guard_first_def)

lemma chunk_safely:
  assumes "header_ok z"
  shows "safely (\<lambda>_. True) (read_ihdr SCAN_load l z) (stays al gl req_comp)"
    and "safely (\<lambda>_. True) (read_plte l z) (stays al gl req_comp)"
    and "safely (\<lambda>_. True) (read_trns SCAN_load l z) (stays al gl req_comp)"
    and "safely (\<lambda>_. True) (read_idat al SCAN_load l z) (stays al gl req_comp)"
    and "safely (\<lambda>_. True) (read_iend fuel al gl SCAN_load req_comp z) (stays al gl req_comp)"
    and "safely (\<lambda>_. True) (skip_unknown c z) (stays al gl req_comp)"
proof -
  have ok: "\<not> first z \<Longrightarrow> 0 < width z \<and> 0 < height z \<and> 0 < channels z \<and> (bit_depth z = 16 \<longrightarrow> pal_img_n z = 0)"
    using assms by (simp add: header_ok_def)
  have depth16: "unat (d :: u8) = 16 \<longleftrightarrow> d = 16" for d by (simp add: word_unat_eq_iff)
  show "safely (\<lambda>_. True) (read_ihdr SCAN_load l z) (stays al gl req_comp)"
    unfolding read_ihdr_def failE_def Let_def
    by (intro safely_if safely_throw safely_any safely_return TrueI) (simp_all add: header_ok_def unat_gt_0 depth16)
  show "safely (\<lambda>_. True) (read_plte l z) (stays al gl req_comp)"
    unfolding read_plte_def failE_def Let_def
    by (intro guard_safely safely_if safely_throw safely_any safely_return TrueI) (use ok in \<open>simp_all add: header_ok_def\<close>)
  show "safely (\<lambda>_. True) (read_trns SCAN_load l z) (stays al gl req_comp)"
    unfolding read_trns_def failE_def Let_def
    by (intro guard_safely safely_if safely_throw safely_any safely_return TrueI) (use ok in \<open>simp_all add: header_ok_def\<close>)
  show "safely (\<lambda>_. True) (read_idat al SCAN_load l z) (stays al gl req_comp)"
    unfolding read_idat_def failE_def Let_def
    by (intro guard_safely safely_if safely_throw safely_any safely_return TrueI)
      (use ok in \<open>auto simp: header_ok_def intro!: safely_rules split: option.split\<close>)
  show "safely (\<lambda>_. True) (read_iend fuel al gl SCAN_load req_comp z) (stays al gl req_comp)"
    unfolding read_iend_def failE_def
  proof (intro guard_safely safely_if safely_throw TrueI)
    assume f: "\<not> first z"
    have "safely (\<lambda>_. True) (liftE (finish_png al gl req_comp raw (z\<lparr>idata := None\<rparr>))) (finished al gl req_comp)" for raw
      using f assms by (auto simp: safely_lift finished_def header_ok_def split: sum.split intro!: exI [of _ "z\<lparr>idata := None\<rparr>"])
    then have finish: "safely (\<lambda>_. True) (bindE (liftE (finish_png al gl req_comp raw (z\<lparr>idata := None\<rparr>))) (\<lambda>z. returnE (z, True))) (stays al gl req_comp)" for raw
      by (rule safely_bind) (simp add: safely_return)
    show "safely (\<lambda>_. True) (case idata z of None \<Rightarrow> throwE (Err ''no IDAT'') | Some d \<Rightarrow>
        bindE (liftE (zlib_decode_malloc_guesssize_headerflag fuel al d (size_arg (raw_guess z)) (\<not> is_iphone z))) (\<lambda>expanded.
        bindE (liftE (finish_png al gl req_comp expanded (z\<lparr>idata := None\<rparr>))) (\<lambda>z. returnE (z, True)))) (stays al gl req_comp)"
    proof (cases "idata z")
      case (Some d)
      show ?thesis unfolding Some option.case by (rule safely_any, rule finish)
    qed (simp add: safely_throw)
  qed simp
  show "safely (\<lambda>_. True) (skip_unknown c z) (stays al gl req_comp)"
    unfolding skip_unknown_def failE_def
    by (intro guard_safely safely_if safely_throw safely_any safely_return TrueI) (use ok in \<open>simp_all add: header_ok_def\<close>)
qed

lemma read_chunk_safely:
  assumes "header_ok z"
  shows "safely (\<lambda>_. True) (read_chunk fuel al gl SCAN_load req_comp z) (stays al gl req_comp)"
proof -
  have cgbi: "safely (\<lambda>_. True) (bindE (skip_chunk l) (\<lambda>_. returnE (z\<lparr>is_iphone := True\<rparr>, False))) (stays al gl req_comp)" for l
    by (rule safely_any) (use assms in \<open>simp add: safely_return header_ok_def\<close>)
  show ?thesis
    unfolding read_chunk_def
    by (rule safely_any, rule safely_bind [where R = "stays al gl req_comp"], intro safely_if cgbi chunk_safely [OF assms])
      (auto intro!: safely_return safely_any split: if_splits)
qed

lemma read_chunks_safely:
  "header_ok z \<Longrightarrow> safely (\<lambda>_. True) (read_chunks fuel al gl SCAN_load req_comp k z) (finished al gl req_comp)"
proof (induction k arbitrary: z)
  case (Suc k)
  show ?case
    unfolding read_chunks.simps
    by (rule safely_bind [OF read_chunk_safely [OF Suc.prems]]) (auto intro!: safely_return Suc.IH split: if_splits)
qed (simp add: safely_throw)

lemma parse_finished:
  assumes "parse_png_file fuel al gl SCAN_load req_comp s = (Inr z, s')"
  shows "finished al gl req_comp z"
proof -
  have "header_ok new_png" by (simp add: header_ok_def new_png_def)
  then have "safely (\<lambda>_. True) (parse_png_file fuel al gl SCAN_load req_comp) (finished al gl req_comp)"
    unfolding parse_png_file_def by (intro safely_any) (simp add: read_chunks_safely)
  then show ?thesis using assms by (auto simp: safely_def dest: spec [of _ s])
qed

text \<open>
  C13: an interlaced PNG with 16-bit samples is never decoded: whenever its chunks have been read without
  an error, the reduction to eight bits reads past the end of the array, because de-interlacing made
  an array for samples of one byte.
\<close>

theorem interlaced_16_bit_reads_past:
  assumes "parse_png_file fuel al gl SCAN_load req_comp s = (Inr z, s')" and "interlace z" and "bit_depth z = 16"
    and "width z * height z * out_channels z < 2 ^ 31" and "req_comp \<le> 4"
  shows "png_load fuel al gl req_comp s = (Inl (Undefined ''orig''), s')"
proof -
  obtain z0 raw where z0: "header_ok z0" "\<not> first z0" "finish_png al gl req_comp raw z0 = Inr z"
    using parse_finished [OF assms(1)] by (auto simp: finished_def)
  let ?z = "choose_channels req_comp z0"
  have same: "interlace z0 = interlace z" "bit_depth z0 = bit_depth z" "width z0 = width z" "height z0 = height z"
    using z0(3) by (auto simp: finish_png_def choose_channels_def Let_def split: sum.splits if_splits)
  have pal: "pal_img_n z0 = 0" using z0(1,2) same(2) assms(3) by (simp add: header_ok_def)
  have "out_channels z = out_channels ?z"
    using z0(3) pal by (auto simp: finish_png_def choose_channels_def Let_def split: sum.splits if_splits)
  then have "0 < width z * height z * out_channels z"
    using z0(1,2) same(3,4) by (auto simp: header_ok_def choose_channels_def)
  moreover have "length (png.out z) = width z * height z * out_channels z"
    using finish_interlaced_length(1) [OF z0(3)] same(1) pal assms(2,4) by simp
  ultimately have "reduce_png al (bit_depth z) (wrap32 (width z * height z * out_channels z)) (png.out z) = Inl (Undefined ''orig'')"
    using assms(3,4) by (simp add: reduce_png_def)
  then show ?thesis using assms(1,5) by (simp add: png_load_def do_png_def bindE_return)
qed

text \<open>One grey pixel.\<close>

lemma two_bytes: "replicate 2 (None :: u8 option) = [None, None]" "[0..<2] = [0, Suc 0]"
  by (simp_all add: numeral_2_eq_2)

lemma one_deep_pixel:
  "create_png_image (\<lambda>_. True) \<lparr>pass_x = 1, pass_y = 1, out_n = 1, img_n = 1, depth = 16, color = 0\<rparr> [0, 0x12, 0x34] True = Inr [Some 0x34]"
  by (simp add: create_png_image_def create_png_image_raw_def pass_table_def pass_size_def img_width_bytes_def stride_def
      sample_bytes_def unfilter_row_def at_raw_def first_byte_def first_value_def first_row_filter_def poke_def widen_samples_def
      swap_sample_def peek_def run_px_def bindE_def assertE_def spread_pass_def copy_bytes_def int32_def two_bytes)

lemma interlaced_16_bit_reads_past_witness:
  "\<exists>s'. png_load 9 (\<lambda>_. True) \<lparr>unpremultiply_on_load = False, de_iphone_flag = False\<rparr> 0 (start_mem ()
      (png_file (ihdr 1 1 16 0 1) [0, 0, 0, 0] [(idat_type, [0x78, 0x01] @ stored_stream [[0, 0x12, 0x34]], [0, 0, 0, 0])] [0, 0, 0, 0])) =
    (Inl (Undefined ''orig''), s')"
proof -
  let ?pieces = "[(idat_type, [0x78, 0x01] @ stored_stream [[0, 0x12, 0x34]], [0, 0, 0, 0])] :: (u8 list \<times> u8 list \<times> u8 list) list"
  let ?gl = "\<lparr>unpremultiply_on_load = False, de_iphone_flag = False\<rparr>"
  let ?s = "start_mem () (png_file (ihdr 1 1 16 0 1) [0, 0, 0, 0] ?pieces [0, 0, 0, 0])"
  let ?Q = "\<lambda>z :: png. interlace z \<and> bit_depth z = 16 \<and> width z * height z * out_channels z < 2 ^ 31"
  have bytes: "length (stored_stream [[0, 0x12, 0x34]]) = 8" by (simp add: stored_block_def)
  have data: "compressed ?pieces = [0x78, 0x01] @ stored_stream [[0, 0x12, 0x34]] @ []" by (simp add: compressed_def)
  have ok: "list_all piece_ok ?pieces" using bytes by (simp add: piece_ok_def)
  have "ensures (parse_png_file 9 (\<lambda>_. True) ?gl SCAN_load 0) ?s (\<lambda>z _. ?Q z)"
  proof (rule parse_png_reads [where n = 1 and raw = "[0, 0x12, 0x34]"])
    fix z
    assume z: "collecting (after_header 1 1 1 16 0 1) (compressed ?pieces) z"
    note simps = collecting_simps [OF z, simplified]
    have guess: "size_arg (raw_guess z) = 3" by (simp add: raw_guess_def size_arg_def simps)
    have "finish_png (\<lambda>_. True) ?gl 0 [0, 0x12, 0x34] (z\<lparr>idata := None\<rparr>) =
      Inr (z\<lparr>idata := None, out_channels := 1, png.out := [Some 0x34]\<rparr>)"
      unfolding finish_png_def
      by (simp add: choose_channels_def pass_of_def simps one_deep_pixel [unfolded One_nat_def] run_px_def Let_def)
    then show "zlib_decode_malloc_guesssize_headerflag 9 (\<lambda>_. True) (compressed ?pieces) (size_arg (raw_guess z)) True = Inr [0, 0x12, 0x34] \<and>
        (\<exists>z'. finish_png (\<lambda>_. True) ?gl 0 [0, 0x12, 0x34] (z\<lparr>idata := None\<rparr>) = Inr z' \<and> ?Q z')"
      unfolding data guess using stored_decodes [of "[[0, 0x12, 0x34]]" 3 9 "\<lambda>_. True" "[]"] by (simp add: simps)
  qed (use ok data bytes in \<open>simp_all add: colour_channels_def\<close>)
  then obtain z s' where "parse_png_file 9 (\<lambda>_. True) ?gl SCAN_load 0 ?s = (Inr z, s')" "?Q z" by (auto simp: ensures_def)
  then have "png_load 9 (\<lambda>_. True) ?gl 0 ?s = (Inl (Undefined ''orig''), s')" by (intro interlaced_16_bit_reads_past) auto
  then show ?thesis by blast
qed

end
