(* ===== verification/Pic.thy ===== *)
theory Pic
  imports ImageFormats
begin

text \<open>
  The decoder of Softimage files in \<open>include/util/stb_image.h\<close>, lines 5519 to 5688: the packets, the three
  ways to store a line, and what becomes of a file that is refused.
\<close>

subsection \<open>Pixels\<close>

record pic_packet =
  pk_size :: u8
  pk_type :: u8
  pk_channel :: u8

definition at_end :: "('u, bool) im" where
  "at_end = runE (\<lambda>s. (at_eof s, s))"

text \<open>The mask \<open>0x80\<close>, shifted by the number of the channel.\<close>

definition wants :: "u8 \<Rightarrow> nat \<Rightarrow> bool" where
  "wants channel i \<longleftrightarrow> channel AND drop_bit i 0x80 \<noteq> 0"

fun read_channels :: "u8 \<Rightarrow> nat list \<Rightarrow> buffer \<Rightarrow> ('u, buffer) im" where
  "read_channels channel [] dest = returnE dest"
| "read_channels channel (i # is) dest =
     (if wants channel i then
        bindE at_end (\<lambda>e. if e then failE ''bad file'' else bindE rd8 (\<lambda>b. read_channels channel is (dest[i := Some b])))
      else read_channels channel is dest)"

definition readval :: "u8 \<Rightarrow> buffer \<Rightarrow> ('u, buffer) im" where
  "readval channel dest = read_channels channel [0..<4] dest"

definition copyval :: "u8 \<Rightarrow> buffer \<Rightarrow> buffer \<Rightarrow> buffer" where
  "copyval channel dest src = map (\<lambda>i. if wants channel i then src ! i else dest ! i) [0..<4]"

text \<open>The pixel \<open>z\<close> of the picture, which has four bytes for each.\<close>

definition pixel_at :: "nat \<Rightarrow> buffer \<Rightarrow> stb_err + buffer" where
  "pixel_at z buf = (if 4 * z + 4 \<le> length buf then Inr (take 4 (drop (4 * z) buf)) else Inl (Undefined ''result''))"

definition set_pixel :: "nat \<Rightarrow> buffer \<Rightarrow> buffer \<Rightarrow> buffer" where
  "set_pixel z px buf = take (4 * z) buf @ px @ drop (4 * z + 4) buf"

fun read_pixels :: "u8 \<Rightarrow> nat list \<Rightarrow> buffer \<Rightarrow> ('u, buffer) im" where
  "read_pixels channel [] buf = returnE buf"
| "read_pixels channel (z # zs) buf =
     bindE (liftE (pixel_at z buf)) (\<lambda>px. bindE (readval channel px) (\<lambda>px. read_pixels channel zs (set_pixel z px buf)))"

fun copy_pixels :: "u8 \<Rightarrow> buffer \<Rightarrow> nat list \<Rightarrow> buffer \<Rightarrow> stb_err + buffer" where
  "copy_pixels channel v [] buf = Inr buf"
| "copy_pixels channel v (z # zs) buf =
     (case pixel_at z buf of Inl e \<Rightarrow> Inl e | Inr px \<Rightarrow> copy_pixels channel v zs (set_pixel z (copyval channel px v) buf))"

subsection \<open>Lines\<close>

text \<open>
  The runs of a line from the pixel \<open>z\<close> on, with \<open>left\<close> pixels to go. The array for the value of a run is not
  initialised. The fuel bounds the number of runs, as runs of no pixels could come for ever.
\<close>

fun pure_runs :: "nat \<Rightarrow> u8 \<Rightarrow> nat \<Rightarrow> nat \<Rightarrow> buffer \<Rightarrow> ('u, buffer) im" where
  "pure_runs 0 channel z left buf = throwE OutOfFuel"
| "pure_runs (Suc fuel) channel z left buf =
     (if left = 0 then returnE buf
      else bindE rd8 (\<lambda>c. bindE at_end (\<lambda>e. if e then failE ''bad file'' else
        let n = (if unat c > left then left else unat c)
        in bindE (readval channel (replicate 4 None)) (\<lambda>v.
           bindE (liftE (copy_pixels channel v [z..<z + n] buf)) (\<lambda>buf. pure_runs fuel channel (z + n) (left - n) buf)))))"

fun mixed_runs :: "nat \<Rightarrow> u8 \<Rightarrow> nat \<Rightarrow> nat \<Rightarrow> buffer \<Rightarrow> ('u, buffer) im" where
  "mixed_runs 0 channel z left buf = throwE OutOfFuel"
| "mixed_runs (Suc fuel) channel z left buf =
     (if left = 0 then returnE buf
      else bindE rd8 (\<lambda>c. bindE at_end (\<lambda>e. if e then failE ''bad file'' else
        if c \<ge> 128 then
          bindE (if c = 128 then bindE rd16be (\<lambda>n. returnE (nat n)) else returnE (unat c - 127)) (\<lambda>n.
          if n > left then failE ''bad file'' else
          bindE (readval channel (replicate 4 None)) (\<lambda>v.
          bindE (liftE (copy_pixels channel v [z..<z + n] buf)) (\<lambda>buf. mixed_runs fuel channel (z + n) (left - n) buf)))
        else
          let n = unat c + 1
          in if n > left then failE ''bad file''
             else bindE (read_pixels channel [z..<z + n] buf) (\<lambda>buf. mixed_runs fuel channel (z + n) (left - n) buf))))"

definition pic_line :: "nat \<Rightarrow> pic_packet \<Rightarrow> nat \<Rightarrow> nat \<Rightarrow> buffer \<Rightarrow> ('u, buffer) im" where
  "pic_line fuel p z w buf =
     (if pk_type p = 0 then read_pixels (pk_channel p) [z..<z + w] buf
      else if pk_type p = 1 then pure_runs fuel (pk_channel p) z w buf
      else if pk_type p = 2 then mixed_runs fuel (pk_channel p) z w buf
      else failE ''bad format'')"

fun pic_packets :: "nat \<Rightarrow> pic_packet list \<Rightarrow> nat \<Rightarrow> nat \<Rightarrow> buffer \<Rightarrow> ('u, buffer) im" where
  "pic_packets fuel [] z w buf = returnE buf"
| "pic_packets fuel (p # ps) z w buf = bindE (pic_line fuel p z w buf) (\<lambda>buf. pic_packets fuel ps z w buf)"

fun pic_lines :: "nat \<Rightarrow> pic_packet list \<Rightarrow> nat \<Rightarrow> nat list \<Rightarrow> buffer \<Rightarrow> ('u, buffer) im" where
  "pic_lines fuel ps w [] buf = returnE buf"
| "pic_lines fuel ps w (y # ys) buf = bindE (pic_packets fuel ps (y * w) w buf) (\<lambda>buf. pic_lines fuel ps w ys buf)"

subsection \<open>The decoder\<close>

text \<open>The packets are an array of ten; the first argument is the room that is left.\<close>

fun read_packets :: "nat \<Rightarrow> pic_packet list \<Rightarrow> ('u, pic_packet list) im" where
  "read_packets 0 ps = failE ''bad format''"
| "read_packets (Suc n) ps =
     bindE rd8 (\<lambda>chained. bindE rd8 (\<lambda>sz. bindE rd8 (\<lambda>type. bindE rd8 (\<lambda>channel.
     bindE at_end (\<lambda>e. if e then failE ''bad file'' else if sz \<noteq> 8 then failE ''bad format'' else
     let ps = ps @ [\<lparr>pk_size = sz, pk_type = type, pk_channel = channel\<rparr>]
     in if chained \<noteq> 0 then read_packets n ps else returnE ps)))))"

definition pic_channels :: "pic_packet list \<Rightarrow> nat" where
  "pic_channels ps = (if fold (\<lambda>p act. act OR pk_channel p) ps 0 AND 0x10 \<noteq> 0 then 4 else 3)"

text \<open>A refusal is a null pointer that the caller goes on with; what the language leaves undefined is not caught.\<close>

definition refusal :: "('u, 'a) im \<Rightarrow> ('u, string + 'a) im" where
  "refusal m s = (case m s of
      (Inl (Err reason), s') \<Rightarrow> (Inr (Inl reason), s') | (Inl e, s') \<Rightarrow> (Inl e, s') | (Inr a, s') \<Rightarrow> (Inr (Inr a), s'))"

text \<open>\<open>stbi__convert_format\<close> with a null pointer: it reads through it if there is a pixel to convert.\<close>

definition convert_null :: "(nat \<Rightarrow> bool) \<Rightarrow> string \<Rightarrow> nat \<Rightarrow> nat \<Rightarrow> nat \<Rightarrow> ('u, buffer) im" where
  "convert_null al reason req_comp x y =
     (if req_comp = 4 then failE reason
      else if \<not> (1 \<le> req_comp \<and> req_comp \<le> 4) then throwE (Undefined ''assert'')
      else bindE (malloc al (req_comp * x * y)) (\<lambda>good. if y = 0 then returnE good else throwE (Undefined ''data'')))"

text \<open>
  The result of the allocation is not checked. If the packets are refused, the number of channels is never
  set: it is the caller's variable, which the engine does not initialise.
\<close>

definition pic_decode :: "nat \<Rightarrow> (nat \<Rightarrow> bool) \<Rightarrow> nat \<Rightarrow> nat \<Rightarrow> nat \<Rightarrow> ('u, picture) im" where
  "pic_decode fuel al req_comp x y =
     (if \<not> al (x * y * 4) then throwE (Undefined ''memset'')
      else bindE (refusal (read_packets 10 [])) (\<lambda>r. case r of
        Inl reason \<Rightarrow>
          if req_comp = 0 then throwE (Undefined ''comp'')
          else bindE (convert_null al reason req_comp x y) (\<lambda>_. throwE (Undefined ''comp''))
      | Inr ps \<Rightarrow>
          (let n = pic_channels ps; req_comp = (if req_comp = 0 then n else req_comp)
           in bindE (refusal (pic_lines fuel ps x [0..<y] (replicate (x * y * 4) (Some 0xff)))) (\<lambda>r.
              bindE (case r of Inl reason \<Rightarrow> convert_null al reason req_comp x y | Inr buf \<Rightarrow> convert_format al buf 4 req_comp x y) (\<lambda>buf.
              returnE \<lparr>pic_x = x, pic_y = y, pic_comp = n, pic_data = buf\<rparr>)))))"

definition pic_header :: "('u, nat \<times> nat) im" where
  "pic_header =
     bindE (forE (\<lambda>_. bindE rd8 (\<lambda>_. returnE ())) [0..<92]) (\<lambda>_.
     bindE rd16be (\<lambda>x. bindE rd16be (\<lambda>y. bindE at_end (\<lambda>e. if e then failE ''bad file'' else
     if x = 0 then throwE (Undefined ''division'') else if 2 ^ 28 div x < y then failE ''too large'' else
     bindE rd32be (\<lambda>_. bindE rd16be (\<lambda>_. bindE rd16be (\<lambda>_. returnE (nat x, nat y))))))))"

definition pic_load :: "nat \<Rightarrow> (nat \<Rightarrow> bool) \<Rightarrow> nat \<Rightarrow> ('u, picture) im" where
  "pic_load fuel al req_comp = bindE pic_header (\<lambda>(x, y). pic_decode fuel al req_comp x y)"

end
