(* ===== verification/Psd.thy ===== *)
theory Psd
  imports ImageFormats
begin

text \<open>
  The decoder of Photoshop files in \<open>include/util/stb_image.h\<close>, lines 5301 to 5482: the header, the four
  channels, plain and run-length encoded, and the removal of the white matte. The arithmetic on floats is a
  parameter.
\<close>

subsection \<open>The matte\<close>

text \<open>The last operation is the conversion to \<open>unsigned char\<close>, undefined (\<open>None\<close>) for a value that does not fit.\<close>

record 'f matte_math =
  mm_of_int :: "int \<Rightarrow> 'f"
  mm_div :: "'f \<Rightarrow> 'f \<Rightarrow> 'f"
  mm_mult :: "'f \<Rightarrow> 'f \<Rightarrow> 'f"
  mm_add :: "'f \<Rightarrow> 'f \<Rightarrow> 'f"
  mm_sub :: "'f \<Rightarrow> 'f \<Rightarrow> 'f"
  mm_byte :: "'f \<Rightarrow> u8 option"

definition unmatte :: "'f matte_math \<Rightarrow> u8 \<Rightarrow> u8 \<Rightarrow> u8 option" where
  "unmatte fm alpha v =
     (let a = mm_div fm (mm_of_int fm (uint alpha)) (mm_of_int fm 255);
          ra = mm_div fm (mm_of_int fm 1) a;
          inv_a = mm_mult fm (mm_of_int fm 255) (mm_sub fm (mm_of_int fm 1) ra)
      in mm_byte fm (mm_add fm (mm_mult fm (mm_of_int fm (uint v)) ra) inv_a))"

text \<open>The samples of one pixel; all of them have been written when this runs.\<close>

definition matte_pixel :: "'f matte_math \<Rightarrow> buffer \<Rightarrow> stb_err + buffer" where
  "matte_pixel fm px =
     (case px of
        [Some r, Some g, Some b, Some a] \<Rightarrow>
          if a \<noteq> 0 \<and> a \<noteq> 255 then
            (case (unmatte fm a r, unmatte fm a g, unmatte fm a b) of
               (Some r', Some g', Some b') \<Rightarrow> Inr [Some r', Some g', Some b', Some a]
             | _ \<Rightarrow> Inl (Undefined ''conversion''))
          else Inr px
      | _ \<Rightarrow> Inl (Undefined ''pixel''))"

fun remove_matte :: "'f matte_math \<Rightarrow> nat \<Rightarrow> buffer \<Rightarrow> stb_err + buffer" where
  "remove_matte fm 0 buf = Inr buf"
| "remove_matte fm (Suc n) buf =
     (case matte_pixel fm (take 4 buf) of
        Inl e \<Rightarrow> Inl e
      | Inr px \<Rightarrow> map_sum id (\<lambda>rest. px @ rest) (remove_matte fm n (drop 4 buf)))"

subsection \<open>The channels\<close>

text \<open>The sample of pixel \<open>i\<close>; the code does not check that the pixel exists.\<close>

definition put_channel :: "nat \<Rightarrow> nat \<Rightarrow> u8 \<Rightarrow> buffer \<Rightarrow> stb_err + buffer" where
  "put_channel ch i b buf = (if 4 * i + ch < length buf then Inr (buf[4 * i + ch := Some b]) else Inl (Undefined ''out''))"

fun fill_channel :: "nat \<Rightarrow> u8 \<Rightarrow> nat list \<Rightarrow> buffer \<Rightarrow> stb_err + buffer" where
  "fill_channel ch v [] buf = Inr buf"
| "fill_channel ch v (i # is) buf = (case put_channel ch i v buf of Inl e \<Rightarrow> Inl e | Inr buf \<Rightarrow> fill_channel ch v is buf)"

fun copy_channel :: "('u, u8) im \<Rightarrow> nat \<Rightarrow> nat list \<Rightarrow> buffer \<Rightarrow> ('u, buffer) im" where
  "copy_channel rd ch [] buf = returnE buf"
| "copy_channel rd ch (i # is) buf = bindE rd (\<lambda>b. bindE (liftE (put_channel ch i b buf)) (\<lambda>buf. copy_channel rd ch is buf))"

definition sample16 :: "('u, u8) im" where
  "sample16 = bindE rd16be (\<lambda>v. returnE (word_of_int (drop_bit 8 v)))"

text \<open>
  The runs of a channel; \<open>k\<close> pixels are written. A run is written as a whole, also past the last pixel. The
  fuel bounds the number of runs, as callbacks could deliver the byte 128 for ever.
\<close>

fun rle_channel :: "nat \<Rightarrow> nat \<Rightarrow> nat \<Rightarrow> nat \<Rightarrow> buffer \<Rightarrow> ('u, buffer) im" where
  "rle_channel 0 ch pixels k buf = throwE OutOfFuel"
| "rle_channel (Suc fuel) ch pixels k buf =
     (if k < pixels then
        bindE rd8 (\<lambda>len.
        if len = 128 then rle_channel fuel ch pixels k buf
        else if len < 128 then
          (let n = unat len + 1
           in bindE (copy_channel rd8 ch [k..<k + n] buf) (\<lambda>buf. rle_channel fuel ch pixels (k + n) buf))
        else
          (let n = unat (len XOR 0xFF) + 2
           in bindE rd8 (\<lambda>v. bindE (liftE (fill_channel ch v [k..<k + n] buf)) (\<lambda>buf. rle_channel fuel ch pixels (k + n) buf))))
      else returnE buf)"

definition psd_channel :: "nat \<Rightarrow> bool \<Rightarrow> bool \<Rightarrow> nat \<Rightarrow> nat \<Rightarrow> nat \<Rightarrow> buffer \<Rightarrow> ('u, buffer) im" where
  "psd_channel fuel compressed wide channels pixels ch buf =
     (if channels \<le> ch then liftE (fill_channel ch (if ch = 3 then 255 else 0) [0..<pixels] buf)
      else if compressed then rle_channel fuel ch pixels 0 buf
      else copy_channel (if wide then sample16 else rd8) ch [0..<pixels] buf)"

fun psd_channels :: "nat \<Rightarrow> bool \<Rightarrow> bool \<Rightarrow> nat \<Rightarrow> nat \<Rightarrow> nat list \<Rightarrow> buffer \<Rightarrow> ('u, buffer) im" where
  "psd_channels fuel compressed wide channels pixels [] buf = returnE buf"
| "psd_channels fuel compressed wide channels pixels (ch # chs) buf =
     bindE (psd_channel fuel compressed wide channels pixels ch buf) (\<lambda>buf. psd_channels fuel compressed wide channels pixels chs buf)"

subsection \<open>The decoder\<close>

text \<open>A section: its length, which becomes an \<open>int\<close>, and its bytes.\<close>

definition skip_section :: "('u, unit) im" where
  "skip_section = bindE rd32be (\<lambda>n. skipE (sint n))"

text \<open>The size \<open>4 * w * h\<close> is an \<open>int\<close>, which becomes a \<open>size_t\<close>.\<close>

definition psd_malloc :: "(nat \<Rightarrow> bool) \<Rightarrow> int \<Rightarrow> int \<Rightarrow> ('u, buffer) im" where
  "psd_malloc al w h =
     bindE (liftE (int32 (4 * w))) (\<lambda>v. bindE (liftE (int32 (v * h))) (\<lambda>v.
     let n = nat (v mod 2 ^ 64) in if al n then returnE (replicate n None) else failE ''outofmem''))"

record psd_info =
  psd_channel_count :: nat
  psd_w :: u32
  psd_h :: u32
  psd_wide :: bool
  psd_compressed :: bool

definition psd_header :: "('u, psd_info) im" where
  "psd_header =
     bindE rd32be (\<lambda>sig. if sig \<noteq> 0x38425053 then failE ''not PSD'' else
     bindE rd16be (\<lambda>version. if version \<noteq> 1 then failE ''wrong version'' else
     bindE (skipE 6) (\<lambda>_.
     bindE rd16be (\<lambda>channels. if channels < 0 \<or> channels > 16 then failE ''wrong channel count'' else
     bindE rd32be (\<lambda>h. bindE rd32be (\<lambda>w.
     bindE rd16be (\<lambda>bits. if bits \<noteq> 8 \<and> bits \<noteq> 16 then failE ''unsupported bit depth'' else
     bindE rd16be (\<lambda>mode. if mode \<noteq> 3 then failE ''wrong color format'' else
     bindE skip_section (\<lambda>_. bindE skip_section (\<lambda>_. bindE skip_section (\<lambda>_.
     bindE rd16be (\<lambda>compression. if compression > 1 then failE ''bad compression'' else
     returnE \<lparr>psd_channel_count = nat channels, psd_w = w, psd_h = h, psd_wide = (bits = 16), psd_compressed = (compression \<noteq> 0)\<rparr>))))))))))))"

definition psd_image :: "nat \<Rightarrow> psd_info \<Rightarrow> buffer \<Rightarrow> ('u, buffer) im" where
  "psd_image fuel info buf =
     (let h = sint (psd_h info); channels = psd_channel_count info
      in bindE (if psd_compressed info
                then bindE (liftE (int32 (h * int channels))) (\<lambda>v. bindE (liftE (int32 (v * 2))) (\<lambda>v. skipE v)) else returnE ()) (\<lambda>_.
         psd_channels fuel (psd_compressed info) (psd_wide info) channels (nat (sint (psd_w info) * h)) [0..<4] buf))"

definition psd_finish :: "'f matte_math \<Rightarrow> (nat \<Rightarrow> bool) \<Rightarrow> nat \<Rightarrow> psd_info \<Rightarrow> buffer \<Rightarrow> ('u, picture) im" where
  "psd_finish fm al req_comp info buf =
     (let w = psd_w info; h = psd_h info
      in bindE (if 4 \<le> psd_channel_count info then liftE (remove_matte fm (nat (sint w * sint h)) buf) else returnE buf) (\<lambda>buf.
         bindE (if req_comp \<noteq> 0 \<and> req_comp \<noteq> 4 then convert_format al buf 4 req_comp (unat w) (unat h) else returnE buf) (\<lambda>buf.
         returnE \<lparr>pic_x = unat w, pic_y = unat h, pic_comp = 4, pic_data = buf\<rparr>)))"

definition psd_load :: "'f matte_math \<Rightarrow> nat \<Rightarrow> (nat \<Rightarrow> bool) \<Rightarrow> nat \<Rightarrow> ('u, picture) im" where
  "psd_load fm fuel al req_comp =
     bindE psd_header (\<lambda>info.
     bindE (psd_malloc al (sint (psd_w info)) (sint (psd_h info))) (\<lambda>buf.
     bindE (psd_image fuel info buf) (\<lambda>buf. psd_finish fm al req_comp info buf)))"

end
