(* ===== verification/PsdLaws.thy ===== *)
theory PsdLaws
  imports Psd
begin

text \<open>
  What the decoder of Photoshop files makes of run-length encoded channels, and where a run that goes past the
  last pixel leads.
\<close>

subsection \<open>The files\<close>

text \<open>A run of one sample, samples one by one, and the byte that stands for nothing.\<close>

datatype run = Repeat nat u8 | Literal "u8 list" | NoOp

fun run_samples :: "run \<Rightarrow> u8 list" where
  "run_samples (Repeat k v) = replicate k v"
| "run_samples (Literal bs) = bs"
| "run_samples NoOp = []"

fun run_bytes :: "run \<Rightarrow> u8 list" where
  "run_bytes (Repeat k v) = [word_of_nat (257 - k), v]"
| "run_bytes (Literal bs) = word_of_nat (length bs - 1) # bs"
| "run_bytes NoOp = [128]"

fun run_ok :: "run \<Rightarrow> bool" where
  "run_ok (Repeat k v) \<longleftrightarrow> 2 \<le> k \<and> k \<le> 128"
| "run_ok (Literal bs) \<longleftrightarrow> bs \<noteq> [] \<and> length bs \<le> 128"
| "run_ok NoOp \<longleftrightarrow> True"

abbreviation samples :: "run list \<Rightarrow> u8 list" where
  "samples rs \<equiv> concat (map run_samples rs)"

definition be16 :: "nat \<Rightarrow> u8 list" where
  "be16 n = [word_of_nat (n div 2 ^ 8), word_of_nat n]"

definition psd_section :: "u8 list \<Rightarrow> u8 list" where
  "psd_section bs = be32 (length bs) @ bs"

text \<open>The table with the lengths of the rows is arbitrary: the decoder skips it.\<close>

definition psd_file :: "nat \<Rightarrow> nat \<Rightarrow> nat \<Rightarrow> u8 list \<Rightarrow> u8 list list \<Rightarrow> u8 list \<Rightarrow> run list list \<Rightarrow> u8 list" where
  "psd_file n w h reserved sections table chs =
     be32 0x38425053 @ be16 1 @ reserved @ be16 n @ be32 h @ be32 w @ be16 8 @ be16 3 @ concat (map psd_section sections) @ be16 1 @
     table @ concat (map run_bytes (concat chs))"

subsection \<open>Writing into one channel\<close>

lemma upt_more: "[i..<i + Suc n] = i # [Suc i..<Suc i + n]"
  by (simp add: upt_conv_Cons del: upt_Suc)

fun write_from :: "nat \<Rightarrow> nat \<Rightarrow> u8 list \<Rightarrow> buffer \<Rightarrow> buffer" where
  "write_from ch i [] buf = buf"
| "write_from ch i (b # bs) buf = write_from ch (Suc i) bs (buf[4 * i + ch := Some b])"

lemma write_from_length [simp]: "length (write_from ch i bs buf) = length buf"
  by (induction ch i bs buf rule: write_from.induct) simp_all

lemma write_from_append: "write_from ch i (xs @ ys) buf = write_from ch (i + length xs) ys (write_from ch i xs buf)"
  by (induction xs arbitrary: i buf) simp_all

lemma write_from_nth:
  assumes "ch < 4" and "j < length buf"
  shows "write_from ch i bs buf ! j = (if j mod 4 = ch \<and> i \<le> j div 4 \<and> j div 4 < i + length bs then Some (bs ! (j div 4 - i)) else buf ! j)"
  using assms(2)
proof (induction bs arbitrary: i buf)
  case (Cons b bs)
  have "j = 4 * i + ch \<longleftrightarrow> j mod 4 = ch \<and> j div 4 = i" using assms(1) by auto
  then show ?case using Cons by (auto simp: nth_list_update nth_Cons' Suc_diff_Suc split: nat.split)
qed auto

lemma fill_channel_writes:
  "4 * (i + n) \<le> length buf \<Longrightarrow> ch < 4 \<Longrightarrow> fill_channel ch v [i..<i + n] buf = Inr (write_from ch i (replicate n v) buf)"
proof (induction n arbitrary: i buf)
  case (Suc n)
  show ?case using upt_more [of i n] Suc.IH [of "Suc i"] Suc.prems by (simp add: put_channel_def del: upt_Suc)
qed simp

lemma fill_channel_overruns:
  "n \<noteq> 0 \<Longrightarrow> length buf \<le> 4 * (i + n - 1) + ch \<Longrightarrow> fill_channel ch v [i..<i + n] buf = Inl (Undefined ''out'')"
proof (induction n arbitrary: i buf)
  case (Suc n)
  show ?case using upt_more [of i n] Suc.IH [of "buf[4 * i + ch := Some v]" "Suc i"] Suc.prems by (cases "n = 0") (simp_all add: put_channel_def del: upt_Suc)
qed simp

lemma copy_channel_writes:
  "reads s (bs @ rest) \<Longrightarrow> 4 * (i + length bs) \<le> length buf \<Longrightarrow> ch < 4 \<Longrightarrow>
    \<exists>s'. copy_channel rd8 ch [i..<i + length bs] buf s = (Inr (write_from ch i bs buf), s') \<and> reads s' rest"
proof (induction bs arbitrary: i buf s)
  case (Cons b bs)
  have u: "[i..<i + length (b # bs)] = i # [Suc i..<Suc i + length bs]" using upt_more [of i "length bs"] by simp
  obtain s' where s': "get8 s = (b, s')" "reads s' (bs @ rest)" using get8_reads [of s b "bs @ rest"] Cons.prems(1) by auto
  show ?case
    using Cons.IH [OF s'(2), of "Suc i" "buf[4 * i + ch := Some b]"] Cons.prems(2,3) s'(1)
    unfolding u by (simp add: put_channel_def bindE_runE)
qed simp

lemma copy_channel_overruns:
  "n \<noteq> 0 \<Longrightarrow> length buf \<le> 4 * (i + n - 1) + ch \<Longrightarrow> fst (copy_channel rd8 ch [i..<i + n] buf s) = Inl (Undefined ''out'')"
proof (induction n arbitrary: i buf s)
  case (Suc n)
  note u = upt_more [of i n]
  show ?case
    using Suc.IH [of "buf[4 * i + ch := Some b]" "Suc i" for b] Suc.prems
    unfolding u by (cases "n = 0") (simp_all add: put_channel_def bindE_runE)
qed simp

subsection \<open>One run\<close>

lemma repeat_byte:
  assumes "2 \<le> k" and "k \<le> 128"
  obtains n where "run_bytes (Repeat k v) = [n, v]" and "unat (n XOR 0xFF) + 2 = k" and "128 < n"
proof -
  define x where "x = (word_of_nat (257 - k) :: u8)"
  have u: "unat x = 257 - k" using assms unfolding x_def unat_of_nat by simp
  have ones: "(0xFF :: u8) = - 1" by simp
  have "x XOR 0xFF = NOT x" unfolding ones by simp
  also have "\<dots> = - 1 - x" by (simp add: not_eq_complement)
  finally have "unat (x XOR 0xFF) = unat (0xFF :: u8) - unat x" unfolding ones by (simp add: unat_sub)
  then have "unat (x XOR 0xFF) + 2 = k" using u assms by simp
  moreover have "128 < x" using u assms by (simp add: word_less_nat_alt)
  ultimately show thesis using that [of x] by (simp add: x_def del: of_nat_diff)
qed

lemma literal_byte:
  assumes "bs \<noteq> []" and "length bs \<le> 128"
  obtains n where "run_bytes (Literal bs) = n # bs" and "unat n + 1 = length bs" and "n < 128"
proof -
  define x where "x = (word_of_nat (length bs - 1) :: u8)"
  have l: "0 < length bs" using assms(1) by simp
  have u: "unat x = length bs - 1" using assms(2) l unfolding x_def unat_of_nat by simp
  then have "unat x + 1 = length bs" "x < 128" using l assms(2) by (simp_all add: word_less_nat_alt)
  then show thesis using that [of x] by (simp add: x_def del: of_nat_diff)
qed

lemma rle_run:
  assumes "reads s (run_bytes r @ rest)" and "run_ok r" and "i < pixels" and "4 * (i + length (run_samples r)) \<le> length buf" and "ch < 4"
  shows "\<exists>s'. rle_channel (Suc fuel) ch pixels i buf s =
    rle_channel fuel ch pixels (i + length (run_samples r)) (write_from ch i (run_samples r) buf) s' \<and> reads s' rest"
proof (cases r)
  case (Repeat k v)
  have k: "2 \<le> k" "k \<le> 128" using assms(2) Repeat by simp_all
  obtain n where n: "run_bytes (Repeat k v) = [n, v]" "unat (n XOR 0xFF) + 2 = k" "128 < n" using repeat_byte [OF k] .
  obtain s1 where s1: "get8 s = (n, s1)" "reads s1 (v # rest)" using get8_reads [of s n "v # rest"] assms(1) n(1) Repeat by auto
  obtain s2 where s2: "get8 s1 = (v, s2)" "reads s2 rest" using get8_reads [OF s1(2)] by blast
  have "fill_channel ch v [i..<i + k] buf = Inr (write_from ch i (replicate k v) buf)"
    using assms(4,5) Repeat by (intro fill_channel_writes) simp_all
  then show ?thesis
    using s1(1) s2 n assms(3) Repeat by (auto simp: bindE_runE Let_def simp del: upt_Suc)
next
  case (Literal bs)
  have l: "bs \<noteq> []" "length bs \<le> 128" using assms(2) Literal by simp_all
  obtain n where n: "run_bytes (Literal bs) = n # bs" "unat n + 1 = length bs" "n < 128" using literal_byte [OF l] .
  obtain s1 where s1: "get8 s = (n, s1)" "reads s1 (bs @ rest)" using get8_reads [of s n "bs @ rest"] assms(1) n(1) Literal by auto
  obtain s2 where "copy_channel rd8 ch [i..<i + length bs] buf s1 = (Inr (write_from ch i bs buf), s2)" "reads s2 rest"
    using copy_channel_writes [OF s1(2), of i buf ch] assms(4,5) Literal by auto
  then show ?thesis
    using s1(1) n assms(3) Literal by (auto simp: bindE_runE bindE_return Let_def simp del: upt_Suc)
next
  case NoOp
  then show ?thesis using get8_reads [of s 128 rest] assms(1,3) by (auto simp: bindE_runE)
qed

lemma bind_fails: "fst (m s) = Inl e \<Longrightarrow> fst (bindE m f s) = Inl e"
  by (auto simp: bindE_def split: prod.split)

lemma rle_run_overruns:
  assumes "reads s (run_bytes r @ rest)" and "run_ok r" and "i < pixels" and "length buf = 4 * pixels" and "pixels < i + length (run_samples r)"
  shows "fst (rle_channel (Suc fuel) ch pixels i buf s) = Inl (Undefined ''out'')"
proof (cases r)
  case (Repeat k v)
  have k: "2 \<le> k" "k \<le> 128" using assms(2) Repeat by simp_all
  obtain n where n: "run_bytes (Repeat k v) = [n, v]" "unat (n XOR 0xFF) + 2 = k" "128 < n" using repeat_byte [OF k] .
  obtain s1 where s1: "get8 s = (n, s1)" "reads s1 (v # rest)" using get8_reads [of s n "v # rest"] assms(1) n(1) Repeat by auto
  have "fill_channel ch v [i..<i + k] buf = Inl (Undefined ''out'')"
    using assms(4,5) k Repeat by (intro fill_channel_overruns) simp_all
  moreover obtain s2 where "get8 s1 = (v, s2)" using get8_reads [OF s1(2)] by blast
  ultimately show ?thesis using s1(1) n assms(3) by (auto simp: bindE_runE Let_def simp del: upt_Suc)
next
  case (Literal bs)
  have l: "bs \<noteq> []" "length bs \<le> 128" using assms(2) Literal by simp_all
  obtain n where n: "run_bytes (Literal bs) = n # bs" "unat n + 1 = length bs" "n < 128" using literal_byte [OF l] .
  obtain s1 where s1: "get8 s = (n, s1)" using get8_reads [of s n "bs @ rest"] assms(1) n(1) Literal by auto
  have "fst (copy_channel rd8 ch [i..<i + length bs] buf s1) = Inl (Undefined ''out'')"
    using assms(4,5) l Literal by (intro copy_channel_overruns) simp_all
  then have "fst (bindE (copy_channel rd8 ch [i..<i + length bs] buf) f s1) = Inl (Undefined ''out'')"
    for f :: "buffer \<Rightarrow> ('a, buffer) im"
    by (simp add: bind_fails [where m = "copy_channel rd8 ch [i..<i + length bs] buf"])
  then show ?thesis
    using s1(1) n assms(3) by (auto simp: bindE_runE Let_def simp del: upt_Suc)
next
  case NoOp
  then show ?thesis using assms(3,5) by simp
qed

subsection \<open>A channel\<close>

lemma rle_runs:
  assumes "reads s (concat (map run_bytes rs) @ rest)" and "list_all run_ok rs" and "i + length (samples rs) < pixels"
    and "length buf = 4 * pixels" and "ch < 4"
  shows "\<exists>s'. rle_channel (length rs + fuel) ch pixels i buf s =
    rle_channel fuel ch pixels (i + length (samples rs)) (write_from ch i (samples rs) buf) s' \<and> reads s' rest"
  using assms(1-4)
proof (induction rs arbitrary: s i buf)
  case (Cons r rs)
  have "reads s (run_bytes r @ concat (map run_bytes rs) @ rest)" "run_ok r" "i < pixels"
    "4 * (i + length (run_samples r)) \<le> length buf" using Cons.prems by simp_all
  from rle_run [OF this assms(5), of "length rs + fuel"] obtain s1 where
    s1: "rle_channel (Suc (length rs + fuel)) ch pixels i buf s =
      rle_channel (length rs + fuel) ch pixels (i + length (run_samples r)) (write_from ch i (run_samples r) buf) s1"
      "reads s1 (concat (map run_bytes rs) @ rest)" by blast
  from Cons.IH [OF this(2), of "i + length (run_samples r)" "write_from ch i (run_samples r) buf"] show ?case
    using Cons.prems(2-4) unfolding list.size(4) add_Suc_right add_Suc add_0_right s1(1)
    by (simp add: write_from_append add.assoc)
qed auto

lemma rle_channel_reads:
  assumes "reads s (concat (map run_bytes rs) @ rest)" and "list_all run_ok rs" and "length (samples rs) = pixels"
    and "rs \<noteq> []" and "run_samples (last rs) \<noteq> []" and "length buf = 4 * pixels" and "ch < 4" and "length rs < fuel"
  shows "\<exists>s'. rle_channel fuel ch pixels 0 buf s = (Inr (write_from ch 0 (samples rs) buf), s') \<and> reads s' rest"
proof -
  obtain rs' r where rs: "rs = rs' @ [r]" using assms(4) by (metis append_butlast_last_id)
  obtain more where fuel: "fuel = length rs' + Suc (Suc more)"
    using assms(8) less_imp_add_positive [of "length rs' + 1" fuel] by (auto simp: rs gr0_conv_Suc)
  have len: "length (samples rs') + length (run_samples r) = pixels" "run_samples r \<noteq> []" using assms(3,5) by (simp_all add: rs)
  have "0 + length (samples rs') < pixels" using len by (cases "run_samples r") simp_all
  moreover have "reads s (concat (map run_bytes rs') @ run_bytes r @ rest)" "list_all run_ok rs'"
    using assms(1,2) by (simp_all add: rs)
  ultimately obtain s1 where
    s1: "rle_channel fuel ch pixels 0 buf s = rle_channel (Suc (Suc more)) ch pixels (length (samples rs')) (write_from ch 0 (samples rs') buf) s1"
      "reads s1 (run_bytes r @ rest)"
    using rle_runs [of s rs' "run_bytes r @ rest" 0 pixels buf ch "Suc (Suc more)"] assms(6,7) unfolding fuel by auto
  obtain s2 where "rle_channel (Suc (Suc more)) ch pixels (length (samples rs')) (write_from ch 0 (samples rs') buf) s1 =
      rle_channel (Suc more) ch pixels pixels (write_from ch 0 (samples rs) buf) s2" "reads s2 rest"
    using rle_run [OF s1(2), of "length (samples rs')" pixels "write_from ch 0 (samples rs') buf" ch "Suc more"] assms(2,6,7) len
    by (auto simp: rs write_from_append)
  then show ?thesis using s1(1) by simp
qed

lemma rle_channel_overruns:
  assumes "reads s (concat (map run_bytes rs) @ run_bytes r @ rest)" and "list_all run_ok rs" and "run_ok r"
    and "length (samples rs) < pixels" and "pixels < length (samples rs) + length (run_samples r)"
    and "length buf = 4 * pixels" and "ch < 4" and "length rs < fuel"
  shows "fst (rle_channel fuel ch pixels 0 buf s) = Inl (Undefined ''out'')"
proof -
  obtain more where fuel: "fuel = length rs + Suc more"
    using assms(8) less_imp_add_positive [of "length rs" fuel] by (auto simp: gr0_conv_Suc)
  from rle_runs [OF assms(1,2), of 0 pixels buf ch "Suc more"] assms(4,6,7) obtain s1 where
    s1: "rle_channel fuel ch pixels 0 buf s = rle_channel (Suc more) ch pixels (length (samples rs)) (write_from ch 0 (samples rs) buf) s1"
      "reads s1 (run_bytes r @ rest)" unfolding fuel by auto
  show ?thesis unfolding s1(1) by (rule rle_run_overruns [OF s1(2)]) (use assms(3-6) in simp_all)
qed

subsection \<open>The header\<close>

lemma ensures_rd16be:
  assumes "reads s (be16 n @ bs)" and "n < 2 ^ 16" and "\<And>s'. reads s' bs \<Longrightarrow> Q (int n) s'"
  shows "ensures rd16be s Q"
proof -
  have "int (n div 256) mod 256 = int (n div 256)" using assms(2) by simp
  then have "2 ^ 8 * uint (word_of_nat (n div 2 ^ 8) :: u8) + uint (word_of_nat n :: u8) = 256 * int (n div 256) + int n mod 256"
    unfolding uint_byte by simp
  also have "\<dots> = int n" by (simp add: zdiv_int)
  finally show ?thesis
    using get16be_reads [of s "word_of_nat (n div 2 ^ 8)" "word_of_nat n" bs] assms(1,3)
    by (auto simp: be16_def ensures_def runE_apply)
qed

lemma ensures_section:
  assumes "reads s (psd_section m @ bs)" and "length m < 2 ^ 31" and "\<And>s'. reads s' bs \<Longrightarrow> Q () s'"
  shows "ensures skip_section s Q"
  unfolding skip_section_def
proof (rule ensures_bind, rule ensures_rd32be)
  show "reads s (be32 (length m) @ m @ bs)" "length m < 2 ^ 32" using assms(1,2) by (simp_all add: psd_section_def)
  fix s' :: "'a ctx" assume "reads s' (m @ bs)"
  then show "ensures (skipE (sint (word_of_nat (length m) :: u32))) s' Q"
    by (rule ensures_skip) (use sint_small [OF assms(2)] assms(3) in simp_all)
qed

lemma psd_header_reads:
  assumes "n \<le> 16" and "w < 2 ^ 32" and "h < 2 ^ 32" and "length reserved = 6" and "length m1 < 2 ^ 31" and "length m2 < 2 ^ 31" and "length m3 < 2 ^ 31"
    and "reads s (psd_file n w h reserved [m1, m2, m3] table chs)"
  shows "ensures psd_header s (\<lambda>info s'. info = \<lparr>psd_channel_count = n, psd_w = word_of_nat w, psd_h = word_of_nat h,
      psd_wide = False, psd_compressed = True\<rparr> \<and> reads s' (table @ concat (map run_bytes (concat chs))))"
  unfolding psd_header_def
  apply (rule ensures_bind, rule ensures_rd32be [OF assms(8) [unfolded psd_file_def]], simp)
  apply (simp del: of_nat_numeral add: of_nat_numeral [where 'a = "32 word"])
  apply (rule ensures_bind, rule ensures_rd16be, assumption, simp, simp)
  apply (rule ensures_bind, rule ensures_skip, assumption, simp add: assms(4))
  apply (rule ensures_bind, rule ensures_rd16be, assumption)
  using assms(1) apply simp
  apply (simp add: leD [OF assms(1)])
  apply (rule ensures_bind, rule ensures_rd32be, assumption, use assms(3) in simp)
  apply (rule ensures_bind, rule ensures_rd32be, assumption, use assms(2) in simp)
  apply (rule ensures_bind, rule ensures_rd16be, assumption, simp, simp)
  apply (rule ensures_bind, rule ensures_rd16be, assumption, simp, simp)
  apply (rule ensures_bind, rule ensures_section, assumption, rule assms(5))
  apply (rule ensures_bind, rule ensures_section, assumption, rule assms(6))
  apply (rule ensures_bind, rule ensures_section, assumption, rule assms(7))
  apply (rule ensures_bind, rule ensures_rd16be, assumption, simp, simp)
  apply (rule ensures_return, simp)
  done

subsection \<open>The picture\<close>

text \<open>What a channel holds: its runs, or the default of a channel that the file does not have.\<close>

definition plane :: "run list list \<Rightarrow> nat \<Rightarrow> nat \<Rightarrow> u8 list" where
  "plane chs pixels ch = (if ch < length chs then samples (chs ! ch) else replicate pixels (if ch = 3 then 255 else 0))"

definition rgba :: "run list list \<Rightarrow> nat \<Rightarrow> u8 list" where
  "rgba chs pixels = concat (map (\<lambda>i. map (\<lambda>ch. plane chs pixels ch ! i) [0..<4]) [0..<pixels])"

definition runs_fill :: "nat \<Rightarrow> nat \<Rightarrow> run list \<Rightarrow> bool" where
  "runs_fill fuel pixels rs \<longleftrightarrow> list_all run_ok rs \<and> length (samples rs) = pixels \<and> rs \<noteq> [] \<and> run_samples (last rs) \<noteq> [] \<and> length rs < fuel"

lemma plane_length: "\<forall>rs \<in> set chs. runs_fill fuel pixels rs \<Longrightarrow> length (plane chs pixels ch) = pixels"
  by (simp add: plane_def runs_fill_def)

lemma channel_reads:
  assumes "\<forall>rs \<in> set chs. runs_fill fuel pixels rs" and "reads s (concat (map run_bytes (concat (drop ch chs))))"
    and "length buf = 4 * pixels" and "ch < 4"
  shows "ensures (psd_channel fuel True wide (length chs) pixels ch buf) s
    (\<lambda>b s'. b = write_from ch 0 (plane chs pixels ch) buf \<and> reads s' (concat (map run_bytes (concat (drop (Suc ch) chs)))))"
proof (cases "ch < length chs")
  case True
  then have d: "drop ch chs = chs ! ch # drop (Suc ch) chs" by (rule Cons_nth_drop_Suc [symmetric])
  have "runs_fill fuel pixels (chs ! ch)" using assms(1) True by simp
  then show ?thesis
    using rle_channel_reads [of s "chs ! ch" "concat (map run_bytes (concat (drop (Suc ch) chs)))" pixels buf ch fuel] assms(2-4) True
    by (auto simp: d psd_channel_def plane_def runs_fill_def ensures_def)
next
  case False
  then show ?thesis
    using fill_channel_writes [of 0 pixels buf ch] assms(2-4) by (simp add: psd_channel_def plane_def ensures_def)
qed

lemma channels_read:
  assumes "\<forall>rs \<in> set chs. runs_fill fuel pixels rs" and "reads s (concat (map run_bytes (concat (drop ch chs))))"
    and "length buf = 4 * pixels" and "ch \<le> 4"
  shows "ensures (psd_channels fuel True wide (length chs) pixels [ch..<4] buf) s (\<lambda>b s'. length b = 4 * pixels \<and>
    (\<forall>j < 4 * pixels. b ! j = (if ch \<le> j mod 4 then Some (plane chs pixels (j mod 4) ! (j div 4)) else buf ! j)))"
  using assms(2-4)
proof (induction "4 - ch" arbitrary: ch s buf)
  case 0
  then have "ch = 4" by simp
  moreover have "\<not> 4 \<le> j mod 4" for j :: nat by (simp add: not_le)
  ultimately show ?case using "0.prems"(2) by (simp add: ensures_def)
next
  case (Suc m)
  then have ch: "ch < 4" by simp
  then have u: "[ch..<4] = ch # [Suc ch..<4]" by (rule upt_conv_Cons)
  let ?buf = "write_from ch 0 (plane chs pixels ch) buf"
  have first: "?buf ! j = (if j mod 4 = ch then Some (plane chs pixels ch ! (j div 4)) else buf ! j)" if "j < 4 * pixels" for j
    using write_from_nth [OF ch, of j buf 0 "plane chs pixels ch"] that Suc.prems(2) plane_length [OF assms(1)] by auto
  show ?case
    unfolding u psd_channels.simps
  proof (rule ensures_bind, rule ensures_mono [OF channel_reads [OF assms(1) Suc.prems(1,2) ch]], elim conjE, hypsubst)
    fix s' :: "'a ctx"
    assume "reads s' (concat (map run_bytes (concat (drop (Suc ch) chs))))"
    then have "ensures (psd_channels fuel True wide (length chs) pixels [Suc ch..<4] ?buf) s' (\<lambda>b s'. length b = 4 * pixels \<and>
        (\<forall>j < 4 * pixels. b ! j = (if Suc ch \<le> j mod 4 then Some (plane chs pixels (j mod 4) ! (j div 4)) else ?buf ! j)))"
      using Suc.hyps(1) [of "Suc ch" s' ?buf] Suc.hyps(2) Suc.prems(2) ch by simp
    then show "ensures (psd_channels fuel True wide (length chs) pixels [Suc ch..<4] ?buf) s' (\<lambda>b s'. length b = 4 * pixels \<and>
        (\<forall>j < 4 * pixels. b ! j = (if ch \<le> j mod 4 then Some (plane chs pixels (j mod 4) ! (j div 4)) else buf ! j)))"
      by (rule ensures_mono) (auto simp: first not_le less_Suc_eq)
  qed
qed

lemma all_channels_read:
  assumes "\<forall>rs \<in> set chs. runs_fill fuel pixels rs" and "reads s (concat (map run_bytes (concat chs)))" and "length buf = 4 * pixels"
  shows "ensures (psd_channels fuel True wide (length chs) pixels [0..<4] buf) s (\<lambda>b s'. b = map Some (rgba chs pixels))"
proof (rule ensures_mono [OF channels_read [OF assms(1), of s 0 buf]])
  show "reads s (concat (map run_bytes (concat (drop 0 chs))))" "length buf = 4 * pixels" "0 \<le> (4 :: nat)" using assms(2,3) by simp_all
  fix b :: buffer
  assume b: "length b = 4 * pixels \<and> (\<forall>j < 4 * pixels. b ! j = (if 0 \<le> j mod 4 then Some (plane chs pixels (j mod 4) ! (j div 4)) else buf ! j))"
  have len: "length (rgba chs pixels) = 4 * pixels" unfolding rgba_def length_rectangle by simp
  show "b = map Some (rgba chs pixels)"
  proof (rule nth_equalityI)
    fix j assume "j < length b"
    then have j: "j < 4 * pixels" using b by simp
    then have "rgba chs pixels ! (4 * (j div 4) + j mod 4) = plane chs pixels (j mod 4) ! (j div 4)"
      unfolding rgba_def by (intro nth_rectangle) simp_all
    then show "b ! j = map Some (rgba chs pixels) ! j" using b j len by simp
  qed (use b len in simp)
qed

text \<open>The matte of a picture whose alpha values are all 0 or 255.\<close>

lemma remove_matte_opaque:
  "\<forall>px \<in> set pxs. length px = 4 \<and> (px ! 3 = 0 \<or> px ! 3 = 255) \<Longrightarrow>
    remove_matte fm (length pxs) (map Some (concat pxs)) = Inr (map Some (concat pxs))"
proof (induction pxs)
  case (Cons px pxs)
  then obtain r g b a where px: "px = [r, g, b, a]" by (auto simp: length_Suc_conv numeral_eq_Suc)
  then have "a = 0 \<or> a = 255" using Cons.prems by simp
  then show ?case using Cons by (auto simp: px matte_pixel_def)
qed simp

lemma matte_rgba:
  assumes "\<forall>rs \<in> set chs. runs_fill fuel pixels rs" and "length chs = 4" and "set (samples (chs ! 3)) \<subseteq> {0, 255}"
  shows "remove_matte fm pixels (map Some (rgba chs pixels)) = Inr (map Some (rgba chs pixels))"
proof -
  let ?px = "\<lambda>i. map (\<lambda>ch. plane chs pixels ch ! i) [0..<4]"
  have "plane chs pixels 3 ! i \<in> {0, 255}" if "i < pixels" for i
  proof -
    have "plane chs pixels 3 ! i \<in> set (plane chs pixels 3)" using that plane_length [OF assms(1), of 3] by simp
    then show ?thesis using assms(2,3) by (auto simp: plane_def)
  qed
  then have "\<forall>px \<in> set (map ?px [0..<pixels]). length px = 4 \<and> (px ! 3 = 0 \<or> px ! 3 = 255)" by (auto simp del: upt_rec_numeral)
  from remove_matte_opaque [OF this, of fm] show ?thesis by (simp add: rgba_def)
qed

subsection \<open>The decoder\<close>

lemma int32_nat: "m < 2 ^ 31 \<Longrightarrow> int32 (int m) = Inr (int m)"
  by (simp add: int32_def)

text \<open>Up to the first channel.\<close>

lemma psd_starts:
  fixes u :: 'u
  assumes "n \<le> 4" and "0 < w" and "0 < h" and "4 * w * h < 2 ^ 31" and "2 * h * n < 2 ^ 31" and "length reserved = 6"
    and "length m1 < 2 ^ 31" and "length m2 < 2 ^ 31" and "length m3 < 2 ^ 31" and "length table = 2 * h * n" and "al (4 * w * h)"
    and "info = \<lparr>psd_channel_count = n, psd_w = word_of_nat w, psd_h = word_of_nat h, psd_wide = False, psd_compressed = True\<rparr>"
  shows "\<exists>s. reads s (concat (map run_bytes (concat chs))) \<and>
    psd_load fm fuel al req_comp (start_mem u (psd_file n w h reserved [m1, m2, m3] table chs)) =
      bindE (psd_channels fuel True False n (w * h) [0..<4] (replicate (4 * w * h) None)) (psd_finish fm al req_comp info) s"
proof -
  have "4 * w \<le> 4 * w * h" "h \<le> 4 * w * h" using assms(2,3) by simp_all
  then have "4 * w < 2 ^ 31" "h < 2 ^ 31" using assms(4) by linarith+
  then have small: "4 * w < 2 ^ 31" "w < 2 ^ 31" "h < 2 ^ 31" "w < 2 ^ 32" "h < 2 ^ 32" by simp_all
  have sizes: "sint (psd_w info) = int w" "sint (psd_h info) = int h" using sint_small small(2,3) by (simp_all add: assms(12))
  have p: "int w * int h = int (w * h)" "4 * int w = int (4 * w)" "int (4 * w) * int h = int (4 * w * h)"
    "int h * int n = int (h * n)" "int (h * n) * 2 = int (2 * h * n)" by simp_all
  have "n \<le> 16" using assms(1) by simp
  from psd_header_reads [OF this small(4,5) assms(6-9) reads_start [where u = u], of table chs] obtain s1 where
    s1: "psd_header (start_mem u (psd_file n w h reserved [m1, m2, m3] table chs)) = (Inr info, s1)" "reads s1 (table @ concat (map run_bytes (concat chs)))"
    unfolding ensures_def assms(12) by auto
  have "int32 (int (4 * w)) = Inr (int (4 * w))" "int32 (int (4 * w * h)) = Inr (int (4 * w * h))"
    "int32 (int (h * n)) = Inr (int (h * n))" "int32 (int (2 * h * n)) = Inr (int (2 * h * n))"
    by (rule int32_nat; use small(1) assms(4,5) in linarith)+
  moreover have "nat (int m mod 2 ^ 64) = m" if "m < 2 ^ 31" for m :: nat using that by simp
  note this [OF assms(4)]
  ultimately have parts: "psd_malloc al (sint (psd_w info)) (sint (psd_h info)) = (returnE (replicate (4 * w * h) None) :: ('u, buffer) im)"
    "psd_image fuel info buf = (bindE (skipE (int (2 * h * n))) (\<lambda>_. psd_channels fuel True False n (w * h) [0..<4] buf) :: ('u, buffer) im)" for buf
    unfolding psd_malloc_def psd_image_def sizes p using assms(11,12) by (simp_all add: bindE_assoc Let_def p del: of_nat_mult)
  have "reads (skip (int (2 * h * n)) s1) (concat (map run_bytes (concat chs)))"
    using skip_reads [OF s1(2), of "int (2 * h * n)"] assms(10) by simp
  moreover have "psd_load fm fuel al req_comp (start_mem u (psd_file n w h reserved [m1, m2, m3] table chs)) =
      bindE (psd_channels fuel True False n (w * h) [0..<4] (replicate (4 * w * h) None)) (psd_finish fm al req_comp info) (skip (int (2 * h * n)) s1)"
    unfolding psd_load_def using s1(1) parts by (simp add: bindE_return bindE_assoc)
  ultimately show ?thesis by blast
qed

text \<open>
  C16: a Photoshop file with at most three run-length encoded channels, or with four of which the last is 0 or 255
  everywhere, decodes to its picture: the channels are
  interleaved, a channel that the file does not have is black, or opaque for the alpha channel, and it
  does not matter how a channel is cut into runs, nor what the other sections of the file hold.
\<close>

theorem psd_round_trip:
  assumes "length chs \<le> 4" and "\<forall>rs \<in> set chs. runs_fill fuel (w * h) rs" and "length chs = 4 \<Longrightarrow> set (samples (chs ! 3)) \<subseteq> {0, 255}"
    and "0 < w" and "0 < h" and "4 * w * h < 2 ^ 31" and "2 * h * length chs < 2 ^ 31" and "length reserved = 6"
    and "length m1 < 2 ^ 31" and "length m2 < 2 ^ 31" and "length m3 < 2 ^ 31" and "length table = 2 * h * length chs" and "al (4 * w * h)"
    and "req_comp \<in> {0, 4}"
  shows "\<exists>s'. psd_load fm fuel al req_comp (start_mem u (psd_file (length chs) w h reserved [m1, m2, m3] table chs)) =
    (Inr \<lparr>pic_x = w, pic_y = h, pic_comp = 4, pic_data = map Some (rgba chs (w * h))\<rparr>, s')"
proof -
  have "h \<le> 4 * w * h" "w \<le> 4 * w * h" using assms(4,5) by simp_all
  then have small: "w < 2 ^ 31" "h < 2 ^ 31" using assms(6) by linarith+
  define info where "info = \<lparr>psd_channel_count = length chs, psd_w = word_of_nat w, psd_h = word_of_nat h, psd_wide = False, psd_compressed = True\<rparr>"
  obtain s where s: "reads s (concat (map run_bytes (concat chs)))"
    "psd_load fm fuel al req_comp (start_mem u (psd_file (length chs) w h reserved [m1, m2, m3] table chs)) =
      bindE (psd_channels fuel True False (length chs) (w * h) [0..<4] (replicate (4 * w * h) None)) (psd_finish fm al req_comp info) s"
    using psd_starts [where al = al and fm = fm and fuel = fuel and req_comp = req_comp and u = u and chs = chs, OF assms(1,4-13) info_def] by blast
  obtain s' where c: "psd_channels fuel True False (length chs) (w * h) [0..<4] (replicate (4 * w * h) None) s = (Inr (map Some (rgba chs (w * h))), s')"
    using all_channels_read [OF assms(2) s(1), of "replicate (4 * w * h) None" False] by (auto simp: ensures_def mult.assoc)
  have "nat (sint (word_of_nat w :: u32) * sint (word_of_nat h :: u32)) = w * h"
    using sint_small small by (simp add: nat_mult_distrib)
  moreover have "unat (word_of_nat w :: u32) = w" "unat (word_of_nat h :: u32) = h" using small by (simp_all add: unat_of_nat)
  moreover have "remove_matte fm (w * h) (map Some (rgba chs (w * h))) = Inr (map Some (rgba chs (w * h)))" if "4 \<le> length chs"
    using matte_rgba [OF assms(2) _ assms(3), of fm] that assms(1) by simp
  ultimately have "psd_finish fm al req_comp info (map Some (rgba chs (w * h))) s' =
      (Inr \<lparr>pic_x = w, pic_y = h, pic_comp = 4, pic_data = map Some (rgba chs (w * h))\<rparr>, s')"
    using assms(14) by (auto simp: psd_finish_def info_def Let_def)
  then show ?thesis using s(2) c by (simp add: bindE_return)
qed

lemma psd_round_trip_witness:
  "\<exists>s'. psd_load \<lparr>mm_of_int = id, mm_div = (div), mm_mult = (*), mm_add = (+), mm_sub = (-), mm_byte = \<lambda>v. Some (word_of_int v)\<rparr> 5 (\<lambda>_. True) 0
      (start_mem () (psd_file 3 2 1 [0, 0, 0, 0, 0, 0] [[], [7], []] [0, 0, 0, 0, 0, 0] [[Repeat 2 9], [NoOp, Literal [4, 5]], [Literal [1], NoOp, Literal [2]]])) =
    (Inr \<lparr>pic_x = 2, pic_y = 1, pic_comp = 4, pic_data = map Some [9, 4, 1, 255, 9, 5, 2, 255]\<rparr>, s')"
proof -
  let ?chs = "[[Repeat 2 9], [NoOp, Literal [4, 5]], [Literal [1], NoOp, Literal [2]]]"
  have "\<forall>rs \<in> set ?chs. runs_fill 5 2 rs" by (simp add: runs_fill_def)
  moreover have "rgba ?chs 2 = [9, 4, 1, 255, 9, 5, 2, 255]" by (simp add: rgba_def plane_def numeral_2_eq_2 numeral_3_eq_3 upt_rec)
  ultimately show ?thesis
    using psd_round_trip [of ?chs 5 2 1 "[0, 0, 0, 0, 0, 0]" "[]" "[7]" "[]" "[0, 0, 0, 0, 0, 0]" "\<lambda>_. True" 0 _ "()"]
    by (simp add: numeral_3_eq_3)
qed

text \<open>
  C39: the decoder does not check the length of a run: if the first channel has a run that goes past the last
  pixel, it is written past the end of the picture, whatever follows in the file.
\<close>

theorem psd_run_overruns:
  assumes "list_all run_ok rs" and "run_ok r" and "length (samples rs) < w * h" and "w * h < length (samples rs) + length (run_samples r)"
    and "length rs < fuel" and "0 < n" and "n \<le> 4" and "0 < w" and "0 < h" and "4 * w * h < 2 ^ 31" and "2 * h * n < 2 ^ 31" and "length reserved = 6"
    and "length m1 < 2 ^ 31" and "length m2 < 2 ^ 31" and "length m3 < 2 ^ 31" and "length table = 2 * h * n" and "al (4 * w * h)"
  shows "fst (psd_load fm fuel al req_comp (start_mem u (psd_file n w h reserved [m1, m2, m3] table ((rs @ r # further) # chs)))) = Inl (Undefined ''out'')"
proof -
  obtain s info where s: "reads s (concat (map run_bytes (concat ((rs @ r # further) # chs))))"
    "psd_load fm fuel al req_comp (start_mem u (psd_file n w h reserved [m1, m2, m3] table ((rs @ r # further) # chs))) =
      bindE (psd_channels fuel True False n (w * h) [0..<4] (replicate (4 * w * h) None)) (psd_finish fm al req_comp info) s"
    using psd_starts [where al = al and fm = fm and fuel = fuel and req_comp = req_comp and u = u and chs = "(rs @ r # further) # chs", OF assms(7-17) refl] by blast
  have "reads s (concat (map run_bytes rs) @ run_bytes r @ concat (map run_bytes (further @ concat chs)))" using s(1) by simp
  from rle_channel_overruns [OF this assms(1-4), of "replicate (4 * w * h) None" 0 fuel]
  have "fst (psd_channel fuel True False n (w * h) 0 (replicate (4 * w * h) None) s) = Inl (Undefined ''out'')"
    using assms(5,6) by (simp add: psd_channel_def)
  then have "fst (psd_channels fuel True False n (w * h) [0..<4] (replicate (4 * w * h) None) s) = Inl (Undefined ''out'')"
    unfolding upt_conv_Cons [of 0 4, simplified] psd_channels.simps by (rule bind_fails)
  then show ?thesis unfolding s(2) by (rule bind_fails)
qed

lemma psd_run_overruns_witness:
  "fst (psd_load \<lparr>mm_of_int = id, mm_div = (div), mm_mult = (*), mm_add = (+), mm_sub = (-), mm_byte = \<lambda>v. Some (word_of_int v)\<rparr> 5 (\<lambda>_. True) 0
      (start_mem () (psd_file 3 2 1 [0, 0, 0, 0, 0, 0] [[], [7], []] [0, 0, 0, 0, 0, 0] [[Literal [1], Repeat 3 9]]))) = Inl (Undefined ''out'')"
  using psd_run_overruns [of "[Literal [1]]" "Repeat 3 9" 2 1 5 3 "[0, 0, 0, 0, 0, 0]" "[]" "[7]" "[]" "[0, 0, 0, 0, 0, 0]" "\<lambda>_. True" _ 0 "()" "[]" "[]"]
  by simp

end
