(* ===== verification/PicLaws.thy ===== *)
theory PicLaws
  imports Pic PsdLaws
begin

text \<open>
  What the decoder of Softimage files makes of a picture with alpha whose lines are cut into runs, and of a
  file whose packets it refuses.
\<close>

subsection \<open>The files\<close>

text \<open>A run of one pixel, whose length takes two bytes if it is long, or pixels one by one.\<close>

datatype seg = Same nat "u8 list" | Long nat "u8 list" | Each "u8 list list"

fun seg_pixels :: "seg \<Rightarrow> u8 list list" where
  "seg_pixels (Same k px) = replicate k px"
| "seg_pixels (Long k px) = replicate k px"
| "seg_pixels (Each pxs) = pxs"

fun seg_bytes :: "seg \<Rightarrow> u8 list" where
  "seg_bytes (Same k px) = word_of_nat (127 + k) # px"
| "seg_bytes (Long k px) = 128 # be16 k @ px"
| "seg_bytes (Each pxs) = word_of_nat (length pxs - 1) # concat pxs"

fun seg_ok :: "seg \<Rightarrow> bool" where
  "seg_ok (Same k px) \<longleftrightarrow> 2 \<le> k \<and> k \<le> 128 \<and> length px = 4"
| "seg_ok (Long k px) \<longleftrightarrow> 0 < k \<and> k < 2 ^ 16 \<and> length px = 4"
| "seg_ok (Each pxs) \<longleftrightarrow> pxs \<noteq> [] \<and> length pxs \<le> 128 \<and> (\<forall>px \<in> set pxs. length px = 4)"

abbreviation line_pixels :: "seg list \<Rightarrow> u8 list list" where
  "line_pixels segs \<equiv> concat (map seg_pixels segs)"

text \<open>The first 92 bytes and the fields after the dimensions are arbitrary.\<close>

definition pic_file :: "u8 list \<Rightarrow> nat \<Rightarrow> nat \<Rightarrow> u8 list \<Rightarrow> u8 list \<Rightarrow> u8 list" where
  "pic_file head w h extra body = head @ be16 w @ be16 h @ extra @ body"

subsection \<open>Pixels\<close>

lemma not_at_end: "reads s (b # bs) \<Longrightarrow> (\<And>s'. s' = s \<Longrightarrow> Q False s') \<Longrightarrow> ensures at_end s Q"
proof -
  assume a: "reads s (b # bs)" "\<And>s'. s' = s \<Longrightarrow> Q False s'"
  then have "io s = None" "mem_rest s = b # bs" by (simp_all add: reads_def mem_ok_def)
  then have "\<not> at_eof s" by (auto simp: at_eof_def mem_rest_def)
  then have "at_end s = (Inr False, s)" by (simp add: at_end_def runE_apply)
  then show ?thesis using a(2) unfolding ensures_def by blast
qed

lemma all_channels: "wants 0xF0 0" "wants 0xF0 1" "wants 0xF0 (Suc 0)" "wants 0xF0 2" "wants 0xF0 3"
  by (simp_all add: wants_def)

lemma four_channels: "[0..<4] = [0, 1, 2, 3 :: nat]"
  by (simp add: upt_rec)

lemma read_channels_step:
  assumes "wants channel i" and "reads s (b # bs)" and "\<And>s'. reads s' bs \<Longrightarrow> ensures (read_channels channel is (dest[i := Some b])) s' Q"
  shows "ensures (read_channels channel (i # is) dest) s Q"
  using assms by (auto intro!: ensures_bind not_at_end [OF assms(2)] ensures_rd8 [OF assms(2)])

lemma readval_reads:
  assumes "reads s (px @ bs)" and "length px = 4" and "length dest = 4" and "\<And>s'. reads s' bs \<Longrightarrow> Q (map Some px) s'"
  shows "ensures (readval 0xF0 dest) s Q"
proof -
  obtain r g b a where px: "px = [r, g, b, a]" using assms(2) by (auto simp: length_Suc_conv numeral_eq_Suc)
  obtain d0 d1 d2 d3 where dest: "dest = [d0, d1, d2, d3]" using assms(3) by (auto simp: length_Suc_conv numeral_eq_Suc)
  have s: "reads s (r # g # b # a # bs)" using assms(1) by (simp add: px)
  show ?thesis
    unfolding readval_def four_channels
    by (rule read_channels_step [OF all_channels(1) s], rule read_channels_step [OF all_channels(2)], assumption,
        rule read_channels_step [OF all_channels(4)], assumption, rule read_channels_step [OF all_channels(5)], assumption)
      (use assms(4) in \<open>simp add: px dest ensures_return\<close>)
qed

lemma copyval_all: "length px = 4 \<Longrightarrow> copyval 0xF0 dest (map Some px) = map Some px"
proof -
  assume "length px = 4"
  then obtain r g b a where px: "px = [r, g, b, a]" by (auto simp: length_Suc_conv numeral_eq_Suc)
  show ?thesis unfolding copyval_def four_channels by (simp add: all_channels px)
qed

text \<open>The picture while its pixels arrive; it starts white and opaque.\<close>

definition so_far :: "u8 list list \<Rightarrow> nat \<Rightarrow> buffer" where
  "so_far pxs m = map Some (concat pxs) @ replicate (4 * m) (Some 0xff)"

lemma so_far_pixel:
  assumes "\<forall>px \<in> set pxs. length px = 4" and "0 < m" and "length px = 4"
  shows "\<exists>old. pixel_at (length pxs) (so_far pxs m) = Inr old \<and> length old = 4"
    and "set_pixel (length pxs) (map Some px) (so_far pxs m) = so_far (pxs @ [px]) (m - 1)"
proof -
  have len: "length (concat pxs) = 4 * length pxs" using length_concat_chunks [OF assms(1)] .
  then have "pixel_at (length pxs) (so_far pxs m) = Inr (take 4 (replicate (4 * m) (Some 0xff)))" using assms(2)
    by (simp add: pixel_at_def so_far_def)
  then show "\<exists>old. pixel_at (length pxs) (so_far pxs m) = Inr old \<and> length old = 4" using assms(2) by auto
  have "4 * m - 4 = 4 * (m - 1)" by simp
  then show "set_pixel (length pxs) (map Some px) (so_far pxs m) = so_far (pxs @ [px]) (m - 1)"
    using len by (simp add: set_pixel_def so_far_def drop_replicate)
qed

lemma read_pixels_reads:
  "reads s (concat new @ bs) \<Longrightarrow> \<forall>px \<in> set (pxs @ new). length px = 4 \<Longrightarrow> length new \<le> m \<Longrightarrow>
    (\<And>s'. reads s' bs \<Longrightarrow> Q (so_far (pxs @ new) (m - length new)) s') \<Longrightarrow>
    ensures (read_pixels 0xF0 [length pxs..<length pxs + length new] (so_far pxs m)) s Q"
proof (induction new arbitrary: pxs m s)
  case (Cons px new)
  have ok: "\<forall>px \<in> set pxs. length px = 4" "0 < m" "length px = 4" using Cons.prems(2,3) by auto
  obtain old where old: "pixel_at (length pxs) (so_far pxs m) = Inr old" "length old = 4" using so_far_pixel(1) [OF ok] by blast
  have u: "[length pxs..<length pxs + length (px # new)] = length pxs # [length (pxs @ [px])..<length (pxs @ [px]) + length new]"
    using upt_more [of "length pxs" "length new"] by simp
  have s: "reads s (px @ concat new @ bs)" using Cons.prems(1) by simp
  show ?case
    unfolding u read_pixels.simps old(1) bindE_Inr
  proof (rule ensures_bind, rule readval_reads [OF s ok(3) old(2)], unfold so_far_pixel(2) [OF ok])
    fix s' :: "'a ctx" assume "reads s' (concat new @ bs)"
    then show "ensures (read_pixels 0xF0 [length (pxs @ [px])..<length (pxs @ [px]) + length new] (so_far (pxs @ [px]) (m - 1))) s' Q"
      by (rule Cons.IH) (use Cons.prems(2-4) in auto)
  qed
qed (simp add: ensures_return)

lemma copy_pixels_run:
  "\<forall>px \<in> set pxs. length px = 4 \<Longrightarrow> length px = 4 \<Longrightarrow> k \<le> m \<Longrightarrow>
    copy_pixels 0xF0 (map Some px) [length pxs..<length pxs + k] (so_far pxs m) = Inr (so_far (pxs @ replicate k px) (m - k))"
proof (induction k arbitrary: pxs m)
  case (Suc k)
  have ok: "\<forall>px \<in> set pxs. length px = 4" "0 < m" "length px = 4" using Suc.prems by auto
  obtain old where old: "pixel_at (length pxs) (so_far pxs m) = Inr old" using so_far_pixel(1) [OF ok] by blast
  have u: "[length pxs..<length pxs + Suc k] = length pxs # [length (pxs @ [px])..<length (pxs @ [px]) + k]"
    using upt_more [of "length pxs" k] by simp
  show ?case
    using Suc.IH [of "pxs @ [px]" "m - 1"] Suc.prems so_far_pixel(2) [OF ok]
    unfolding u copy_pixels.simps old sum.case copyval_all [OF ok(3)] by simp
qed simp

subsection \<open>Lines\<close>

lemma same_byte:
  assumes "2 \<le> k" and "k \<le> 128"
  obtains n where "seg_bytes (Same k px) = n # px" and "unat n = k + 127" and "128 < n"
proof -
  define x where "x = (word_of_nat (127 + k) :: u8)"
  have u: "unat x = k + 127" using assms unfolding x_def unat_of_nat by simp
  then have "128 < x" using assms by (simp add: word_less_nat_alt)
  then show thesis using that [of x] u by (simp add: x_def)
qed

lemma each_byte:
  assumes "pxs \<noteq> []" and "length pxs \<le> 128"
  obtains n where "seg_bytes (Each pxs) = n # concat pxs" and "unat n + 1 = length pxs" and "n < 128"
proof -
  define x where "x = (word_of_nat (length pxs - 1) :: u8)"
  have l: "0 < length pxs" using assms(1) by simp
  have u: "unat x = length pxs - 1" using assms(2) l unfolding x_def unat_of_nat by simp
  then have "unat x + 1 = length pxs" "x < 128" using l assms(2) by (simp_all add: word_less_nat_alt)
  then show thesis using that [of x] by (simp add: x_def del: of_nat_diff)
qed

lemma seg_runs:
  fixes s :: "'u ctx"
  assumes "reads s (seg_bytes g @ bs)" and "seg_ok g" and "length (seg_pixels g) \<le> left" and "left \<le> m" and "\<forall>px \<in> set pxs. length px = 4"
    and "\<And>s'. reads s' bs \<Longrightarrow> ensures (mixed_runs fuel 0xF0 (length pxs + length (seg_pixels g)) (left - length (seg_pixels g))
      (so_far (pxs @ seg_pixels g) (m - length (seg_pixels g)))) s' Q"
  shows "ensures (mixed_runs (Suc fuel) 0xF0 (length pxs) left (so_far pxs m)) s Q"
proof -
  have run: "ensures (bindE (readval 0xF0 (replicate 4 None)) (\<lambda>v. bindE (liftE (copy_pixels 0xF0 v [length pxs..<length pxs + k] (so_far pxs m)))
      (\<lambda>buf. mixed_runs fuel 0xF0 (length pxs + k) (left - k) buf))) s' Q"
    if "reads s' (px @ bs)" "seg_pixels g = replicate k px" "length px = 4" for s' :: "'u ctx" and k px
  proof (rule ensures_bind, rule readval_reads [OF that(1,3)])
    have k: "length (seg_pixels g) = k" "k \<le> m" using that(2) assms(3,4) by simp_all
    show "length (replicate 4 (None :: u8 option)) = 4" by simp
    fix s'' :: "'u ctx" assume "reads s'' bs"
    then show "ensures (bindE (liftE (copy_pixels 0xF0 (map Some px) [length pxs..<length pxs + k] (so_far pxs m)))
      (\<lambda>buf. mixed_runs fuel 0xF0 (length pxs + k) (left - k) buf)) s'' Q"
      using assms(6) [of s''] copy_pixels_run [OF assms(5) that(3) k(2)] k(1) that(2) by simp
  qed
  show ?thesis
  proof (cases g)
    case (Same k px)
    have k: "2 \<le> k" "k \<le> 128" "length px = 4" "k \<le> left" using assms(2,3) Same by simp_all
    obtain n where n: "seg_bytes (Same k px) = n # px" "unat n = k + 127" "128 < n" using same_byte [OF k(1,2)] .
    obtain p ps where px: "px = p # ps" using k(3) by (cases px) auto
    have s: "reads s (n # px @ bs)" using assms(1) n(1) Same by simp
    have body: "ensures (bindE (readval 0xF0 (replicate 4 None)) (\<lambda>v. bindE (liftE (copy_pixels 0xF0 v [length pxs..<length pxs + k] (so_far pxs m)))
        (\<lambda>buf. mixed_runs fuel 0xF0 (length pxs + k) (left - k) buf))) s' Q" if "reads s' (px @ bs)" for s'
      by (rule run [OF that]) (simp_all add: Same k(3))
    have "left \<noteq> 0" "\<not> k > left" "n \<ge> 128" "n \<noteq> 128" "unat n - 127 = k" using k(1,4) n(2,3) by auto
    then show ?thesis
      by (simp, intro ensures_bind ensures_rd8 [OF s] not_at_end [where b = p and bs = "ps @ bs"]) (simp_all add: px body)
  next
    case (Long k px)
    have k: "0 < k" "k < 2 ^ 16" "length px = 4" "k \<le> left" using assms(2,3) Long by simp_all
    have s: "reads s (128 # be16 k @ px @ bs)" using assms(1) Long by simp
    have body: "ensures (bindE (readval 0xF0 (replicate 4 None)) (\<lambda>v. bindE (liftE (copy_pixels 0xF0 v [length pxs..<length pxs + k] (so_far pxs m)))
        (\<lambda>buf. mixed_runs fuel 0xF0 (length pxs + k) (left - k) buf))) s' Q" if "reads s' (px @ bs)" for s'
      by (rule run [OF that]) (simp_all add: Long k(3))
    have two: "ensures (bindE (bindE rd16be (\<lambda>n. returnE (nat n))) (\<lambda>n. if n > left then failE ''bad file'' else
        bindE (readval 0xF0 (replicate 4 None)) (\<lambda>v. bindE (liftE (copy_pixels 0xF0 v [length pxs..<length pxs + n] (so_far pxs m)))
        (\<lambda>buf. mixed_runs fuel 0xF0 (length pxs + n) (left - n) buf)))) s' Q" if "reads s' (be16 k @ px @ bs)" for s'
      unfolding bindE_assoc
      by (rule ensures_bind, rule ensures_rd16be [OF that k(2)]) (use k(4) body in simp)
    have "left \<noteq> 0" using k(1,4) by simp
    then show ?thesis
      by (simp, intro ensures_bind ensures_rd8 [OF s] not_at_end [where b = "word_of_nat (k div 2 ^ 8)" and bs = "word_of_nat k # px @ bs"])
        (use two in \<open>simp_all add: be16_def\<close>)
  next
    case (Each new)
    have e: "new \<noteq> []" "length new \<le> 128" "\<forall>px \<in> set new. length px = 4" "length new \<le> left" using assms(2,3) Each by simp_all
    obtain n where n: "seg_bytes (Each new) = n # concat new" "unat n + 1 = length new" "n < 128" using each_byte [OF e(1,2)] .
    have s: "reads s (n # concat new @ bs)" using assms(1) n(1) Each by simp
    have "concat new \<noteq> []" using e(1,3) by (cases new) auto
    then obtain p ps where px: "concat new = p # ps" by (cases "concat new") auto
    have body: "ensures (bindE (read_pixels 0xF0 [length pxs..<length pxs + length new] (so_far pxs m))
        (\<lambda>buf. mixed_runs fuel 0xF0 (length pxs + length new) (left - length new) buf)) s' Q" if "reads s' (concat new @ bs)" for s' :: "'u ctx"
      by (rule ensures_bind, rule read_pixels_reads [OF that]) (use e assms(4-6) Each in auto)
    have "left \<noteq> 0" "\<not> 128 \<le> n" "unat n + 1 = length new" "\<not> length new > left" using e(1,4) n(2,3) by auto
    then show ?thesis
      by (simp, intro ensures_bind ensures_rd8 [OF s] not_at_end [where b = p and bs = "ps @ bs"]) (use body px in \<open>simp_all add: Let_def\<close>)
  qed
qed

lemma bind_return_right: "bindE m returnE = m"
  by (auto simp: bindE_def fun_eq_iff split: prod.split sum.split)

lemma no_packets: "pic_packets fuel [] z w = returnE"
  by (simp add: fun_eq_iff)

lemma line_runs:
  "reads s (concat (map seg_bytes gs) @ bs) \<Longrightarrow> list_all seg_ok gs \<Longrightarrow> length (line_pixels gs) = left \<Longrightarrow> left \<le> m \<Longrightarrow>
    \<forall>px \<in> set pxs. length px = 4 \<Longrightarrow> length gs < fuel \<Longrightarrow>
    (\<And>s'. reads s' bs \<Longrightarrow> Q (so_far (pxs @ line_pixels gs) (m - left)) s') \<Longrightarrow>
    ensures (mixed_runs fuel 0xF0 (length pxs) left (so_far pxs m)) s Q"
proof (induction gs arbitrary: s pxs left m fuel)
  case Nil
  then obtain k where "fuel = Suc k" by (cases fuel) auto
  then show ?case using Nil by (simp add: ensures_return)
next
  case (Cons g gs)
  then obtain k where k: "fuel = Suc k" "length gs < k" by (cases fuel) auto
  have g: "reads s (seg_bytes g @ concat (map seg_bytes gs) @ bs)" "seg_ok g" "length (seg_pixels g) \<le> left" using Cons.prems(1-3) by auto
  have px: "\<forall>px \<in> set (pxs @ seg_pixels g). length px = 4" using Cons.prems(5) g(2) by (cases g) auto
  show ?case
    unfolding k(1)
  proof (rule seg_runs [OF g Cons.prems(4,5)])
    fix s' :: "'a ctx" assume s': "reads s' (concat (map seg_bytes gs) @ bs)"
    have "ensures (mixed_runs k 0xF0 (length (pxs @ seg_pixels g)) (left - length (seg_pixels g)) (so_far (pxs @ seg_pixels g) (m - length (seg_pixels g)))) s' Q"
      by (rule Cons.IH [OF s' _ _ _ px k(2)]) (use Cons.prems(2-4,7) in auto)
    then show "ensures (mixed_runs k 0xF0 (length pxs + length (seg_pixels g)) (left - length (seg_pixels g))
        (so_far (pxs @ seg_pixels g) (m - length (seg_pixels g)))) s' Q" by simp
  qed
qed

definition line_ok :: "nat \<Rightarrow> nat \<Rightarrow> seg list \<Rightarrow> bool" where
  "line_ok fuel w gs \<longleftrightarrow> list_all seg_ok gs \<and> length (line_pixels gs) = w \<and> length gs < fuel"

lemma line_ok_pixels: "line_ok fuel w gs \<Longrightarrow> \<forall>px \<in> set (line_pixels gs). length px = 4"
proof -
  assume "line_ok fuel w gs"
  moreover have "seg_ok g \<Longrightarrow> \<forall>px \<in> set (seg_pixels g). length px = 4" for g by (cases g) auto
  ultimately show ?thesis by (auto simp: line_ok_def list_all_iff)
qed

abbreviation rgba_packet :: pic_packet where
  "rgba_packet \<equiv> \<lparr>pk_size = 8, pk_type = 2, pk_channel = 0xF0\<rparr>"

lemma lines_read:
  "reads s (concat (map seg_bytes (concat gss)) @ bs) \<Longrightarrow> \<forall>gs \<in> set gss. line_ok fuel w gs \<Longrightarrow> length gss * w \<le> m \<Longrightarrow>
    \<forall>px \<in> set pxs. length px = 4 \<Longrightarrow> length pxs = y * w \<Longrightarrow>
    (\<And>s'. reads s' bs \<Longrightarrow> Q (so_far (pxs @ concat (map line_pixels gss)) (m - length gss * w)) s') \<Longrightarrow>
    ensures (pic_lines fuel [rgba_packet] w [y..<y + length gss] (so_far pxs m)) s Q"
proof (induction gss arbitrary: s pxs m y)
  case (Cons gs gss)
  have gs: "line_ok fuel w gs" using Cons.prems(2) by simp
  note ok = gs [unfolded line_ok_def]
  have s: "reads s (concat (map seg_bytes gs) @ concat (map seg_bytes (concat gss)) @ bs)" using Cons.prems(1) by simp
  have u: "[y..<y + length (gs # gss)] = y # [Suc y..<Suc y + length gss]" using upt_more [of y "length gss"] by simp
  have w: "w \<le> m" "length gss * w \<le> m - w" using Cons.prems(3) by auto
  have line: "ensures (mixed_runs fuel 0xF0 (length pxs) w (so_far pxs m)) s
      (\<lambda>b s'. b = so_far (pxs @ line_pixels gs) (m - w) \<and> reads s' (concat (map seg_bytes (concat gss)) @ bs))"
    by (rule line_runs [OF s _ _ w(1) Cons.prems(4)]) (use ok in simp_all)
  show ?case
    unfolding u pic_lines.simps
  proof (rule ensures_bind, rule ensures_mono)
    show "ensures (pic_packets fuel [rgba_packet] (y * w) w (so_far pxs m)) s
        (\<lambda>b s'. b = so_far (pxs @ line_pixels gs) (m - w) \<and> reads s' (concat (map seg_bytes (concat gss)) @ bs))"
      using line Cons.prems(5) by (simp add: pic_line_def no_packets bind_return_right)
    fix b and s' :: "'a ctx"
    assume b: "b = so_far (pxs @ line_pixels gs) (m - w) \<and> reads s' (concat (map seg_bytes (concat gss)) @ bs)"
    have "length (pxs @ line_pixels gs) = Suc y * w" using Cons.prems(5) ok by simp
    moreover have "\<forall>px \<in> set (pxs @ line_pixels gs). length px = 4" using Cons.prems(4) line_ok_pixels [OF gs] by auto
    ultimately show "ensures (pic_lines fuel [rgba_packet] w [Suc y..<Suc y + length gss] b) s' Q"
      unfolding conjunct1 [OF b] using Cons.prems(2,6) w(2) by (intro Cons.IH [OF conjunct2 [OF b]]) simp_all
  qed
qed (simp add: ensures_return)

subsection \<open>The decoder\<close>

lemma discard_reads:
  "reads s (xs @ bs) \<Longrightarrow> length xs = length is \<Longrightarrow> (\<And>s'. reads s' bs \<Longrightarrow> Q () s') \<Longrightarrow>
    ensures (forE (\<lambda>_. bindE rd8 (\<lambda>_. returnE ())) is) s Q"
proof (induction xs arbitrary: s "is")
  case (Cons x xs)
  then obtain i is' where i: "is = i # is'" by (cases "is") auto
  have s: "reads s (x # xs @ bs)" using Cons.prems(1) by simp
  show ?case
    unfolding i forE.simps bindE_assoc
    by (rule ensures_bind, rule ensures_rd8 [OF s]) (use Cons i in simp)
qed (simp add: ensures_return)

lemma refusal_returns: "ensures m s Q \<Longrightarrow> ensures (refusal m) s (\<lambda>r s'. \<exists>a. r = Inr a \<and> Q a s')"
  by (auto simp: ensures_def refusal_def)

text \<open>Up to the packets.\<close>

lemma pic_header_reads:
  assumes "0 < w" and "w < 2 ^ 16" and "h \<le> 2 ^ 28 div w" and "h < 2 ^ 16" and "length head = 92" and "length extra = 8"
  shows "ensures pic_header (start_mem u (pic_file head w h extra body)) (\<lambda>p s'. p = (w, h) \<and> reads s' body)"
proof -
  obtain a b c d e f g i where extra: "extra = a # b # c # d # e # f # g # [i]"
    using assms(6) by (auto simp: length_Suc_conv numeral_eq_Suc)
  have "int h \<le> int (2 ^ 28 div w)" using assms(3) by (simp only: of_nat_le_iff)
  then have bound: "\<not> 268435456 div int w < int h" by (simp add: zdiv_int)
  have skip2: "ensures (bindE rd16be (\<lambda>_. m)) s Q" if "reads s (x # y # bs)" "\<And>s'. reads s' bs \<Longrightarrow> ensures m s' Q" for m x y bs Q and s :: "'a ctx"
    using get16be_reads [OF that(1)] that(2) by (auto simp: ensures_def bindE_runE)
  have skip4: "ensures (bindE rd32be (\<lambda>_. m)) s Q" if "reads s (x # y # z # v # bs)" "\<And>s'. reads s' bs \<Longrightarrow> ensures m s' Q" for m x y z v bs Q and s :: "'a ctx"
    using get32be_reads [OF that(1)] that(2) by (auto simp: ensures_def bindE_runE)
  have start: "reads (start_mem u (pic_file head w h extra body)) (head @ be16 w @ be16 h @ extra @ body)"
    unfolding pic_file_def by (rule reads_start)
  show ?thesis
    unfolding pic_header_def
    apply (rule ensures_bind, rule discard_reads [OF start])
    apply (simp add: assms(5))
    apply (rule ensures_bind, rule ensures_rd16be, assumption, rule assms(2))
    apply (rule ensures_bind, rule ensures_rd16be, assumption, rule assms(4))
    apply (rule ensures_bind, rule not_at_end [where b = a], simp add: extra)
    using assms(1) apply (simp add: extra bound)
    apply (rule skip4, assumption)
    apply (rule skip2, assumption)
    apply (rule skip2, assumption)
    apply (simp add: ensures_return)
    done
qed

lemma packet_read:
  assumes "reads s (0 # 8 # 2 # 0xF0 # b # bs)" and "\<And>s'. reads s' (b # bs) \<Longrightarrow> Q [rgba_packet] s'"
  shows "ensures (read_packets 10 []) s Q"
proof -
  have ten: "10 = Suc 9" by simp
  show ?thesis
    unfolding ten read_packets.simps
    apply (rule ensures_bind, rule ensures_rd8 [OF assms(1)])
    apply (rule ensures_bind, rule ensures_rd8, assumption)
    apply (rule ensures_bind, rule ensures_rd8, assumption)
    apply (rule ensures_bind, rule ensures_rd8, assumption)
    apply (rule ensures_bind, rule not_at_end, assumption)
    apply (simp add: ensures_return assms(2))
    done
qed

lemma rgba_decode:
  assumes "\<forall>gs \<in> set gss. line_ok fuel w gs" and "0 < w" and "gss \<noteq> []" and "al (w * length gss * 4)" and "req_comp \<in> {0, 4}"
    and "reads s ([0, 8, 2, 0xF0] @ concat (map seg_bytes (concat gss)))"
  shows "ensures (pic_decode fuel al req_comp w (length gss)) s (\<lambda>p s'. p =
    \<lparr>pic_x = w, pic_y = length gss, pic_comp = 4, pic_data = map Some (concat (concat (map line_pixels gss)))\<rparr>)"
proof -
  have "concat gss \<noteq> []" "concat (map seg_bytes (concat gss)) \<noteq> []"
  proof -
    obtain gs gss' where "gss = gs # gss'" using assms(3) by (cases gss) auto
    moreover have "gs \<noteq> []" using assms(1,2) calculation by (auto simp: line_ok_def)
    moreover have "seg_bytes g \<noteq> []" for g by (cases g) (simp_all del: of_nat_diff)
    ultimately show "concat gss \<noteq> []" "concat (map seg_bytes (concat gss)) \<noteq> []" by (auto simp: neq_Nil_conv)
  qed
  then obtain b bs where b: "concat (map seg_bytes (concat gss)) = b # bs" unfolding neq_Nil_conv by blast
  have s: "reads s (0 # 8 # 2 # 0xF0 # b # bs)" using assms(6) by (simp add: b)
  have start: "replicate (w * length gss * 4) (Some 0xff) = so_far [] (length gss * w)" by (simp add: so_far_def mult.commute)
  have req: "(if req_comp = 0 then 4 else req_comp) = 4" using assms(5) by auto
  have four: "pic_channels [rgba_packet] = 4" by (simp add: pic_channels_def)
  have lines: "ensures (pic_lines fuel [rgba_packet] w [0..<length gss] (so_far [] (length gss * w))) s'
      (\<lambda>b s'. b = map Some (concat (concat (map line_pixels gss))))" if "reads s' (b # bs)" for s' :: "'a ctx"
    using lines_read [of s' gss "[]" fuel w "length gss * w" "[]" 0 "\<lambda>b s'. b = map Some (concat (concat (map line_pixels gss)))"] that assms(1)
    by (simp add: b so_far_def)
  have packets: "ensures (refusal (read_packets 10 [])) s (\<lambda>r s'. \<exists>a. r = Inr a \<and> (a = [rgba_packet] \<and> reads s' (b # bs)))"
    by (rule refusal_returns, rule packet_read [OF s]) simp
  show ?thesis
    unfolding pic_decode_def start
    using assms(4)
    apply simp
    apply (rule ensures_bind, rule ensures_mono [OF packets], elim exE conjE)
    apply (simp only: sum.case Let_def four req)
    apply (rule ensures_bind, rule ensures_mono [OF refusal_returns [OF lines]], assumption, elim exE conjE)
    apply (simp add: convert_format_def ensures_return)
    done
qed

text \<open>
  C17: a Softimage file with alpha, whose lines are cut into runs of one pixel with short or long counts and
  pixels one by one, decodes to its picture, whatever the other fields of the header hold.
\<close>

theorem pic_round_trip:
  assumes "\<forall>gs \<in> set gss. line_ok fuel w gs" and "0 < w" and "w < 2 ^ 16" and "gss \<noteq> []" and "length gss \<le> 2 ^ 28 div w" and "length gss < 2 ^ 16"
    and "length start = 92" and "length extra = 8" and "al (w * length gss * 4)" and "req_comp \<in> {0, 4}"
  shows "\<exists>s'. pic_load fuel al req_comp (start_mem u (pic_file start w (length gss) extra ([0, 8, 2, 0xF0] @ concat (map seg_bytes (concat gss))))) =
    (Inr \<lparr>pic_x = w, pic_y = length gss, pic_comp = 4, pic_data = map Some (concat (concat (map line_pixels gss)))\<rparr>, s')"
proof -
  let ?body = "[0, 8, 2, 0xF0] @ concat (map seg_bytes (concat gss))"
  have "ensures (pic_load fuel al req_comp) (start_mem u (pic_file start w (length gss) extra ?body))
      (\<lambda>p s'. p = \<lparr>pic_x = w, pic_y = length gss, pic_comp = 4, pic_data = map Some (concat (concat (map line_pixels gss)))\<rparr>)"
    unfolding pic_load_def
    by (rule ensures_bind, rule ensures_mono [OF pic_header_reads [OF assms(2,3,5-8)]], elim conjE)
      (simp only: prod.case, rule rgba_decode [where al = al, OF assms(1,2,4,9,10)])
  then show ?thesis by (auto simp: ensures_def)
qed

lemma pic_round_trip_witness:
  "\<exists>s'. pic_load 3 (\<lambda>_. True) 0 (start_mem () (pic_file (replicate 92 7) 2 2 (replicate 8 7)
      ([0, 8, 2, 0xF0] @ concat (map seg_bytes [Same 2 [1, 2, 3, 4], Long 1 [5, 6, 7, 8], Each [[9, 9, 9, 9]]])))) =
    (Inr \<lparr>pic_x = 2, pic_y = 2, pic_comp = 4, pic_data = map Some [1, 2, 3, 4, 1, 2, 3, 4, 5, 6, 7, 8, 9, 9, 9, 9]\<rparr>, s')"
proof -
  let ?gss = "[[Same 2 [1, 2, 3, 4]], [Long 1 [5, 6, 7, 8], Each [[9, 9, 9, 9]]]]"
  have two: "replicate 2 x = [x, x]" for x :: "u8 list" by (simp add: numeral_2_eq_2)
  have "\<forall>gs \<in> set ?gss. line_ok 3 2 gs" by (simp add: line_ok_def)
  moreover have "concat (concat (map line_pixels ?gss)) = [1, 2, 3, 4, 1, 2, 3, 4, 5, 6, 7, 8, 9, 9, 9, 9]" by (simp add: two)
  ultimately show ?thesis
    using pic_round_trip [of ?gss 3 2 "replicate 92 7" "replicate 8 7" "\<lambda>_. True" 0 "()"] by (simp add: two flip: numeral_2_eq_2)
qed

text \<open>
  A Softimage file whose first packet is refused crashes the program unless four channels are asked for: the
  decoder frees the picture and then converts it through the null pointer.
\<close>

theorem pic_refusal_crashes:
  assumes "sz \<noteq> 8" and "0 < w" and "w < 2 ^ 16" and "0 < h" and "h \<le> 2 ^ 28 div w" and "h < 2 ^ 16"
    and "length start = 92" and "length extra = 8" and "\<forall>k. al k" and "req_comp \<in> {1, 2, 3}"
  shows "fst (pic_load fuel al req_comp (start_mem u (pic_file start w h extra ([chained, sz, type, channel] @ rest)))) = Inl (Undefined ''data'')"
proof -
  let ?body = "[chained, sz, type, channel] @ rest"
  have small: "req_comp \<le> 3" "req_comp \<noteq> 0" "req_comp \<noteq> 4" "1 \<le> req_comp \<and> req_comp \<le> 4" using assms(10) by auto
  obtain s where s: "pic_header (start_mem u (pic_file start w h extra ?body)) = (Inr (w, h), s)" "reads s ?body"
    using pic_header_reads [OF assms(2,3,5,6-8), of u ?body] by (auto simp: ensures_def)
  obtain reason s' where r: "read_packets 10 [] s = (Inl (Err reason), s')"
  proof -
    obtain s1 where 1: "get8 s = (chained, s1)" "reads s1 (sz # type # channel # rest)" using get8_reads [of s chained] s(2) by auto
    obtain s2 where 2: "get8 s1 = (sz, s2)" "reads s2 (type # channel # rest)" using get8_reads [OF 1(2)] by blast
    obtain s3 where 3: "get8 s2 = (type, s3)" "reads s3 (channel # rest)" using get8_reads [OF 2(2)] by blast
    obtain s4 where 4: "get8 s3 = (channel, s4)" using get8_reads [OF 3(2)] by blast
    have ten: "10 = Suc 9" by simp
    show thesis
      using that 1(1) 2(1) 3(1) 4 assms(1) unfolding ten read_packets.simps
      by (cases "at_eof s4") (simp_all add: bindE_runE at_end_def failE_def)
  qed
  have "fst (convert_null al reason req_comp w h s') = Inl (Undefined ''data'')"
    using small assms(4,9) by (simp add: convert_null_def malloc_def)
  then have "fst (bindE (convert_null al reason req_comp w h) (\<lambda>_. throwE (Undefined ''comp'') :: ('a, picture) im) s') = Inl (Undefined ''data'')"
    by (rule bind_fails)
  moreover have "refusal (read_packets 10 []) s = (Inr (Inl reason), s')" using r by (simp add: refusal_def)
  ultimately have "fst (pic_decode fuel al req_comp w h s) = Inl (Undefined ''data'')"
    using small(2) assms(9) by (simp add: pic_decode_def bindE_return)
  then show ?thesis using s(1) by (simp add: pic_load_def bindE_return)
qed

lemma pic_refusal_crashes_witness:
  "fst (pic_load 1 (\<lambda>_. True) 3 (start_mem () (pic_file (replicate 92 7) 2 2 (replicate 8 7) ([0, 4, 2, 0xF0] @ [])))) = Inl (Undefined ''data'')"
  by (rule pic_refusal_crashes) simp_all

end
