(* ===== verification/Tga.thy ===== *)
theory Tga
  imports Bmp Pnm
begin

text \<open>
  The TGA decoder of \<open>include/util/stb_image.h\<close>, lines 4967 to 5287: the test, the header, pictures of grey, 15 to
  32 bit and palette pixels, plain and run-length encoded, and what a run-length encoded file is.
\<close>

subsection \<open>Pixel formats\<close>

text \<open>The number of channels, zero for a format that is not supported, and whether a pixel has 15 or 16 bits.\<close>

definition tga_get_comp :: "u8 \<Rightarrow> bool \<Rightarrow> nat \<times> bool" where
  "tga_get_comp bits is_grey =
     (if bits = 8 then (1, False)
      else if bits = 16 then (if is_grey then (2, False) else (3, True))
      else if bits = 15 then (3, True)
      else if bits = 24 \<or> bits = 32 then (unat bits div 8, False)
      else (0, False))"

abbreviation tga_bits_ok :: "u8 \<Rightarrow> bool" where
  "tga_bits_ok b \<equiv> b = 8 \<or> b = 15 \<or> b = 16 \<or> b = 24 \<or> b = 32"

definition tga_test_raw :: "('u, bool) im" where
  "tga_test_raw =
     bindE rd8 (\<lambda>_. bindE rd8 (\<lambda>kind.
     if kind > 1 then returnE False else
     bindE rd8 (\<lambda>sz.
     bindE (if kind = 1 then
              if sz \<noteq> 1 \<and> sz \<noteq> 9 then returnE False
              else bindE (skipE 4) (\<lambda>_. bindE rd8 (\<lambda>sz. if \<not> tga_bits_ok sz then returnE False else bindE (skipE 4) (\<lambda>_. returnE True)))
            else if sz \<noteq> 2 \<and> sz \<noteq> 3 \<and> sz \<noteq> 10 \<and> sz \<noteq> 11 then returnE False
            else bindE (skipE 9) (\<lambda>_. returnE True)) (\<lambda>good.
     if \<not> good then returnE False else
     bindE rd16 (\<lambda>w. if w < 1 then returnE False else
     bindE rd16 (\<lambda>h. if h < 1 then returnE False else
     bindE rd8 (\<lambda>sz.
     if kind = 1 \<and> sz \<noteq> 8 \<and> sz \<noteq> 16 then returnE False else returnE (tga_bits_ok sz))))))))"

definition tga_test :: "('u, bool) im" where
  "tga_test = bindE tga_test_raw (\<lambda>r. bindE (modifyE rewind) (\<lambda>_. returnE r))"

definition tga_info_raw :: "('u, (int \<times> int \<times> nat) option) im" where
  "tga_info_raw =
     bindE rd8 (\<lambda>_. bindE rd8 (\<lambda>kind.
     if kind > 1 then returnE None else
     bindE rd8 (\<lambda>type.
     bindE (if kind = 1 then
              if type \<noteq> 1 \<and> type \<noteq> 9 then returnE None
              else bindE (skipE 4) (\<lambda>_. bindE rd8 (\<lambda>sz. if \<not> tga_bits_ok sz then returnE None else bindE (skipE 4) (\<lambda>_. returnE (Some sz))))
            else if type \<noteq> 2 \<and> type \<noteq> 3 \<and> type \<noteq> 10 \<and> type \<noteq> 11 then returnE None
            else bindE (skipE 9) (\<lambda>_. returnE (Some 0))) (\<lambda>map_bits.
     case map_bits of None \<Rightarrow> returnE None | Some map_bits \<Rightarrow>
     bindE rd16 (\<lambda>w. if w < 1 then returnE None else
     bindE rd16 (\<lambda>h. if h < 1 then returnE None else
     bindE rd8 (\<lambda>bits. bindE rd8 (\<lambda>_.
     if map_bits \<noteq> 0 \<and> bits \<noteq> 8 \<and> bits \<noteq> 16 then returnE None else
     let n = fst (if map_bits \<noteq> 0 then tga_get_comp map_bits False else tga_get_comp bits (type = 3 \<or> type = 11))
     in if n = 0 then returnE None else returnE (Some (w, h, n))))))))))"

definition tga_info :: "('u, (int \<times> int \<times> nat) option) im" where
  "tga_info = bindE tga_info_raw (\<lambda>r. bindE (if r = None then modifyE rewind else returnE ()) (\<lambda>_. returnE r))"

text \<open>A pixel of 15 or 16 bits, red in the high bits.\<close>

definition tga_read_rgb16 :: "('u, u8 list) im" where
  "tga_read_rgb16 =
     bindE rd16 (\<lambda>px. returnE [word_of_int ((drop_bit 10 px AND 31) * 255 div 31), word_of_int ((drop_bit 5 px AND 31) * 255 div 31),
       word_of_int ((px AND 31) * 255 div 31)])"

subsection \<open>The header\<close>

record tga_header =
  tga_offset :: u8
  tga_indexed :: bool
  tga_type :: int
  tga_is_RLE :: bool
  tga_palette_start :: int
  tga_palette_len :: nat
  tga_palette_bits :: u8
  tga_width :: nat
  tga_height :: nat
  tga_bits_per_pixel :: u8
  tga_inverted :: bool

definition tga_read_header :: "('u, tga_header) im" where
  "tga_read_header =
     bindE rd8 (\<lambda>off. bindE rd8 (\<lambda>indexed. bindE rd8 (\<lambda>type.
     bindE rd16 (\<lambda>start. bindE rd16 (\<lambda>len. bindE rd8 (\<lambda>pbits.
     bindE rd16 (\<lambda>_. bindE rd16 (\<lambda>_. bindE rd16 (\<lambda>w. bindE rd16 (\<lambda>h. bindE rd8 (\<lambda>bits. bindE rd8 (\<lambda>desc.
     returnE \<lparr>tga_offset = off, tga_indexed = (indexed \<noteq> 0), tga_type = (if type \<ge> 8 then uint type - 8 else uint type),
       tga_is_RLE = (type \<ge> 8), tga_palette_start = start, tga_palette_len = nat len, tga_palette_bits = pbits,
       tga_width = nat w, tga_height = nat h, tga_bits_per_pixel = bits, tga_inverted = (drop_bit 5 desc AND 1 = 0)\<rparr>))))))))))))"

definition tga_format :: "tga_header \<Rightarrow> nat \<times> bool" where
  "tga_format h = (if tga_indexed h then tga_get_comp (tga_palette_bits h) False else tga_get_comp (tga_bits_per_pixel h) (tga_type h = 3))"

subsection \<open>Pixels\<close>

text \<open>The size is a \<open>size_t\<close> of 64 bits here.\<close>

definition malloc64 :: "(nat \<Rightarrow> bool) \<Rightarrow> nat \<Rightarrow> ('u, buffer) im" where
  "malloc64 al n = (if al n then returnE (replicate n None) else failE ''outofmem'')"

text \<open>An \<open>int\<close> product that must not overflow.\<close>

definition int_size :: "nat \<Rightarrow> stb_err + nat" where
  "int_size n = (if n < 2 ^ 31 then Inr n else Inl (Undefined ''overflow''))"

text \<open>\<open>stbi__getn\<close> into the middle of an array; its result is ignored by the caller.\<close>

definition getn_at :: "nat \<Rightarrow> nat \<Rightarrow> buffer \<Rightarrow> ('u, buffer) im" where
  "getn_at z n buf s = (store z (getn_stored n s) buf, snd (getn n s))"

fun tga_rows :: "tga_header \<Rightarrow> nat \<Rightarrow> nat list \<Rightarrow> buffer \<Rightarrow> ('u, buffer) im" where
  "tga_rows h n [] buf = returnE buf"
| "tga_rows h n (i # is) buf =
     bindE (liftE (int_size ((if tga_inverted h then tga_height h - i - 1 else i) * tga_width h * n))) (\<lambda>z.
     bindE (getn_at z (tga_width h * n) buf) (\<lambda>buf. tga_rows h n is buf))"

fun tga_palette16 :: "nat \<Rightarrow> ('u, buffer) im" where
  "tga_palette16 0 = returnE []"
| "tga_palette16 (Suc n) = bindE tga_read_rgb16 (\<lambda>px. bindE (tga_palette16 n) (\<lambda>pal. returnE (map Some px @ pal)))"

definition tga_read_palette :: "(nat \<Rightarrow> bool) \<Rightarrow> tga_header \<Rightarrow> ('u, buffer) im" where
  "tga_read_palette al h =
     (let (n, rgb16) = tga_format h; len = tga_palette_len h
      in bindE (skipE (tga_palette_start h)) (\<lambda>_.
         bindE (malloc64 al (len * n)) (\<lambda>_.
         if rgb16 then tga_palette16 len
         else bindE (runE (getn (len * n))) (\<lambda>pal. case pal of Some pal \<Rightarrow> returnE (map Some pal) | None \<Rightarrow> failE ''bad palette''))))"

text \<open>The bytes of the next pixel of the file, which go to the start of \<open>raw_data\<close>.\<close>

fun read_bytes :: "nat \<Rightarrow> ('u, u8 list) im" where
  "read_bytes 0 = returnE []"
| "read_bytes (Suc n) = bindE rd8 (\<lambda>b. bindE (read_bytes n) (\<lambda>bs. returnE (b # bs)))"

definition tga_read_pixel :: "tga_header \<Rightarrow> buffer \<Rightarrow> ('u, buffer) im" where
  "tga_read_pixel h pal =
     (let (n, rgb16) = tga_format h
      in if tga_indexed h then
           bindE (if tga_bits_per_pixel h = 8 then bindE rd8 (\<lambda>b. returnE (unat b)) else bindE rd16 (\<lambda>w. returnE (nat w))) (\<lambda>idx.
           let z = (if idx \<ge> tga_palette_len h then 0 else idx) * n
           in if z + n \<le> length pal then returnE (take n (drop z pal)) else throwE (Undefined ''palette''))
         else if rgb16 then bindE tga_read_rgb16 (\<lambda>px. returnE (map Some px))
         else bindE (read_bytes n) (\<lambda>px. returnE (map Some px)))"

record run =
  run_count :: int
  run_repeating :: bool
  run_read :: bool
  run_pixel :: buffer

definition run_start :: run where
  "run_start = \<lparr>run_count = 0, run_repeating = False, run_read = True, run_pixel = replicate 4 None\<rparr>"

text \<open>What happens before pixel \<open>i\<close> is copied: the next run, the next pixel.\<close>

definition tga_next_pixel :: "tga_header \<Rightarrow> buffer \<Rightarrow> run \<Rightarrow> ('u, run) im" where
  "tga_next_pixel h pal r =
     bindE (if tga_is_RLE h then
              if run_count r = 0 then
                bindE rd8 (\<lambda>cmd. returnE (r\<lparr>run_count := 1 + uint (cmd AND 127), run_repeating := (drop_bit 7 cmd \<noteq> 0), run_read := True\<rparr>))
              else returnE (if \<not> run_repeating r then r\<lparr>run_read := True\<rparr> else r)
            else returnE (r\<lparr>run_read := True\<rparr>)) (\<lambda>r.
     if run_read r then
       bindE (tga_read_pixel h pal) (\<lambda>px. returnE (r\<lparr>run_pixel := px @ drop (length px) (run_pixel r), run_read := False\<rparr>))
     else returnE r)"

fun tga_pixels :: "tga_header \<Rightarrow> buffer \<Rightarrow> nat list \<Rightarrow> run \<Rightarrow> buffer \<Rightarrow> ('u, buffer) im" where
  "tga_pixels h pal [] r buf = returnE buf"
| "tga_pixels h pal (i # is) r buf =
     bindE (tga_next_pixel h pal r) (\<lambda>r.
     let n = fst (tga_format h)
     in bindE (liftE (int_size (i * n + n - 1))) (\<lambda>_.
        if i * n + n \<le> length buf
        then tga_pixels h pal is (r\<lparr>run_count := run_count r - 1\<rparr>)
               (take (i * n) buf @ take n (run_pixel r) @ drop (i * n + n) buf)
        else throwE (Undefined ''tga_data'')))"

text \<open>The indices are \<open>int\<close> variables that are moved one step past each row.\<close>

fun tga_invert :: "nat \<Rightarrow> nat \<Rightarrow> nat list \<Rightarrow> buffer \<Rightarrow> stb_err + buffer" where
  "tga_invert line height [] buf = Inr buf"
| "tga_invert line height (j # js) buf =
     (if (height - j) * line < 2 ^ 31 \<and> (j + 1) * line < 2 ^ 31 then
        (case swap_bytes (j * line) ((height - 1 - j) * line) line buf of Inl e \<Rightarrow> Inl e | Inr buf \<Rightarrow> tga_invert line height js buf)
      else Inl (Undefined ''overflow''))"

fun tga_swap_rgb :: "nat \<Rightarrow> nat \<Rightarrow> buffer \<Rightarrow> stb_err + buffer" where
  "tga_swap_rgb n 0 buf = Inr buf"
| "tga_swap_rgb n (Suc k) buf =
     (if length buf < n then Inl (Undefined ''tga_pixel'')
      else map_sum id (\<lambda>rest. (take n buf) [0 := buf ! 2, 2 := buf ! 0] @ rest) (tga_swap_rgb n k (drop n buf)))"

subsection \<open>The decoder\<close>

definition tga_image :: "(nat \<Rightarrow> bool) \<Rightarrow> tga_header \<Rightarrow> buffer \<Rightarrow> ('u, buffer) im" where
  "tga_image al h buf =
     (let (n, rgb16) = tga_format h; w = tga_width h; y = tga_height h
      in if \<not> tga_indexed h \<and> \<not> tga_is_RLE h \<and> \<not> rgb16 then tga_rows h n [0..<y] buf
         else bindE (if tga_indexed h then tga_read_palette al h else returnE []) (\<lambda>pal.
              bindE (liftE (int_size (w * y))) (\<lambda>pixel_count.
              bindE (tga_pixels h pal [0..<pixel_count] run_start buf) (\<lambda>buf.
              liftE (if tga_inverted h then tga_invert (w * n) y [0..<(y + 1) div 2] buf else Inr buf)))))"

definition tga_load :: "(nat \<Rightarrow> bool) \<Rightarrow> nat \<Rightarrow> ('u, picture) im" where
  "tga_load al req_comp =
     bindE tga_read_header (\<lambda>h.
     let (n, rgb16) = tga_format h; w = tga_width h; y = tga_height h
     in if n = 0 then failE ''bad format''
        else bindE (malloc64 al (w * y * n)) (\<lambda>buf.
             bindE (skipE (uint (tga_offset h))) (\<lambda>_.
             bindE (tga_image al h buf) (\<lambda>buf.
             bindE (if n \<ge> 3 \<and> \<not> rgb16
                    then bindE (liftE (int_size (w * y))) (\<lambda>k. liftE (tga_swap_rgb n k buf)) else returnE buf) (\<lambda>buf.
             bindE (if req_comp \<noteq> 0 \<and> req_comp \<noteq> n then convert_format al buf n req_comp w y else returnE buf) (\<lambda>buf.
             returnE \<lparr>pic_x = w, pic_y = y, pic_comp = n, pic_data = buf\<rparr>))))))"

end
