(* ===== verification/ImageLoad.thy ===== *)
theory ImageLoad
  imports Png Tga Psd Pic
begin

text \<open>
  The entry points of the image decoder, \<open>include/util/stb_image.h\<close> lines 927 to 1078: the order in
  which the formats are tried, the flip that can be asked for, and the contexts over memory, over
  callbacks and over a file. The tests of all formats are here or with their decoders; the decoders of
  JPEG, GIF and HDR files and the arithmetic on floats are parameters.
\<close>

subsection \<open>The tests of the formats\<close>

text \<open>Is the next byte the first one of the list, and so on; the first difference ends the reading.\<close>

fun next_are :: "u8 list \<Rightarrow> ('u, bool) im" where
  "next_are [] = returnE True"
| "next_are (b # bs) = bindE rd8 (\<lambda>c. if c \<noteq> b then returnE False else next_are bs)"

definition rewound :: "('u, 'a) im \<Rightarrow> ('u, 'a) im" where
  "rewound m = bindE m (\<lambda>r. bindE (modifyE rewind) (\<lambda>_. returnE r))"

text \<open>
  The marker after a byte \<open>0xff\<close>; more of these bytes are skipped. The fuel bounds their number, as
  callbacks could deliver them for ever. Without a marker the code uses \<open>0xff\<close> itself.
\<close>

fun skip_fill :: "nat \<Rightarrow> ('u, u8) im" where
  "skip_fill 0 = throwE OutOfFuel"
| "skip_fill (Suc fuel) = bindE rd8 (\<lambda>x. if x = 0xff then skip_fill fuel else returnE x)"

definition first_marker :: "nat \<Rightarrow> ('u, u8) im" where
  "first_marker fuel = bindE rd8 (\<lambda>x. if x \<noteq> 0xff then returnE 0xff else skip_fill fuel)"

definition jpeg_test :: "nat \<Rightarrow> ('u, bool) im" where
  "jpeg_test fuel = rewound (bindE (first_marker fuel) (\<lambda>m. returnE (m = 0xd8)))"

definition gif_test_raw :: "('u, bool) im" where
  "gif_test_raw =
     bindE (next_are [0x47, 0x49, 0x46, 0x38]) (\<lambda>b. if \<not> b then returnE False else
     bindE rd8 (\<lambda>sz. if sz \<noteq> 0x39 \<and> sz \<noteq> 0x37 then returnE False else next_are [0x61]))"

definition gif_test :: "('u, bool) im" where
  "gif_test = rewound gif_test_raw"

definition psd_test :: "('u, bool) im" where
  "psd_test = rewound (bindE rd32be (\<lambda>v. returnE (v = 0x38425053)))"

definition pic_test_core :: "('u, bool) im" where
  "pic_test_core =
     bindE (next_are [0x53, 0x80, 0xF6, 0x34]) (\<lambda>b. if \<not> b then returnE False else
     bindE (forE (\<lambda>_. bindE rd8 (\<lambda>_. returnE ())) [0..<84]) (\<lambda>_. next_are [0x50, 0x49, 0x43, 0x54]))"

definition pic_test :: "('u, bool) im" where
  "pic_test = rewound pic_test_core"

definition hdr_test_core :: "('u, bool) im" where
  "hdr_test_core = next_are [0x23, 0x3F, 0x52, 0x41, 0x44, 0x49, 0x41, 0x4E, 0x43, 0x45, 0x0A]"

definition hdr_test :: "('u, bool) im" where
  "hdr_test = rewound hdr_test_core"

subsection \<open>Loading\<close>

text \<open>The decoders that are not modelled; the one for HDR files includes the conversion to bytes.\<close>

record 'u other_decoders =
  jpeg_load :: "nat \<Rightarrow> ('u, picture) im"
  gif_load :: "nat \<Rightarrow> ('u, picture) im"
  hdr_load :: "nat \<Rightarrow> ('u, picture) im"

definition load_main :: "nat \<Rightarrow> (nat \<Rightarrow> bool) \<Rightarrow> globals \<Rightarrow> 'f matte_math \<Rightarrow> 'u other_decoders \<Rightarrow> nat \<Rightarrow> ('u, picture) im" where
  "load_main fuel al gl fm others req_comp =
     bindE (jpeg_test fuel) (\<lambda>t. if t then jpeg_load others req_comp else
     bindE (runE png_test) (\<lambda>t. if t then png_load fuel al gl req_comp else
     bindE bmp_test (\<lambda>t. if t then bmp_load al req_comp else
     bindE gif_test (\<lambda>t. if t then gif_load others req_comp else
     bindE psd_test (\<lambda>t. if t then psd_load fm fuel al req_comp else
     bindE pic_test (\<lambda>t. if t then pic_load fuel al req_comp else
     bindE pnm_test (\<lambda>t. if t then pnm_load al req_comp else
     bindE hdr_test (\<lambda>t. if t then hdr_load others req_comp else
     bindE tga_test (\<lambda>t. if t then tga_load al req_comp else
     failE ''unknown image type'')))))))))"

text \<open>
  The rows \<open>row\<close> and \<open>h - row - 1\<close> are exchanged byte by byte; the indices are \<open>int\<close> products, the
  largest of which is the last byte of the picture.
\<close>

fun flip_lines :: "nat \<Rightarrow> nat \<Rightarrow> nat list \<Rightarrow> buffer \<Rightarrow> stb_err + buffer" where
  "flip_lines line h [] buf = Inr buf"
| "flip_lines line h (row # js) buf =
     (if (h - row) * line \<le> 2 ^ 31
      then (case swap_bytes (row * line) ((h - row - 1) * line) line buf of Inl e \<Rightarrow> Inl e | Inr buf \<Rightarrow> flip_lines line h js buf)
      else Inl (Undefined ''overflow''))"

definition load_flip :: "nat \<Rightarrow> (nat \<Rightarrow> bool) \<Rightarrow> globals \<Rightarrow> 'f matte_math \<Rightarrow> 'u other_decoders \<Rightarrow> bool \<Rightarrow> nat \<Rightarrow> ('u, picture) im" where
  "load_flip fuel al gl fm others vertically_flip_on_load req_comp =
     bindE (load_main fuel al gl fm others req_comp) (\<lambda>p.
     if vertically_flip_on_load then
       let w = signed_count (pic_x p); h = signed_count (pic_y p); depth = (if req_comp \<noteq> 0 then req_comp else pic_comp p)
       in bindE (liftE (flip_lines (w * depth) h [0..<h div 2] (pic_data p))) (\<lambda>buf. returnE (p\<lparr>pic_data := buf\<rparr>))
     else returnE p)"

definition load_from_memory :: "nat \<Rightarrow> (nat \<Rightarrow> bool) \<Rightarrow> globals \<Rightarrow> 'f matte_math \<Rightarrow> 'u other_decoders \<Rightarrow> bool \<Rightarrow> 'u \<Rightarrow> u8 list \<Rightarrow> nat \<Rightarrow> stb_err + picture" where
  "load_from_memory fuel al gl fm others flip u buffer req_comp = fst (load_flip fuel al gl fm others flip req_comp (start_mem u buffer))"

definition load_from_callbacks :: "nat \<Rightarrow> (nat \<Rightarrow> bool) \<Rightarrow> globals \<Rightarrow> 'f matte_math \<Rightarrow> 'u other_decoders \<Rightarrow> bool \<Rightarrow> 'u io_callbacks \<Rightarrow> 'u \<Rightarrow> nat \<Rightarrow> (stb_err + picture) \<times> 'u" where
  "load_from_callbacks fuel al gl fm others flip cb user req_comp =
     (case load_flip fuel al gl fm others flip req_comp (start_callbacks cb user) of (r, s) \<Rightarrow> (r, io_user s))"

text \<open>After a success the file is moved back over the bytes that were buffered and not read.\<close>

definition load_from_file ::
    "nat \<Rightarrow> (nat \<Rightarrow> bool) \<Rightarrow> globals \<Rightarrow> 'f matte_math \<Rightarrow> stdio_file other_decoders \<Rightarrow> bool \<Rightarrow> stdio_file \<Rightarrow> nat \<Rightarrow> (stb_err + picture) \<times> stdio_file" where
  "load_from_file fuel al gl fm others flip f req_comp =
     (case load_flip fuel al gl fm others flip req_comp (start_file f) of
        (Inl e, s) \<Rightarrow> (Inl e, io_user s)
      | (Inr p, s) \<Rightarrow> (Inr p, stdio_skip (io_user s) (- (int (end_pos s) - int (pos s)))))"

text \<open>\<open>None\<close> for a file that cannot be opened; the file is closed at the end.\<close>

definition load_file :: "nat \<Rightarrow> (nat \<Rightarrow> bool) \<Rightarrow> globals \<Rightarrow> 'f matte_math \<Rightarrow> stdio_file other_decoders \<Rightarrow> bool \<Rightarrow> u8 list option \<Rightarrow> nat \<Rightarrow> stb_err + picture" where
  "load_file fuel al gl fm others flip opened req_comp =
     (case opened of
        None \<Rightarrow> Inl (Err ''can't fopen'')
      | Some bs \<Rightarrow> fst (load_from_file fuel al gl fm others flip \<lparr>file_bytes = bs, file_pos = 0, file_eof = False\<rparr> req_comp))"

subsection \<open>The tests leave no trace\<close>

text \<open>A context over memory that has been read to position \<open>k\<close>.\<close>

definition mem_at :: "'u \<Rightarrow> u8 list \<Rightarrow> nat \<Rightarrow> 'u ctx" where
  "mem_at u bs k = (start_mem u bs)\<lparr>pos := k\<rparr>"

lemma mem_at_start: "start_mem u bs = mem_at u bs 0"
  by (simp add: mem_at_def start_mem_def)

lemma mem_at_ops [simp]:
  "get8 (mem_at u bs k) = (if k < length bs then (bs ! k, mem_at u bs (Suc k)) else (0, mem_at u bs k))"
  "rewind (mem_at u bs k) = mem_at u bs 0"
  by (simp_all add: mem_at_def start_mem_def get8_def rewind_def)

lemma rd8_mem: "bindE rd8 f (mem_at u bs k) = (if k < length bs then f (bs ! k) (mem_at u bs (Suc k)) else f 0 (mem_at u bs k))"
  by (simp add: bindE_runE)

lemma modify_then: "bindE (modifyE f) m s = m () (f s)"
  by (simp add: bindE_def)

text \<open>The tests that look at the first byte fail at once if it is a different one.\<close>

lemma first_byte_tests:
  fixes u :: 'u
  assumes "bs \<noteq> []" and "s = start_mem u bs"
  shows "hd bs \<noteq> 0xff \<Longrightarrow> jpeg_test fuel s = (Inr False, s)"
    and "hd bs \<noteq> 137 \<Longrightarrow> png_test s = (False, s)"
    and "hd bs \<noteq> 0x42 \<Longrightarrow> bmp_test s = (Inr False, s)"
    and "hd bs \<noteq> 0x47 \<Longrightarrow> gif_test s = (Inr False, s)"
    and "hd bs \<noteq> 0x53 \<Longrightarrow> pic_test s = (Inr False, s)"
  using assms(1)
  by (simp_all add: assms(2) mem_at_start hd_conv_nth jpeg_test_def first_marker_def png_test_def check_png_header_def png_sig_def
      bmp_test_def bmp_test_raw_def gif_test_def gif_test_raw_def pic_test_def pic_test_core_def rewound_def bindE_assoc rd8_mem modify_then failE_def)

lemma mem_read: "\<exists>b k'. get8 (mem_at u bs k) = (b, mem_at u bs k')"
  by auto

lemma get32be_mem:
  fixes u :: 'u
  assumes "bs \<noteq> []"
  shows "\<exists>b c d k. get32be (mem_at u bs 0) = (word_of_int (le32_value d c b (hd bs)), mem_at u bs k)"
proof -
  obtain b k1 where 1: "get8 (mem_at u bs 1) = (b, mem_at u bs k1)" using mem_read [of u bs 1] by (elim exE)
  obtain c k2 where 2: "get8 (mem_at u bs k1) = (c, mem_at u bs k2)" using mem_read [of u bs k1] by (elim exE)
  obtain d k3 where 3: "get8 (mem_at u bs k2) = (d, mem_at u bs k3)" using mem_read [of u bs k2] by (elim exE)
  have 0: "get8 (mem_at u bs 0) = (hd bs, mem_at u bs 1)" using assms by (simp add: hd_conv_nth)
  have "le32_value d c b (hd bs) = push_bit 16 (push_bit 8 (uint (hd bs)) + uint b) + (push_bit 8 (uint c) + uint d)"
    by (simp add: le32_value_def push_bit_eq_mult)
  moreover have "push_bit 16 (word_of_int i :: u32) = word_of_int (push_bit 16 i)" for i by (simp add: push_bit_eq_mult)
  ultimately have "get32be (mem_at u bs 0) = (word_of_int (le32_value d c b (hd bs)), mem_at u bs k3)"
    by (simp only: get32be_def get16be_def 0 1 2 3 prod.case Let_def of_int_add)
  then show ?thesis by blast
qed

text \<open>Reading from memory only moves the position, and every test moves it back.\<close>

definition stays :: "('u, 'a) im \<Rightarrow> bool" where
  "stays m \<longleftrightarrow> (\<forall>u bs k. \<exists>k'. snd (m (mem_at u bs k)) = mem_at u bs k')"

named_theorems stays_rules \<open>introduction rules for stays\<close>

lemma stays_bind [stays_rules]: "stays m \<Longrightarrow> (\<And>a. stays (f a)) \<Longrightarrow> stays (bindE m f)"
  unfolding stays_def bindE_def by (auto split: prod.split sum.split) (metis snd_conv)+

lemma stays_basic [stays_rules]:
  "stays (returnE a)" "stays rd8" "stays rd16" "stays rd32"
  by (auto simp: stays_def runE_apply get16le_def get32le_def Let_def split: prod.splits)

lemma stays_if [stays_rules]: "stays m \<Longrightarrow> stays n \<Longrightarrow> stays (if b then m else n)"
  by simp

lemma bmp_test_restores: "snd (bmp_test (start_mem u bs)) = start_mem u bs" if "fst (bmp_test (start_mem u bs)) = Inr t"
proof -
  have "stays (bmp_test_raw :: ('a, bool) im)" unfolding bmp_test_raw_def by (intro stays_rules)
  then obtain r k' where r: "bmp_test_raw (mem_at u bs 0) = (r, mem_at u bs k')" unfolding stays_def by (metis prod.collapse)
  then show ?thesis using that by (cases r) (auto simp: bmp_test_def bindE_def mem_at_start)
qed

end
