(* ===== verification/TgaLaws.thy ===== *)
theory TgaLaws
  imports Tga BmpLaws
begin

text \<open>
  A run-length encoded TGA file decodes to its picture, however its pixels are cut into runs, whether
  its rows go up or down.
\<close>

subsection \<open>The files\<close>

text \<open>A run of one pixel, or pixels one by one.\<close>

datatype packet = Same nat "u8 list" | Each "u8 list list"

fun packet_pixels :: "packet \<Rightarrow> u8 list list" where
  "packet_pixels (Same k px) = replicate k px"
| "packet_pixels (Each pxs) = pxs"

fun packet_bytes :: "packet \<Rightarrow> u8 list" where
  "packet_bytes (Same k px) = word_of_nat (127 + k) # px"
| "packet_bytes (Each pxs) = word_of_nat (length pxs - 1) # concat pxs"

definition packet_ok :: "nat \<Rightarrow> packet \<Rightarrow> bool" where
  "packet_ok n p \<longleftrightarrow> packet_pixels p \<noteq> [] \<and> length (packet_pixels p) \<le> 128 \<and> (\<forall>px \<in> set (packet_pixels p). length px = n)"

text \<open>Pixels of the file are blue first.\<close>

definition bgr :: "u8 list \<Rightarrow> u8 list" where
  "bgr px = (if length px \<ge> 3 then px[0 := px ! 2, 2 := px ! 0] else px)"

text \<open>The name of the picture, the palette specification and the origin are arbitrary.\<close>

definition tga_file :: "u8 list \<Rightarrow> u8 list \<Rightarrow> u8 list \<Rightarrow> nat \<Rightarrow> u8 \<Rightarrow> nat \<Rightarrow> nat \<Rightarrow> packet list \<Rightarrow> u8 list" where
  "tga_file name spec origin n desc w h ps =
     [word_of_nat (length name), 0, if n = 1 then 11 else 10] @ spec @ origin @ le16 w @ le16 h @ [word_of_nat (8 * n), desc] @ name @
     concat (map packet_bytes ps)"

abbreviation rle_header :: "u8 list \<Rightarrow> int \<Rightarrow> nat \<Rightarrow> u8 \<Rightarrow> nat \<Rightarrow> u8 \<Rightarrow> nat \<Rightarrow> nat \<Rightarrow> tga_header" where
  "rle_header name start len pbits n desc w h \<equiv>
     \<lparr>tga_offset = word_of_nat (length name), tga_indexed = False, tga_type = (if n = 1 then 3 else 2), tga_is_RLE = True,
       tga_palette_start = start, tga_palette_len = len, tga_palette_bits = pbits, tga_width = w, tga_height = h,
       tga_bits_per_pixel = word_of_nat (8 * n), tga_inverted = (drop_bit 5 desc AND 1 = 0)\<rparr>"

definition rle_format :: "tga_header \<Rightarrow> nat \<Rightarrow> bool" where
  "rle_format h n \<longleftrightarrow> \<not> tga_indexed h \<and> tga_is_RLE h \<and> tga_format h = (n, False)"

lemma rle_header_format: "n \<in> {1, 3, 4} \<Longrightarrow> rle_format (rle_header name start len pbits n desc w h) n"
  by (auto simp: rle_format_def tga_format_def tga_get_comp_def)

subsection \<open>One pixel\<close>

definition so_far :: "u8 list list \<Rightarrow> nat \<Rightarrow> buffer" where
  "so_far pxs m = map Some (concat pxs) @ replicate m None"

lemma pixel_step:
  assumes "ensures (tga_next_pixel h pal r) s (\<lambda>r' s'. take n (run_pixel r') = map Some px \<and> P r' s')"
    and "\<And>r' s'. P r' s' \<Longrightarrow> ensures (tga_pixels h pal is (r'\<lparr>run_count := run_count r' - 1\<rparr>) (so_far (pxs @ [px]) (m - n))) s' Q"
    and "fst (tga_format h) = n" and "\<forall>px \<in> set (pxs @ [px]). length px = n" and "n \<le> m" and "length pxs * n + n < 2 ^ 31"
  shows "ensures (tga_pixels h pal (length pxs # is) r (so_far pxs m)) s Q"
proof -
  have len: "length (concat pxs) = length pxs * n" using assms(4) length_concat_chunks [of pxs n] by simp
  then have upd: "take (length pxs * n) (so_far pxs m) @ map Some px @ drop (length pxs * n + n) (so_far pxs m) = so_far (pxs @ [px]) (m - n)"
    by (simp add: so_far_def drop_replicate)
  have fits: "length pxs * n + n \<le> length (so_far pxs m)" using len assms(5) by (simp add: so_far_def)
  show ?thesis
    unfolding tga_pixels.simps Let_def
    apply (rule ensures_bind, rule ensures_mono [OF assms(1)], elim conjE)
    apply (rule ensures_bind, rule ensures_lift [of _ "length pxs * n + n - 1"])
    using assms(6) apply (simp add: int_size_def assms(3))
    apply (simp add: assms(3) fits upd assms(2))
    done
qed

text \<open>Reading a pixel into the start of \<open>raw_data\<close>.\<close>

lemma read_bytes_reads: "reads s (px @ bs) \<Longrightarrow> length px = n \<Longrightarrow> (\<And>s'. reads s' bs \<Longrightarrow> Q px s') \<Longrightarrow> ensures (read_bytes n) s Q"
proof (induction px arbitrary: s n Q)
  case Nil
  then show ?case by (auto simp: ensures_return)
next
  case (Cons b px)
  have n: "n = Suc (length px)" using Cons.prems(2) by simp
  have "reads s (b # px @ bs)" using Cons.prems(1) by simp
  then show ?case
    unfolding n read_bytes.simps
    by (rule ensures_bind [OF ensures_rd8]) (rule ensures_bind, rule Cons.IH, assumption, rule refl, rule ensures_return, erule Cons.prems(3))
qed

lemma read_pixel_reads:
  assumes "rle_format h n" and "reads s (px @ bs)" and "length px = n" and "\<And>s'. reads s' bs \<Longrightarrow> Q (map Some px) s'"
  shows "ensures (tga_read_pixel h pal) s Q"
  using assms unfolding tga_read_pixel_def rle_format_def by (auto intro!: ensures_bind read_bytes_reads ensures_return)

text \<open>The three ways to get to the next pixel.\<close>

lemma next_repeated:
  "rle_format h n \<Longrightarrow> run_count r \<noteq> 0 \<Longrightarrow> run_repeating r \<Longrightarrow> \<not> run_read r \<Longrightarrow> Q r s \<Longrightarrow> ensures (tga_next_pixel h pal r) s Q"
  by (simp add: tga_next_pixel_def rle_format_def ensures_return)

lemma next_single:
  assumes "rle_format h n" and "run_count r \<noteq> 0" and "\<not> run_repeating r" and "reads s (px @ bs)" and "length px = n"
    and "\<And>s'. reads s' bs \<Longrightarrow> Q (r\<lparr>run_pixel := map Some px @ drop n (run_pixel r), run_read := False\<rparr>) s'"
  shows "ensures (tga_next_pixel h pal r) s Q"
  using assms by (auto simp: tga_next_pixel_def rle_format_def [of h] intro!: ensures_bind read_pixel_reads [OF assms(1,4,5)] ensures_return)

lemma next_packet:
  assumes "rle_format h n" and "run_count r = 0" and "reads s (cmd # px @ bs)" and "length px = n"
    and "\<And>s'. reads s' bs \<Longrightarrow> Q (r\<lparr>run_count := 1 + uint (cmd AND 127), run_repeating := (drop_bit 7 cmd \<noteq> 0),
      run_pixel := map Some px @ drop n (run_pixel r), run_read := False\<rparr>) s'"
  shows "ensures (tga_next_pixel h pal r) s Q"
  using assms
  by (auto simp: tga_next_pixel_def rle_format_def [of h] intro!: ensures_bind ensures_rd8 [OF assms(3)] read_pixel_reads [OF assms(1) _ assms(4)] ensures_return)

subsection \<open>Packets\<close>

text \<open>The rest of a run that has been started: \<open>k\<close> more times the pixel \<open>px\<close>.\<close>

lemma repeat_pixels:
  fixes s :: "'u ctx"
  assumes "rle_format h n" and "length px = n" and "\<forall>px \<in> set pxs. length px = n" and "k * n \<le> m" and "(length pxs + k) * n < 2 ^ 31"
    and "run_count r = int k" and "k = 0 \<or> run_repeating r \<and> \<not> run_read r \<and> take n (run_pixel r) = map Some px" and "reads s bs"
    and "\<And>r' s'. run_count r' = 0 \<Longrightarrow> reads s' bs \<Longrightarrow>
      ensures (tga_pixels h pal is r' (so_far (pxs @ replicate k px) (m - k * n))) s' Q"
  shows "ensures (tga_pixels h pal ([length pxs..<length pxs + k] @ is) r (so_far pxs m)) s Q"
  using assms(3-9)
proof (induction k arbitrary: pxs m r s)
  case 0
  then show ?case by simp
next
  case (Suc k)
  have n: "fst (tga_format h) = n" using assms(1) by (simp add: rle_format_def)
  have split: "[length pxs..<length pxs + Suc k] @ is = length pxs # [length (pxs @ [px])..<length (pxs @ [px]) + k] @ is"
    by (simp add: upt_conv_Cons del: upt_Suc)
  have more: "n + k * n \<le> m" "length pxs * n + (n + k * n) < 2 ^ 31" using Suc.prems(2,3) by (simp_all add: algebra_simps)
  show ?case
    unfolding split
  proof (rule pixel_step [where n = n and px = px and P = "\<lambda>r' s'. r' = r \<and> reads s' bs"])
    show "ensures (tga_next_pixel h pal r) s (\<lambda>r' s'. take n (run_pixel r') = map Some px \<and> r' = r \<and> reads s' bs)"
      using Suc.prems(4,5,6) by (intro next_repeated [OF assms(1)]) simp_all
  next
    fix r' :: run and s' :: "'u ctx"
    assume r': "r' = r \<and> reads s' bs"
    show "ensures (tga_pixels h pal ([length (pxs @ [px])..<length (pxs @ [px]) + k] @ is) (r'\<lparr>run_count := run_count r' - 1\<rparr>)
        (so_far (pxs @ [px]) (m - n))) s' Q"
      using Suc.prems(1,4,5,7) more r' assms(2) by (intro Suc.IH) (auto simp: algebra_simps)
  qed (use n assms(2) Suc.prems(1) more in auto)
qed

text \<open>The rest of a packet of single pixels.\<close>

lemma single_pixels:
  fixes s :: "'u ctx"
  assumes "rle_format h n" and "\<forall>px \<in> set (pxs @ qs). length px = n" and "length qs * n \<le> m" and "(length pxs + length qs) * n < 2 ^ 31"
    and "run_count r = int (length qs)" and "qs = [] \<or> \<not> run_repeating r" and "reads s (concat qs @ bs)"
    and "\<And>r' s'. run_count r' = 0 \<Longrightarrow> reads s' bs \<Longrightarrow> ensures (tga_pixels h pal is r' (so_far (pxs @ qs) (m - length qs * n))) s' Q"
  shows "ensures (tga_pixels h pal ([length pxs..<length pxs + length qs] @ is) r (so_far pxs m)) s Q"
  using assms(2-8)
proof (induction qs arbitrary: pxs m r s)
  case Nil
  then show ?case by simp
next
  case (Cons px qs)
  have n: "fst (tga_format h) = n" using assms(1) by (simp add: rle_format_def)
  have split: "[length pxs..<length pxs + length (px # qs)] @ is = length pxs # [length (pxs @ [px])..<length (pxs @ [px]) + length qs] @ is"
    by (simp add: upt_conv_Cons del: upt_Suc)
  have more: "n + length qs * n \<le> m" "length pxs * n + (n + length qs * n) < 2 ^ 31" using Cons.prems(2,3) by (simp_all add: algebra_simps)
  show ?case
    unfolding split
  proof (rule pixel_step [where n = n and px = px and P = "\<lambda>r' s'. run_count r' = run_count r \<and> \<not> run_repeating r' \<and> reads s' (concat qs @ bs)"])
    show "ensures (tga_next_pixel h pal r) s
        (\<lambda>r' s'. take n (run_pixel r') = map Some px \<and> run_count r' = run_count r \<and> \<not> run_repeating r' \<and> reads s' (concat qs @ bs))"
      using Cons.prems(1,4,5,6) by (intro next_single [OF assms(1), where px = px and bs = "concat qs @ bs"]) simp_all
  next
    fix r' :: run and s' :: "'u ctx"
    assume r': "run_count r' = run_count r \<and> \<not> run_repeating r' \<and> reads s' (concat qs @ bs)"
    show "ensures (tga_pixels h pal ([length (pxs @ [px])..<length (pxs @ [px]) + length qs] @ is) (r'\<lparr>run_count := run_count r' - 1\<rparr>)
        (so_far (pxs @ [px]) (m - n))) s' Q"
      using Cons.prems(1,4,7) more r' by (intro Cons.IH) (auto simp: algebra_simps)
  qed (use n Cons.prems(1) more in auto)
qed

lemma run_commands:
  assumes "0 < k" and "k \<le> 128"
  shows "uint ((word_of_nat (127 + k) :: u8) AND 127) = int k - 1" "drop_bit 7 (word_of_nat (127 + k) :: u8) \<noteq> 0"
    "uint ((word_of_nat (k - 1) :: u8) AND 127) = int k - 1" "drop_bit 7 (word_of_nat (k - 1) :: u8) = 0"
proof -
  have low: "uint (v AND 127) = uint v mod 128" for v :: u8
    using take_bit_eq_mask [of 7 "uint v"] by (simp add: unsigned_and_eq mask_eq_exp_minus_1 take_bit_eq_mod)
  have high: "drop_bit 7 v = 0 \<longleftrightarrow> uint v < 128" for v :: u8
  proof -
    have "unat (drop_bit 7 v) = unat v div 128" using drop_bit_eq_div [of 7 "unat v"] by (simp add: unat_drop_bit_eq)
    moreover have "drop_bit 7 v = 0 \<longleftrightarrow> unat (drop_bit 7 v) = 0" by (simp only: unsigned_eq_0_iff)
    ultimately have "drop_bit 7 v = 0 \<longleftrightarrow> unat v < 128" by (simp only: div_eq_0_iff) simp
    then show ?thesis unfolding uint_nat by presburger
  qed
  have "uint (word_of_nat (127 + k) :: u8) = 127 + int k" "uint (word_of_nat (k - 1) :: u8) = int k - 1"
    using assms by (simp_all only: uint_byte) simp_all
  moreover have "(127 + int k) mod 128 = int k - 1" using mod_add_self2 [of "int k - 1" 128] assms by simp
  ultimately show "uint ((word_of_nat (127 + k) :: u8) AND 127) = int k - 1" "drop_bit 7 (word_of_nat (127 + k) :: u8) \<noteq> 0"
    "uint ((word_of_nat (k - 1) :: u8) AND 127) = int k - 1" "drop_bit 7 (word_of_nat (k - 1) :: u8) = 0"
    using assms unfolding low high by simp_all
qed

lemma packet_decodes:
  fixes s :: "'u ctx"
  assumes "rle_format h n" and "packet_ok n p" and "\<forall>px \<in> set pxs. length px = n" and "length (packet_pixels p) * n \<le> m"
    and "(length pxs + length (packet_pixels p)) * n < 2 ^ 31" and "run_count r = 0" and "reads s (packet_bytes p @ bs)"
    and "\<And>r' s'. run_count r' = 0 \<Longrightarrow> reads s' bs \<Longrightarrow>
      ensures (tga_pixels h pal is r' (so_far (pxs @ packet_pixels p) (m - length (packet_pixels p) * n))) s' Q"
  shows "ensures (tga_pixels h pal ([length pxs..<length pxs + length (packet_pixels p)] @ is) r (so_far pxs m)) s Q"
proof -
  have n: "fst (tga_format h) = n" using assms(1) by (simp add: rle_format_def)
  obtain px qs where q: "packet_pixels p = px # qs" using assms(2) by (cases "packet_pixels p") (auto simp: packet_ok_def)
  have len: "length px = n" "\<forall>px \<in> set qs. length px = n" "Suc (length qs) \<le> 128" using assms(2) q by (auto simp: packet_ok_def)
  have split: "[length pxs..<length pxs + length (packet_pixels p)] @ is = length pxs # [length (pxs @ [px])..<length (pxs @ [px]) + length qs] @ is"
    by (simp add: q upt_conv_Cons del: upt_Suc)
  have more: "n + length qs * n \<le> m" "length pxs * n + (n + length qs * n) < 2 ^ 31" using assms(4,5) by (simp_all add: q algebra_simps)
  have last: "ensures (tga_pixels h pal is r' (so_far ((pxs @ [px]) @ qs) (m - n - length qs * n))) s' Q"
    if "run_count r' = 0" "reads s' bs" for r' :: run and s' :: "'u ctx"
    using assms(8) [OF that] by (simp add: q diff_diff_left)
  show ?thesis
  proof (cases p)
    case (Same k px')
    then have k: "px' = px" "k = Suc (length qs)" "replicate (length qs) px = qs" using q by (cases k; auto)+
    note cmd = run_commands(1,2) [of k]
    show ?thesis
      unfolding split
    proof (rule pixel_step [where n = n and px = px and
        P = "\<lambda>r' s'. run_count r' = int k \<and> run_repeating r' \<and> \<not> run_read r' \<and> take n (run_pixel r') = map Some px \<and> reads s' bs"])
      show "ensures (tga_next_pixel h pal r) s (\<lambda>r' s'. take n (run_pixel r') = map Some px \<and>
          run_count r' = int k \<and> run_repeating r' \<and> \<not> run_read r' \<and> take n (run_pixel r') = map Some px \<and> reads s' bs)"
        using assms(6,7) len(1,3) cmd k by (intro next_packet [OF assms(1), where px = px and bs = bs and cmd = "word_of_nat (127 + k)"]) (simp_all add: Same)
    next
      fix r' :: run and s' :: "'u ctx"
      assume "run_count r' = int k \<and> run_repeating r' \<and> \<not> run_read r' \<and> take n (run_pixel r') = map Some px \<and> reads s' bs"
      then show "ensures (tga_pixels h pal ([length (pxs @ [px])..<length (pxs @ [px]) + length qs] @ is) (r'\<lparr>run_count := run_count r' - 1\<rparr>)
          (so_far (pxs @ [px]) (m - n))) s' Q"
        using assms(3) len(1) more k(2) last
        by (intro repeat_pixels [OF assms(1) len(1)]) (auto simp: k(3) algebra_simps)
    qed (use n len(1) assms(3) more in auto)
  next
    case (Each pxs')
    then have k: "pxs' = px # qs" using q by simp
    note cmd = run_commands(3,4) [of "Suc (length qs)"]
    show ?thesis
      unfolding split
    proof (rule pixel_step [where n = n and px = px and
        P = "\<lambda>r' s'. run_count r' = int (Suc (length qs)) \<and> \<not> run_repeating r' \<and> reads s' (concat qs @ bs)"])
      show "ensures (tga_next_pixel h pal r) s (\<lambda>r' s'. take n (run_pixel r') = map Some px \<and>
          run_count r' = int (Suc (length qs)) \<and> \<not> run_repeating r' \<and> reads s' (concat qs @ bs))"
        using assms(6,7) len(1,3) cmd
        by (intro next_packet [OF assms(1), where px = px and bs = "concat qs @ bs" and cmd = "word_of_nat (length qs)"]) (simp_all add: Each k)
    next
      fix r' :: run and s' :: "'u ctx"
      assume "run_count r' = int (Suc (length qs)) \<and> \<not> run_repeating r' \<and> reads s' (concat qs @ bs)"
      then show "ensures (tga_pixels h pal ([length (pxs @ [px])..<length (pxs @ [px]) + length qs] @ is) (r'\<lparr>run_count := run_count r' - 1\<rparr>)
          (so_far (pxs @ [px]) (m - n))) s' Q"
        using assms(3) len(1,2) more last by (intro single_pixels [OF assms(1)]) (auto simp: algebra_simps)
    qed (use n len(1) assms(3) more in auto)
  qed
qed

lemma packets_decode:
  fixes s :: "'u ctx"
  assumes "rle_format h n" and "list_all (packet_ok n) ps" and "\<forall>px \<in> set pxs. length px = n"
    and "new = concat (map packet_pixels ps)" and "length new * n = m" and "(length pxs + length new) * n < 2 ^ 31" and "run_count r = 0"
    and "reads s (concat (map packet_bytes ps) @ bs)" and "\<And>s'. reads s' bs \<Longrightarrow> Q (so_far (pxs @ new) 0) s'"
  shows "ensures (tga_pixels h pal [length pxs..<length pxs + length new] r (so_far pxs m)) s Q"
  using assms(2-9)
proof (induction ps arbitrary: pxs new m r s)
  case Nil
  then show ?case by (simp add: ensures_return)
next
  case (Cons p ps)
  let ?a = "packet_pixels p" and ?b = "concat (map packet_pixels ps)"
  have ok: "packet_ok n p" "list_all (packet_ok n) ps" "\<forall>px \<in> set (pxs @ ?a). length px = n"
    using Cons.prems(1,2) by (auto simp: packet_ok_def [of _ p])
  have new: "new = ?a @ ?b" "length ?a * n + length ?b * n = m" "length pxs * n + (length ?a * n + length ?b * n) < 2 ^ 31"
    using Cons.prems(3-5) by (simp_all add: algebra_simps)
  have split: "[length pxs..<length pxs + length new] = [length pxs..<length pxs + length ?a] @ [length (pxs @ ?a)..<length (pxs @ ?a) + length ?b]"
    using upt_add_eq_append [of "length pxs" "length pxs + length ?a" "length ?b"] by (simp add: new(1) add.assoc)
  show ?case
    unfolding split
  proof (rule packet_decodes [OF assms(1) ok(1) Cons.prems(2), where bs = "concat (map packet_bytes ps) @ bs"])
    fix r' :: run and s' :: "'u ctx"
    assume "run_count r' = 0" "reads s' (concat (map packet_bytes ps) @ bs)"
    then show "ensures (tga_pixels h pal [length (pxs @ ?a)..<length (pxs @ ?a) + length ?b] r' (so_far (pxs @ ?a) (m - length ?a * n))) s' Q"
      using Cons.prems(8) ok new by (intro Cons.IH) (auto simp: algebra_simps)
  qed (use Cons.prems(6,7) new in \<open>auto simp: algebra_simps\<close>)
qed

subsection \<open>The order of the rows and of the channels\<close>

lemma swap_self: "p + n \<le> length buf \<Longrightarrow> swap_bytes p p n buf = Inr buf"
  by (induction n arbitrary: p) simp_all

lemma invert_flips:
  assumes "x * n < 2 ^ 31" and "x < 2 ^ 31" and "y * (x * n) < 2 ^ 31" and "\<forall>j \<in> set js. j < y"
  shows "tga_invert (x * n) y js buf = flip_loop x y n js buf"
  using assms(4)
proof (induction js arbitrary: buf)
  case (Cons j js)
  have place: "i * (x * n) < 2 ^ 31" if "i \<le> y" for i
  proof -
    have "i * (x * n) \<le> y * (x * n)" using that by (intro mult_le_mono1)
    then show ?thesis using assms(3) by (rule le_less_trans)
  qed
  have "j \<le> y" "y - 1 - j \<le> y" "y - j \<le> y" "j + 1 \<le> y" using Cons.prems by auto
  then have "j * (x * n) < 2 ^ 31" "(y - 1 - j) * (x * n) < 2 ^ 31" "(y - j) * (x * n) < 2 ^ 31" "(j + 1) * (x * n) < 2 ^ 31"
    by (simp_all only: place)
  then show ?case
    using assms(1,2) Cons.IH Cons.prems by (simp add: signed_count_def mult.assoc split: sum.split)
qed simp

lemma flip_loop_append: "flip_loop x y n (js @ ks) buf = (case flip_loop x y n js buf of Inl e \<Rightarrow> Inl e | Inr buf \<Rightarrow> flip_loop x y n ks buf)"
  by (induction js arbitrary: buf) (auto split: sum.split)

lemma invert_rows:
  assumes "\<forall>r \<in> set rs. length r = x * n" and "length rs = y" and "x * n < 2 ^ 31" and "x < 2 ^ 31" and "y * (x * n) < 2 ^ 31" and "y < 2 ^ 31"
  shows "tga_invert (x * n) y [0..<(y + 1) div 2] (concat rs) = Inr (concat (rev rs))"
proof -
  have "flip_rows x y n (concat rs) = Inr (concat (rev rs))" using assms by (intro flip_rows_rev) simp_all
  then have half: "flip_loop x y n [0..<y div 2] (concat rs) = Inr (concat (rev rs))" using assms(6) by (simp add: flip_rows_def signed_count_def)
  have "flip_loop x y n [0..<(y + 1) div 2] (concat rs) = Inr (concat (rev rs))"
  proof (cases "even y")
    case True
    then show ?thesis using half by simp
  next
    case False
    define k where "k = y div 2"
    have k: "y = 2 * k + 1" using False by (simp add: k_def)
    have "k * (x * n) + x * n \<le> y * (x * n)" by (simp add: k algebra_simps)
    moreover have "length (concat (rev rs)) = y * (x * n)" using length_concat_chunks [of "rev rs" "x * n"] assms(1,2) by simp
    ultimately have "swap_bytes (k * (x * n)) (k * (x * n)) (x * n) (concat (rev rs)) = Inr (concat (rev rs))" "k * (x * n) < 2 ^ 31"
      using assms(5) by (simp_all add: swap_self)
    moreover have "[0..<(y + 1) div 2] = [0..<y div 2] @ [k]" "y - 1 - k = k" by (simp_all add: k)
    ultimately show ?thesis using half assms(3,4) by (simp add: flip_loop_append signed_count_def mult.assoc)
  qed
  moreover have "\<forall>j \<in> set [0..<(y + 1) div 2]. j < y" by auto
  ultimately show ?thesis using invert_flips [OF assms(3-5)] by simp
qed

lemma bgr_facts [simp]: "length (bgr px) = length px" "bgr (bgr px) = px"
proof -
  show "length (bgr px) = length px" by (simp add: bgr_def)
  show "bgr (bgr px) = px"
  proof (cases "3 \<le> length px")
    case True
    then obtain a b c ds where "px = a # b # c # ds" by (auto simp: numeral_eq_Suc Suc_le_length_iff)
    then show ?thesis by (simp add: bgr_def)
  qed (simp add: bgr_def)
qed

lemma swap_pixels:
  assumes "\<forall>px \<in> set pxs. length px = n" and "3 \<le> n"
  shows "tga_swap_rgb n (length pxs) (map Some (concat pxs)) = Inr (map Some (concat (map bgr pxs)))"
  using assms(1)
proof (induction pxs)
  case (Cons px pxs)
  have "length px = n" using Cons.prems by simp
  moreover from this have "(take n (map Some px @ rest)) [0 := (map Some px @ rest) ! 2, 2 := (map Some px @ rest) ! 0] = map Some (bgr px)"
    for rest :: buffer
    using assms(2) by (simp add: bgr_def nth_append map_update)
  ultimately show ?case using Cons by simp
qed simp

subsection \<open>The whole file\<close>

lemma tga_header_reads:
  assumes "reads s (tga_file name spec origin n desc w h ps)" and "length spec = 5" and "length origin = 4" and "w < 2 ^ 16" and "h < 2 ^ 16"
  shows "ensures tga_read_header s (\<lambda>th s'. (\<exists>start len pbits. th = rle_header name start len pbits n desc w h) \<and>
    reads s' (name @ concat (map packet_bytes ps)))"
proof -
  obtain a b c d e where spec: "spec = [a, b, c, d, e]" using assms(2) by (auto simp: length_Suc_conv numeral_eq_Suc)
  obtain f g i j where origin: "origin = [f, g, i, j]" using assms(3) by (auto simp: length_Suc_conv numeral_eq_Suc)
  let ?type = "if n = 1 then 11 else 10 :: u8"
  have layout: "tga_file name spec origin n desc w h ps = word_of_nat (length name) # 0 # ?type # a # b # c # d # e # f # g # i # j #
      le16 w @ le16 h @ word_of_nat (8 * n) # desc # name @ concat (map packet_bytes ps)"
    by (simp add: tga_file_def spec origin)
  have type: "8 \<le> ?type" "uint ?type - 8 = (if n = 1 then 3 else 2)" by simp_all
  define fin where "fin = (\<lambda>th (s' :: 'a ctx). (\<exists>start len pbits. th = rle_header name start len pbits n desc w h) \<and>
    reads s' (name @ concat (map packet_bytes ps)))"
  have "ensures tga_read_header s fin"
    unfolding tga_read_header_def
    using assms(1) unfolding layout
    apply -
    apply (rule ensures_bind, erule ensures_rd8)
    apply (rule ensures_bind, erule ensures_rd8)
    apply (rule ensures_bind, erule ensures_rd8)
    apply (rule ensures_bind, erule ensures_rd16_any)
    apply (rule ensures_bind, erule ensures_rd16_any)
    apply (rule ensures_bind, erule ensures_rd8)
    apply (rule ensures_bind, erule ensures_rd16_any)
    apply (rule ensures_bind, erule ensures_rd16_any)
    apply (rule ensures_bind, erule ensures_rd16, rule assms(4))
    apply (rule ensures_bind, erule ensures_rd16, rule assms(5))
    apply (rule ensures_bind, erule ensures_rd8)
    apply (rule ensures_bind, erule ensures_rd8)
    apply (simp only: type if_True)
    apply (rule ensures_return)
    apply (auto simp: fin_def)
    done
  then show ?thesis by (simp add: fin_def)
qed

lemma concat_lines: "concat (map (\<lambda>r. map f (concat r)) rs) = map f (concat (concat rs))"
  by (induction rs) simp_all

lemma rle_image_reads:
  fixes s :: "'u ctx"
  assumes "rle_format th n" and "tga_width th = w" and "tga_height th = h" and "list_all (packet_ok n) ps"
    and "\<forall>r \<in> set rs. length r = w \<and> (\<forall>px \<in> set r. length px = n)" and "length rs = h"
    and "concat (map packet_pixels ps) = concat rs" and "0 < n" and "0 < h" and "0 < w" and "w * h * n < 2 ^ 31"
    and "reads s (concat (map packet_bytes ps))" and "Q (map Some (concat (concat (if tga_inverted th then rev rs else rs))))"
  shows "ensures (tga_image al th (replicate (w * h * n) None)) s (\<lambda>b s'. Q b)"
proof -
  have size: "w * n < 2 ^ 31" "w < 2 ^ 31" "h < 2 ^ 31" "w * h < 2 ^ 31"
  proof -
    have "w * n \<le> w * h * n" "w \<le> w * h * n" "h \<le> w * h * n" "w * h \<le> w * h * n" using assms(8-10) by simp_all
    then show "w * n < 2 ^ 31" "w < 2 ^ 31" "h < 2 ^ 31" "w * h < 2 ^ 31" using assms(11) by (blast intro: le_less_trans)+
  qed
  have len: "length (concat rs) = w * h" using length_concat_chunks [of rs w] assms(5,6) by auto
  have start: "replicate (w * h * n) None = so_far [] (w * h * n)" by (simp add: so_far_def)
  have pixels: "ensures (tga_pixels th [] [0..<w * h] run_start (so_far [] (w * h * n))) s (\<lambda>b s'. b = so_far (concat rs) 0)"
    using packets_decode [OF assms(1,4), of "[]" "concat rs" "w * h * n" run_start s "[]" "\<lambda>b s'. b = so_far (concat rs) 0" "[]"] assms(7,11,12) len
    by (simp add: run_start_def ac_simps)
  let ?bytes = "map (\<lambda>r. map Some (concat r)) rs"
  have lines: "\<forall>l \<in> set ?bytes. length l = w * n" using assms(5) by (auto simp: length_concat_chunks [where n = n] mult.commute)
  have "tga_invert (w * n) h [0..<(h + 1) div 2] (concat ?bytes) = Inr (concat (rev ?bytes))"
    using size assms(6,11) by (intro invert_rows [OF lines]) (simp_all add: ac_simps)
  then have invert: "tga_invert (w * n) h [0..<(h + 1) div 2] (so_far (concat rs) 0) = Inr (map Some (concat (concat (rev rs))))"
    by (simp add: so_far_def rev_map concat_lines)
  have "\<not> tga_indexed th" "tga_is_RLE th" "tga_format th = (n, False)" using assms(1) by (simp_all add: rle_format_def)
  then show ?thesis
    unfolding tga_image_def Let_def start assms(2,3)
    apply simp
    apply (rule ensures_bind, rule ensures_lift [of _ "w * h"])
    using size(4) apply (simp add: int_size_def)
    apply (rule ensures_bind, rule ensures_mono [OF pixels])
    apply (rule ensures_lift [of _ "map Some (concat (concat (if tga_inverted th then rev rs else rs)))"])
    using invert apply (simp add: so_far_def)
    apply (rule assms(13))
    done
qed

text \<open>The rows as the file stores them, and what the exchange of the channels makes of them.\<close>

lemma stored_rows:
  assumes "n \<in> {1, 3, 4}" and "\<forall>r \<in> set rs. length r = w \<and> (\<forall>px \<in> set r. length px = n)" and "stored = map (map bgr) (if up then rev rs else rs)"
  shows "\<forall>r \<in> set stored. length r = w \<and> (\<forall>px \<in> set r. length px = n)" "length stored = length rs"
    "concat stored = map bgr (concat (if up then rev rs else rs))" "concat (if up then rev stored else stored) = map bgr (concat rs)"
    "3 \<le> n \<Longrightarrow> tga_swap_rgb n (w * length rs) (map Some (concat (map bgr (concat rs)))) = Inr (map Some (concat (concat rs)))"
    "\<not> 3 \<le> n \<Longrightarrow> map bgr (concat rs) = concat rs"
proof -
  show "\<forall>r \<in> set stored. length r = w \<and> (\<forall>px \<in> set r. length px = n)" "length stored = length rs"
    "concat stored = map bgr (concat (if up then rev rs else rs))" "concat (if up then rev stored else stored) = map bgr (concat rs)"
    using assms(2) by (auto simp: assms(3) map_concat rev_map)
  have px: "\<forall>px \<in> set (map bgr (concat rs)). length px = n" "length (map bgr (concat rs)) = w * length rs"
    using assms(2) by (auto simp: length_concat_chunks [where n = w])
  have twice: "map bgr (map bgr pxs) = pxs" for pxs by (induction pxs) simp_all
  show "tga_swap_rgb n (w * length rs) (map Some (concat (map bgr (concat rs)))) = Inr (map Some (concat (concat rs)))" if "3 \<le> n"
    using swap_pixels [OF px(1) that] unfolding px(2) twice .
  show "map bgr (concat rs) = concat rs" if "\<not> 3 \<le> n"
  proof (rule map_idI)
    fix px
    assume "px \<in> set (concat rs)"
    then have "length px = n" using assms(2) by auto
    then show "bgr px = px" using that by (simp add: bgr_def)
  qed
qed

text \<open>
  C15: a run-length encoded TGA file of grey, RGB or RGBA pixels decodes to its picture, however the
  pixels are cut into runs and single pixels, across the ends of rows too, with the channels in the order red, green, blue,
  and with its rows from top to bottom, whichever way the file stores them.
\<close>

theorem tga_round_trip:
  assumes "n \<in> {1, 3, 4}" and "list_all (packet_ok n) ps" and "\<forall>r \<in> set rs. length r = w \<and> (\<forall>px \<in> set r. length px = n)"
    and "concat (map packet_pixels ps) = map bgr (concat (if drop_bit 5 desc AND 1 = 0 then rev rs else rs))"
    and "0 < w" and "w < 2 ^ 16" and "0 < length rs" and "length rs < 2 ^ 16" and "w * length rs * n < 2 ^ 31"
    and "length name < 256" and "length spec = 5" and "length origin = 4" and "al (w * length rs * n)" and "req_comp \<in> {0, n}"
  shows "\<exists>s'. tga_load al req_comp (start_mem u (tga_file name spec origin n desc w (length rs) ps)) =
    (Inr \<lparr>pic_x = w, pic_y = length rs, pic_comp = n, pic_data = map Some (concat (concat rs))\<rparr>, s')"
proof -
  let ?h = "length rs" and ?p = "\<lparr>pic_x = w, pic_y = length rs, pic_comp = n, pic_data = map Some (concat (concat rs))\<rparr>"
  define stored where "stored = map (map bgr) (if drop_bit 5 desc AND 1 = 0 then rev rs else rs)"
  note st = stored_rows [OF assms(1,3) stored_def]
  have n: "0 < n" "\<not> (req_comp \<noteq> 0 \<and> req_comp \<noteq> n)" using assms(1,14) by auto
  have "w * ?h \<le> w * ?h * n" using n(1) by simp
  then have area: "w * ?h < 2 ^ 31" using assms(9) by (rule le_less_trans)
  have "ensures (tga_load al req_comp) (start_mem u (tga_file name spec origin n desc w ?h ps)) (\<lambda>p s'. p = ?p)"
    unfolding tga_load_def
  proof (rule ensures_bind, rule ensures_mono [OF tga_header_reads [OF reads_start assms(11,12,6,8)]], elim conjE exE)
    fix th and s' :: "'a ctx" and start len pbits
    assume th: "th = rle_header name start len pbits n desc w ?h" and s': "reads s' (name @ concat (map packet_bytes ps))"
    have f: "tga_format th = (n, False)" "tga_width th = w" "tga_height th = ?h" "uint (tga_offset th) = int (length name)" "rle_format th n"
      using rle_header_format [OF assms(1)] assms(10) by (simp_all add: th rle_format_def uint_byte)
    have image: "ensures (tga_image al th (replicate (w * ?h * n) None)) s (\<lambda>b s'. b = map Some (concat (map bgr (concat rs))))"
      if "reads s (concat (map packet_bytes ps))" for s :: "'a ctx"
      using st(4) assms(4) by (intro rle_image_reads [OF f(5,2,3) assms(2) st(1,2) _ n(1) assms(7,5,9) that]) (simp_all add: th st(3))
    show "ensures (let (n, rgb16) = tga_format th; w = tga_width th; y = tga_height th
       in if n = 0 then failE ''bad format''
          else bindE (malloc64 al (w * y * n)) (\<lambda>buf.
               bindE (skipE (uint (tga_offset th))) (\<lambda>_.
               bindE (tga_image al th buf) (\<lambda>buf.
               bindE (if n \<ge> 3 \<and> \<not> rgb16
                      then bindE (liftE (int_size (w * y))) (\<lambda>k. liftE (tga_swap_rgb n k buf)) else returnE buf) (\<lambda>buf.
               bindE (if req_comp \<noteq> 0 \<and> req_comp \<noteq> n then convert_format al buf n req_comp w y else returnE buf) (\<lambda>buf.
               returnE \<lparr>pic_x = w, pic_y = y, pic_comp = n, pic_data = buf\<rparr>)))))) s' (\<lambda>p s'. p = ?p)"
      unfolding Let_def f(1-4) prod.case malloc64_def
      using n assms(13)
      apply (simp only: if_False if_True bindE_Inr neq0_conv [symmetric])
      apply (rule ensures_bind, rule ensures_skip [OF s' refl])
      apply (rule ensures_bind, rule ensures_mono [OF image], assumption)
      apply (rule ensures_bind)
      apply (cases "3 \<le> n")
      using area apply (simp_all add: int_size_def st(5,6) ensures_return ensures_lift)
      done
  qed
  then show ?thesis by (auto simp: ensures_def)
qed

text \<open>Three pixels in one row and two in the next, cut into a run over the end of the row and two single pixels, stored from the bottom.\<close>

lemma tga_round_trip_witness:
  "\<exists>s'. tga_load (\<lambda>n. n = 12) 0 (start_mem () (tga_file [7] (replicate 5 0) (replicate 4 0) 3 0 2 2 [Same 3 [3, 2, 1], Each [[6, 5, 4]]])) =
    (Inr \<lparr>pic_x = 2, pic_y = 2, pic_comp = 3, pic_data = map Some [1, 2, 3, 4, 5, 6, 1, 2, 3, 1, 2, 3]\<rparr>, s')"
proof -
  have flip: "bgr [a, b, c] = [c, b, a]" for a b c by (simp add: bgr_def numeral_2_eq_2)
  have three: "replicate 3 px = [px, px, px]" for px :: "u8 list" by (simp add: numeral_3_eq_3)
  have ok: "list_all (packet_ok 3) [Same 3 [3, 2, 1], Each [[6, 5, 4]]]" by (simp add: packet_ok_def three)
  show ?thesis
    using tga_round_trip [of 3 "[Same 3 [3, 2, 1], Each [[6, 5, 4]]]" "[[[1, 2, 3], [4, 5, 6]], [[1, 2, 3], [1, 2, 3]]]" 2 0
        "[7]" "replicate 5 0" "replicate 4 0" "\<lambda>n. n = 12" 0 "()", OF _ ok]
    by (simp add: flip three flip: numeral_2_eq_2)
qed

end
