(* ===== verification/Gl.thy ===== *)
theory Gl
  imports Prelude
begin

text \<open>
  The interface between the renderer and OpenGL, which is not part of the sources: the
  renderer is a producer of calls. The state of a computation is the trace of the calls
  issued so far; what the library answers (the names it hands out, uniform locations, whether
  a shader compiles) is the parameter \<open>gl_api\<close>.
\<close>

subsection \<open>Calls\<close>

datatype gl_kind = Buffer | Texture | Framebuffer | Renderbuffer | VertexArray | ShaderObject | Program

text \<open>Data handed to the library, and arguments: enumerants by their name, numbers, floats.\<close>

datatype 'f payload = NoData | Floats "'f list" | Shorts "u16 list" | Bytes "u8 list"

datatype 'f gl_arg = E string | N int | F 'f | P "'f payload"

text \<open>
  The calls that create, delete and bind objects are separate, with the kind of the object:
  each kind has its own names. All other calls are given by their name and arguments.
\<close>

datatype 'f gl_call =
    Gen gl_kind nat
  | Delete gl_kind nat
  | Bind gl_kind string nat
  | Gl string "'f gl_arg list"

type_synonym 'f trace = "'f gl_call list"

record 'f gl_api =
  fresh :: "gl_kind \<Rightarrow> 'f trace \<Rightarrow> nat"
  uniform_location :: "nat \<Rightarrow> string \<Rightarrow> int"
  block_index :: "nat \<Rightarrow> string \<Rightarrow> nat"
  compiles :: "string \<Rightarrow> bool"
  links :: "string \<Rightarrow> string \<Rightarrow> bool"
  read_file :: "string \<Rightarrow> string"

text \<open>
  Failures: the exception that \<open>fatal\<close> throws, an access or a signed overflow, which the
  language leaves undefined, and a loop that never ends.
\<close>

datatype gl_fail = RuntimeError | UndefinedAccess string | Overflow | Diverges

type_synonym ('f, 'a) glm = "(gl_fail, 'f trace, 'a) comp"

definition emits :: "'f gl_call list \<Rightarrow> ('f, unit) glm" where
  "emits cs = modifyE (\<lambda>t. t @ cs)"

definition gen :: "'f gl_api \<Rightarrow> gl_kind \<Rightarrow> ('f, nat) glm" where
  "gen api k = runE (\<lambda>t. let n = fresh api k t in (n, t @ [Gen k n]))"

lemma emits_apply [eff_simps]: "emits cs t = (Inr (), t @ cs)"
  by (simp add: emits_def)

lemma gen_apply [eff_simps]: "gen api k t = (Inr (fresh api k t), t @ [Gen k (fresh api k t)])"
  by (simp add: gen_def runE_apply Let_def)

lemma bind_emits [eff_simps]: "bindE (emits cs) k t = k () (t @ cs)"
  by (simp add: bindE_def emits_apply)

lemma bind_gen [eff_simps]: "bindE (gen api k) f t = f (fresh api k t) (t @ [Gen k (fresh api k t)])"
  by (simp add: bindE_def gen_apply)

subsection \<open>Live objects\<close>

fun live_step :: "gl_kind \<Rightarrow> nat set \<Rightarrow> 'f gl_call \<Rightarrow> nat set" where
  "live_step k L (Gen k' n) = (if k' = k then insert n L else L)"
| "live_step k L (Delete k' n) = (if k' = k then L - {n} else L)"
| "live_step k L (Bind k' target n) = L"
| "live_step k L (Gl name args) = L"

definition live_from :: "gl_kind \<Rightarrow> nat set \<Rightarrow> 'f trace \<Rightarrow> nat set" where
  "live_from k L t = foldl (live_step k) L t"

definition live_names :: "gl_kind \<Rightarrow> 'f trace \<Rightarrow> nat set" where
  "live_names k t = live_from k {} t"

lemma live_from_simps [simp]:
  "live_from k L [] = L"
  "live_from k L (c # t) = live_from k (live_step k L c) t"
  "live_from k L (t @ t') = live_from k (live_from k L t) t'"
  by (simp_all add: live_from_def)

lemma live_names_simps [simp]:
  "live_names k [] = {}"
  "live_names k (t @ t') = live_from k (live_names k t) t'"
  by (simp_all add: live_names_def)

text \<open>What OpenGL documents: a generated name is not zero and not in use for its kind.\<close>

definition gl_documented :: "'f gl_api \<Rightarrow> bool" where
  "gl_documented api \<longleftrightarrow> (\<forall>k t. fresh api k t \<noteq> 0 \<and> fresh api k t \<notin> live_names k t)"

text \<open>A library that hands out the smallest number above all names in use so far.\<close>

definition used :: "gl_kind \<Rightarrow> 'f trace \<Rightarrow> nat list" where
  "used k t = concat (map (\<lambda>c. case c of Gen k' n \<Rightarrow> if k' = k then [n] else [] | _ \<Rightarrow> []) t)"

definition counting_api :: "'f gl_api" where
  "counting_api =
     \<lparr>fresh = (\<lambda>k t. Suc (Max (set (0 # used k t)))), uniform_location = (\<lambda>p s. int (length s)),
      block_index = (\<lambda>p s. 0), compiles = (\<lambda>s. True), links = (\<lambda>v f. True), read_file = (\<lambda>f. [])\<rparr>"

lemma live_used: "live_names k t \<subseteq> set (used k t)"
proof (induction t rule: rev_induct)
  case (snoc c t)
  then show ?case by (cases c) (auto simp: used_def split: if_splits)
qed simp

lemma counting_documented: "gl_documented counting_api"
  unfolding gl_documented_def
proof (intro allI conjI)
  fix k and t :: "'a trace"
  show "fresh counting_api k t \<notin> live_names k t"
  proof
    assume "fresh counting_api k t \<in> live_names k t"
    then have "Suc (Max (set (0 # used k t))) \<in> set (0 # used k t)"
      using live_used [of k t] by (auto simp: counting_api_def)
    then have "Suc (Max (set (0 # used k t))) \<le> Max (set (0 # used k t))"
      by (intro Max_ge) simp_all
    then show False by simp
  qed
qed (simp add: counting_api_def)

end
