(* ===== verification/ShaderProgram.thy ===== *)
theory ShaderProgram
  imports Gl
begin

text \<open>
  \<open>graphics/Shader.cpp\<close> and \<open>graphics/Shader.h\<close>: programs of a vertex and a fragment shader.
  \<open>fatal\<close> logs and throws, so what follows it in a failure branch is never reached.
\<close>

record shader =
  program_id :: nat
  vertex_program :: nat
  fragment_program :: nat

definition compile_and_attach :: "'f gl_api \<Rightarrow> nat \<Rightarrow> string \<Rightarrow> string \<Rightarrow> ('f, nat) glm" where
  "compile_and_attach api shader_program program_type source =
     bindE (gen api ShaderObject) (\<lambda>p.
     bindE (emits
       [Gl ''glCreateShader'' [E program_type, N (int p)],
        Gl ''glShaderSource'' [N (int p), N 1, E source, N (int (length source))],
        Gl ''glCompileShader'' [N (int p)],
        Gl ''glGetShaderiv'' [N (int p), E ''GL_COMPILE_STATUS'']]) (\<lambda>_.
     if \<not> compiles api source
     then bindE (emits [Gl ''glGetShaderiv'' [N (int p), E ''GL_INFO_LOG_LENGTH''],
                        Gl ''glGetShaderInfoLog'' [N (int p)]]) (\<lambda>_. throwE RuntimeError)
     else bindE (emits [Gl ''glAttachShader'' [N (int shader_program), N (int p)]]) (\<lambda>_. returnE p)))"

definition create_shader :: "'f gl_api \<Rightarrow> string \<Rightarrow> string \<Rightarrow> ('f, shader) glm" where
  "create_shader api vertex_shader fragment_shader =
     bindE (gen api Program) (\<lambda>p.
     bindE (compile_and_attach api p ''GL_VERTEX_SHADER'' vertex_shader) (\<lambda>v.
     bindE (compile_and_attach api p ''GL_FRAGMENT_SHADER'' fragment_shader) (\<lambda>f.
     bindE (emits [Gl ''glLinkProgram'' [N (int p)], Gl ''glGetProgramiv'' [N (int p), E ''GL_LINK_STATUS'']]) (\<lambda>_.
     if \<not> links api vertex_shader fragment_shader
     then bindE (emits [Gl ''glGetProgramiv'' [N (int p), E ''GL_INFO_LOG_LENGTH''],
                        Gl ''glGetProgramInfoLog'' [N (int p)]]) (\<lambda>_. throwE RuntimeError)
     else returnE \<lparr>program_id = p, vertex_program = v, fragment_program = f\<rparr>))))"

definition shader_load :: "'f gl_api \<Rightarrow> string \<Rightarrow> string \<Rightarrow> ('f, shader) glm" where
  "shader_load api vertex_file fragment_file =
     create_shader api (read_file api vertex_file) (read_file api fragment_file)"

definition shader_unload :: "shader \<Rightarrow> ('f, unit) glm" where
  "shader_unload s = emits
     [Gl ''glUseProgram'' [N 0],
      Gl ''glDetachShader'' [N (int (program_id s)), N (int (vertex_program s))],
      Gl ''glDetachShader'' [N (int (program_id s)), N (int (fragment_program s))],
      Delete Program (program_id s),
      Delete ShaderObject (vertex_program s),
      Delete ShaderObject (fragment_program s)]"

definition bind_uniform_block :: "'f gl_api \<Rightarrow> string \<Rightarrow> nat \<Rightarrow> shader \<Rightarrow> ('f, unit) glm" where
  "bind_uniform_block api block_name binding_point s = emits
     [Gl ''glGetUniformBlockIndex'' [N (int (program_id s)), E block_name],
      Gl ''glUniformBlockBinding''
        [N (int (program_id s)), N (int (block_index api (program_id s) block_name)), N (int binding_point)]]"

definition uniform :: "'f gl_api \<Rightarrow> string \<Rightarrow> shader \<Rightarrow> ('f, int) glm" where
  "uniform api name s =
     bindE (emits [Gl ''glGetUniformLocation'' [N (int (program_id s)), E name]]) (\<lambda>_.
     returnE (uniform_location api (program_id s) name))"

definition shader_use :: "shader \<Rightarrow> ('f, unit) glm" where
  "shader_use s = emits [Gl ''glUseProgram'' [N (int (program_id s))]]"

text \<open>The overloads of \<open>setUniform\<close>, by the type of the value.\<close>

datatype 'f uniform_value =
    UFloat 'f
  | UInt int
  | UVec2 "'f list"
  | UVec3 "'f list"
  | UVec4 "'f list"
  | UMat2 "'f list"
  | UMat3 "'f list"
  | UMat4 "'f list"

fun set_uniform :: "int \<Rightarrow> 'f uniform_value \<Rightarrow> ('f, unit) glm" where
  "set_uniform l (UFloat v) = emits [Gl ''glUniform1f'' [N l, F v]]"
| "set_uniform l (UInt v) = emits [Gl ''glUniform1i'' [N l, N v]]"
| "set_uniform l (UVec2 v) = emits [Gl ''glUniform2fv'' [N l, N 1, P (Floats v)]]"
| "set_uniform l (UVec3 v) = emits [Gl ''glUniform3fv'' [N l, N 1, P (Floats v)]]"
| "set_uniform l (UVec4 v) = emits [Gl ''glUniform4fv'' [N l, N 1, P (Floats v)]]"
| "set_uniform l (UMat2 v) = emits [Gl ''glUniformMatrix2fv'' [N l, N 1, E ''GL_FALSE'', P (Floats v)]]"
| "set_uniform l (UMat3 v) = emits [Gl ''glUniformMatrix3fv'' [N l, N 1, E ''GL_FALSE'', P (Floats v)]]"
| "set_uniform l (UMat4 v) = emits [Gl ''glUniformMatrix4fv'' [N l, N 1, E ''GL_FALSE'', P (Floats v)]]"

subsection \<open>Objects of a program\<close>

lemma fresh_documented: "gl_documented api \<Longrightarrow> fresh api k t \<notin> live_names k t"
  by (simp add: gl_documented_def)

lemma create_shader_outcome:
  assumes "gl_documented api"
  shows "(\<exists>s t'. create_shader api v f t = (Inr s, t') \<and> compiles api v \<and> compiles api f \<and> links api v f \<and>
       (\<forall>k. live_names k t' = live_names k t \<union> (if k = Program then {program_id s} else {}) \<union>
         (if k = ShaderObject then {vertex_program s, fragment_program s} else {})) \<and>
       program_id s \<notin> live_names Program t \<and>
       {vertex_program s, fragment_program s} \<inter> live_names ShaderObject t = {}) \<or>
    (\<exists>t'. create_shader api v f t = (Inl RuntimeError, t') \<and> \<not> (compiles api v \<and> compiles api f \<and> links api v f) \<and>
       live_names Program t' \<noteq> live_names Program t \<and> live_names ShaderObject t' \<noteq> live_names ShaderObject t)"
proof -
  note fr = fresh_documented [OF assms]
  let ?p = "fresh api Program t"
  let ?t1 = "t @ [Gen Program ?p]"
  let ?v = "fresh api ShaderObject ?t1"
  have p: "?p \<notin> live_names Program t" by (rule fr)
  have v: "?v \<notin> live_names ShaderObject t" using fr [of ShaderObject ?t1] by simp
  have f: "fresh api ShaderObject (?t1 @ cs) \<notin> live_names ShaderObject t"
    if "\<And>L. live_from ShaderObject L cs \<supseteq> L" for cs
    using fr [of ShaderObject "?t1 @ cs"] that [of "live_names ShaderObject t"] by (auto simp: subset_iff)
  show ?thesis
  proof (cases "compiles api v \<and> compiles api f \<and> links api v f")
    case True
    then show ?thesis
      using p v by (simp add: create_shader_def compile_and_attach_def eff_simps bindE_def) (use f in force)
  next
    case False
    then show ?thesis
      using p v by (auto simp: create_shader_def compile_and_attach_def eff_simps bindE_def)
  qed
qed

subsection \<open>Properties\<close>

text \<open>
  C22: loading a shader either gives a program whose unloading restores exactly the live objects
  of every kind, or, when a shader does not compile or the program does not link, it throws and
  leaves a program and a shader object behind that nothing refers to.
\<close>

theorem shader_load_or_leak:
  assumes "gl_documented api"
  shows "case shader_load api vertex_file fragment_file t of
      (Inr s, t') \<Rightarrow> (\<exists>t''. shader_unload s t' = (Inr (), t'') \<and> (\<forall>k. live_names k t'' = live_names k t))
    | (Inl e, t') \<Rightarrow> e = RuntimeError \<and> live_names Program t' \<noteq> live_names Program t \<and>
        live_names ShaderObject t' \<noteq> live_names ShaderObject t"
proof -
  let ?v = "read_file api vertex_file" and ?f = "read_file api fragment_file"
  note load = shader_load_def [of api vertex_file fragment_file]
  from create_shader_outcome [OF assms, of ?v ?f t] show ?thesis
  proof (elim disjE exE conjE)
    fix s t'
    assume c: "create_shader api ?v ?f t = (Inr s, t')"
      and l: "\<forall>k. live_names k t' = live_names k t \<union> (if k = Program then {program_id s} else {}) \<union>
         (if k = ShaderObject then {vertex_program s, fragment_program s} else {})"
      and n: "program_id s \<notin> live_names Program t" "{vertex_program s, fragment_program s} \<inter> live_names ShaderObject t = {}"
    let ?u = "[Gl ''glUseProgram'' [N 0],
      Gl ''glDetachShader'' [N (int (program_id s)), N (int (vertex_program s))],
      Gl ''glDetachShader'' [N (int (program_id s)), N (int (fragment_program s))],
      Delete Program (program_id s), Delete ShaderObject (vertex_program s), Delete ShaderObject (fragment_program s)]"
    have "shader_unload s t' = (Inr (), t' @ ?u)" by (simp add: shader_unload_def emits_apply)
    moreover have "live_names k (t' @ ?u) = live_names k t" for k
      using l n by (cases k) auto
    ultimately show ?thesis using c by (simp add: load)
  next
    fix t'
    assume "create_shader api ?v ?f t = (Inl RuntimeError, t')" "live_names Program t' \<noteq> live_names Program t"
      "live_names ShaderObject t' \<noteq> live_names ShaderObject t"
    then show ?thesis by (simp add: load)
  qed
qed

lemma shader_load_or_leak_witness:
  "\<exists>s t' t''. shader_load (counting_api :: nat gl_api) ''a.vert'' ''a.frag'' [] = (Inr s, t') \<and>
     shader_unload s t' = (Inr (), t'') \<and> live_names Program t'' = {}"
proof -
  obtain s t' where l: "shader_load (counting_api :: nat gl_api) ''a.vert'' ''a.frag'' [] = (Inr s, t')"
    by (simp add: shader_load_def create_shader_def compile_and_attach_def eff_simps bindE_def counting_api_def)
  from shader_load_or_leak [OF counting_documented, where vertex_file = "''a.vert''" and fragment_file = "''a.frag''" and t = "[] :: nat trace"] l
  show ?thesis by auto
qed

end
