(* ===== verification/Textures.thy ===== *)
theory Textures
  imports ShaderProgram
begin

text \<open>
  The texture loading and the test scene of \<open>window/Window.cpp\<close>. The image decoder
  \<open>stbi_load_from_memory\<close> is a parameter here: from the bytes of a file and the requested number
  of channels it gives nothing, or an image with the size and the number of channels of the file,
  and the data with the requested number of channels. What a file holds is a parameter, too.
\<close>

subsection \<open>Loading\<close>

record image =
  image_width :: int
  image_height :: int
  image_comp :: int
  image_data :: "u8 list"

type_synonym decoder = "u8 list \<Rightarrow> nat \<Rightarrow> image option"

definition texture_format :: "int \<Rightarrow> string" where
  "texture_format channels = (if channels = 1 then ''GL_RED'' else if channels = 3 then ''GL_RGB'' else if channels = 4 then ''GL_RGBA'' else ''0'')"

definition texture_parameters :: "string \<Rightarrow> 'f gl_call list" where
  "texture_parameters target =
     [Gl ''glTexParameteri'' [E target, E ''GL_TEXTURE_MAG_FILTER'', E ''GL_LINEAR''],
      Gl ''glTexParameteri'' [E target, E ''GL_TEXTURE_MIN_FILTER'', E ''GL_LINEAR''],
      Gl ''glTexParameteri'' [E target, E ''GL_TEXTURE_WRAP_S'', E ''GL_CLAMP_TO_EDGE''],
      Gl ''glTexParameteri'' [E target, E ''GL_TEXTURE_WRAP_T'', E ''GL_CLAMP_TO_EDGE'']]"

definition load_texture :: "'f gl_api \<Rightarrow> decoder \<Rightarrow> (string \<Rightarrow> u8 list) \<Rightarrow> string \<Rightarrow> ('f, nat) glm" where
  "load_texture api decode file_bytes filename =
     (case decode (file_bytes filename) 0 of
        None \<Rightarrow> returnE 0
      | Some im \<Rightarrow>
          bindE (gen api Texture) (\<lambda>texture.
          bindE (emits (
            [Bind Texture ''GL_TEXTURE_2D'' texture,
             Gl ''glTexImage2D'' [E ''GL_TEXTURE_2D'', N 0, E (texture_format (image_comp im)), N (image_width im), N (image_height im),
               N 0, E (texture_format (image_comp im)), E ''GL_UNSIGNED_BYTE'', P (Bytes (image_data im))]] @
            texture_parameters ''GL_TEXTURE_2D'')) (\<lambda>_. returnE texture)))"

text \<open>
  The loop over the files: the size and the number of channels are overwritten by every image
  that decodes, and a null pointer is kept for one that does not.
\<close>

fun decode_files :: "decoder \<Rightarrow> (string \<Rightarrow> u8 list) \<Rightarrow> string list \<Rightarrow> int \<times> int \<times> int \<Rightarrow> u8 list option list \<Rightarrow>
    (int \<times> int \<times> int) \<times> u8 list option list" where
  "decode_files decode file_bytes [] dims images = (dims, images)"
| "decode_files decode file_bytes (f # fs) dims images =
     (case decode (file_bytes f) 4 of
        None \<Rightarrow> decode_files decode file_bytes fs dims (images @ [None])
      | Some im \<Rightarrow> decode_files decode file_bytes fs (image_width im, image_height im, image_comp im) (images @ [Some (image_data im)]))"

text \<open>A null pointer is handed to the library, which reads through it.\<close>

fun upload_layers :: "int \<times> int \<times> int \<Rightarrow> u8 list option list \<Rightarrow> nat \<Rightarrow> ('f, unit) glm" where
  "upload_layers dims [] index = returnE ()"
| "upload_layers dims (None # images) index = throwE (UndefinedAccess ''image'')"
| "upload_layers (width, height, channels) (Some im # images) index =
     bindE (emits [Gl ''glTexSubImage3D'' [E ''GL_TEXTURE_2D_ARRAY'', N 0, N 0, N 0, N (int index), N width, N height, N 1,
       E (texture_format channels), E ''GL_UNSIGNED_BYTE'', P (Bytes im)]]) (\<lambda>_.
     upload_layers (width, height, channels) images (Suc index))"

definition load_texture_array :: "'f gl_api \<Rightarrow> decoder \<Rightarrow> (string \<Rightarrow> u8 list) \<Rightarrow> string list \<Rightarrow> ('f, nat) glm" where
  "load_texture_array api decode file_bytes filenames =
     bindE (returnE (decode_files decode file_bytes filenames (0, 0, 0) [])) (\<lambda>((width, height, channels), images).
     bindE (gen api Texture) (\<lambda>texture.
     bindE (emits
       [Bind Texture ''GL_TEXTURE_2D_ARRAY'' texture,
        Gl ''glTexImage3D'' [E ''GL_TEXTURE_2D_ARRAY'', N 0, E (texture_format channels), N width, N height, N (int (length images)), N 0,
          E (texture_format channels), E ''GL_UNSIGNED_BYTE'', P NoData]]) (\<lambda>_.
     bindE (upload_layers (width, height, channels) images 0) (\<lambda>_.
     bindE (emits (
       [Gl ''glTexParameteri'' [E ''GL_TEXTURE_2D_ARRAY'', E ''GL_TEXTURE_MIN_FILTER'', E ''GL_LINEAR''],
        Gl ''glTexParameteri'' [E ''GL_TEXTURE_2D_ARRAY'', E ''GL_TEXTURE_MAG_FILTER'', E ''GL_LINEAR''],
        Gl ''glTexParameteri'' [E ''GL_TEXTURE_2D_ARRAY'', E ''GL_TEXTURE_WRAP_S'', E ''GL_CLAMP_TO_EDGE''],
        Gl ''glTexParameteri'' [E ''GL_TEXTURE_2D_ARRAY'', E ''GL_TEXTURE_WRAP_T'', E ''GL_CLAMP_TO_EDGE'']])) (\<lambda>_.
     returnE texture)))))"

subsection \<open>The layers of an array\<close>

lemma decode_files_images:
  "snd (decode_files decode file_bytes fs dims images) = images @ map (\<lambda>f. map_option image_data (decode (file_bytes f) 4)) fs"
  by (induction fs arbitrary: dims images) (simp_all split: option.split)

lemma decode_files_size:
  "fst (decode_files decode file_bytes (fs @ [f]) dims images) =
     (case decode (file_bytes f) 4 of
        None \<Rightarrow> fst (decode_files decode file_bytes fs dims images)
      | Some im \<Rightarrow> (image_width im, image_height im, image_comp im))"
  by (induction fs arbitrary: dims images) (simp_all split: option.split)

definition layer_call :: "int \<Rightarrow> int \<Rightarrow> int \<Rightarrow> nat \<Rightarrow> u8 list \<Rightarrow> 'f gl_call" where
  "layer_call width height channels index im = Gl ''glTexSubImage3D'' [E ''GL_TEXTURE_2D_ARRAY'', N 0, N 0, N 0, N (int index),
     N width, N height, N 1, E (texture_format channels), E ''GL_UNSIGNED_BYTE'', P (Bytes im)]"

lemma upload_layers_calls:
  fixes t :: "'f trace"
  shows "upload_layers (w, h, c) (map Some images) index t =
     (Inr (), t @ map (\<lambda>i. layer_call w h c (index + i) (images ! i)) [0..<length images])"
proof (induction images arbitrary: index t)
  case (Cons im images)
  have "upload_layers (w, h, c) (Some im # map Some images) index t =
    upload_layers (w, h, c) (map Some images) (Suc index) (t @ [layer_call w h c index im])"
    by (simp add: eff_simps layer_call_def)
  moreover have "map (\<lambda>i. layer_call w h c (index + i) ((im # images) ! i)) [0..<length (im # images)] =
    (layer_call w h c index im :: 'f gl_call) # map (\<lambda>i. layer_call w h c (Suc index + i) (images ! i)) [0..<length images]"
    by (simp add: map_upt_Suc del: upt_Suc)
  ultimately show ?case by (simp only: list.map Cons.IH append_assoc append.simps)
qed simp

lemma load_texture_array_ok:
  assumes "\<forall>f \<in> set (fs @ [f]). decode (file_bytes f) 4 \<noteq> None" and "decode (file_bytes f) 4 = Some im"
  shows "\<exists>texture cs. load_texture_array api decode file_bytes (fs @ [f]) t = (Inr texture, t @ cs) \<and>
    (\<forall>i < length (fs @ [f]). layer_call (image_width im) (image_height im) (image_comp im) i
       (image_data (the (decode (file_bytes ((fs @ [f]) ! i)) 4))) \<in> set cs)"
proof -
  let ?images = "map (\<lambda>f. image_data (the (decode (file_bytes f) 4))) (fs @ [f])"
  have "snd (decode_files decode file_bytes (fs @ [f]) (0, 0, 0) []) = map Some ?images"
    using assms(1) by (auto simp: decode_files_images)
  then have d: "decode_files decode file_bytes (fs @ [f]) (0, 0, 0) [] = ((image_width im, image_height im, image_comp im), map Some ?images)"
    using decode_files_size [of decode file_bytes fs f "(0, 0, 0)" "[]"] assms(2) by (metis option.simps(5) prod.collapse)
  obtain images where im: "images = ?images" by blast
  have layer: "layer_call (image_width im) (image_height im) (image_comp im) i (images ! i)
      \<in> set (map (\<lambda>i. layer_call (image_width im) (image_height im) (image_comp im) (0 + i) (images ! i)) [0..<length images])"
    if "i < length (fs @ [f])" for i
  proof -
    have "i \<in> set [0..<length images]" using that by (auto simp: im)
    then show ?thesis unfolding set_map add_0 by (rule imageI)
  qed
  let ?layers = "map (\<lambda>i. layer_call (image_width im) (image_height im) (image_comp im) (0 + i) (images ! i)) [0..<length images]"
  have "\<exists>texture cs. load_texture_array api decode file_bytes (fs @ [f]) t = (Inr texture, t @ cs) \<and> set ?layers \<subseteq> set cs"
    unfolding load_texture_array_def d im [symmetric] bindE_Inr prod.case bind_gen bind_emits
    by (simp add: bindE_def upload_layers_calls emits_apply) auto
  then obtain texture cs where r: "load_texture_array api decode file_bytes (fs @ [f]) t = (Inr texture, t @ cs)"
    "set ?layers \<subseteq> set cs"
    by blast
  have "layer_call (image_width im) (image_height im) (image_comp im) i (image_data (the (decode (file_bytes ((fs @ [f]) ! i)) 4))) \<in> set cs"
    if i: "i < length (fs @ [f])" for i
  proof -
    have "images ! i = image_data (the (decode (file_bytes ((fs @ [f]) ! i)) 4))"
      using i unfolding im by (simp only: nth_map)
    then show ?thesis using subsetD [OF r(2) layer [OF i]] by (simp only:)
  qed
  then show ?thesis using r(1) by blast
qed

text \<open>
  A texture array has one layer per file, in their order, with the bytes of the file decoded to
  four channels; but every layer is uploaded with the size and the pixel format of the \<^emph>\<open>last\<close> file.
  If that is an RGB file, the four-channel data are handed over as three-channel data.
\<close>

theorem texture_array_layers:
  assumes "\<forall>f \<in> set (fs @ [f]). decode (file_bytes f) 4 \<noteq> None" and "decode (file_bytes f) 4 = Some im"
  shows "\<exists>texture cs. load_texture_array api decode file_bytes (fs @ [f]) t = (Inr texture, t @ cs) \<and>
    (\<forall>i < length (fs @ [f]). layer_call (image_width im) (image_height im) (image_comp im) i
       (image_data (the (decode (file_bytes ((fs @ [f]) ! i)) 4))) \<in> set cs)"
  using assms by (rule load_texture_array_ok)

definition two_files :: decoder where
  "two_files bs n = (if bs = [] then Some \<lparr>image_width = 1, image_height = 1, image_comp = 4, image_data = [1, 2, 3, 4]\<rparr>
     else Some \<lparr>image_width = 1, image_height = 1, image_comp = 3, image_data = [5, 6, 7, 255]\<rparr>)"

lemma texture_array_layers_witness:
  "\<exists>texture cs. load_texture_array (counting_api :: nat gl_api) two_files (\<lambda>f. if f = ''a'' then [] else [0]) [''a'', ''b''] [] = (Inr texture, cs) \<and>
     Gl ''glTexSubImage3D'' [E ''GL_TEXTURE_2D_ARRAY'', N 0, N 0, N 0, N 0, N 1, N 1, N 1, E ''GL_RGB'', E ''GL_UNSIGNED_BYTE'',
       P (Bytes [1, 2, 3, 4])] \<in> set cs"
proof -
  let ?f = "\<lambda>f. if f = ''a'' then [] else [0]"
  have "\<forall>f \<in> set ([''a''] @ [''b'']). two_files (?f f) 4 \<noteq> None"
    "two_files (?f ''b'') 4 = Some \<lparr>image_width = 1, image_height = 1, image_comp = 3, image_data = [5, 6, 7, 255]\<rparr>"
    by (simp_all add: two_files_def)
  from texture_array_layers [where decode = two_files and file_bytes = ?f and fs = "[''a'']" and f = "''b''", OF this,
    where api = "counting_api :: nat gl_api" and t = "[]"] obtain texture cs where
    r: "load_texture_array (counting_api :: nat gl_api) two_files ?f ([''a''] @ [''b'']) [] = (Inr texture, [] @ cs)"
    and l: "\<And>i. i < length ([''a''] @ [''b'']) \<Longrightarrow> layer_call 1 1 3 i (image_data (the (two_files (?f (([''a''] @ [''b'']) ! i)) 4))) \<in> set cs"
    by auto
  have "layer_call 1 1 3 0 [1, 2, 3, 4] \<in> set cs" using l [of 0] by (simp add: two_files_def)
  then show ?thesis using r by (simp add: layer_call_def texture_format_def)
qed

subsection \<open>The test scene\<close>

definition cube_vertices :: "('f \<Rightarrow> 'f) \<Rightarrow> 'f \<Rightarrow> 'f \<Rightarrow> 'f \<Rightarrow> 'f list" where
  "cube_vertices neg h z o1 = (let m = neg h; n = neg o1 in
     [m, m, m, z, z, n,
      h, m, m, z, z, n,
      h, h, m, z, z, n,
      h, h, m, z, z, n,
      m, h, m, z, z, n,
      m, m, m, z, z, n,

      m, m, h, z, z, o1,
      h, m, h, z, z, o1,
      h, h, h, z, z, o1,
      h, h, h, z, z, o1,
      m, h, h, z, z, o1,
      m, m, h, z, z, o1,

      m, h, h, n, z, z,
      m, h, m, n, z, z,
      m, m, m, n, z, z,
      m, m, m, n, z, z,
      m, m, h, n, z, z,
      m, h, h, n, z, z,

      h, h, h, o1, z, z,
      h, h, m, o1, z, z,
      h, m, m, o1, z, z,
      h, m, m, o1, z, z,
      h, m, h, o1, z, z,
      h, h, h, o1, z, z,

      m, m, m, z, n, z,
      h, m, m, z, n, z,
      h, m, h, z, n, z,
      h, m, h, z, n, z,
      m, m, h, z, n, z,
      m, m, m, z, n, z,

      m, h, m, z, o1, z,
      h, h, m, z, o1, z,
      h, h, h, z, o1, z,
      h, h, h, z, o1, z,
      m, h, h, z, o1, z,
      m, h, m, z, o1, z])"

definition backdrop_vertices :: "('f \<Rightarrow> 'f) \<Rightarrow> 'f \<Rightarrow> 'f \<Rightarrow> 'f \<Rightarrow> 'f list" where
  "backdrop_vertices neg h z o1 = (let m = neg h in
     [m, m, z, z, z, o1,
      h, m, z, z, z, o1,
      h, h, z, z, z, o1,
      h, h, z, z, z, o1,
      m, h, z, z, z, o1,
      m, m, z, z, z, o1])"

record test_scene =
  scene_shader :: shader
  scene_lamp :: shader
  scene_shadows :: shader
  light_vao :: nat
  scene_vbo :: nat
  backdrop_vao :: nat
  backdrop_vbo :: nat
  depth_map_fbo :: nat
  depth_map :: nat

definition vertex_object :: "'f gl_api \<Rightarrow> 'f list \<Rightarrow> ('f, nat \<times> nat) glm" where
  "vertex_object api data =
     bindE (gen api VertexArray) (\<lambda>va.
     bindE (emits [Bind VertexArray [] va]) (\<lambda>_.
     bindE (gen api Buffer) (\<lambda>vb.
     bindE (emits
       [Bind Buffer ''GL_ARRAY_BUFFER'' vb,
        Gl ''glBufferData'' [E ''GL_ARRAY_BUFFER'', N (int (4 * length data)), P (Floats data), E ''GL_STATIC_DRAW''],
        Gl ''glVertexAttribPointer'' [N 0, N 3, E ''GL_FLOAT'', E ''GL_FALSE'', N 24, N 0],
        Gl ''glEnableVertexAttribArray'' [N 0],
        Gl ''glVertexAttribPointer'' [N 1, N 3, E ''GL_FLOAT'', E ''GL_FALSE'', N 24, N 12],
        Gl ''glEnableVertexAttribArray'' [N 1]]) (\<lambda>_. returnE (va, vb)))))"

text \<open>\<open>neg\<close> is negation and \<open>h\<close>, \<open>z\<close>, \<open>o1\<close> are the floats 0.5, 0 and 1.\<close>

definition setup_test :: "'f gl_api \<Rightarrow> ('f \<Rightarrow> 'f) \<Rightarrow> 'f \<Rightarrow> 'f \<Rightarrow> 'f \<Rightarrow> ('f, test_scene) glm" where
  "setup_test api neg h z o1 =
     bindE (vertex_object api (cube_vertices neg h z o1)) (\<lambda>(lva, lvb).
     bindE (vertex_object api (backdrop_vertices neg h z o1)) (\<lambda>(bva, bvb).
     bindE (gen api Framebuffer) (\<lambda>fbo.
     bindE (gen api Texture) (\<lambda>depth.
     bindE (emits
       [Bind Texture ''GL_TEXTURE_2D'' depth,
        Gl ''glTexImage2D'' [E ''GL_TEXTURE_2D'', N 0, E ''GL_DEPTH_COMPONENT'', N 1024, N 1024, N 0, E ''GL_DEPTH_COMPONENT'',
          E ''GL_FLOAT'', P NoData],
        Gl ''glTexParameteri'' [E ''GL_TEXTURE_2D'', E ''GL_TEXTURE_MIN_FILTER'', E ''GL_NEAREST''],
        Gl ''glTexParameteri'' [E ''GL_TEXTURE_2D'', E ''GL_TEXTURE_MAG_FILTER'', E ''GL_NEAREST''],
        Gl ''glTexParameteri'' [E ''GL_TEXTURE_2D'', E ''GL_TEXTURE_WRAP_S'', E ''GL_REPEAT''],
        Gl ''glTexParameteri'' [E ''GL_TEXTURE_2D'', E ''GL_TEXTURE_WRAP_T'', E ''GL_REPEAT''],
        Bind Framebuffer ''GL_FRAMEBUFFER'' fbo,
        Gl ''glFramebufferTexture2D'' [E ''GL_FRAMEBUFFER'', E ''GL_DEPTH_ATTACHMENT'', E ''GL_TEXTURE_2D'', N (int depth), N 0],
        Gl ''glDrawBuffer'' [E ''GL_NONE''],
        Gl ''glReadBuffer'' [E ''GL_NONE''],
        Bind Framebuffer ''GL_FRAMEBUFFER'' 0]) (\<lambda>_.
     bindE (shader_load api ''data/shaders/lighting.vert'' ''data/shaders/lighting.frag'') (\<lambda>s1.
     bindE (shader_load api ''data/shaders/lighting.vert'' ''data/shaders/lamp.frag'') (\<lambda>s2.
     bindE (shader_load api ''data/shaders/shadowmap.vert'' ''data/shaders/shadowmap.frag'') (\<lambda>s3.
     returnE \<lparr>scene_shader = s1, scene_lamp = s2, scene_shadows = s3, light_vao = lva, scene_vbo = lvb,
       backdrop_vao = bva, backdrop_vbo = bvb, depth_map_fbo = fbo, depth_map = depth\<rparr>))))))))"

end
