(* ===== verification/LoadLaws.thy ===== *)
theory LoadLaws
  imports ImageLoad PngLaws TgaLaws Textures
begin

text \<open>
  From the bytes of a file to the texture: every file of a modelled format reaches its decoder
  from its first byte, a PNG file is loaded as its picture, and the texture the engine makes of it has
  exactly its pixels.
\<close>

text \<open>For the examples: no other decoders, both globals unset, and integers for floats.\<close>

definition no_others :: "'u other_decoders" where
  "no_others = \<lparr>jpeg_load = \<lambda>_. failE [], gif_load = \<lambda>_. failE [], hdr_load = \<lambda>_. failE []\<rparr>"

definition no_floats :: "int matte_math" where
  "no_floats = \<lparr>mm_of_int = id, mm_div = (div), mm_mult = (*), mm_add = (+), mm_sub = (-), mm_byte = (\<lambda>v. Some (word_of_int v))\<rparr>"

definition plain_globals :: globals where
  "plain_globals = \<lparr>unpremultiply_on_load = False, de_iphone_flag = False\<rparr>"

subsection \<open>The dispatch\<close>

lemma png_test_accepts: "png_test (start_mem u (png_sig @ rest)) = (True, start_mem u (png_sig @ rest))"
  by (simp add: png_test_def check_png_header_def png_sig_def mem_at_start rd8_mem)

lemma psd_first_byte:
  fixes u :: 'u
  assumes "bs \<noteq> []" and "s = start_mem u bs" and "hd bs \<noteq> 0x38"
  shows "psd_test s = (Inr False, s)"
proof -
  obtain b c d k where v: "get32be (mem_at u bs 0) = (word_of_int (le32_value d c b (hd bs)), mem_at u bs k)"
    using get32be_mem [OF assms(1), of u] by blast
  note number = le32_value_bytes(1,2,6) [of d c b "hd bs"]
  have "(word_of_int (le32_value d c b (hd bs)) :: u32) \<noteq> 0x38425053"
  proof
    assume "(word_of_int (le32_value d c b (hd bs)) :: u32) = 0x38425053"
    then have "le32_value d c b (hd bs) = 0x38425053" using number(1,2) by (simp add: word_uint_eq_iff uint_word_of_int)
    then show False using number(3) assms(3) by (simp add: word_uint_eq_iff)
  qed
  then show ?thesis
    by (simp add: psd_test_def rewound_def bindE_assoc bindE_runE modify_then v assms(2) mem_at_start)
qed

lemma bind_return: "bindE m (\<lambda>a. returnE a) = m"
  by (auto simp: bindE_def fun_eq_iff split: prod.split sum.split)

lemma test_steps: "m s = (Inr False, s') \<Longrightarrow> bindE m f s = f False s'" "m s = (Inr True, s') \<Longrightarrow> bindE m f s = f True s'"
  by (simp_all add: bindE_def)

lemma load_main_png:
  assumes "s = start_mem u (png_sig @ rest)"
  shows "load_main fuel al gl fm others req_comp s = png_load fuel al gl req_comp s"
proof -
  have t: "jpeg_test fuel s = (Inr False, s)" "runE png_test s = (Inr True, s)"
    using first_byte_tests(1) [OF _ assms, of fuel] by (simp_all add: png_sig_def assms runE_apply png_test_accepts [unfolded png_sig_def append.simps])
  show ?thesis by (simp add: load_main_def test_steps t)
qed

lemma load_main_bmp:
  assumes "s = start_mem u (0x42 # rest)" and "fst (bmp_test s) = Inr True"
  shows "load_main fuel al gl fm others req_comp s = bmp_load al req_comp s"
proof -
  have t: "jpeg_test fuel s = (Inr False, s)" "runE png_test s = (Inr False, s)"
    using first_byte_tests(1,2) [OF _ assms(1)] by (simp_all add: runE_apply)
  have b: "bmp_test s = (Inr True, s)" using bmp_test_restores [of u "0x42 # rest" True] assms by (metis prod.collapse)
  show ?thesis by (simp add: load_main_def test_steps t b)
qed

lemma load_main_pnm:
  assumes "s = start_mem u (0x50 # kind # rest)" and "kind = 0x35 \<or> kind = 0x36"
  shows "load_main fuel al gl fm others req_comp s = pnm_load al req_comp s"
proof -
  note tests = first_byte_tests [OF _ assms(1)]
  have p: "pnm_test s = (Inr True, mem_at u (0x50 # kind # rest) 2)"
    using assms(2) by (auto simp add: pnm_test_def pnm_identifier_def bindE_assoc assms(1) mem_at_start rd8_mem numeral_2_eq_2)
  have t: "jpeg_test fuel s = (Inr False, s)" "runE png_test s = (Inr False, s)" "bmp_test s = (Inr False, s)" "gif_test s = (Inr False, s)"
    "pic_test s = (Inr False, s)" by (simp_all add: tests runE_apply)
  have d: "psd_test s = (Inr False, s)" by (rule psd_first_byte [OF _ assms(1)]) simp_all
  have "pnm_load al req_comp (mem_at u bs k) = pnm_load al req_comp (mem_at u bs 0)" for bs k
    by (simp add: pnm_load_def pnm_info_def bindE_assoc modify_then)
  then have "load_main fuel al gl fm others req_comp s = pnm_load al req_comp (mem_at u (0x50 # kind # rest) 0)"
    by (simp add: load_main_def test_steps t d p)
  then show ?thesis by (simp add: assms(1) mem_at_start)
qed

text \<open>
  C11: a file in memory reaches the decoder of its format from its first byte: PNG files by their signature, BMP
  files by the letters and a header the test accepts, PGM and PPM files by their letters. The tests that
  come before fail and put the reader back, and the result is that of the decoder run from the first byte.
\<close>

theorem formats_reach_their_decoders:
  "load_from_memory fuel al gl fm others False u (png_sig @ rest) req_comp = fst (png_load fuel al gl req_comp (start_mem u (png_sig @ rest))) \<and>
   (fst (bmp_test (start_mem u (0x42 # rest))) = Inr True \<longrightarrow>
     load_from_memory fuel al gl fm others False u (0x42 # rest) req_comp = fst (bmp_load al req_comp (start_mem u (0x42 # rest)))) \<and>
   (kind = 0x35 \<or> kind = 0x36 \<longrightarrow>
     load_from_memory fuel al gl fm others False u (0x50 # kind # rest) req_comp = fst (pnm_load al req_comp (start_mem u (0x50 # kind # rest))))"
  using load_main_png [OF refl, of fuel al gl fm others req_comp u rest] load_main_bmp [OF refl, of u rest fuel al gl fm others req_comp]
    load_main_pnm [OF refl, of kind fuel al gl fm others req_comp u rest]
  by (simp add: load_from_memory_def load_flip_def bind_return)

lemma formats_reach_their_decoders_witness:
  "fst (bmp_test (start_mem () (0x42 # [0x4D, 0, 0, 0, 0, 0, 0, 0, 0, 0, 0, 0, 0, 40, 0, 0, 0]))) = Inr True \<and>
   load_from_memory 1 (\<lambda>_. True) plain_globals no_floats no_others False () (0x42 # [0x4D, 0, 0, 0, 0, 0, 0, 0, 0, 0, 0, 0, 0, 40, 0, 0, 0]) 4 =
     fst (bmp_load (\<lambda>_. True) 4 (start_mem () (0x42 # [0x4D, 0, 0, 0, 0, 0, 0, 0, 0, 0, 0, 0, 0, 40, 0, 0, 0])))"
proof -
  let ?rest = "[0x4D, 0, 0, 0, 0, 0, 0, 0, 0, 0, 0, 0, 0, 40, 0, 0, 0] :: u8 list"
  have "fst (bmp_test (start_mem () (0x42 # ?rest))) = Inr True"
    by (simp add: bmp_test_def bmp_test_raw_def bindE_assoc mem_at_start rd8_mem bindE_runE get16le_def get32le_def bmp_sizes_def modify_then)
  then show ?thesis using formats_reach_their_decoders [of 1 "\<lambda>_. True" plain_globals no_floats no_others "()" ?rest 4] by blast
qed

subsection \<open>A PNG file\<close>

text \<open>The flip that can be asked for reverses the rows.\<close>

lemma flip_lines_loop:
  assumes "x * n < 2 ^ 31" and "x < 2 ^ 31" and "y * (x * n) < 2 ^ 31" and "\<forall>j \<in> set js. j < y"
  shows "flip_lines (x * n) y js buf = flip_loop x y n js buf"
  using assms(4)
proof (induction js arbitrary: buf)
  case (Cons j js)
  have place: "i * (x * n) < 2 ^ 31" if "i \<le> y" for i
  proof -
    have "i * (x * n) \<le> y * (x * n)" using that by (intro mult_le_mono1)
    then show ?thesis using assms(3) by (rule le_less_trans)
  qed
  have "j \<le> y" "y - 1 - j \<le> y" "y - j \<le> y" using Cons.prems by auto
  then have "j * (x * n) < 2 ^ 31" "(y - 1 - j) * (x * n) < 2 ^ 31" "(y - j) * (x * n) < 2 ^ 31" by (simp_all only: place)
  then show ?case
    using assms(1,2) Cons.IH Cons.prems by (simp add: signed_count_def mult.assoc split: sum.split)
qed simp

lemma flip_lines_rows:
  assumes "\<forall>r \<in> set rs. length r = x * n" and "length rs = y" and "x * n < 2 ^ 31" and "x < 2 ^ 31" and "y * (x * n) < 2 ^ 31" and "y < 2 ^ 31"
  shows "flip_lines (x * n) y [0..<y div 2] (concat rs) = Inr (concat (rev rs))"
proof -
  have "flip_rows x y n (concat rs) = Inr (concat (rev rs))" using assms by (intro flip_rows_rev) simp_all
  moreover have "\<forall>j \<in> set [0..<y div 2]. j < y" by auto
  ultimately show ?thesis using flip_lines_loop [OF assms(3-5)] assms(6) by (simp add: flip_rows_def signed_count_def)
qed

text \<open>The samples of a picture, with an opaque alpha channel added if one channel more is asked for.\<close>

definition shown :: "nat \<Rightarrow> nat \<Rightarrow> u8 list list list \<Rightarrow> u8 list" where
  "shown n req_comp rs = concat (map (\<lambda>px. px @ (if req_comp = n + 1 then [255] else [])) (concat rs))"

lemma shown_rows:
  assumes "\<forall>r \<in> set rs. length r = w \<and> (\<forall>px \<in> set r. length px = n)" and "deep = (if req_comp = n + 1 then n + 1 else n)"
  shows "map Some (shown n req_comp rs) = concat (map (\<lambda>r. map Some (shown n req_comp [r])) rs)"
    "\<forall>l \<in> set (map (\<lambda>r. map Some (shown n req_comp [r])) rs). length l = w * deep"
proof -
  show "map Some (shown n req_comp rs) = concat (map (\<lambda>r. map Some (shown n req_comp [r])) rs)"
    by (induction rs) (simp_all add: shown_def)
  have "length (shown n req_comp [r]) = w * deep" if "r \<in> set rs" for r
  proof -
    have "\<forall>px \<in> set (map (\<lambda>px. px @ (if req_comp = n + 1 then [255] else [])) r). length px = deep" "length r = w"
      using assms that by auto
    from length_concat_chunks [OF this(1)] this(2) show ?thesis by (simp add: shown_def mult.commute)
  qed
  then show "\<forall>l \<in> set (map (\<lambda>r. map Some (shown n req_comp [r])) rs). length l = w * deep" by simp
qed

lemma flip_shown:
  assumes "\<forall>r \<in> set rs. length r = w \<and> (\<forall>px \<in> set r. length px = n)" and "length rs = h" and "0 < w" and "0 < h"
    and "deep = (if req_comp = n + 1 then n + 1 else n)" and "w * h * deep < 2 ^ 31" and "0 < n"
  shows "flip_lines (signed_count w * deep) (signed_count h) [0..<signed_count h div 2] (map Some (shown n req_comp rs)) =
    Inr (map Some (shown n req_comp (rev rs)))"
proof -
  have d: "0 < deep" using assms(5,7) by simp
  have "w * deep \<le> w * h * deep" "w \<le> w * h * deep" "h \<le> w * h * deep" "h * (w * deep) = w * h * deep"
    using assms(3,4) d by simp_all
  then have small: "w * deep < 2 ^ 31" "w < 2 ^ 31" "h < 2 ^ 31" "h * (w * deep) < 2 ^ 31" using assms(6) by (metis le_less_trans)+
  have "\<forall>r \<in> set (rev rs). length r = w \<and> (\<forall>px \<in> set r. length px = n)" using assms(1) by simp
  note turned = shown_rows(1) [OF this assms(5)]
  note front = shown_rows [OF assms(1,5)]
  have "flip_lines (w * deep) h [0..<h div 2] (concat (map (\<lambda>r. map Some (shown n req_comp [r])) rs)) =
      Inr (concat (rev (map (\<lambda>r. map Some (shown n req_comp [r])) rs)))"
    using small assms(2) by (intro flip_lines_rows [OF front(2)]) simp_all
  then show ?thesis using small by (simp add: signed_count_def front(1) turned rev_map)
qed

lemma png_loads:
  fixes u :: 'u
  assumes "colour_channels c n" and "0 < w" and "w \<le> 2 ^ 24" and "0 < h" and "h \<le> 2 ^ 24" and "w * h * (8 * n + 8) < 2 ^ 30"
    and "length lines = h" and "\<forall>(t, row) \<in> set lines. t \<le> 4 \<and> length row = w \<and> (\<forall>px \<in> set row. length px = n)"
    and "list_all piece_ok pieces" and "compressed pieces \<noteq> []" and "length (compressed pieces) < 2 ^ 31"
    and "length crc = 4" and "length end_crc = 4" and "\<forall>k < 2 ^ 32. al k" and "length pieces + 2 \<le> fuel"
    and "zlib_decode_malloc_guesssize_headerflag fuel al (compressed pieces) (w * h * n + h) True = Inr (filter_image n w lines)"
    and "req_comp = 0 \<or> req_comp = n \<or> odd n \<and> req_comp = n + 1"
  shows "load_from_memory fuel al gl fm others flip u (png_file (ihdr w h 8 c 0) crc pieces end_crc) req_comp =
    Inr \<lparr>pic_x = w, pic_y = h, pic_comp = n, pic_data = map Some (shown n req_comp ((if flip then rev else id) (map snd lines)))\<rparr>"
proof -
  let ?s = "start_mem u (png_file (ihdr w h 8 c 0) crc pieces end_crc)"
  let ?deep = "if req_comp = n + 1 then n + 1 else n"
  obtain s' where "png_load fuel al gl req_comp ?s =
      (Inr \<lparr>pic_x = w, pic_y = h, pic_comp = n, pic_data = map Some (shown n req_comp (map snd lines))\<rparr>, s')"
    using png_decodes [OF assms, of gl u] unfolding shown_def by blast
  then have main: "load_main fuel al gl fm others req_comp ?s =
      (Inr \<lparr>pic_x = w, pic_y = h, pic_comp = n, pic_data = map Some (shown n req_comp (map snd lines))\<rparr>, s')"
    using load_main_png [of ?s u _ fuel al gl fm others req_comp] by (simp add: png_file_def)
  have step: "bindE (load_main fuel al gl fm others req_comp) k ?s =
      k \<lparr>pic_x = w, pic_y = h, pic_comp = n, pic_data = map Some (shown n req_comp (map snd lines))\<rparr> s'" for k :: "picture \<Rightarrow> ('u, picture) im"
    by (simp only: bindE_def main prod.case sum.case)
  have form: "\<forall>r \<in> set (map snd lines). length r = w \<and> (\<forall>px \<in> set r. length px = n)" "length (map snd lines) = h"
    using assms(7,8) by auto
  have n: "0 < n" "?deep \<le> 8 * n + 8" using assms(1) by (auto simp: colour_channels_def)
  have "w * h * ?deep \<le> w * h * (8 * n + 8)" using n(2) by (intro mult_le_mono2)
  then have "w * h * ?deep < 2 ^ 30" using assms(6) by (rule le_less_trans)
  then have "w * h * ?deep < 2 ^ 31" by (rule less_trans) simp
  note turned = flip_shown [OF form assms(2,4) refl this n(1)]
  have deep: "?deep = (if req_comp \<noteq> 0 then req_comp else n)" using assms(17) by auto
  show ?thesis
    using turned [unfolded deep] unfolding load_from_memory_def load_flip_def step
    by (cases flip; cases "req_comp = 0") (simp_all add: Let_def bindE_Inr)
qed

text \<open>
  C9: a PNG file in memory with 8-bit samples and no interlacing, with any mixture of row filters, any number of
  data chunks among other ancillary chunks, and its compressed data decoding to the filtered rows, is loaded
  as its picture: the dimensions and the channels of the header, and the samples row by row, with an opaque
  alpha channel if one channel more is asked for, and with the rows from the bottom up if the flip
  is asked for. No read of the buffer, allocation or index goes wrong on the way.
\<close>

theorem png_file_loaded:
  assumes "colour_channels c n" and "0 < w" and "w \<le> 2 ^ 24" and "0 < h" and "h \<le> 2 ^ 24" and "w * h * (8 * n + 8) < 2 ^ 30"
    and "length lines = h" and "\<forall>(t, row) \<in> set lines. t \<le> 4 \<and> length row = w \<and> (\<forall>px \<in> set row. length px = n)"
    and "list_all piece_ok pieces" and "compressed pieces \<noteq> []" and "length (compressed pieces) < 2 ^ 31"
    and "length crc = 4" and "length end_crc = 4" and "\<forall>k < 2 ^ 32. al k" and "length pieces + 2 \<le> fuel"
    and "zlib_decode_malloc_guesssize_headerflag fuel al (compressed pieces) (w * h * n + h) True = Inr (filter_image n w lines)"
    and "req_comp = 0 \<or> req_comp = n \<or> odd n \<and> req_comp = n + 1"
  shows "load_from_memory fuel al gl fm others flip u (png_file (ihdr w h 8 c 0) crc pieces end_crc) req_comp =
    Inr \<lparr>pic_x = w, pic_y = h, pic_comp = n,
         pic_data = map Some (shown n req_comp ((if flip then rev else id) (map snd lines)))\<rparr>"
  by (rule png_loads [OF assms])

text \<open>A grey picture of two rows, with a text chunk and its data in two chunks.\<close>

definition grey_pieces :: "(u8 list \<times> u8 list \<times> u8 list) list" where
  "grey_pieces = [([0x74, 0x45, 0x58, 0x74], [7], [0, 0, 0, 0]),
    (idat_type, [0x78], [0, 0, 0, 0]), (idat_type, 0x01 # stored_stream [[0, 10, 2, 3]], [0, 0, 0, 0])]"

lemma grey_pieces_facts:
  "list_all piece_ok grey_pieces" "length grey_pieces = 3" "compressed grey_pieces \<noteq> []" "length (compressed grey_pieces) < 2 ^ 31"
  "zlib_decode_malloc_guesssize_headerflag 9 (\<lambda>_. True) (compressed grey_pieces) 4 True =
     Inr (filter_image 1 1 [(0, [[10]]), (2, [[13]])])"
proof -
  have pieces: "compressed grey_pieces = [0x78, 0x01] @ stored_stream [[0, 10, 2, 3]] @ []" "length (stored_stream [[0, 10, 2, 3]]) = 9"
    by (simp_all add: grey_pieces_def compressed_def idat_type_def stored_block_def)
  have raw: "filter_image 1 1 [(0, [[10]]), (2, [[13]])] = [0, 10, 2, 3]"
    by (simp add: filter_image_def filter_row_def filtered_byte_def prediction_def)
  show "list_all piece_ok grey_pieces"
    using pieces(2) by (simp add: grey_pieces_def piece_ok_def ancillary_def idat_type_def trns_type_def)
  show "length grey_pieces = 3" by (simp add: grey_pieces_def)
  show "compressed grey_pieces \<noteq> []" "length (compressed grey_pieces) < 2 ^ 31" using pieces by simp_all
  show "zlib_decode_malloc_guesssize_headerflag 9 (\<lambda>_. True) (compressed grey_pieces) 4 True =
     Inr (filter_image 1 1 [(0, [[10]]), (2, [[13]])])"
    using stored_decodes [of "[[0, 10, 2, 3]]" 4 9 "\<lambda>_. True" "[]"] raw by (simp add: pieces(1))
qed

lemma png_file_loaded_witness:
  "load_from_memory 9 (\<lambda>_. True) plain_globals no_floats no_others True () (png_file (ihdr 1 2 8 0 0) [1, 2, 3, 4] grey_pieces [5, 6, 7, 8]) 2 =
    Inr \<lparr>pic_x = 1, pic_y = 2, pic_comp = 1, pic_data = map Some [13, 255, 10, 255]\<rparr>"
  using png_file_loaded [of 0 1 1 2 "[(0, [[10]]), (2, [[13]])]" grey_pieces "[1, 2, 3, 4]" "[5, 6, 7, 8]" "\<lambda>_. True" 9 2
      plain_globals no_floats no_others True "()"] grey_pieces_facts
  by (simp add: colour_channels_def shown_def)

subsection \<open>A texture\<close>

text \<open>
  The decoder that the engine calls: the fields of the picture as the caller sees them through
  the \<open>int\<close> pointers; bytes of the picture that were never written are what the memory holds.
\<close>

definition stb_decoder ::
    "nat \<Rightarrow> (nat \<Rightarrow> bool) \<Rightarrow> globals \<Rightarrow> 'f matte_math \<Rightarrow> unit other_decoders \<Rightarrow> u8 \<Rightarrow> decoder" where
  "stb_decoder fuel al gl fm others stale buffer req_comp =
     (case load_from_memory fuel al gl fm others False () buffer req_comp of
        Inl e \<Rightarrow> None
      | Inr p \<Rightarrow> Some \<lparr>image_width = sint (word_of_nat (pic_x p) :: u32), image_height = sint (word_of_nat (pic_y p) :: u32),
          image_comp = int (pic_comp p),
          image_data = map (case_option stale id) (pic_data p)\<rparr>)"

text \<open>
  The rows that OpenGL takes from the bytes it is given: each starts at a multiple of the unpack alignment, which
  the engine leaves at its initial value of 4.
\<close>

definition unpacked_rows :: "nat \<Rightarrow> nat \<Rightarrow> u8 list \<Rightarrow> u8 list list" where
  "unpacked_rows row_size h octets = map (\<lambda>y. take row_size (drop (y * ((row_size + 3) div 4 * 4)) octets)) [0..<h]"

lemma unpacked_concat:
  assumes "\<forall>r \<in> set rs. length r = k" and "4 dvd k"
  shows "unpacked_rows k (length rs) (concat rs) = rs"
proof -
  have k: "(k + 3) div 4 * 4 = k" using assms(2) by (auto simp: dvd_def)
  have "take k (drop (y * k) (concat rs)) = rs ! y" if "y < length rs" for y
    using that assms(1)
  proof (induction rs arbitrary: y)
    case (Cons r rs)
    then show ?case by (cases y) simp_all
  qed simp
  then show ?thesis by (intro nth_equalityI) (simp_all add: unpacked_rows_def k)
qed

text \<open>
  C10: the texture of a PNG file with one, three or four channels whose rows take a multiple of four bytes: with the
  decoder for the parameter of the texture loading, the engine makes one new texture and hands its image
  to OpenGL in the size of the picture and the format of its channels, and the rows that OpenGL takes from the
  bytes are those of the picture.
\<close>

theorem png_texture_uploaded:
  fixes t :: "'f trace"
  assumes "colour_channels c n" and "0 < w" and "w \<le> 2 ^ 24" and "0 < h" and "h \<le> 2 ^ 24" and "w * h * (8 * n + 8) < 2 ^ 30"
    and "length lines = h" and "\<forall>(t, row) \<in> set lines. t \<le> 4 \<and> length row = w \<and> (\<forall>px \<in> set row. length px = n)"
    and "list_all piece_ok pieces" and "compressed pieces \<noteq> []" and "length (compressed pieces) < 2 ^ 31"
    and "length crc = 4" and "length end_crc = 4" and "\<forall>k < 2 ^ 32. al k" and "length pieces + 2 \<le> fuel"
    and "zlib_decode_malloc_guesssize_headerflag fuel al (compressed pieces) (w * h * n + h) True = Inr (filter_image n w lines)"
    and "contents name = png_file (ihdr w h 8 c 0) crc pieces end_crc"
    and "(n, format) \<in> {(1, ''GL_RED''), (3, ''GL_RGB''), (4, ''GL_RGBA'')}" and "4 dvd w * n"
  shows "\<exists>texture octets. load_texture api (stb_decoder fuel al gl fm others stale) contents name t =
      (Inr texture, t @ [Gen Texture texture, Bind Texture ''GL_TEXTURE_2D'' texture,
        Gl ''glTexImage2D'' [E ''GL_TEXTURE_2D'', N 0, E format, N (int w), N (int h), N 0, E format, E ''GL_UNSIGNED_BYTE'', P (Bytes octets)]] @
        texture_parameters ''GL_TEXTURE_2D'') \<and>
    unpacked_rows (w * n) h octets = map (\<lambda>(t, row). concat row) lines"
proof -
  have "load_from_memory fuel al gl fm others False () (contents name) 0 =
      Inr \<lparr>pic_x = w, pic_y = h, pic_comp = n, pic_data = map Some (shown n 0 (map snd lines))\<rparr>"
    using png_loads [OF assms(1-16), of 0 gl fm others False "()"] assms(17) by simp
  then have d: "stb_decoder fuel al gl fm others stale (contents name) 0 =
      Some \<lparr>image_width = int w, image_height = int h, image_comp = int n, image_data = concat (concat (map snd lines))\<rparr>"
    using sint_small [of w] sint_small [of h] assms(3,5) by (simp add: stb_decoder_def shown_def comp_def)
  have f: "texture_format (int n) = format" using assms(18) by (auto simp: texture_format_def)
  have c: "concat (concat (map snd lines)) = concat (map (\<lambda>(t, row). concat row) lines)" by (induction lines) auto
  have "\<forall>r \<in> set (map (\<lambda>(t, row). concat row) lines). length r = w * n"
    using assms(8) length_concat_chunks [of _ n] by (fastforce simp: mult.commute)
  from unpacked_concat [OF this assms(19)] have "unpacked_rows (w * n) h (concat (concat (map snd lines))) = map (\<lambda>(t, row). concat row) lines"
    using assms(7) unfolding c by simp
  then show ?thesis using d f by (auto simp add: load_texture_def bind_gen bind_emits)
qed

text \<open>A grey picture, four pixels wide.\<close>

definition wide_pieces :: "(u8 list \<times> u8 list \<times> u8 list) list" where
  "wide_pieces = [(idat_type, [0x78, 0x01] @ stored_stream [[0, 1, 2, 3, 4, 2, 4, 4, 4, 4]], [0, 0, 0, 0])]"

lemma wide_pieces_facts:
  "list_all piece_ok wide_pieces" "length wide_pieces = 1" "compressed wide_pieces \<noteq> []" "length (compressed wide_pieces) < 2 ^ 31"
  "zlib_decode_malloc_guesssize_headerflag 9 (\<lambda>_. True) (compressed wide_pieces) 10 True =
     Inr (filter_image 1 4 [(0, [[1], [2], [3], [4]]), (2, [[5], [6], [7], [8]])])"
proof -
  have pieces: "compressed wide_pieces = [0x78, 0x01] @ stored_stream [[0, 1, 2, 3, 4, 2, 4, 4, 4, 4]] @ []"
    "length (stored_stream [[0, 1, 2, 3, 4, 2, 4, 4, 4, 4]]) = 15"
    by (simp_all add: wide_pieces_def compressed_def idat_type_def stored_block_def)
  have raw: "filter_image 1 4 [(0, [[1], [2], [3], [4]]), (2, [[5], [6], [7], [8]])] = [0, 1, 2, 3, 4, 2, 4, 4, 4, 4]"
    by (simp add: filter_image_def filter_row_def filtered_byte_def prediction_def eval_nat_numeral)
  show "list_all piece_ok wide_pieces"
    using pieces(2) by (simp add: wide_pieces_def piece_ok_def ancillary_def idat_type_def trns_type_def)
  show "length wide_pieces = 1" by (simp add: wide_pieces_def)
  show "compressed wide_pieces \<noteq> []" "length (compressed wide_pieces) < 2 ^ 31" using pieces by simp_all
  show "zlib_decode_malloc_guesssize_headerflag 9 (\<lambda>_. True) (compressed wide_pieces) 10 True =
     Inr (filter_image 1 4 [(0, [[1], [2], [3], [4]]), (2, [[5], [6], [7], [8]])])"
    using stored_decodes [of "[[0, 1, 2, 3, 4, 2, 4, 4, 4, 4]]" 10 9 "\<lambda>_. True" "[]"] raw by (simp add: pieces(1))
qed

lemma png_texture_uploaded_witness:
  "\<exists>texture octets. load_texture (counting_api :: nat gl_api) (stb_decoder 9 (\<lambda>_. True) plain_globals no_floats no_others 0)
      (\<lambda>_. png_file (ihdr 4 2 8 0 0) [1, 2, 3, 4] wide_pieces [5, 6, 7, 8]) ''grey.png'' [] =
      (Inr texture, [] @ [Gen Texture texture, Bind Texture ''GL_TEXTURE_2D'' texture,
        Gl ''glTexImage2D'' [E ''GL_TEXTURE_2D'', N 0, E ''GL_RED'', N (int 4), N (int 2), N 0, E ''GL_RED'', E ''GL_UNSIGNED_BYTE'', P (Bytes octets)]] @
        texture_parameters ''GL_TEXTURE_2D'') \<and>
    unpacked_rows (4 * 1) 2 octets = [[1, 2, 3, 4], [5, 6, 7, 8]]"
proof -
  let ?file = "png_file (ihdr 4 2 8 0 0) [1, 2, 3, 4] wide_pieces [5, 6, 7, 8]"
  show ?thesis
    using png_texture_uploaded [of 0 1 4 2 "[(0, [[1], [2], [3], [4]]), (2, [[5], [6], [7], [8]])]" wide_pieces "[1, 2, 3, 4]" "[5, 6, 7, 8]" "\<lambda>_. True" 9
        "\<lambda>_. ?file" "''grey.png''" "''GL_RED''" counting_api plain_globals no_floats no_others 0 "[]"] wide_pieces_facts
    by (simp add: colour_channels_def)
qed

end
