(* ===== verification/Mesh.thy ===== *)
theory Mesh
  imports Gl
begin

text \<open>
  \<open>graphics/Mesh.h\<close>: a vertex array with its buffers.
\<close>

subsection \<open>Operations\<close>

datatype component_type = CFloat | CVec2 | CVec3 | CVec4

fun num_components :: "component_type \<Rightarrow> nat" where
  "num_components CFloat = 1"
| "num_components CVec2 = 2"
| "num_components CVec3 = 3"
| "num_components CVec4 = 4"

text \<open>The constructor sets only \<open>vao\<close>; \<open>vert_count\<close> and \<open>ibo\<close> are \<open>None\<close> until written.\<close>

record mesh =
  vert_count :: "nat option"
  vao :: nat
  ibo :: "nat option"
  vbos :: "nat list"

definition mesh_new :: "'f gl_api \<Rightarrow> ('f, mesh) glm" where
  "mesh_new api = bindE (gen api VertexArray) (\<lambda>n.
     returnE \<lparr>vert_count = None, vao = n, ibo = None, vbos = []\<rparr>)"

definition mesh_delete :: "mesh \<Rightarrow> ('f, unit) glm" where
  "mesh_delete m = emits (Delete VertexArray (vao m) # map (Delete Buffer) (vbos m))"

definition mesh_bind :: "mesh \<Rightarrow> ('f, unit) glm" where
  "mesh_bind m = emits [Bind VertexArray [] (vao m)]"

text \<open>The data are vectors of elements, each with the components of its type.\<close>

definition buffer_upload :: "component_type \<Rightarrow> 'f list list \<Rightarrow> 'f gl_call" where
  "buffer_upload ct data =
     Gl ''glBufferData'' [E ''GL_ARRAY_BUFFER'', N (int (length data * num_components ct * 4)),
                          P (Floats (concat data)), E ''GL_STATIC_DRAW'']"

definition add_buffer :: "'f gl_api \<Rightarrow> component_type \<Rightarrow> 'f list list \<Rightarrow> bool \<Rightarrow> mesh \<Rightarrow> ('f, nat \<times> mesh) glm" where
  "add_buffer api ct data vertices m =
     bindE (returnE (length (vbos m))) (\<lambda>n.
     bindE (gen api Buffer) (\<lambda>vbo.
     bindE (emits
       [Bind Buffer ''GL_ARRAY_BUFFER'' vbo,
        buffer_upload ct data,
        Gl ''glVertexAttribPointer'' [N (int n), N (int (num_components ct)), E ''GL_FLOAT'', E ''GL_FALSE'', N 0, N 0],
        Gl ''glEnableVertexAttribArray'' [N (int n)]]) (\<lambda>_.
     returnE (n, m\<lparr>vert_count := (if vertices then Some (length data) else vert_count m),
                   vbos := vbos m @ [vbo]\<rparr>))))"

definition set_buffer :: "component_type \<Rightarrow> nat \<Rightarrow> 'f list list \<Rightarrow> mesh \<Rightarrow> ('f, unit) glm" where
  "set_buffer ct n data m =
     (if n < length (vbos m)
      then emits [Bind Buffer ''GL_ARRAY_BUFFER'' (vbos m ! n), buffer_upload ct data]
      else throwE (UndefinedAccess ''vbos''))"

definition mesh_set :: "nat \<Rightarrow> bool \<Rightarrow> ('f, unit) glm" where
  "mesh_set n enabled =
     emits [Gl (if enabled then ''glEnableVertexAttribArray'' else ''glDisableVertexAttribArray'') [N (int n)]]"

definition add_index_buffer :: "'f gl_api \<Rightarrow> mesh \<Rightarrow> ('f, nat \<times> mesh) glm" where
  "add_index_buffer api m =
     bindE (returnE (length (vbos m))) (\<lambda>n.
     bindE (gen api Buffer) (\<lambda>b.
     bindE (emits [Bind Buffer ''GL_ELEMENT_ARRAY_BUFFER'' b]) (\<lambda>_.
     returnE (n, m\<lparr>ibo := Some b, vbos := vbos m @ [b]\<rparr>))))"

definition with_count :: "mesh \<Rightarrow> (nat \<Rightarrow> ('f, unit) glm) \<Rightarrow> ('f, unit) glm" where
  "with_count m k = (case vert_count m of None \<Rightarrow> throwE (UndefinedAccess ''count'') | Some c \<Rightarrow> k c)"

definition mesh_draw :: "mesh \<Rightarrow> ('f, unit) glm" where
  "mesh_draw m = bindE (mesh_bind m) (\<lambda>_. with_count m (\<lambda>c.
     emits [Gl ''glDrawArrays'' [E ''GL_TRIANGLES'', N 0, N (int c)]]))"

definition draw_instances :: "mesh \<Rightarrow> nat \<Rightarrow> ('f, unit) glm" where
  "draw_instances m instances = bindE (mesh_bind m) (\<lambda>_. with_count m (\<lambda>c.
     emits [Gl ''glDrawArraysInstanced'' [E ''GL_TRIANGLE_STRIP'', N 0, N (int c), N (int instances)]]))"

definition draw_indexed :: "mesh \<Rightarrow> u16 list \<Rightarrow> ('f, unit) glm" where
  "draw_indexed m indices = bindE (mesh_bind m) (\<lambda>_.
     case ibo m of
       None \<Rightarrow> throwE (UndefinedAccess ''ibo'')
     | Some b \<Rightarrow>
         emits [Bind Buffer ''GL_ELEMENT_ARRAY_BUFFER'' b,
                Gl ''glBufferData'' [E ''GL_ELEMENT_ARRAY_BUFFER'', N (int (2 * length indices)), P NoData,
                                     E ''GL_STREAM_DRAW''],
                Gl ''glBufferData'' [E ''GL_ELEMENT_ARRAY_BUFFER'', N (int (2 * length indices)),
                                     P (Shorts indices), E ''GL_STREAM_DRAW''],
                Gl ''glDrawElements'' [E ''GL_TRIANGLES'', N (int (length indices)), E ''GL_UNSIGNED_SHORT'', P NoData]])"

subsection \<open>Sequences of operations\<close>

text \<open>The operations that a client applies to one mesh between its creation and its deletion.\<close>

datatype 'f mesh_op =
    AddBuffer component_type "'f list list" bool
  | SetBuffer component_type nat "'f list list"
  | SetAttribute nat bool
  | AddIndexBuffer
  | BindMesh
  | Draw
  | DrawInstances nat
  | DrawIndexed "u16 list"

fun mesh_step :: "'f gl_api \<Rightarrow> 'f mesh_op \<Rightarrow> mesh \<Rightarrow> ('f, mesh) glm" where
  "mesh_step api (AddBuffer ct d v) m = bindE (add_buffer api ct d v m) (\<lambda>(n, m). returnE m)"
| "mesh_step api (SetBuffer ct n d) m = bindE (set_buffer ct n d m) (\<lambda>_. returnE m)"
| "mesh_step api (SetAttribute n b) m = bindE (mesh_set n b) (\<lambda>_. returnE m)"
| "mesh_step api AddIndexBuffer m = bindE (add_index_buffer api m) (\<lambda>(n, m). returnE m)"
| "mesh_step api BindMesh m = bindE (mesh_bind m) (\<lambda>_. returnE m)"
| "mesh_step api Draw m = bindE (mesh_draw m) (\<lambda>_. returnE m)"
| "mesh_step api (DrawInstances n) m = bindE (draw_instances m n) (\<lambda>_. returnE m)"
| "mesh_step api (DrawIndexed ix) m = bindE (draw_indexed m ix) (\<lambda>_. returnE m)"

fun mesh_run :: "'f gl_api \<Rightarrow> 'f mesh_op list \<Rightarrow> mesh \<Rightarrow> ('f, mesh) glm" where
  "mesh_run api [] m = returnE m"
| "mesh_run api (c # cs) m = bindE (mesh_step api c m) (mesh_run api cs)"

text \<open>
  The invariant: since the trace \<open>t0\<close> the mesh was made in, exactly its vertex array and its
  buffers have been added to the live objects, each under a name of its own.
\<close>

definition owns :: "'f trace \<Rightarrow> mesh \<Rightarrow> 'f trace \<Rightarrow> bool" where
  "owns t0 m t \<longleftrightarrow>
     live_names VertexArray t = insert (vao m) (live_names VertexArray t0) \<and> vao m \<notin> live_names VertexArray t0 \<and>
     live_names Buffer t = live_names Buffer t0 \<union> set (vbos m) \<and>
     set (vbos m) \<inter> live_names Buffer t0 = {} \<and> distinct (vbos m) \<and>
     (\<forall>b. ibo m = Some b \<longrightarrow> b \<in> set (vbos m)) \<and>
     (\<forall>k. k \<noteq> VertexArray \<and> k \<noteq> Buffer \<longrightarrow> live_names k t = live_names k t0)"

lemma buffer_upload_live [simp]: "live_step k L (buffer_upload ct d) = L"
  by (simp add: buffer_upload_def)

lemma owns_calls: "owns t0 m t \<Longrightarrow> (\<And>k L. live_from k L cs = L) \<Longrightarrow> owns t0 m (t @ cs)"
  by (simp add: owns_def)

lemma owns_buffer:
  assumes "owns t0 m t" and "gl_documented api" and "vbos m' = vbos m @ [fresh api Buffer t]" and "vao m' = vao m"
    and "ibo m' = ibo m \<or> ibo m' = Some (fresh api Buffer t)"
    and "\<And>k L. live_from k L cs = L"
  shows "owns t0 m' (t @ Gen Buffer (fresh api Buffer t) # cs)"
proof -
  have "fresh api Buffer t \<notin> live_names Buffer t" using assms(2) by (simp add: gl_documented_def)
  then show ?thesis using assms(1,3-6) by (auto simp: owns_def)
qed

lemma owns_step:
  assumes "owns t0 m t" and "gl_documented api" and "mesh_step api c m t = (Inr m', t')"
  shows "owns t0 m' t'"
proof (cases c)
  case (AddBuffer ct d v)
  show ?thesis
    using assms(3) unfolding AddBuffer
    by (auto simp: add_buffer_def eff_simps bindE_def intro!: owns_buffer [OF assms(1,2)])
next
  case AddIndexBuffer
  show ?thesis
    using assms(3) unfolding AddIndexBuffer
    by (auto simp: add_index_buffer_def eff_simps bindE_def intro!: owns_buffer [OF assms(1,2)])
qed (use assms(1,3) in \<open>auto simp: set_buffer_def mesh_set_def mesh_bind_def mesh_draw_def draw_instances_def
    draw_indexed_def with_count_def eff_simps bindE_def split: option.splits if_splits intro!: owns_calls\<close>)

lemma owns_run:
  "owns t0 m t \<Longrightarrow> gl_documented api \<Longrightarrow> mesh_run api cs m t = (Inr m', t') \<Longrightarrow> owns t0 m' t'"
proof (induction cs arbitrary: m t)
  case (Cons c cs)
  obtain r t1 where s: "mesh_step api c m t = (r, t1)" by (cases "mesh_step api c m t")
  then obtain m1 where r: "r = Inr m1" "mesh_run api cs m1 t1 = (Inr m', t')"
    using Cons.prems(3) by (cases r) (auto simp: bindE_def)
  show ?case
    by (rule Cons.IH [OF owns_step [OF Cons.prems(1,2), where c = c] Cons.prems(2) r(2)]) (simp add: s r(1))
qed simp

lemma owns_new:
  assumes "gl_documented api" and "mesh_new api t = (Inr m, t')"
  shows "owns t m t'"
  using assms by (auto simp: mesh_new_def eff_simps owns_def gl_documented_def)

lemma live_deletes [simp]:
  "live_from k L (map (Delete k') ns) = (if k' = k then L - set ns else L)"
  by (induction ns arbitrary: L) auto

subsection \<open>Properties\<close>

text \<open>
  C20: a mesh releases what it creates: after any sequence of operations on it, deleting it
  leaves exactly the OpenGL objects, of every kind, that were live before it was made.
\<close>

theorem mesh_releases_everything:
  assumes "gl_documented api"
    and "bindE (mesh_new api) (\<lambda>m. bindE (mesh_run api ops m) mesh_delete) t = (Inr (), t')"
  shows "live_names k t' = live_names k t"
proof -
  obtain m t1 where m: "mesh_new api t = (Inr m, t1)"
    using assms(2) by (auto simp: bindE_def split: prod.splits sum.splits)
  then obtain m' t2 where m': "mesh_run api ops m t1 = (Inr m', t2)" "mesh_delete m' t2 = (Inr (), t')"
    using assms(2) by (auto simp: bindE_def split: prod.splits sum.splits)
  have "owns t m' t2" by (rule owns_run [OF owns_new [OF assms(1) m] assms(1) m'(1)])
  then show ?thesis
    using m'(2) by (cases k) (auto simp: owns_def mesh_delete_def emits_apply)
qed

lemma mesh_releases_everything_witness:
  "\<exists>t'. bindE (mesh_new counting_api) (\<lambda>m. bindE (mesh_run counting_api
      [AddBuffer CFloat [[1 :: nat], [2]] True, AddIndexBuffer, DrawIndexed [0, 1]] m) mesh_delete) [] = (Inr (), t') \<and>
    live_names Buffer t' = {}"
proof -
  let ?p = "bindE (mesh_new counting_api) (\<lambda>m. bindE (mesh_run counting_api
      [AddBuffer CFloat [[1 :: nat], [2]] True, AddIndexBuffer, DrawIndexed [0, 1]] m) mesh_delete) []"
  have "\<exists>t'. ?p = (Inr (), t')"
    by (simp add: mesh_new_def add_buffer_def add_index_buffer_def draw_indexed_def mesh_bind_def mesh_delete_def
        eff_simps bindE_def)
  then obtain t' where t': "?p = (Inr (), t')" ..
  from mesh_releases_everything [OF counting_documented this, of Buffer] t' show ?thesis by simp
qed

end
