(* ===== verification/SpritePool.thy ===== *)
theory SpritePool
  imports Mesh ShaderProgram Geometry
begin

text \<open>
  \<open>graphics/SpritePool.cpp\<close>: the sprites, the culled copy of them and its upload. The vector
  \<open>sortedBuffer\<close> is only ever reserved, never resized, and then indexed: \<open>sorted_store\<close> is its
  reserved storage, with \<open>None\<close> for elements not written, and \<open>beyond_size\<close> remembers that an
  element at or past its size (which stays zero) was accessed, which the standard leaves undefined.
\<close>

subsection \<open>State\<close>

record 'f sprite =
  sprite_position :: "'f vec2"
  sprite_image :: 'f

text \<open>The arithmetic on floats that \<open>render\<close> uses, and what unwritten memory holds.\<close>

record 'f sprite_math =
  float_of_int :: "int \<Rightarrow> 'f"
  midpoint :: "'f vec2 \<Rightarrow> 'f vec2 \<Rightarrow> 'f vec2"
  distance :: "'f vec2 \<Rightarrow> 'f vec2 \<Rightarrow> 'f"
  add_sprite_radius :: "'f \<Rightarrow> 'f"
  indeterminate :: 'f

record 'f sprite_pool =
  sorted_store :: "'f sprite option list"
  beyond_size :: bool
  unsorted_buffer :: "'f sprite list"
  pool_mesh :: mesh
  tbo :: nat
  tbo_tex :: nat
  u_tbo_tex :: int
  u_sprite_texture :: int
  prev_center :: "'f vec2"
  visible_sprites :: u32
  sprite_count :: nat

subsection \<open>Operations\<close>

text \<open>The constructor; \<open>origin\<close> is the default \<open>glm::vec2\<close>. The integers are not initialised by the code.\<close>

definition pool_new :: "'f gl_api \<Rightarrow> 'f vec2 \<Rightarrow> ('f, 'f sprite_pool) glm" where
  "pool_new api origin = bindE (mesh_new api) (\<lambda>m. returnE
     \<lparr>sorted_store = [], beyond_size = False, unsorted_buffer = [], pool_mesh = m, tbo = 0, tbo_tex = 0,
      u_tbo_tex = 0, u_sprite_texture = 0, prev_center = origin, visible_sprites = - 1, sprite_count = 0\<rparr>)"

text \<open>The destructor's body is empty; the member \<open>mesh\<close> is destroyed.\<close>

definition pool_delete :: "'f sprite_pool \<Rightarrow> ('f, unit) glm" where
  "pool_delete p = mesh_delete (pool_mesh p)"

definition quad_positions :: "(int \<Rightarrow> 'f) \<Rightarrow> 'f list list" where
  "quad_positions fl = map (map fl) [[-1, 1, 0], [-1, -1, 0], [1, 1, 0], [1, -1, 0]]"

definition quad_texcoords :: "(int \<Rightarrow> 'f) \<Rightarrow> 'f list list" where
  "quad_texcoords fl = map (map fl) [[0, 1], [0, 0], [1, 1], [1, 0]]"

definition pool_init :: "'f gl_api \<Rightarrow> 'f sprite_math \<Rightarrow> shader \<Rightarrow> 'f sprite_pool \<Rightarrow> ('f, 'f sprite_pool) glm" where
  "pool_init api fm sprite_shader p =
     bindE (mesh_bind (pool_mesh p)) (\<lambda>_.
     bindE (add_buffer api CVec3 (quad_positions (float_of_int fm)) True (pool_mesh p)) (\<lambda>(_, m).
     bindE (add_buffer api CVec2 (quad_texcoords (float_of_int fm)) False m) (\<lambda>(_, m).
     bindE (gen api Buffer) (\<lambda>b.
     bindE (emits [Gl ''glActiveTexture'' [E ''GL_TEXTURE0 + 6''], Bind Buffer ''GL_TEXTURE_BUFFER'' b]) (\<lambda>_.
     bindE (gen api Texture) (\<lambda>tex.
     bindE (emits
       [Bind Texture ''GL_TEXTURE_BUFFER'' tex,
        Gl ''glBufferData'' [E ''GL_TEXTURE_BUFFER'', N 12, P NoData, E ''GL_STREAM_DRAW''],
        Bind Buffer ''GL_TEXTURE_BUFFER'' 0]) (\<lambda>_.
     bindE (uniform api ''u_tbo_tex'' sprite_shader) (\<lambda>u1.
     bindE (uniform api ''u_texture'' sprite_shader) (\<lambda>u2.
     returnE (p\<lparr>pool_mesh := m, tbo := b, tbo_tex := tex, u_tbo_tex := u1, u_sprite_texture := u2,
                sprite_count := 0\<rparr>))))))))))"

text \<open>\<open>reserve\<close>: when it grows, only the elements below the size, none, are kept.\<close>

definition reserve :: "nat \<Rightarrow> 'a option list \<Rightarrow> 'a option list" where
  "reserve n store = (if length store < n then replicate n None else store)"

definition pool_update :: "'f sprite list \<Rightarrow> 'f sprite_pool \<Rightarrow> 'f sprite_pool" where
  "pool_update sprites p =
     (let p = (if sprite_count p \<noteq> length sprites
               then let n = length sprites mod 2 ^ 32
                    in p\<lparr>sprite_count := n, sorted_store := reserve n (sorted_store p)\<rparr>
               else p)
      in p\<lparr>unsorted_buffer := sprites\<rparr>)"

text \<open>The culling loop; a store past the reserved storage is a failure.\<close>

fun cull_loop :: "('f sprite \<Rightarrow> bool) \<Rightarrow> 'f sprite list \<Rightarrow> nat \<Rightarrow> 'f sprite option list \<Rightarrow>
    (nat \<times> 'f sprite option list) option" where
  "cull_loop inside [] index store = Some (index, store)"
| "cull_loop inside (s # ss) index store =
     (if inside s
      then if index < length store then cull_loop inside ss (Suc index) (store[index := Some s]) else None
      else cull_loop inside ss index store)"

definition sprite_visible :: "'f::linorder sprite_math \<Rightarrow> 'f rect \<Rightarrow> 'f sprite \<Rightarrow> bool" where
  "sprite_visible fm bounds s =
     (let center = midpoint fm (top_left bounds) (bottom_right bounds);
          screen_radius = distance fm center (top_left bounds)
      in distance fm (sprite_position s) center \<le> add_sprite_radius fm screen_radius)"

definition sprite_floats :: "'f sprite_math \<Rightarrow> 'f sprite option \<Rightarrow> 'f list" where
  "sprite_floats fm s = (case s of
       None \<Rightarrow> replicate 3 (indeterminate fm)
     | Some s \<Rightarrow> [vec_x (sprite_position s), vec_y (sprite_position s), sprite_image s])"

definition upload_sprites :: "'f sprite_math \<Rightarrow> 'f sprite_pool \<Rightarrow> ('f, unit) glm" where
  "upload_sprites fm p = emits
     [Gl ''glActiveTexture'' [E ''GL_TEXTURE0 + 6''],
      Bind Buffer ''GL_TEXTURE_BUFFER'' (tbo p),
      Bind Texture ''GL_TEXTURE_BUFFER'' (tbo_tex p),
      Gl ''glBufferData'' [E ''GL_TEXTURE_BUFFER'', N (int (12 * sprite_count p)), P NoData, E ''GL_STREAM_DRAW''],
      Gl ''glBufferData'' [E ''GL_TEXTURE_BUFFER'', N (int (12 * sprite_count p)),
        P (Floats (concat (map (sprite_floats fm) (take (sprite_count p) (sorted_store p))))), E ''GL_STREAM_DRAW''],
      Gl ''glTexBuffer'' [E ''GL_TEXTURE_BUFFER'', E ''GL_R32F'', N (int (tbo p))],
      Bind Buffer ''GL_TEXTURE_BUFFER'' 0]"

definition pool_render :: "'f::linorder sprite_math \<Rightarrow> 'f rect \<Rightarrow> 'f sprite_pool \<Rightarrow> ('f, 'f sprite_pool) glm" where
  "pool_render fm bounds p =
     (let center = midpoint fm (top_left bounds) (bottom_right bounds)
      in bindE
        (if visible_sprites p = - 1 \<or> center \<noteq> prev_center p
         then case cull_loop (sprite_visible fm bounds) (unsorted_buffer p) 0 (sorted_store p) of
                None \<Rightarrow> throwE (UndefinedAccess ''sortedBuffer'')
              | Some (index, store) \<Rightarrow>
                  bindE (returnE (p\<lparr>prev_center := center, visible_sprites := of_nat index, sorted_store := store,
                                    beyond_size := beyond_size p \<or> 0 < index\<rparr>)) (\<lambda>p.
                  bindE (upload_sprites fm p) (\<lambda>_. returnE p))
         else returnE p) (\<lambda>p.
        bindE (set_uniform (u_sprite_texture p) (UInt 5)) (\<lambda>_.
        bindE (set_uniform (u_tbo_tex p) (UInt 6)) (\<lambda>_.
        bindE (draw_instances (pool_mesh p) (unat (visible_sprites p))) (\<lambda>_. returnE p)))))"

subsection \<open>The culling loop\<close>

lemma cull_loop_filter:
  "index + length (filter inside ss) \<le> length store \<Longrightarrow>
   cull_loop inside ss index store = Some (index + length (filter inside ss),
     take index store @ map Some (filter inside ss) @ drop (index + length (filter inside ss)) store)"
proof (induction inside ss index store rule: cull_loop.induct)
  case (2 inside s ss index store)
  show ?case
  proof (cases "inside s")
    case True
    then have lt: "index < length store" using "2.prems" by simp
    have "take (Suc index) (store[index := Some s]) = take index store @ [Some s]"
      using lt by (simp add: take_Suc_conv_app_nth)
    then show ?thesis using True lt 2 by simp
  next
    case False
    then show ?thesis using 2 by simp
  qed
qed simp

text \<open>The invariant of the pool: the storage has room for every sprite.\<close>

definition pool_ok :: "'f sprite_pool \<Rightarrow> bool" where
  "pool_ok p \<longleftrightarrow> length (unsorted_buffer p) = sprite_count p \<and> sprite_count p \<le> length (sorted_store p) \<and>
     sprite_count p < 2 ^ 32 - 1 \<and> vert_count (pool_mesh p) \<noteq> None"

lemma pool_update_simps:
  assumes "length sprites < 2 ^ 32 - 1"
  shows "unsorted_buffer (pool_update sprites p) = sprites" "sprite_count (pool_update sprites p) = length sprites"
    "visible_sprites (pool_update sprites p) = visible_sprites p" "prev_center (pool_update sprites p) = prev_center p"
    "pool_mesh (pool_update sprites p) = pool_mesh p" "beyond_size (pool_update sprites p) = beyond_size p"
    "u_sprite_texture (pool_update sprites p) = u_sprite_texture p" "u_tbo_tex (pool_update sprites p) = u_tbo_tex p"
    "tbo (pool_update sprites p) = tbo p" "tbo_tex (pool_update sprites p) = tbo_tex p"
  using assms by (simp_all add: pool_update_def Let_def)

lemma pool_update_ok: "pool_ok p \<Longrightarrow> length sprites < 2 ^ 32 - 1 \<Longrightarrow> pool_ok (pool_update sprites p)"
  by (auto simp: pool_ok_def pool_update_simps) (auto simp: pool_update_def Let_def reserve_def)

definition draw_calls :: "'f sprite_pool \<Rightarrow> nat \<Rightarrow> 'f trace" where
  "draw_calls p n =
     [Gl ''glUniform1i'' [N (u_sprite_texture p), N 5], Gl ''glUniform1i'' [N (u_tbo_tex p), N 6],
      Bind VertexArray [] (vao (pool_mesh p)),
      Gl ''glDrawArraysInstanced''
        [E ''GL_TRIANGLE_STRIP'', N 0, N (int (the (vert_count (pool_mesh p)))), N (int n)]]"

lemma draw_part:
  assumes "vert_count (pool_mesh p) \<noteq> None"
  shows "bindE (set_uniform (u_sprite_texture p) (UInt 5)) (\<lambda>_.
      bindE (set_uniform (u_tbo_tex p) (UInt 6)) (\<lambda>_.
      bindE (draw_instances (pool_mesh p) n) (\<lambda>_. returnE p))) t = (Inr p, t @ draw_calls p n)"
  using assms by (auto simp: draw_calls_def draw_instances_def mesh_bind_def with_count_def eff_simps bindE_def)

lemma pool_render_cached:
  assumes "vert_count (pool_mesh p) \<noteq> None" and "visible_sprites p \<noteq> - 1"
    and "prev_center p = midpoint fm (top_left bounds) (bottom_right bounds)"
  shows "pool_render fm bounds p t = (Inr p, t @ draw_calls p (unat (visible_sprites p)))"
  unfolding pool_render_def Let_def using assms draw_part [OF assms(1)] by simp

lemma pool_render_culled:
  assumes ok: "pool_ok p" and "visible_sprites p = - 1 \<or> prev_center p \<noteq> midpoint fm (top_left bounds) (bottom_right bounds)"
  defines "vis \<equiv> filter (sprite_visible fm bounds) (unsorted_buffer p)"
  defines "p' \<equiv> p\<lparr>prev_center := midpoint fm (top_left bounds) (bottom_right bounds),
      visible_sprites := of_nat (length vis),
      sorted_store := map Some vis @ drop (length vis) (sorted_store p),
      beyond_size := beyond_size p \<or> vis \<noteq> []\<rparr>"
  shows "\<exists>up. upload_sprites fm p' t = (Inr (), t @ up) \<and>
    pool_render fm bounds p t = (Inr p', t @ up @ draw_calls p' (length vis))"
proof -
  have le: "length vis \<le> sprite_count p"
    using ok length_filter_le [of "sprite_visible fm bounds" "unsorted_buffer p"] by (simp add: vis_def pool_ok_def)
  then have lt: "length vis < 2 ^ 32" using ok by (simp add: pool_ok_def)
  have "cull_loop (sprite_visible fm bounds) (unsorted_buffer p) 0 (sorted_store p) =
      Some (length vis, map Some vis @ drop (length vis) (sorted_store p))"
    using cull_loop_filter [of 0 "sprite_visible fm bounds" "unsorted_buffer p" "sorted_store p"] le ok
    by (simp add: vis_def pool_ok_def)
  moreover have "unat (visible_sprites p') = length vis"
    using lt by (simp add: p'_def unsigned_of_nat take_bit_nat_eq_self)
  moreover have "vert_count (pool_mesh p') \<noteq> None" using ok by (simp add: p'_def pool_ok_def)
  moreover obtain up where "upload_sprites fm p' t = (Inr (), t @ up)"
    by (simp add: upload_sprites_def emits_apply)
  ultimately show ?thesis
    using draw_part [of p' "length vis" "t @ up"] assms(2)
    by (auto simp: pool_render_def Let_def bindE_def p'_def [symmetric])
qed

subsection \<open>Properties\<close>

text \<open>A plain arithmetic for the examples: integers, with the distance of the larger coordinate.\<close>

definition int_math :: "int sprite_math" where
  "int_math = \<lparr>float_of_int = (\<lambda>i. i),
     midpoint = (\<lambda>p q. \<lparr>vec_x = (vec_x p + vec_x q) div 2, vec_y = (vec_y p + vec_y q) div 2\<rparr>),
     distance = (\<lambda>p q. max \<bar>vec_x p - vec_x q\<bar> \<bar>vec_y p - vec_y q\<bar>),
     add_sprite_radius = (\<lambda>r. r + 1), indeterminate = 0\<rparr>"

definition example_pool :: "int sprite_pool" where
  "example_pool = \<lparr>sorted_store = [], beyond_size = False, unsorted_buffer = [],
     pool_mesh = \<lparr>vert_count = Some 4, vao = 1, ibo = None, vbos = [1, 2]\<rparr>, tbo = 3, tbo_tex = 1, u_tbo_tex = 7,
     u_sprite_texture = 8, prev_center = \<lparr>vec_x = 0, vec_y = 0\<rparr>, visible_sprites = - 1, sprite_count = 0\<rparr>"

definition example_bounds :: "int rect" where
  "example_bounds = \<lparr>top_left = \<lparr>vec_x = 0, vec_y = 0\<rparr>, bottom_right = \<lparr>vec_x = 10, vec_y = 10\<rparr>\<rparr>"

definition sprite_at :: "int \<Rightarrow> int sprite" where
  "sprite_at x = \<lparr>sprite_position = \<lparr>vec_x = x, vec_y = 0\<rparr>, sprite_image = 1\<rparr>"

text \<open>What the storage hands to OpenGL: the floats of the visible sprites, then what is behind them.\<close>

definition sprite_data :: "'f sprite list \<Rightarrow> 'f list" where
  "sprite_data ss = concat (map (\<lambda>s. [vec_x (sprite_position s), vec_y (sprite_position s), sprite_image s]) ss)"

lemma uploaded_data:
  assumes "length vis \<le> n" and "n \<le> length store"
  shows "\<exists>behind. concat (map (sprite_floats fm) (take n (map Some vis @ drop (length vis) store))) = sprite_data vis @ behind \<and>
    length behind = 3 * (n - length vis)"
proof -
  let ?behind = "concat (map (sprite_floats fm) (take (n - length vis) (drop (length vis) store)))"
  have "concat (map (sprite_floats fm) (map Some vis)) = sprite_data vis"
    by (simp add: sprite_data_def sprite_floats_def comp_def)
  moreover have "length (concat (map (sprite_floats fm) l)) = 3 * length l" for l
    by (induction l) (simp_all add: sprite_floats_def split: option.split)
  ultimately have "concat (map (sprite_floats fm) (take n (map Some vis @ drop (length vis) store))) = sprite_data vis @ ?behind"
    "length ?behind = 3 * (n - length vis)"
    using assms by simp_all
  then show ?thesis by blast
qed

text \<open>
  C21: when the view has moved, or on the first frame, one render after an update uploads and draws exactly
  the sprites in range of the view: the buffer of the pool is orphaned and filled with the data of those sprites
  in their order, followed by what the storage holds for the others, it is attached to the texture of the pool, and the
  draw call asks for one instance per visible sprite. The storage never overflows, but whenever there
  is such a sprite, elements past the size of the vector have been written.
\<close>

theorem render_draws_visible:
  assumes "pool_ok p" and "length sprites < 2 ^ 32 - 1"
    and "visible_sprites p = - 1 \<or> prev_center p \<noteq> midpoint fm (top_left bounds) (bottom_right bounds)"
  defines "vis \<equiv> filter (sprite_visible fm bounds) sprites"
  shows "\<exists>p' behind. pool_render fm bounds (pool_update sprites p) t = (Inr p', t @
      [Gl ''glActiveTexture'' [E ''GL_TEXTURE0 + 6''],
       Bind Buffer ''GL_TEXTURE_BUFFER'' (tbo p),
       Bind Texture ''GL_TEXTURE_BUFFER'' (tbo_tex p),
       Gl ''glBufferData'' [E ''GL_TEXTURE_BUFFER'', N (int (12 * length sprites)), P NoData, E ''GL_STREAM_DRAW''],
       Gl ''glBufferData'' [E ''GL_TEXTURE_BUFFER'', N (int (12 * length sprites)),
         P (Floats (sprite_data vis @ behind)), E ''GL_STREAM_DRAW''],
       Gl ''glTexBuffer'' [E ''GL_TEXTURE_BUFFER'', E ''GL_R32F'', N (int (tbo p))],
       Bind Buffer ''GL_TEXTURE_BUFFER'' 0,
       Gl ''glUniform1i'' [N (u_sprite_texture p), N 5], Gl ''glUniform1i'' [N (u_tbo_tex p), N 6],
       Bind VertexArray [] (vao (pool_mesh p)),
       Gl ''glDrawArraysInstanced'' [E ''GL_TRIANGLE_STRIP'', N 0,
         N (int (the (vert_count (pool_mesh p)))), N (int (length vis))]]) \<and>
    length behind = 3 * (length sprites - length vis) \<and> pool_ok p' \<and>
    unat (visible_sprites p') = length vis \<and> take (length vis) (sorted_store p') = map Some vis \<and>
    beyond_size p' = (beyond_size p \<or> vis \<noteq> [])"
proof -
  let ?p = "pool_update sprites p"
  let ?center = "midpoint fm (top_left bounds) (bottom_right bounds)"
  let ?p' = "?p\<lparr>prev_center := ?center, visible_sprites := of_nat (length vis),
      sorted_store := map Some vis @ drop (length vis) (sorted_store ?p), beyond_size := beyond_size ?p \<or> vis \<noteq> []\<rparr>"
  note ok = pool_update_ok [OF assms(1,2)] and u = pool_update_simps [OF assms(2), of p]
  have c: "visible_sprites ?p = - 1 \<or> prev_center ?p \<noteq> ?center" using assms(3) by (simp add: u)
  have le: "length vis \<le> length sprites" unfolding vis_def by (rule length_filter_le)
  then have l: "length vis < 2 ^ 32" using assms(2) by simp
  have un: "unat (of_nat (length vis) :: u32) = length vis"
    using l by (simp add: unsigned_of_nat take_bit_nat_eq_self)
  have room: "length sprites \<le> length (sorted_store ?p)" using ok by (simp add: pool_ok_def u)
  obtain behind where b: "concat (map (sprite_floats fm) (take (length sprites) (sorted_store ?p'))) = sprite_data vis @ behind"
    "length behind = 3 * (length sprites - length vis)"
    using uploaded_data [OF le room, of fm] by auto
  obtain up where up: "upload_sprites fm ?p' t = (Inr (), t @ up)" "pool_render fm bounds ?p t = (Inr ?p', t @ up @ draw_calls ?p' (length vis))"
    using pool_render_culled [OF ok c, of t] by (auto simp: u(1) vis_def [symmetric])
  have "pool_ok ?p'" using ok le by (auto simp: pool_ok_def)
  then show ?thesis
    using up b un by (intro exI [of _ ?p'] exI [of _ behind]) (simp add: upload_sprites_def emits_apply draw_calls_def u)
qed

lemma render_draws_visible_witness:
  "\<exists>p' behind. pool_render int_math example_bounds (pool_update [sprite_at 3, sprite_at 50, sprite_at 4] example_pool) [] = (Inr p',
      [Gl ''glActiveTexture'' [E ''GL_TEXTURE0 + 6''],
       Bind Buffer ''GL_TEXTURE_BUFFER'' 3,
       Bind Texture ''GL_TEXTURE_BUFFER'' 1,
       Gl ''glBufferData'' [E ''GL_TEXTURE_BUFFER'', N 36, P NoData, E ''GL_STREAM_DRAW''],
       Gl ''glBufferData'' [E ''GL_TEXTURE_BUFFER'', N 36, P (Floats ([3, 0, 1, 4, 0, 1] @ behind)), E ''GL_STREAM_DRAW''],
       Gl ''glTexBuffer'' [E ''GL_TEXTURE_BUFFER'', E ''GL_R32F'', N 3],
       Bind Buffer ''GL_TEXTURE_BUFFER'' 0,
       Gl ''glUniform1i'' [N 8, N 5], Gl ''glUniform1i'' [N 7, N 6], Bind VertexArray [] 1,
       Gl ''glDrawArraysInstanced'' [E ''GL_TRIANGLE_STRIP'', N 0, N 4, N 2]]) \<and> length behind = 3 \<and> beyond_size p'"
proof -
  have v: "filter (sprite_visible int_math example_bounds) [sprite_at 3, sprite_at 50, sprite_at 4] = [sprite_at 3, sprite_at 4]"
    by (simp add: sprite_visible_def int_math_def example_bounds_def sprite_at_def)
  have d: "sprite_data [sprite_at 3, sprite_at 4] = [3, 0, 1, 4, 0, 1]" by (simp add: sprite_data_def sprite_at_def)
  have "pool_ok example_pool" "visible_sprites example_pool = - 1" by (simp_all add: pool_ok_def example_pool_def)
  from render_draws_visible [OF this(1), of "[sprite_at 3, sprite_at 50, sprite_at 4]" int_math example_bounds "[]"]
    this(2) [THEN disjI1]
  show ?thesis unfolding v d by (auto simp: example_pool_def)
qed

text \<open>
  An update is not shown until the view moves: after a render, rendering again with the same
  centre uploads nothing and draws the same number of instances from the old buffer, whatever
  sprites the pool has been updated with in between.
\<close>

theorem update_ignored_until_view_moves:
  assumes "pool_ok p" and "visible_sprites p \<noteq> - 1" and "length sprites < 2 ^ 32 - 1"
    and "prev_center p = midpoint fm (top_left bounds) (bottom_right bounds)"
  shows "pool_render fm bounds (pool_update sprites p) t =
    (Inr (pool_update sprites p), t @ draw_calls p (unat (visible_sprites p)))"
proof -
  note u = pool_update_simps [OF assms(3), of p]
  have "vert_count (pool_mesh (pool_update sprites p)) \<noteq> None" using assms(1) by (simp add: u pool_ok_def)
  from pool_render_cached [OF this, of fm bounds t] assms(2,4) show ?thesis by (simp add: u draw_calls_def)
qed

lemma update_ignored_until_view_moves_witness:
  "\<exists>p. pool_render int_math example_bounds (pool_update [sprite_at 3] (example_pool\<lparr>visible_sprites := 0,
       prev_center := \<lparr>vec_x = 5, vec_y = 5\<rparr>\<rparr>)) [] = (Inr p, draw_calls example_pool 0)"
proof -
  let ?p = "example_pool\<lparr>visible_sprites := 0, prev_center := \<lparr>vec_x = 5, vec_y = 5\<rparr>\<rparr>"
  have "pool_ok ?p" "visible_sprites ?p \<noteq> - 1" "length [sprite_at 3] < 2 ^ 32 - 1"
    "prev_center ?p = midpoint int_math (top_left example_bounds) (bottom_right example_bounds)"
    by (simp_all add: pool_ok_def example_pool_def int_math_def example_bounds_def)
  from update_ignored_until_view_moves [OF this, of "[]"] show ?thesis by (simp add: draw_calls_def)
qed

end
