(* ===== verification/TileMap.thy ===== *)
theory TileMap
  imports Mesh ShaderProgram Geometry
begin

text \<open>
  \<open>graphics/TileMap.cpp\<close>: a grid of tiles, uploaded once as four vertices per tile, and drawn
  through index buffers computed from the visible bounds. The arithmetic on floats is a
  parameter; \<open>int\<close> arithmetic fails where it overflows.
\<close>

subsection \<open>Integers and loops\<close>

definition to_int32 :: "int \<Rightarrow> int" where
  "to_int32 x = sint (word_of_int x :: 32 word)"

definition int_op :: "int \<Rightarrow> gl_fail + int" where
  "int_op x = (if - (2 ^ 31) \<le> x \<and> x < 2 ^ 31 then Inr x else Inl Overflow)"

text \<open>
  The values a \<open>for\<close> loop over a float counter runs through. A float that is large enough is
  its own successor: then the loop never ends, and the result is \<open>None\<close>.
\<close>

partial_function (option) loop_values :: "('f \<Rightarrow> bool) \<Rightarrow> ('f \<Rightarrow> 'f) \<Rightarrow> 'f \<Rightarrow> 'f list option" where
  "loop_values test step x =
     (if test x then Option.bind (loop_values test step (step x)) (\<lambda>xs. Some (x # xs)) else Some [])"

subsection \<open>State\<close>

record 'f tile_math =
  whole :: "int \<Rightarrow> 'f"
  succ_f :: "'f \<Rightarrow> 'f"
  pred_f :: "'f \<Rightarrow> 'f"
  to_int :: "'f \<Rightarrow> int"

record tilemap =
  tile_mesh :: mesh
  tile_shader :: shader
  tile_u_texture :: int
  tile_u_projection :: int
  tile_u_view :: int
  image_id_buffer :: nat
  map_width :: int
  map_height :: int
  max_index :: int

subsection \<open>Generating the grid\<close>

record 'f grid =
  vertices :: "'f list list"
  colours :: "'f list list"
  texcoords :: "'f list list"
  images :: "'f list"

definition quad_at :: "'f tile_math \<Rightarrow> 'f \<Rightarrow> 'f \<Rightarrow> 'f list list" where
  "quad_at fm x y = [[x, y], [succ_f fm x, y], [succ_f fm x, pred_f fm y], [x, pred_f fm y]]"

definition push_cell :: "'f tile_math \<Rightarrow> 'f \<Rightarrow> 'f \<Rightarrow> 'f \<Rightarrow> 'f grid \<Rightarrow> 'f grid" where
  "push_cell fm x y col g = g\<lparr>
     vertices := vertices g @ quad_at fm x y,
     colours := colours g @ replicate 4 (replicate 4 (whole fm 1)),
     texcoords := texcoords g @ map (map (whole fm)) [[0, 0], [1, 0], [1, 1], [0, 1]],
     images := images g @ [col, col, col, col]\<rparr>"

fun push_row :: "'f tile_math \<Rightarrow> 'f \<Rightarrow> 'f \<Rightarrow> 'f list \<Rightarrow> 'f grid \<Rightarrow> 'f grid" where
  "push_row fm x y [] g = g"
| "push_row fm x y (col # cols) g = push_row fm (succ_f fm x) y cols (push_cell fm x y col g)"

fun push_rows :: "'f tile_math \<Rightarrow> 'f \<Rightarrow> 'f list list \<Rightarrow> nat \<Rightarrow> 'f grid \<Rightarrow> nat \<times> 'f grid" where
  "push_rows fm y [] w g = (w, g)"
| "push_rows fm y (row # rows) w g =
     push_rows fm (pred_f fm y) rows (max w (length row)) (push_row fm (whole fm 0) y row g)"

definition tile_grid :: "'f tile_math \<Rightarrow> 'f list list \<Rightarrow> nat \<times> 'f grid" where
  "tile_grid fm rows = push_rows fm (whole fm (int (length rows))) rows 0
     \<lparr>vertices = [], colours = [], texcoords = [], images = []\<rparr>"

subsection \<open>Operations\<close>

definition tilemap_init :: "'f gl_api \<Rightarrow> 'f tile_math \<Rightarrow> 'f list list \<Rightarrow> mesh \<Rightarrow> ('f, tilemap) glm" where
  "tilemap_init api fm rows m =
     bindE (shader_load api ''data/shaders/tiles.vert'' ''data/shaders/tiles.frag'') (\<lambda>sh.
     bindE (returnE (tile_grid fm rows)) (\<lambda>(w, g).
     bindE (mesh_bind m) (\<lambda>_.
     bindE (add_buffer api CVec2 (vertices g) True m) (\<lambda>(_, m).
     bindE (add_buffer api CVec4 (colours g) False m) (\<lambda>(_, m).
     bindE (add_buffer api CVec2 (texcoords g) False m) (\<lambda>(_, m).
     bindE (add_buffer api CFloat (map (\<lambda>i. [i]) (images g)) False m) (\<lambda>(image_id, m).
     bindE (add_index_buffer api m) (\<lambda>(_, m).
     bindE (returnE (to_int32 (int w), to_int32 (int (length rows)))) (\<lambda>(width, height).
     bindE (liftE (int_op (width * height))) (\<lambda>tiles.
     bindE (liftE (int_op (tiles * 4))) (\<lambda>limit.
     bindE (uniform api ''u_projection'' sh) (\<lambda>u1.
     bindE (uniform api ''u_view'' sh) (\<lambda>u2.
     bindE (uniform api ''u_texture'' sh) (\<lambda>u3.
     returnE \<lparr>tile_mesh = m, tile_shader = sh, tile_u_texture = u3, tile_u_projection = u1, tile_u_view = u2,
              image_id_buffer = image_id, map_width = width, map_height = height, max_index = limit\<rparr>))))))))))))))"

text \<open>The destructor's body runs before the member \<open>mesh\<close> is destroyed.\<close>

definition tilemap_delete :: "tilemap \<Rightarrow> ('f, unit) glm" where
  "tilemap_delete tm = bindE (shader_unload (tile_shader tm)) (\<lambda>_. mesh_delete (tile_mesh tm))"

definition tilemap_reset :: "'f list list \<Rightarrow> tilemap \<Rightarrow> ('f, unit) glm" where
  "tilemap_reset rows tm =
     set_buffer CFloat (image_id_buffer tm)
       (concat (map (\<lambda>row. concat (map (\<lambda>col. [[col], [col], [col], [col]]) row)) rows)) (tile_mesh tm)"

definition tile_indices :: "int \<Rightarrow> int \<Rightarrow> u16 list" where
  "tile_indices limit index =
     (if 0 \<le> index \<and> index < limit
      then map word_of_int [index, index + 1, index + 2, index + 2, index + 3, index]
      else replicate 6 0)"

fun row_loop :: "int \<Rightarrow> 'f list \<Rightarrow> int \<Rightarrow> u16 list \<Rightarrow> gl_fail + u16 list" where
  "row_loop limit [] index acc = Inr acc"
| "row_loop limit (x # xs) index acc =
     (case int_op (index + 4) of
        Inl e \<Rightarrow> Inl e
      | Inr index' \<Rightarrow> row_loop limit xs index' (acc @ tile_indices limit index))"

fun map_loop :: "int \<Rightarrow> int \<Rightarrow> 'f list \<Rightarrow> 'f list \<Rightarrow> int \<Rightarrow> u16 list \<Rightarrow> gl_fail + u16 list" where
  "map_loop limit width xs [] base acc = Inr acc"
| "map_loop limit width xs (y # ys) base acc =
     (case row_loop limit xs base acc of
        Inl e \<Rightarrow> Inl e
      | Inr acc \<Rightarrow>
          (case int_op (base - width * 4) of
             Inl e \<Rightarrow> Inl e
           | Inr base' \<Rightarrow> map_loop limit width xs ys base' acc))"

definition base_index :: "'f tile_math \<Rightarrow> 'f rect \<Rightarrow> tilemap \<Rightarrow> ('f, int) glm" where
  "base_index fm bounds tm =
     bindE (liftE (int_op (to_int fm (vec_y (top_left bounds))))) (\<lambda>ty.
     bindE (liftE (int_op (map_height tm - ty))) (\<lambda>row.
     bindE (liftE (int_op (row * map_width tm))) (\<lambda>row_tile.
     bindE (liftE (int_op (to_int fm (vec_x (top_left bounds))))) (\<lambda>tx.
     bindE (liftE (int_op (row_tile + tx))) (\<lambda>base_tile.
     liftE (int_op (base_tile * 4)))))))"

definition visible_indices :: "'f::linorder tile_math \<Rightarrow> 'f rect \<Rightarrow> tilemap \<Rightarrow> int \<Rightarrow> gl_fail + u16 list" where
  "visible_indices fm bounds tm base =
     (let tl = top_left bounds; br = bottom_right bounds
      in case loop_values (\<lambda>y. y \<le> vec_y br) (succ_f fm) (vec_y tl) of
           None \<Rightarrow> Inl Diverges
         | Some [] \<Rightarrow> Inr []
         | Some ys \<Rightarrow>
             (case loop_values (\<lambda>x. x < vec_x br) (succ_f fm) (vec_x tl) of
                None \<Rightarrow> Inl Diverges
              | Some xs \<Rightarrow> map_loop (max_index tm) (map_width tm) xs ys base []))"

definition tilemap_render :: "'f::linorder tile_math \<Rightarrow> 'f rect \<Rightarrow> tilemap \<Rightarrow> ('f, unit) glm" where
  "tilemap_render fm bounds tm =
     bindE (set_uniform (tile_u_texture tm) (UInt 0)) (\<lambda>_.
     bindE (base_index fm bounds tm) (\<lambda>base.
     bindE (liftE (visible_indices fm bounds tm base)) (\<lambda>indices.
     draw_indexed (tile_mesh tm) indices)))"

subsection \<open>The grid\<close>

lemma push_row_vertices:
  "vertices (push_row fm x y cols g) =
     vertices g @ concat (map (\<lambda>i. quad_at fm ((succ_f fm ^^ i) x) y) [0..<length cols])"
  "images (push_row fm x y cols g) = images g @ concat (map (replicate 4) cols)"
  by (induction cols arbitrary: x g)
    (simp_all add: push_cell_def map_upt_Suc funpow_swap1 numeral_eq_Suc del: upt_Suc)

lemma push_rows_vertices:
  "vertices (snd (push_rows fm y rows w g)) = vertices g @ concat (concat (map (\<lambda>j.
     map (\<lambda>i. quad_at fm ((succ_f fm ^^ i) (whole fm 0)) ((pred_f fm ^^ j) y)) [0..<length (rows ! j)]) [0..<length rows]))"
  "images (snd (push_rows fm y rows w g)) = images g @ concat (map (replicate 4) (concat rows))"
  by (induction rows arbitrary: y w g)
    (simp_all add: push_row_vertices map_upt_Suc funpow_swap1 del: upt_Suc)

lemma push_rows_width: "\<forall>row \<in> set rows. length row = n \<Longrightarrow> rows \<noteq> [] \<Longrightarrow> fst (push_rows fm y rows w g) = max w n"
proof (induction rows arbitrary: y w g)
  case (Cons row rows)
  then show ?case by (cases "rows = []") simp_all
qed simp

lemma grid_cell:
  fixes fm :: "'f tile_math"
  assumes "\<forall>row \<in> set rows. length row = w" and "t < length rows * w" and "k < 4"
  defines "g \<equiv> snd (tile_grid fm rows)"
  shows "4 * t + k < length (vertices g)"
    and "vertices g ! (4 * t + k) =
      quad_at fm ((succ_f fm ^^ (t mod w)) (whole fm 0)) ((pred_f fm ^^ (t div w)) (whole fm (int (length rows)))) ! k"
    and "images g ! (4 * t + k) = rows ! (t div w) ! (t mod w)"
proof -
  let ?q = "\<lambda>j i. quad_at fm ((succ_f fm ^^ i) (whole fm 0)) ((pred_f fm ^^ j) (whole fm (int (length rows))))"
  let ?qs = "concat (map (\<lambda>j. map (?q j) [0..<w]) [0..<length rows])"
  have w: "0 < w" using assms(2) by (cases w) simp_all
  have dm: "t div w < length rows" "t mod w < w" "w * (t div w) + t mod w = t"
    using assms(2) w by (simp_all add: less_mult_imp_div_less)
  have rl: "map (\<lambda>j. map (?q j) [0..<length (rows ! j)]) [0..<length rows] = map (\<lambda>j. map (?q j) [0..<w]) [0..<length rows]"
    using assms(1) by simp
  have v: "vertices g = concat ?qs"
    unfolding g_def tile_grid_def push_rows_vertices rl by simp
  have q4: "\<forall>xs \<in> set ?qs. length xs = 4" by (auto simp: quad_at_def)
  have len: "t < length ?qs" using assms(2) by (simp add: length_rectangle)
  show "vertices g ! (4 * t + k) = ?q (t div w) (t mod w) ! k"
    unfolding v nth_concat_chunks [OF q4 len assms(3)] using nth_rectangle [OF dm(1,2), of ?q] dm(3) by simp
  have "length (vertices g) = 4 * length ?qs" unfolding v by (rule length_concat_chunks [OF q4])
  then show "4 * t + k < length (vertices g)" using len assms(3) by simp
  have im: "images g = concat (map (replicate 4) (concat rows))"
    unfolding g_def tile_grid_def push_rows_vertices by simp
  have lr: "length (concat rows) = w * length rows" by (rule length_concat_chunks [OF assms(1)])
  have "images g ! (4 * t + k) = map (replicate 4) (concat rows) ! t ! k"
    unfolding im by (rule nth_concat_chunks) (use assms(2,3) lr in \<open>simp_all add: mult.commute\<close>)
  also have "\<dots> = concat rows ! t" using assms(2,3) lr by (simp add: mult.commute)
  also have "\<dots> = rows ! (t div w) ! (t mod w)" using nth_concat_chunks [OF assms(1) dm(1,2)] dm(3) by simp
  finally show "images g ! (4 * t + k) = rows ! (t div w) ! (t mod w)" .
qed

subsection \<open>The indices\<close>

lemma int_op_ok: "\<bar>x\<bar> < 2 ^ 31 \<Longrightarrow> int_op x = Inr x"
  by (simp add: int_op_def abs_less_iff)

lemma row_loop_indices:
  assumes "\<bar>index\<bar> + 4 * int (length xs) < 2 ^ 31"
  shows "row_loop limit xs index acc =
    Inr (acc @ concat (map (\<lambda>c. tile_indices limit (index + 4 * int c)) [0..<length xs]))"
  using assms
proof (induction xs arbitrary: index acc)
  case (Cons x xs)
  have "\<bar>index + 4\<bar> < 2 ^ 31" "\<bar>index + 4\<bar> + 4 * int (length xs) < 2 ^ 31" using Cons.prems by simp_all
  then show ?case
    using Cons.IH [of "index + 4"] by (simp add: int_op_ok map_upt_Suc algebra_simps del: upt_Suc)
qed simp

lemma map_loop_indices:
  assumes "\<bar>base\<bar> + int (length ys) * (width * 4) + 4 * int (length xs) < 2 ^ 31" and "0 \<le> width"
  shows "map_loop limit width xs ys base acc = Inr (acc @ concat (concat (map (\<lambda>r.
      map (\<lambda>c. tile_indices limit (base - int r * (width * 4) + 4 * int c)) [0..<length xs]) [0..<length ys])))"
  using assms(1)
proof (induction ys arbitrary: base acc)
  case (Cons y ys)
  define p where "p = int (length ys) * (width * 4)"
  have p: "int (length (y # ys)) * (width * 4) = width * 4 + p" "0 \<le> p"
    using assms(2) by (simp_all add: p_def algebra_simps)
  have le: "\<bar>base - width * 4\<bar> \<le> \<bar>base\<bar> + width * 4" using assms(2) by simp
  have "\<bar>base\<bar> + 4 * int (length xs) < 2 ^ 31" "\<bar>base - width * 4\<bar> < 2 ^ 31"
    "\<bar>base - width * 4\<bar> + p + 4 * int (length xs) < 2 ^ 31"
    using Cons.prems le p assms(2) by linarith+
  then show ?case
    using Cons.IH [of "base - width * 4"]
    unfolding p_def [symmetric]
    by (simp add: int_op_ok row_loop_indices map_upt_Suc algebra_simps del: upt_Suc)
qed simp

subsection \<open>What is drawn\<close>

definition loads :: "'f gl_api \<Rightarrow> bool" where
  "loads api \<longleftrightarrow> (let v = read_file api ''data/shaders/tiles.vert''; f = read_file api ''data/shaders/tiles.frag''
     in compiles api v \<and> compiles api f \<and> links api v f)"

lemma to_int32_small: "0 \<le> x \<Longrightarrow> x < 2 ^ 31 \<Longrightarrow> to_int32 x = x"
  by (simp add: to_int32_def signed_of_int signed_take_bit_int_eq_self)

lemma shader_load_ok:
  assumes "loads api"
  shows "\<exists>s cs. shader_load api ''data/shaders/tiles.vert'' ''data/shaders/tiles.frag'' t = (Inr s, t @ cs)"
  using assms by (simp add: loads_def Let_def shader_load_def create_shader_def compile_and_attach_def eff_simps bindE_def)

lemma bind_add_buffer:
  "\<exists>m' t'. (\<forall>k. bindE (add_buffer api ct d v m) k t = k (length (vbos m), m') t') \<and>
    buffer_upload ct d \<in> set t' \<and> set t \<subseteq> set t' \<and> length (vbos m') = Suc (length (vbos m))"
  by (intro exI conjI allI) (simp add: add_buffer_def eff_simps bindE_assoc, auto)

lemma bind_add_index_buffer:
  "\<exists>m' t'. (\<forall>k. bindE (add_index_buffer api m) k t = k (length (vbos m), m') t') \<and> ibo m' \<noteq> None \<and> set t \<subseteq> set t' \<and>
    length (vbos m') = Suc (length (vbos m))"
  by (intro exI conjI allI) (simp add: add_index_buffer_def eff_simps bindE_assoc, auto)

lemma bind_uniform [eff_simps]:
  "bindE (uniform api name s) k t =
     k (uniform_location api (program_id s) name) (t @ [Gl ''glGetUniformLocation'' [N (int (program_id s)), E name]])"
  by (simp add: uniform_def eff_simps bindE_assoc)

lemma tilemap_init_ok:
  fixes fm :: "'f tile_math"
  assumes "loads api" and "\<forall>row \<in> set rows. length row = w" and "rows \<noteq> []" and "length rows * w < 2 ^ 29"
    and "length rows < 2 ^ 31" and "w < 2 ^ 31"
  defines "g \<equiv> snd (tile_grid fm rows)"
  shows "\<exists>tm t'. tilemap_init api fm rows m t = (Inr tm, t') \<and> map_width tm = int w \<and>
    map_height tm = int (length rows) \<and> max_index tm = int (4 * (length rows * w)) \<and> ibo (tile_mesh tm) \<noteq> None \<and>
    image_id_buffer tm < length (vbos (tile_mesh tm)) \<and> buffer_upload CVec2 (vertices g) \<in> set t' \<and> buffer_upload CFloat (map (\<lambda>i. [i]) (images g)) \<in> set t'"
proof -
  obtain s cs where s: "shader_load api ''data/shaders/tiles.vert'' ''data/shaders/tiles.frag'' t = (Inr s, t @ cs)"
    using shader_load_ok [OF assms(1)] by blast
  have s': "bindE (shader_load api ''data/shaders/tiles.vert'' ''data/shaders/tiles.frag'') k t = k s (t @ cs)"
    for k :: "shader \<Rightarrow> ('f, tilemap) glm"
    by (simp add: bindE_def s)
  have g: "tile_grid fm rows = (w, g)"
    using push_rows_width [OF assms(2,3)] unfolding g_def tile_grid_def by (simp add: prod_eq_iff)
  have w: "to_int32 (int w) = int w" "to_int32 (int (length rows)) = int (length rows)"
    using assms(5,6) by (simp_all add: to_int32_small)
  define n where "n = length rows * w"
  have n: "int w * int (length rows) = int n" "4 * (length rows * w) = 4 * n" by (simp_all add: n_def)
  have "int n < 2 ^ 29" using assms(4) unfolding n_def [symmetric] by (simp only: of_nat_less_numeral_power_cancel_iff)
  then have tiles: "int_op (int n) = Inr (int n)" "int_op (int n * 4) = Inr (int (4 * n))"
    by (simp_all add: int_op_def)
  obtain m1 t1 where 1: "\<And>k :: nat \<times> mesh \<Rightarrow> ('f, tilemap) glm. bindE (add_buffer api CVec2 (vertices g) True m) k (t @ cs @ [Bind VertexArray [] (vao m)]) =
      k (length (vbos m), m1) t1" "buffer_upload CVec2 (vertices g) \<in> set t1"
    using bind_add_buffer [of api CVec2 "vertices g" True m "t @ cs @ [Bind VertexArray [] (vao m)]"] by auto
  obtain m2 t2 where 2: "\<And>k :: nat \<times> mesh \<Rightarrow> ('f, tilemap) glm. bindE (add_buffer api CVec4 (colours g) False m1) k t1 = k (length (vbos m1), m2) t2" "set t1 \<subseteq> set t2"
    using bind_add_buffer [of api CVec4 "colours g" False m1 t1] by auto
  obtain m3 t3 where 3: "\<And>k :: nat \<times> mesh \<Rightarrow> ('f, tilemap) glm. bindE (add_buffer api CVec2 (texcoords g) False m2) k t2 = k (length (vbos m2), m3) t3" "set t2 \<subseteq> set t3"
    using bind_add_buffer [of api CVec2 "texcoords g" False m2 t2] by auto
  obtain m4 t4 where 4: "\<And>k :: nat \<times> mesh \<Rightarrow> ('f, tilemap) glm. bindE (add_buffer api CFloat (map (\<lambda>i. [i]) (images g)) False m3) k t3 = k (length (vbos m3), m4) t4"
      "buffer_upload CFloat (map (\<lambda>i. [i]) (images g)) \<in> set t4" "set t3 \<subseteq> set t4" "length (vbos m4) = Suc (length (vbos m3))"
    using bind_add_buffer [of api CFloat "map (\<lambda>i. [i]) (images g)" False m3 t3] by auto
  obtain m5 t5 where 5: "\<And>k :: nat \<times> mesh \<Rightarrow> ('f, tilemap) glm. bindE (add_index_buffer api m4) k t4 = k (length (vbos m4), m5) t5" "ibo m5 \<noteq> None" "set t4 \<subseteq> set t5"
      "length (vbos m5) = Suc (length (vbos m4))"
    using bind_add_index_buffer [of api m4 t4] by auto
  have sub: "buffer_upload CVec2 (vertices g) \<in> set (t5 @ r)" "buffer_upload CFloat (map (\<lambda>i. [i]) (images g)) \<in> set (t5 @ r)" for r
    using 1(2) 2(2) 3(2) 4(2,3) 5(3) by (auto dest: subsetD)
  have "\<exists>sh u1 u2 u3 r. tilemap_init api fm rows m t =
    (Inr \<lparr>tile_mesh = m5, tile_shader = sh, tile_u_texture = u3, tile_u_projection = u1, tile_u_view = u2,
       image_id_buffer = length (vbos m3), map_width = int w, map_height = int (length rows), max_index = int (4 * n)\<rparr>, t5 @ r)"
    unfolding tilemap_init_def s' bindE_Inr g prod.case mesh_bind_def bind_emits append_assoc 1(1) 2(1) 3(1) 4(1) 5(1)
      w n tiles bind_uniform
    by blast
  then show ?thesis using sub 5(2,4) 4(4) unfolding n(2) by fastforce
qed

text \<open>
  What six indices must draw for a tile number: two triangles over the corners of the cell, with
  the image of the cell; or, for a number outside the map, nothing (all six the same vertex).
\<close>

definition cell_drawn :: "'f tile_math \<Rightarrow> 'f list list \<Rightarrow> nat \<Rightarrow> int \<Rightarrow> u16 list \<Rightarrow> bool" where
  "cell_drawn fm rows w tile ixs \<longleftrightarrow>
     (let g = snd (tile_grid fm rows); row = nat tile div w; col = nat tile mod w;
          corner = quad_at fm ((succ_f fm ^^ col) (whole fm 0)) ((pred_f fm ^^ row) (whole fm (int (length rows))))
      in if 0 \<le> tile \<and> tile < int (length rows * w)
         then map (\<lambda>k. vertices g ! unat k) ixs = map ((!) corner) [0, 1, 2, 2, 3, 0] \<and>
              map (\<lambda>k. images g ! unat k) ixs = replicate 6 (rows ! row ! col)
         else ixs = replicate 6 0)"

lemma replicate_6: "replicate 6 x = [x, x, x, x, x, x]"
  by (simp add: numeral_eq_Suc)

lemma cell_drawn_indices:
  assumes "\<forall>row \<in> set rows. length row = w" and "length rows * w \<le> 16384"
  shows "cell_drawn fm rows w tile (tile_indices (int (4 * (length rows * w))) (4 * tile))"
proof (cases "0 \<le> tile \<and> tile < int (length rows * w)")
  case True
  then obtain t where t: "tile = int t" "t < length rows * w" by (metis int_ops(7) nonneg_int_cases of_nat_less_iff of_nat_mult)
  have un: "unat (word_of_int (4 * int t + int k) :: u16) = 4 * t + k" if "k < 4" for k
  proof -
    have "4 * t + k < 2 ^ 16" using t(2) assms(2) that by simp
    then have "unat (word_of_nat (4 * t + k) :: u16) = 4 * t + k" by (simp add: unsigned_of_nat take_bit_nat_eq_self del: of_nat_add of_nat_mult)
    then show ?thesis by simp
  qed
  note cell = grid_cell [OF assms(1) t(2)]
  have lim: "4 * int t < 4 * (int (length rows) * int w)" using t(2) by (simp flip: of_nat_mult)
  show ?thesis
    using un [of 0] un [of 1] un [of 2] un [of 3] cell(2) [of 0] cell(2) [of 1] cell(2) [of 2] cell(2) [of 3]
      cell(3) [of 0] cell(3) [of 1] cell(3) [of 2] cell(3) [of 3] True lim
    by (simp add: cell_drawn_def tile_indices_def t(1) Let_def replicate_6)
next
  case False
  then have "\<not> (0 \<le> 4 * tile \<and> 4 * tile < int (4 * (length rows * w)))" by auto
  then show ?thesis using False by (auto simp: cell_drawn_def tile_indices_def Let_def)
qed

lemma base_index_ok:
  assumes "map_width tm = int w" and "map_height tm = int h" and "h * w \<le> 16384" and "h \<le> 16384"
    and "\<bar>to_int fm (vec_y (top_left bounds))\<bar> \<le> 8192" and "\<bar>to_int fm (vec_x (top_left bounds))\<bar> \<le> 8192"
    and "w \<le> 16384"
  defines "b \<equiv> (int h - to_int fm (vec_y (top_left bounds))) * int w + to_int fm (vec_x (top_left bounds))"
  shows "base_index fm bounds tm t = (Inr (4 * b), t)" and "\<bar>b\<bar> \<le> 2 ^ 28"
proof -
  let ?ty = "to_int fm (vec_y (top_left bounds))"
  have "\<bar>?ty * int w\<bar> \<le> 8192 * 16384" unfolding abs_mult using assms(5,7) by (intro mult_mono) simp_all
  then have r: "\<bar>(int h - ?ty) * int w\<bar> \<le> 8192 * 16384 + 16384"
    using assms(3) by (simp add: left_diff_distrib flip: of_nat_mult)
  then show b: "\<bar>b\<bar> \<le> 2 ^ 28" unfolding b_def using assms(6) by (simp add: abs_le_iff)
  have "\<bar>int h - ?ty\<bar> < 2 ^ 31" using assms(4,5) by simp
  then show "base_index fm bounds tm t = (Inr (4 * b), t)"
    using r b assms(5,6) unfolding base_index_def b_def
    by (simp add: assms(1,2) int_op_ok bindE_liftE mult.commute)
qed

lemma visible_indices_ok:
  fixes fm :: "'f::linorder tile_math" and bounds :: "'f rect"
  assumes ys: "loop_values (\<lambda>y. y \<le> vec_y (bottom_right bounds)) (succ_f fm) (vec_y (top_left bounds)) = Some ys"
    and xs: "loop_values (\<lambda>x. x < vec_x (bottom_right bounds)) (succ_f fm) (vec_x (top_left bounds)) = Some xs"
    and "length ys \<le> 8192" and "length xs \<le> 8192" and "map_width tm = int w" and "w \<le> 16384" and "\<bar>b\<bar> \<le> 2 ^ 28"
  shows "visible_indices fm bounds tm (4 * b) = Inr (concat (concat (map (\<lambda>r.
      map (\<lambda>c. tile_indices (max_index tm) (4 * (b - int r * int w + int c))) [0..<length xs]) [0..<length ys])))"
proof (cases "ys = []")
  case True
  then show ?thesis using ys by (simp add: visible_indices_def Let_def)
next
  case False
  define p where "p = int (length ys) * (int w * 4)"
  have "p \<le> 8192 * (16384 * 4)" unfolding p_def using assms(3,6) by (intro mult_mono) simp_all
  then have "\<bar>4 * b\<bar> + p + 4 * int (length xs) < 2 ^ 31" using assms(4,7) by simp
  then have "\<bar>4 * b\<bar> + int (length ys) * (int w * 4) + 4 * int (length xs) < 2 ^ 31" unfolding p_def .
  note loop = map_loop_indices [OF this, of "max_index tm" "[]"]
  have "visible_indices fm bounds tm (4 * b) = map_loop (max_index tm) (int w) xs ys (4 * b) []"
    using False by (cases ys) (simp_all add: visible_indices_def Let_def ys xs assms(5) del: map_loop.simps)
  then show ?thesis using loop by (simp add: algebra_simps)
qed

text \<open>
  C36: which tiles a tile map draws. For a rectangular map of at most 16384 tiles, \<open>init\<close> uploads the
  grid, and for bounds whose \<open>top_left\<close> has the smaller \<open>y\<close> (otherwise there are no rows) \<open>render\<close> draws, for every
  row \<open>y\<close> up to \<open>bottom_right\<close> and every column \<open>x\<close> before it, the tile of the number \<open>(height - y) * width + x\<close>: two
  triangles whose indices name the vertices of its cell, with its image, or nothing for a
  number that is not one of the map. Tiles are numbered along the rows: a place in the map shows its own tile, but a
  place to the right of the map a tile of the next row, and one to the left a tile of the previous row.
\<close>

theorem visible_tiles_drawn:
  fixes fm :: "'f::linorder tile_math" and bounds :: "'f rect"
  assumes "loads api" and "\<forall>row \<in> set rows. length row = w" and "rows \<noteq> []" and "0 < w" and "length rows * w \<le> 16384"
    and "loop_values (\<lambda>y. y \<le> vec_y (bottom_right bounds)) (succ_f fm) (vec_y (top_left bounds)) = Some ys" and "length ys \<le> 8192"
    and "loop_values (\<lambda>x. x < vec_x (bottom_right bounds)) (succ_f fm) (vec_x (top_left bounds)) = Some xs" and "length xs \<le> 8192"
    and "\<bar>to_int fm (vec_y (top_left bounds))\<bar> \<le> 8192" and "\<bar>to_int fm (vec_x (top_left bounds))\<bar> \<le> 8192"
  shows "\<exists>tm t1 indices t2. tilemap_init api fm rows m t = (Inr tm, t1) \<and> tilemap_render fm bounds tm t1 = (Inr (), t2) \<and>
    buffer_upload CVec2 (vertices (snd (tile_grid fm rows))) \<in> set t1 \<and>
    buffer_upload CFloat (map (\<lambda>i. [i]) (images (snd (tile_grid fm rows)))) \<in> set t1 \<and>
    last t2 = Gl ''glDrawElements'' [E ''GL_TRIANGLES'', N (int (length indices)), E ''GL_UNSIGNED_SHORT'', P NoData] \<and>
    P (Shorts indices) \<in> {a. \<exists>as. Gl ''glBufferData'' as \<in> set t2 \<and> a \<in> set as} \<and>
    length indices = 6 * (length ys * length xs) \<and>
    (\<forall>r < length ys. \<forall>c < length xs. cell_drawn fm rows w
       ((int (length rows) - to_int fm (vec_y (top_left bounds)) - int r) * int w + to_int fm (vec_x (top_left bounds)) + int c)
       (take 6 (drop (6 * (length xs * r + c)) indices)))"
proof -
  have h: "length rows * 1 \<le> length rows * w" "1 * w \<le> length rows * w"
    using assms(3,4) by (simp_all add: Suc_le_eq)
  obtain tm t1 where init: "tilemap_init api fm rows m t = (Inr tm, t1)" "map_width tm = int w" "map_height tm = int (length rows)"
      "max_index tm = int (4 * (length rows * w))" "ibo (tile_mesh tm) \<noteq> None"
      "buffer_upload CVec2 (vertices (snd (tile_grid fm rows))) \<in> set t1"
      "buffer_upload CFloat (map (\<lambda>i. [i]) (images (snd (tile_grid fm rows)))) \<in> set t1"
    using tilemap_init_ok [OF assms(1-3), of fm m t] assms(5) h by force
  let ?b = "(int (length rows) - to_int fm (vec_y (top_left bounds))) * int w + to_int fm (vec_x (top_left bounds))"
  let ?f = "\<lambda>r c. tile_indices (int (4 * (length rows * w))) (4 * (?b - int r * int w + int c))"
  let ?chunks = "concat (map (\<lambda>r. map (?f r) [0..<length xs]) [0..<length ys])"
  have b: "base_index fm bounds tm u = (Inr (4 * ?b), u)" "\<bar>?b\<bar> \<le> 2 ^ 28" for u :: "'f trace"
    using base_index_ok [OF init(2,3) assms(5)] assms(5,10,11) h by simp_all
  have ix: "visible_indices fm bounds tm (4 * ?b) = Inr (concat ?chunks)"
    using visible_indices_ok [OF assms(6,8,7,9) init(2) _ b(2)] assms(5) h by (simp add: init(4))
  obtain i where i: "ibo (tile_mesh tm) = Some i" using init(5) by blast
  have six: "\<forall>ch \<in> set ?chunks. length ch = 6" by (auto simp: tile_indices_def)
  have draw: "\<exists>t2. tilemap_render fm bounds tm t1 = (Inr (), t2) \<and>
    last t2 = Gl ''glDrawElements'' [E ''GL_TRIANGLES'', N (int (length ind)), E ''GL_UNSIGNED_SHORT'', P NoData] \<and>
    P (Shorts ind) \<in> {a. \<exists>as. Gl ''glBufferData'' as \<in> set t2 \<and> a \<in> set as}"
    if "visible_indices fm bounds tm (4 * ?b) = Inr ind" for ind
    using that b(1) unfolding tilemap_render_def
    by (auto simp: draw_indexed_def mesh_bind_def i eff_simps bindE_def)
  have len: "length (concat ?chunks) = 6 * (length ys * length xs)"
    using length_concat_chunks [OF six] by (simp add: length_rectangle)
  have tile: "?b - int r * int w + int c =
    (int (length rows) - to_int fm (vec_y (top_left bounds)) - int r) * int w + to_int fm (vec_x (top_left bounds)) + int c" for r c
    by (simp add: algebra_simps)
  have drawn: "cell_drawn fm rows w
      ((int (length rows) - to_int fm (vec_y (top_left bounds)) - int r) * int w + to_int fm (vec_x (top_left bounds)) + int c)
      (take 6 (drop (6 * (length xs * r + c)) (concat ?chunks)))"
    if rc: "r < length ys" "c < length xs" for r c
  proof -
    have "length xs * r + c < length ys * length xs"
      using mult_le_mono2 [of "Suc r" "length ys" "length xs"] rc by (simp add: algebra_simps)
    then have "take 6 (drop (6 * (length xs * r + c)) (concat ?chunks)) = ?chunks ! (length xs * r + c)"
      by (intro chunk_of_concat [OF six]) (simp add: length_rectangle)
    also have "\<dots> = ?f r c" by (rule nth_rectangle) (use rc in simp_all)
    finally show ?thesis by (simp only: tile [symmetric] cell_drawn_indices [OF assms(2,5)])
  qed
  obtain indices where ind: "indices = concat ?chunks" by blast
  obtain t2 where "tilemap_render fm bounds tm t1 = (Inr (), t2)"
    "last t2 = Gl ''glDrawElements'' [E ''GL_TRIANGLES'', N (int (length indices)), E ''GL_UNSIGNED_SHORT'', P NoData]"
    "P (Shorts indices) \<in> {a. \<exists>as. Gl ''glBufferData'' as \<in> set t2 \<and> a \<in> set as}"
    using draw [OF ix [folded ind]] by blast
  then show ?thesis using init(1,6,7) len [folded ind] drawn [folded ind] by blast
qed

definition int_tile_math :: "int tile_math" where
  "int_tile_math = \<lparr>whole = (\<lambda>n. n), succ_f = (\<lambda>n. n + 1), pred_f = (\<lambda>n. n - 1), to_int = (\<lambda>n. n)\<rparr>"

lemma visible_tiles_drawn_witness:
  "\<exists>tm t1 indices t2. tilemap_init counting_api int_tile_math [[7, 8], [9, 5]] \<lparr>vert_count = None, vao = 1, ibo = None, vbos = []\<rparr> [] = (Inr tm, t1) \<and>
     tilemap_render int_tile_math \<lparr>top_left = \<lparr>vec_x = 1, vec_y = 1\<rparr>, bottom_right = \<lparr>vec_x = 2, vec_y = 2\<rparr>\<rparr> tm t1 = (Inr (), t2) \<and>
     length indices = 12 \<and>
     cell_drawn int_tile_math [[7, 8], [9, 5]] 2 3 (take 6 indices) \<and> cell_drawn int_tile_math [[7, 8], [9, 5]] 2 1 (take 6 (drop 6 indices))"
proof -
  let ?b = "\<lparr>top_left = \<lparr>vec_x = 1, vec_y = 1\<rparr>, bottom_right = \<lparr>vec_x = 2, vec_y = 2\<rparr>\<rparr> :: int rect"
  have l: "loads (counting_api :: int gl_api)" by (simp add: loads_def counting_api_def)
  have "loop_values (\<lambda>y. y \<le> (2::int)) (\<lambda>n. n + 1) 1 = Some [1, 2]" "loop_values (\<lambda>x. x < (2::int)) (\<lambda>n. n + 1) 1 = Some [1]"
    by (subst loop_values.simps, simp, subst loop_values.simps, simp, (subst loop_values.simps, simp)?)+
  then have v: "loop_values (\<lambda>y. y \<le> vec_y (bottom_right ?b)) (succ_f int_tile_math) (vec_y (top_left ?b)) = Some [1, 2]"
    "loop_values (\<lambda>x. x < vec_x (bottom_right ?b)) (succ_f int_tile_math) (vec_x (top_left ?b)) = Some [1]"
    by (simp_all add: int_tile_math_def)
  have i: "to_int int_tile_math n = n" for n by (simp add: int_tile_math_def)
  have "\<forall>row \<in> set [[7, 8], [9, 5 :: int]]. length row = 2" "[[7, 8], [9, 5 :: int]] \<noteq> []" "0 < (2::nat)"
    "length [[7, 8], [9, 5 :: int]] * 2 \<le> 16384" "length [1, 2 :: int] \<le> 8192" "length [1 :: int] \<le> 8192"
    "\<bar>to_int int_tile_math (vec_y (top_left ?b))\<bar> \<le> 8192" "\<bar>to_int int_tile_math (vec_x (top_left ?b))\<bar> \<le> 8192"
    by (simp_all add: i)
  from visible_tiles_drawn [OF l this(1-4) v(1) this(5) v(2) this(6-8), of "\<lparr>vert_count = None, vao = 1, ibo = None, vbos = []\<rparr>" "[]"]
  obtain tm t1 ind t2 where r: "tilemap_init counting_api int_tile_math [[7, 8], [9, 5]] \<lparr>vert_count = None, vao = 1, ibo = None, vbos = []\<rparr> [] = (Inr tm, t1)"
      "tilemap_render int_tile_math ?b tm t1 = (Inr (), t2)" "length ind = 6 * (length [1, 2 :: int] * length [1 :: int])"
    and d: "\<And>r c. r < length [1, 2 :: int] \<Longrightarrow> c < length [1 :: int] \<Longrightarrow> cell_drawn int_tile_math [[7, 8], [9, 5]] 2
      ((int (length [[7, 8], [9, 5 :: int]]) - to_int int_tile_math (vec_y (top_left ?b)) - int r) * int 2 +
        to_int int_tile_math (vec_x (top_left ?b)) + int c) (take 6 (drop (6 * (length [1 :: int] * r + c)) ind))"
    by blast
  show ?thesis
    by (rule exI [of _ tm], rule exI [of _ t1], rule exI [of _ ind], rule exI [of _ t2])
      (use r d [of 0 0] d [of 1 0] in \<open>simp add: i\<close>)
qed

end
