(* ===== verification/DeferredRenderer.thy ===== *)
theory DeferredRenderer
  imports SpritePool
begin

text \<open>
  \<open>graphics/DeferredRenderer.cpp\<close>: the geometry buffer, its set-up, tear-down and resizing, and
  a frame. Whether the build is a debug build is a parameter, as are the arithmetic on floats and
  the projection matrix that \<open>glm::perspective\<close> computes. The queries of \<open>checkErrors\<close> are left out.
\<close>

subsection \<open>State\<close>

record 'f frame_math =
  sprites_fm :: "'f sprite_math"
  to_size :: "'f \<Rightarrow> int"
  perspective :: "'f \<Rightarrow> 'f \<Rightarrow> 'f list"
  fifth :: 'f

record 'f renderer =
  background_shader :: shader
  background_u_texture :: int
  sprite_shader :: shader
  lighting_shader :: shader
  debug_enabled :: bool
  debug_shader :: shader
  u_debug_texture :: int
  u_debug_mode :: int
  screen_width :: int
  screen_height :: int
  projection_matrix :: "'f list"
  matrices_ubo :: nat
  g_buffer :: nat
  g_buffer_depth :: nat
  g_buffer_position :: nat
  g_buffer_normal :: nat
  g_buffer_albedo :: nat
  quad_vao :: nat
  quad_vbo :: nat
  renderer_pool :: "'f sprite_pool"

definition set_debug_rendering :: "bool \<Rightarrow> bool \<Rightarrow> 'f renderer \<Rightarrow> 'f renderer" where
  "set_debug_rendering debug_build enabled r = (if debug_build then r\<lparr>debug_enabled := enabled\<rparr> else r)"

subsection \<open>Set-up\<close>

definition quad_vertices :: "(int \<Rightarrow> 'f) \<Rightarrow> 'f list" where
  "quad_vertices fl = map fl
     [-1,  1, 0, 0, 1,
      -1, -1, 0, 0, 0,
       1,  1, 0, 1, 1,
       1, -1, 0, 1, 0]"

definition init_quad :: "'f gl_api \<Rightarrow> (int \<Rightarrow> 'f) \<Rightarrow> ('f, nat \<times> nat) glm" where
  "init_quad api fl =
     bindE (gen api VertexArray) (\<lambda>va.
     bindE (gen api Buffer) (\<lambda>vb.
     bindE (emits
       [Bind VertexArray [] va,
        Bind Buffer ''GL_ARRAY_BUFFER'' vb,
        Gl ''glBufferData'' [E ''GL_ARRAY_BUFFER'', N 80, P (Floats (quad_vertices fl)), E ''GL_STATIC_DRAW''],
        Gl ''glEnableVertexAttribArray'' [N 0],
        Gl ''glVertexAttribPointer'' [N 0, N 3, E ''GL_FLOAT'', E ''GL_FALSE'', N 20, N 0],
        Gl ''glEnableVertexAttribArray'' [N 1],
        Gl ''glVertexAttribPointer'' [N 1, N 2, E ''GL_FLOAT'', E ''GL_FALSE'', N 20, N 12],
        Bind Buffer ''GL_ARRAY_BUFFER'' 0,
        Bind VertexArray [] 0]) (\<lambda>_. returnE (va, vb))))"

definition init_matrices :: "'f gl_api \<Rightarrow> ('f, nat) glm" where
  "init_matrices api =
     bindE (gen api Buffer) (\<lambda>b.
     bindE (emits
       [Bind Buffer ''GL_UNIFORM_BUFFER'' b,
        Gl ''glBufferData'' [E ''GL_UNIFORM_BUFFER'', N 128, P NoData, E ''GL_STATIC_DRAW''],
        Bind Buffer ''GL_UNIFORM_BUFFER'' 0,
        Gl ''glBindBufferRange'' [E ''GL_UNIFORM_BUFFER'', N 0, N (int b), N 0, N 128]]) (\<lambda>_. returnE b))"

definition load_projection :: "nat \<Rightarrow> 'f list \<Rightarrow> ('f, unit) glm" where
  "load_projection ubo m = emits
     [Bind Buffer ''GL_UNIFORM_BUFFER'' ubo,
      Gl ''glBufferSubData'' [E ''GL_UNIFORM_BUFFER'', N 0, N 64, P (Floats m)],
      Bind Buffer ''GL_UNIFORM_BUFFER'' 0]"

definition init_target :: "'f gl_api \<Rightarrow> int \<Rightarrow> int \<Rightarrow> string \<Rightarrow> string \<Rightarrow> string \<Rightarrow> ('f, nat) glm" where
  "init_target api w h format type attachment =
     bindE (gen api Texture) (\<lambda>tex.
     bindE (emits
       [Bind Texture ''GL_TEXTURE_2D'' tex,
        Gl ''glTexImage2D'' [E ''GL_TEXTURE_2D'', N 0, E format, N w, N h, N 0, E ''GL_RGBA'', E type, P NoData],
        Gl ''glTexParameteri'' [E ''GL_TEXTURE_2D'', E ''GL_TEXTURE_MIN_FILTER'', E ''GL_NEAREST''],
        Gl ''glTexParameteri'' [E ''GL_TEXTURE_2D'', E ''GL_TEXTURE_MAG_FILTER'', E ''GL_NEAREST''],
        Gl ''glFramebufferTexture2D'' [E ''GL_FRAMEBUFFER'', E attachment, E ''GL_TEXTURE_2D'', N (int tex), N 0]])
       (\<lambda>_. returnE tex))"

definition init_framebuffer :: "'f gl_api \<Rightarrow> 'f renderer \<Rightarrow> ('f, 'f renderer) glm" where
  "init_framebuffer api r =
     bindE (gen api Framebuffer) (\<lambda>fb.
     bindE (emits [Bind Framebuffer ''GL_FRAMEBUFFER'' fb]) (\<lambda>_.
     bindE (init_target api (screen_width r) (screen_height r) ''GL_RGBA16F'' ''GL_FLOAT'' ''GL_COLOR_ATTACHMENT0'') (\<lambda>position.
     bindE (init_target api (screen_width r) (screen_height r) ''GL_RGBA16F'' ''GL_FLOAT'' ''GL_COLOR_ATTACHMENT1'') (\<lambda>normal.
     bindE (init_target api (screen_width r) (screen_height r) ''GL_RGBA'' ''GL_UNSIGNED_BYTE'' ''GL_COLOR_ATTACHMENT2'') (\<lambda>albedo.
     bindE (emits [Gl ''glDrawBuffers'' [N 3, E ''GL_COLOR_ATTACHMENT0'', E ''GL_COLOR_ATTACHMENT1'', E ''GL_COLOR_ATTACHMENT2'']]) (\<lambda>_.
     bindE (gen api Renderbuffer) (\<lambda>depth.
     bindE (emits
       [Bind Renderbuffer ''GL_RENDERBUFFER'' depth,
        Gl ''glRenderbufferStorage'' [E ''GL_RENDERBUFFER'', E ''GL_DEPTH_COMPONENT'', N (screen_width r), N (screen_height r)],
        Gl ''glFramebufferRenderbuffer'' [E ''GL_FRAMEBUFFER'', E ''GL_DEPTH_ATTACHMENT'', E ''GL_RENDERBUFFER'', N (int depth)],
        Gl ''glCheckFramebufferStatus'' [E ''GL_FRAMEBUFFER''],
        Bind Framebuffer ''GL_FRAMEBUFFER'' 0]) (\<lambda>_.
     returnE (r\<lparr>g_buffer := fb, g_buffer_position := position, g_buffer_normal := normal, g_buffer_albedo := albedo,
                g_buffer_depth := depth\<rparr>)))))))))"

definition init_settings :: "'f gl_call list" where
  "init_settings =
     [Gl ''glEnable'' [E ''GL_DEPTH_TEST''],
      Gl ''glDepthMask'' [E ''GL_TRUE''],
      Gl ''glDepthFunc'' [E ''GL_LEQUAL''],
      Gl ''glDisable'' [E ''GL_BLEND''],
      Gl ''glDisable'' [E ''GL_STENCIL_TEST''],
      Gl ''glClearDepth'' [N 1],
      Gl ''glEnable'' [E ''GL_CULL_FACE''],
      Gl ''glCullFace'' [E ''GL_BACK''],
      Gl ''glFrontFace'' [E ''GL_CCW''],
      Gl ''glBlendFunc'' [E ''GL_SRC_ALPHA'', E ''GL_ONE_MINUS_SRC_ALPHA'']]"

definition load_debug_shader :: "bool \<Rightarrow> 'f gl_api \<Rightarrow> 'f renderer \<Rightarrow> ('f, 'f renderer) glm" where
  "load_debug_shader debug_build api r =
     (if debug_build \<and> debug_enabled r
      then bindE (shader_load api ''data/shaders/debug.vert'' ''data/shaders/debug.frag'') (\<lambda>sh.
           bindE (uniform api ''debugTexture'' sh) (\<lambda>u1.
           bindE (uniform api ''debugMode'' sh) (\<lambda>u2.
           returnE (r\<lparr>debug_shader := sh, u_debug_texture := u1, u_debug_mode := u2\<rparr>))))
      else returnE r)"

definition hard_init :: "bool \<Rightarrow> 'f gl_api \<Rightarrow> 'f frame_math \<Rightarrow> 'f vec2 \<Rightarrow> 'f renderer \<Rightarrow> ('f, 'f renderer) glm" where
  "hard_init debug_build api fm origin r =
     bindE (shader_load api ''data/shaders/sprites.vert'' ''data/shaders/sprites.frag'') (\<lambda>sprite_sh.
     bindE (shader_load api ''data/shaders/deferredlighting.vert'' ''data/shaders/pbr.frag'') (\<lambda>light_sh.
     bindE (shader_load api ''data/shaders/background.vert'' ''data/shaders/background.frag'') (\<lambda>back_sh.
     bindE (uniform api ''u_texture'' back_sh) (\<lambda>u.
     bindE (load_debug_shader debug_build api (r\<lparr>sprite_shader := sprite_sh, lighting_shader := light_sh,
              background_shader := back_sh, background_u_texture := u\<rparr>)) (\<lambda>r.
     bindE (init_quad api (float_of_int (sprites_fm fm))) (\<lambda>(va, vb).
     bindE (init_matrices api) (\<lambda>ubo.
     bindE (bind_uniform_block api ''Matrices'' 0 sprite_sh) (\<lambda>_.
     bindE (bind_uniform_block api ''Matrices'' 0 back_sh) (\<lambda>_.
     bindE (pool_new api origin) (\<lambda>pool.
     bindE (pool_init api (sprites_fm fm) sprite_sh pool) (\<lambda>pool.
     returnE (r\<lparr>quad_vao := va, quad_vbo := vb, matrices_ubo := ubo, renderer_pool := pool\<rparr>))))))))))))"

definition renderer_init :: "bool \<Rightarrow> 'f gl_api \<Rightarrow> 'f frame_math \<Rightarrow> 'f vec2 \<Rightarrow> 'f \<Rightarrow> 'f \<Rightarrow> bool \<Rightarrow>
    'f renderer \<Rightarrow> ('f, 'f renderer) glm" where
  "renderer_init debug_build api fm origin width height soft r =
     bindE (returnE (r\<lparr>screen_width := to_size fm width, screen_height := to_size fm height\<rparr>)) (\<lambda>r.
     bindE (if \<not> soft then hard_init debug_build api fm origin r else returnE r) (\<lambda>r.
     bindE (returnE (r\<lparr>projection_matrix := perspective fm width height\<rparr>)) (\<lambda>r.
     bindE (load_projection (matrices_ubo r) (projection_matrix r)) (\<lambda>_.
     bindE (init_framebuffer api r) (\<lambda>r.
     bindE (emits init_settings) (\<lambda>_. returnE r))))))"

subsection \<open>Tear-down and resizing\<close>

text \<open>Every object of the geometry buffer is released by \<open>glDeleteBuffers\<close>, whatever its kind.\<close>

definition renderer_term :: "bool \<Rightarrow> bool \<Rightarrow> 'f renderer \<Rightarrow> ('f, unit) glm" where
  "renderer_term debug_build soft r =
     bindE (emits
       [Delete Buffer (matrices_ubo r),
        Delete Buffer (g_buffer r),
        Delete Buffer (g_buffer_depth r),
        Delete Buffer (g_buffer_position r),
        Delete Buffer (g_buffer_normal r),
        Delete Buffer (g_buffer_albedo r)]) (\<lambda>_.
     if \<not> soft
     then bindE (pool_delete (renderer_pool r)) (\<lambda>_.
          bindE (emits [Delete VertexArray (quad_vao r)]) (\<lambda>_.
          bindE (shader_unload (sprite_shader r)) (\<lambda>_.
          bindE (shader_unload (lighting_shader r)) (\<lambda>_.
          if debug_build \<and> debug_enabled r then shader_unload (debug_shader r) else returnE ()))))
     else returnE ())"

definition renderer_reset :: "bool \<Rightarrow> 'f gl_api \<Rightarrow> 'f frame_math \<Rightarrow> 'f vec2 \<Rightarrow> 'f \<Rightarrow> 'f \<Rightarrow> 'f renderer \<Rightarrow> ('f, 'f renderer) glm" where
  "renderer_reset debug_build api fm origin width height r =
     bindE (renderer_term debug_build True r) (\<lambda>_. renderer_init debug_build api fm origin width height True r)"

subsection \<open>A frame\<close>

definition clear_calls :: "'f list \<Rightarrow> 'f gl_call list" where
  "clear_calls colour = [Gl ''glClearColor'' (map F colour), Gl ''glClear'' [E ''GL_COLOR_BUFFER_BIT | GL_DEPTH_BUFFER_BIT'']]"

definition bind_target :: "'f gl_api \<Rightarrow> shader \<Rightarrow> string \<Rightarrow> nat \<Rightarrow> string \<Rightarrow> int \<Rightarrow> ('f, unit) glm" where
  "bind_target api sh texture_unit tex name n =
     bindE (emits [Gl ''glActiveTexture'' [E texture_unit], Bind Texture ''GL_TEXTURE_2D'' tex]) (\<lambda>_.
     bindE (uniform api name sh) (\<lambda>u. set_uniform u (UInt n)))"

text \<open>The debug views: the three targets for each of the two modes, one below the other.\<close>

definition debug_view :: "'f renderer \<Rightarrow> int \<Rightarrow> int \<Rightarrow> int \<Rightarrow> int \<Rightarrow> nat \<Rightarrow> 'f gl_call list" where
  "debug_view r x y width height buffer =
     [Gl ''glActiveTexture'' [E ''GL_TEXTURE0''],
      Bind Texture ''GL_TEXTURE_2D'' buffer,
      Gl ''glViewport'' [N x, N y, N width, N height],
      Gl ''glScissor'' [N (x - 2), N (y - 2), N (width + 4), N (height + 4)],
      Gl ''glClear'' [E ''GL_COLOR_BUFFER_BIT | GL_DEPTH_BUFFER_BIT''],
      Gl ''glDrawArrays'' [E ''GL_TRIANGLE_STRIP'', N 0, N 4]]"

fun debug_views :: "'f renderer \<Rightarrow> int \<Rightarrow> int \<Rightarrow> int \<Rightarrow> nat list \<Rightarrow> int \<Rightarrow> 'f gl_call list \<times> int" where
  "debug_views r x width height [] y = ([], y)"
| "debug_views r x width height (b # bs) y =
     (let (calls, y') = debug_views r x width height bs (y - (height + 10))
      in (debug_view r x y width height b @ calls, y'))"

definition debug_overlay :: "'f frame_math \<Rightarrow> 'f renderer \<Rightarrow> ('f, unit) glm" where
  "debug_overlay fm r =
     (let fl = float_of_int (sprites_fm fm);
          width = screen_width r div 8; height = screen_height r div 8;
          x = screen_width r - (width + 10); y = screen_height r - (height + 10);
          targets = [g_buffer_position r, g_buffer_normal r, g_buffer_albedo r]
      in bindE (emits ([Gl ''glEnable'' [E ''GL_SCISSOR_TEST''], Gl ''glDisable'' [E ''GL_DEPTH_TEST''],
             Gl ''glClearColor'' [F (fifth fm), F (fifth fm), F (fifth fm), F (fl 1)]])) (\<lambda>_.
         bindE (shader_use (debug_shader r)) (\<lambda>_.
         bindE (set_uniform (u_debug_texture r) (UInt 0)) (\<lambda>_.
         bindE (emits [Bind VertexArray [] (quad_vao r)]) (\<lambda>_.
         bindE (set_uniform (u_debug_mode r) (UInt 0)) (\<lambda>_.
         bindE (returnE (debug_views r x width height targets y)) (\<lambda>(calls, y).
         bindE (emits calls) (\<lambda>_.
         bindE (set_uniform (u_debug_mode r) (UInt 1)) (\<lambda>_.
         bindE (returnE (debug_views r x width height targets y)) (\<lambda>(calls, y).
         bindE (emits calls) (\<lambda>_.
         emits [Bind VertexArray [] 0, Gl ''glDisable'' [E ''GL_SCISSOR_TEST''], Gl ''glEnable'' [E ''GL_DEPTH_TEST'']])))))))))))"

definition renderer_render :: "bool \<Rightarrow> 'f gl_api \<Rightarrow> 'f::linorder frame_math \<Rightarrow> 'f rect \<Rightarrow> 'f list \<Rightarrow> 'f renderer \<Rightarrow>
    ('f, 'f renderer) glm" where
  "renderer_render debug_build api fm screen_bounds view r =
     (let fl = float_of_int (sprites_fm fm); black = [fl 0, fl 0, fl 0, fl 1]
      in bindE (emits (
           [Gl ''glViewport'' [N 0, N 0, N (screen_width r), N (screen_height r)],
            Bind Buffer ''GL_UNIFORM_BUFFER'' (matrices_ubo r),
            Gl ''glBufferSubData'' [E ''GL_UNIFORM_BUFFER'', N 64, N 64, P (Floats view)],
            Bind Buffer ''GL_UNIFORM_BUFFER'' 0,
            Bind Framebuffer ''GL_FRAMEBUFFER'' (g_buffer r)] @ clear_calls black @
           [Gl ''glDisable'' [E ''GL_BLEND'']])) (\<lambda>_.
         bindE (shader_use (sprite_shader r)) (\<lambda>_.
         bindE (pool_render (sprites_fm fm) screen_bounds (renderer_pool r)) (\<lambda>pool.
         bindE (shader_use (lighting_shader r)) (\<lambda>_.
         bindE (emits [Bind Framebuffer ''GL_FRAMEBUFFER'' 0]) (\<lambda>_.
         bindE (bind_target api (lighting_shader r) ''GL_TEXTURE0'' (g_buffer_position r) ''gPosition'' 0) (\<lambda>_.
         bindE (bind_target api (lighting_shader r) ''GL_TEXTURE1'' (g_buffer_normal r) ''gNormal'' 1) (\<lambda>_.
         bindE (bind_target api (lighting_shader r) ''GL_TEXTURE2'' (g_buffer_albedo r) ''gAlbedoSpec'' 2) (\<lambda>_.
         bindE (emits ([Bind VertexArray [] (quad_vao r)] @ clear_calls black @
           [Gl ''glDrawArrays'' [E ''GL_TRIANGLE_STRIP'', N 0, N 4],
            Bind VertexArray [] 0,
            Bind Framebuffer ''GL_READ_FRAMEBUFFER'' (g_buffer r),
            Bind Framebuffer ''GL_DRAW_FRAMEBUFFER'' 0,
            Gl ''glBlitFramebuffer'' [N 0, N 0, N (screen_width r), N (screen_height r),
              N 0, N 0, N (screen_width r), N (screen_height r), E ''GL_DEPTH_BUFFER_BIT'', E ''GL_NEAREST''],
            Bind Framebuffer ''GL_FRAMEBUFFER'' 0,
            Gl ''glEnable'' [E ''GL_BLEND'']])) (\<lambda>_.
         bindE (if debug_build \<and> debug_enabled r then debug_overlay fm r else returnE ()) (\<lambda>_.
         returnE (r\<lparr>renderer_pool := pool\<rparr>))))))))))))"

definition update_sprites :: "'f sprite list \<Rightarrow> 'f renderer \<Rightarrow> 'f renderer" where
  "update_sprites sprites r = r\<lparr>renderer_pool := pool_update sprites (renderer_pool r)\<rparr>"

end
