(* ===== verification/RendererLaws.thy ===== *)
theory RendererLaws
  imports DeferredRenderer "HOL-Library.Sublist"
begin

text \<open>
  What the renderer allocates, releases and binds. A computation is described by the total
  triple \<open>ensures\<close> of the prelude; the objects it creates by the relation \<open>grows\<close> between traces, and the
  objects it binds by \<open>binds_only\<close>.
\<close>

subsection \<open>Total triples\<close>

lemma ensures_emits: "Q () (t @ cs) \<Longrightarrow> ensures (emits cs) t Q"
  by (simp add: ensures_def emits_apply)

subsection \<open>Creating objects\<close>

text \<open>The objects a computation creates, for each kind in their order; they are distinct and new.\<close>

definition grows :: "'f trace \<Rightarrow> (gl_kind \<Rightarrow> nat list) \<Rightarrow> 'f trace \<Rightarrow> bool" where
  "grows t D t' \<longleftrightarrow> (\<forall>k. live_names k t' = live_names k t \<union> set (D k) \<and> distinct (D k) \<and> set (D k) \<inter> live_names k t = {})"

definition objects :: "gl_kind \<Rightarrow> nat list \<Rightarrow> gl_kind \<Rightarrow> nat list" where
  "objects k ns k' = (if k' = k then ns else [])"

lemma objects_append: "objects k ns k' @ objects k ms k' = objects k (ns @ ms) k'"
  by (simp add: objects_def)

lemma grows_trans: "grows t D t' \<Longrightarrow> grows t' D' t'' \<Longrightarrow> grows t (\<lambda>k. D k @ D' k) t''"
  by (auto simp: grows_def)

fun neutral :: "'f gl_call \<Rightarrow> bool" where
  "neutral (Gen k n) = False"
| "neutral (Delete k n) = False"
| "neutral (Bind k s n) = True"
| "neutral (Gl s as) = True"

lemma live_neutral: "\<forall>c \<in> set cs. neutral c \<Longrightarrow> live_from k L cs = L"
proof (induction cs)
  case (Cons c cs)
  then show ?case by (cases c) simp_all
qed simp

lemma grows_neutral: "grows t D t' \<Longrightarrow> \<forall>c \<in> set cs. neutral c \<Longrightarrow> grows t D (t' @ cs)"
  by (simp add: grows_def live_neutral)

lemma grows_cong: "grows t D t' \<Longrightarrow> (\<And>k. D k = D' k) \<Longrightarrow> grows t D' t'"
  by (simp add: grows_def)

lemma grows_refl: "grows t (\<lambda>k. []) t"
  by (simp add: grows_def)

text \<open>The triples below extend a known growth \<open>D\<close> since the trace \<open>t0\<close>.\<close>

lemma gen_grows [ensures_rules]:
  assumes "gl_documented api" and "grows t0 D t"
    and "\<And>n t'. grows t0 (\<lambda>k'. D k' @ objects k [n] k') t' \<Longrightarrow> Q n t'"
  shows "ensures (gen api k) t Q"
proof -
  let ?n = "fresh api k t"
  have "?n \<notin> live_names k t" using assms(1) by (simp add: gl_documented_def)
  then have "grows t (objects k [?n]) (t @ [Gen k ?n])" by (simp add: grows_def objects_def)
  from assms(3) [OF grows_trans [OF assms(2) this]] show ?thesis by (simp add: ensures_def gen_apply)
qed

lemma emits_grows [ensures_rules]:
  assumes "grows t0 D t" and "\<forall>c \<in> set cs. neutral c" and "\<And>t'. grows t0 D t' \<Longrightarrow> Q () t'"
  shows "ensures (emits cs) t Q"
  using assms grows_neutral [OF assms(1,2)] by (simp add: ensures_emits)

lemma uniform_grows [ensures_rules]:
  assumes "grows t0 D t" and "\<And>u t'. grows t0 D t' \<Longrightarrow> Q u t'"
  shows "ensures (uniform api name s) t Q"
  unfolding uniform_def by (rule ensures_rules assms(1) | simp add: assms(2))+

definition shader_objects :: "shader \<Rightarrow> gl_kind \<Rightarrow> nat list" where
  "shader_objects s k = objects Program [program_id s] k @ objects ShaderObject [vertex_program s, fragment_program s] k"

text \<open>Every pair of shader files of the renderer compiles and links.\<close>

definition all_load :: "'f gl_api \<Rightarrow> bool" where
  "all_load api \<longleftrightarrow> (\<forall>v f. compiles api v \<and> links api v f)"

lemma compile_grows [ensures_rules]:
  assumes "gl_documented api" and "all_load api" and "grows t0 D t"
    and "\<And>n t'. grows t0 (\<lambda>k'. D k' @ objects ShaderObject [n] k') t' \<Longrightarrow> Q n t'"
  shows "ensures (compile_and_attach api p ty src) t Q"
  unfolding compile_and_attach_def
  using assms(2) by (auto simp: all_load_def intro!: ensures_rules assms(1,3,4))

lemma shader_grows [ensures_rules]:
  assumes "gl_documented api" and "all_load api" and "grows t0 D t"
    and "\<And>s t'. grows t0 (\<lambda>k. D k @ shader_objects s k) t' \<Longrightarrow> Q s t'"
  shows "ensures (shader_load api v f) t Q"
proof -
  have eq: "grows t0 (\<lambda>k. ((D k @ objects Program [p] k) @ objects ShaderObject [a] k) @ objects ShaderObject [b] k) t' \<Longrightarrow>
    grows t0 (\<lambda>k. D k @ shader_objects \<lparr>program_id = p, vertex_program = a, fragment_program = b\<rparr> k) t'" for p a b t'
    by (simp add: shader_objects_def objects_append)
  show ?thesis
    unfolding shader_load_def create_shader_def
    using assms(2) by (auto simp: all_load_def intro!: ensures_rules assms(1,3,4) eq)
qed

lemma block_grows [ensures_rules]:
  assumes "grows t0 D t" and "\<And>t'. grows t0 D t' \<Longrightarrow> Q () t'"
  shows "ensures (bind_uniform_block api name n s) t Q"
  unfolding bind_uniform_block_def by (rule emits_grows [OF assms(1)]) (simp_all add: assms(2))

lemma add_buffer_grows [ensures_rules]:
  assumes "gl_documented api" and "grows t0 D t"
    and "\<And>b t'. grows t0 (\<lambda>k. D k @ objects Buffer [b] k) t' \<Longrightarrow> Q (length (vbos m),
      m\<lparr>vert_count := if v then Some (length d) else vert_count m, vbos := vbos m @ [b]\<rparr>) t'"
  shows "ensures (add_buffer api ct d v m) t Q"
  unfolding add_buffer_def
  by (rule ensures_rules assms(1,2) | assumption | simp add: buffer_upload_def assms(3) del: objects_append)+

lemma mesh_bind_grows [ensures_rules]:
  assumes "grows t0 D t" and "\<And>t'. grows t0 D t' \<Longrightarrow> Q () t'"
  shows "ensures (mesh_bind m) t Q"
  unfolding mesh_bind_def by (rule emits_grows [OF assms(1)]) (simp_all add: assms(2))

text \<open>The objects of a renderer, in the order it creates them.\<close>

definition pool_objects :: "'f sprite_pool \<Rightarrow> gl_kind \<Rightarrow> nat list" where
  "pool_objects p k = objects VertexArray [vao (pool_mesh p)] k @ objects Buffer (vbos (pool_mesh p)) k @
     objects Buffer [tbo p] k @ objects Texture [tbo_tex p] k"

definition ready_pool :: "'f sprite_pool \<Rightarrow> bool" where
  "ready_pool p \<longleftrightarrow> pool_ok p \<and> unsorted_buffer p = [] \<and> visible_sprites p = - 1"

lemma pool_grows [ensures_rules]:
  assumes "gl_documented api" and "grows t0 D t"
    and "\<And>p t'. grows t0 (\<lambda>k. D k @ pool_objects p k) t' \<Longrightarrow> ready_pool p \<Longrightarrow> Q p t'"
  shows "ensures (bindE (pool_new api origin) (pool_init api fm sh)) t Q"
  unfolding pool_new_def mesh_new_def pool_init_def bindE_assoc
  by (rule ensures_rules assms(1,2) | assumption |
      rule assms(3), erule grows_cong, simp add: pool_objects_def objects_def,
        simp add: ready_pool_def pool_ok_def quad_positions_def | simp)+

definition framebuffer_objects :: "'f renderer \<Rightarrow> gl_kind \<Rightarrow> nat list" where
  "framebuffer_objects r k = objects Framebuffer [g_buffer r] k @
     objects Texture [g_buffer_position r, g_buffer_normal r, g_buffer_albedo r] k @ objects Renderbuffer [g_buffer_depth r] k"

definition renderer_objects :: "bool \<Rightarrow> 'f renderer \<Rightarrow> gl_kind \<Rightarrow> nat list" where
  "renderer_objects debug_build r k =
     shader_objects (sprite_shader r) k @ shader_objects (lighting_shader r) k @ shader_objects (background_shader r) k @
     (if debug_build \<and> debug_enabled r then shader_objects (debug_shader r) k else []) @
     objects VertexArray [quad_vao r] k @ objects Buffer [quad_vbo r] k @ objects Buffer [matrices_ubo r] k @
     pool_objects (renderer_pool r) k"

lemma init_target_grows [ensures_rules]:
  assumes "gl_documented api" and "grows t0 D t"
    and "\<And>n t'. grows t0 (\<lambda>k. D k @ objects Texture [n] k) t' \<Longrightarrow> Q n t'"
  shows "ensures (init_target api w h format type attachment) t Q"
  unfolding init_target_def
  by (rule ensures_rules assms | assumption | simp)+

lemma init_quad_grows [ensures_rules]:
  assumes "gl_documented api" and "grows t0 D t"
    and "\<And>a b t'. grows t0 (\<lambda>k. (D k @ objects VertexArray [a] k) @ objects Buffer [b] k) t' \<Longrightarrow> Q (a, b) t'"
  shows "ensures (init_quad api fl) t Q"
  unfolding init_quad_def
  by (rule ensures_rules assms(1,2) | assumption | rule assms(3) | simp)+

lemma init_matrices_grows [ensures_rules]:
  assumes "gl_documented api" and "grows t0 D t"
    and "\<And>n t'. grows t0 (\<lambda>k. D k @ objects Buffer [n] k) t' \<Longrightarrow> Q n t'"
  shows "ensures (init_matrices api) t Q"
  unfolding init_matrices_def
  by (rule ensures_rules assms | assumption | simp)+

lemma load_projection_grows [ensures_rules]:
  assumes "grows t0 D t" and "\<And>t'. grows t0 D t' \<Longrightarrow> Q () t'"
  shows "ensures (load_projection ubo m) t Q"
  unfolding load_projection_def by (rule emits_grows [OF assms(1)]) (simp_all add: assms(2))

text \<open>The fields that \<open>init_framebuffer\<close> writes.\<close>

definition with_targets :: "nat \<Rightarrow> nat \<Rightarrow> nat \<Rightarrow> nat \<Rightarrow> nat \<Rightarrow> 'f renderer \<Rightarrow> 'f renderer" where
  "with_targets fb a b c depth r = r\<lparr>g_buffer := fb, g_buffer_position := a, g_buffer_normal := b, g_buffer_albedo := c,
     g_buffer_depth := depth\<rparr>"

lemma init_framebuffer_grows [ensures_rules]:
  assumes "gl_documented api" and "grows t0 D t"
    and "\<And>fb a b c d t'. grows t0 (\<lambda>k. D k @ framebuffer_objects (with_targets fb a b c d r) k) t' \<Longrightarrow>
      Q (with_targets fb a b c d r) t'"
  shows "ensures (init_framebuffer api r) t Q"
  unfolding init_framebuffer_def
  by (rule ensures_rules assms(1,2) | assumption |
      rule assms(3) [unfolded with_targets_def], erule grows_cong, simp add: framebuffer_objects_def objects_def with_targets_def | simp)+

lemma load_debug_grows [ensures_rules]:
  assumes "gl_documented api" and "all_load api" and "grows t0 D t"
    and "\<And>s u1 u2 t'. debug_build \<and> debug_enabled r \<Longrightarrow> grows t0 (\<lambda>k. D k @ shader_objects s k) t' \<Longrightarrow>
      Q (r\<lparr>debug_shader := s, u_debug_texture := u1, u_debug_mode := u2\<rparr>) t'"
    and "\<And>t'. \<not> (debug_build \<and> debug_enabled r) \<Longrightarrow> grows t0 D t' \<Longrightarrow> Q r t'"
  shows "ensures (load_debug_shader debug_build api r) t Q"
  unfolding load_debug_shader_def
  by (rule ensures_rules assms(1-3) | assumption | rule assms(4), simp, assumption | rule assms(5), simp)+

lemma hard_init_grows:
  assumes "gl_documented api" and "all_load api" and "grows t0 D t"
    and "\<And>r' t'. grows t0 (\<lambda>k. D k @ renderer_objects debug_build r' k) t' \<Longrightarrow> ready_pool (renderer_pool r') \<Longrightarrow>
      screen_width r' = screen_width r \<Longrightarrow> screen_height r' = screen_height r \<Longrightarrow> Q r' t'"
  shows "ensures (hard_init debug_build api fm origin r) t Q"
proof -
  have pool: "ensures (bindE (pool_new api origin) (\<lambda>p. bindE (pool_init api fm sh p) f)) t Q"
    if "ensures (bindE (bindE (pool_new api origin) (pool_init api fm sh)) f) t Q" for fm sh f t
    using that by (simp add: bindE_assoc)
  show ?thesis
    unfolding hard_init_def
    by (rule pool pool_grows [OF assms(1)] | rule ensures_rules assms(1-3) | assumption |
      rule assms(4), erule grows_cong, force simp: renderer_objects_def objects_def, simp, simp, simp | simp)+
qed

text \<open>The state after \<open>init\<close>.\<close>

definition initialised :: "bool \<Rightarrow> 'f trace \<Rightarrow> 'f renderer \<Rightarrow> 'f trace \<Rightarrow> bool" where
  "initialised debug_build t0 r t \<longleftrightarrow>
     grows t0 (\<lambda>k. renderer_objects debug_build r k @ framebuffer_objects r k) t \<and> ready_pool (renderer_pool r)"

lemma renderer_init_grows:
  assumes "gl_documented api" and "all_load api"
  shows "ensures (renderer_init debug_build api fm origin w h False r) t (initialised debug_build t)"
proof -
  have fin: "initialised debug_build t (with_targets fb a b c d (r'\<lparr>projection_matrix := m\<rparr>)) t'"
    if "grows t (\<lambda>k. renderer_objects debug_build r' k @
        framebuffer_objects (with_targets fb a b c d (r'\<lparr>projection_matrix := m\<rparr>)) k) t'"
      "ready_pool (renderer_pool r')" for fb a b c d r' m t'
    using that unfolding initialised_def
    by (auto simp: renderer_objects_def framebuffer_objects_def with_targets_def elim!: grows_cong)
  have start: "ensures (hard_init debug_build api fm origin (r\<lparr>screen_width := to_size fm w, screen_height := to_size fm h\<rparr>)) t Q"
    if "\<And>r' t'. grows t (renderer_objects debug_build r') t' \<Longrightarrow> ready_pool (renderer_pool r') \<Longrightarrow> Q r' t'" for Q
    by (rule hard_init_grows [OF assms grows_refl [of t]]) (simp add: that)
  show ?thesis
    unfolding renderer_init_def init_settings_def
    by (rule start | rule ensures_rules assms(1) | assumption | rule fin | simp)+
qed

subsection \<open>Releasing\<close>

text \<open>The dual of \<open>grows\<close>: the calls since \<open>t0\<close> release exactly \<open>D\<close>.\<close>

definition frees :: "'f trace \<Rightarrow> (gl_kind \<Rightarrow> nat list) \<Rightarrow> 'f trace \<Rightarrow> bool" where
  "frees t0 D t \<longleftrightarrow> (\<exists>cs. t = t0 @ cs \<and> (\<forall>k L. live_from k L cs = L - set (D k)))"

lemma frees_refl: "frees t (\<lambda>k. []) t"
  by (simp add: frees_def)

lemma frees_cong: "frees t D t' \<Longrightarrow> (\<And>k. set (D k) = set (D' k)) \<Longrightarrow> frees t D' t'"
  by (auto simp: frees_def)

lemma emits_frees:
  assumes "frees t0 D t" and "\<And>k L. live_from k L cs = L - set (D' k)"
    and "\<And>t'. frees t0 (\<lambda>k. D k @ D' k) t' \<Longrightarrow> Q () t'"
  shows "ensures (emits cs) t Q"
proof -
  obtain ds where "t = t0 @ ds" "\<And>k L. live_from k L ds = L - set (D k)" using assms(1) by (auto simp: frees_def)
  then have "frees t0 (\<lambda>k. D k @ D' k) (t @ cs)"
    unfolding frees_def using assms(2) by (intro exI [of _ "ds @ cs"]) auto
  then show ?thesis by (intro ensures_emits assms(3))
qed

lemma deletes_frees: "live_from k L (map (Delete k') ns) = L - set (objects k' ns k)"
  by (simp add: objects_def)

lemma unload_frees:
  assumes "frees t0 D t" and "\<And>t'. frees t0 (\<lambda>k. D k @ shader_objects s k) t' \<Longrightarrow> Q () t'"
  shows "ensures (shader_unload s) t Q"
  unfolding shader_unload_def
  by (rule emits_frees [OF assms(1), where D' = "shader_objects s"], force simp: shader_objects_def objects_def, erule assms(2))

lemma pool_delete_frees:
  assumes "frees t0 D t" and "\<And>t'. frees t0 (\<lambda>k. D k @ objects VertexArray [vao (pool_mesh p)] k @
      objects Buffer (vbos (pool_mesh p)) k) t' \<Longrightarrow> Q () t'"
  shows "ensures (pool_delete p) t Q"
  unfolding pool_delete_def mesh_delete_def
  by (rule emits_frees [OF assms(1), where D' = "\<lambda>k. objects VertexArray [vao (pool_mesh p)] k @ objects Buffer (vbos (pool_mesh p)) k"],
    force simp: objects_def, erule assms(2))

definition buffers_of_term :: "'f renderer \<Rightarrow> nat list" where
  "buffers_of_term r = [matrices_ubo r, g_buffer r, g_buffer_depth r, g_buffer_position r, g_buffer_normal r, g_buffer_albedo r]"

definition term_objects :: "bool \<Rightarrow> 'f renderer \<Rightarrow> gl_kind \<Rightarrow> nat list" where
  "term_objects debug_build r k =
     objects Buffer (buffers_of_term r @ vbos (pool_mesh (renderer_pool r))) k @
     objects VertexArray [vao (pool_mesh (renderer_pool r)), quad_vao r] k @
     shader_objects (sprite_shader r) k @ shader_objects (lighting_shader r) k @
     (if debug_build \<and> debug_enabled r then shader_objects (debug_shader r) k else [])"

lemma renderer_term_frees: "ensures (renderer_term debug_build False r) t (\<lambda>_. frees t (term_objects debug_build r))"
proof -
  have buffers: "ensures (emits [Delete Buffer (matrices_ubo r), Delete Buffer (g_buffer r), Delete Buffer (g_buffer_depth r),
      Delete Buffer (g_buffer_position r), Delete Buffer (g_buffer_normal r), Delete Buffer (g_buffer_albedo r)]) t Q"
    if "\<And>t'. frees t (\<lambda>k. [] @ objects Buffer (buffers_of_term r) k) t' \<Longrightarrow> Q () t'" for Q
    by (rule emits_frees [OF frees_refl [of t], where D' = "objects Buffer (buffers_of_term r)"],
      force simp: objects_def buffers_of_term_def, erule that)
  have vao: "ensures (emits [Delete VertexArray n]) t1 Q"
    if "frees t D t1" "\<And>t'. frees t (\<lambda>k. D k @ objects VertexArray [n] k) t' \<Longrightarrow> Q () t'" for n t1 Q D
    by (rule emits_frees [OF that(1), where D' = "objects VertexArray [n]"], force simp: objects_def, erule that(2))
  have fin: "frees t (term_objects debug_build r) t'" if "frees t D t'" "\<And>k. set (D k) = set (term_objects debug_build r k)" for D t'
    by (rule frees_cong [OF that])
  show ?thesis
    unfolding renderer_term_def
    by (rule buffers vao unload_frees pool_delete_frees | rule ensures_bind ensures_if ensures_return | assumption |
        (erule fin, force simp: term_objects_def objects_def) | simp)+
qed

text \<open>What an initialised renderer that is terminated leaves behind.\<close>

definition leaked :: "'f renderer \<Rightarrow> gl_kind \<Rightarrow> nat list" where
  "leaked r k = objects Framebuffer [g_buffer r] k @ objects Renderbuffer [g_buffer_depth r] k @
     objects Texture [tbo_tex (renderer_pool r), g_buffer_position r, g_buffer_normal r, g_buffer_albedo r] k @
     shader_objects (background_shader r) k @ objects Buffer [quad_vbo r, tbo (renderer_pool r)] k"

definition misfreed :: "'f renderer \<Rightarrow> gl_kind \<Rightarrow> nat list" where
  "misfreed r = objects Buffer [g_buffer r, g_buffer_depth r, g_buffer_position r, g_buffer_normal r, g_buffer_albedo r]"

text \<open>
  \<open>term\<close> does not undo \<open>init\<close>. It leaves the framebuffer, the renderbuffer, the textures of the
  targets and of the sprites, the background shader, the buffer of the quad and the texture buffer
  of the sprites behind, and since it deletes the objects of the framebuffer as buffers, it deletes
  those buffers of other parts of the program that have the same names.
\<close>

theorem term_leaks_and_misfrees:
  assumes "gl_documented api" and "all_load api"
  shows "\<exists>r t1 t2. renderer_init debug_build api fm origin w h False r0 t = (Inr r, t1) \<and>
    renderer_term debug_build False r t1 = (Inr (), t2) \<and>
    (\<forall>k. live_names k t2 = (live_names k t \<union> set (leaked r k)) - set (misfreed r k) \<and>
       distinct (leaked r k) \<and> set (leaked r k) \<inter> live_names k t = {})"
proof -
  obtain r t1 where init: "renderer_init debug_build api fm origin w h False r0 t = (Inr r, t1)"
    and g: "grows t (\<lambda>k. renderer_objects debug_build r k @ framebuffer_objects r k) t1"
    using renderer_init_grows [OF assms, of debug_build fm origin w h r0 t] by (auto simp: ensures_def initialised_def)
  obtain cs where cs: "renderer_term debug_build False r t1 = (Inr (), t1 @ cs)"
    "\<And>k L. live_from k L cs = L - set (term_objects debug_build r k)"
    using renderer_term_frees [of debug_build r t1] by (auto simp: ensures_def frees_def)
  have "live_names k (t1 @ cs) = (live_names k t \<union> set (leaked r k)) - set (misfreed r k) \<and>
       distinct (leaked r k) \<and> set (leaked r k) \<inter> live_names k t = {}" for k
    using g [unfolded grows_def, rule_format, of k] cs(2) [of k]
    by (cases k; cases "debug_build \<and> debug_enabled r")
      (auto simp: leaked_def misfreed_def term_objects_def buffers_of_term_def renderer_objects_def framebuffer_objects_def pool_objects_def shader_objects_def objects_def)
  then show ?thesis using init cs(1) by blast
qed

definition example_frame_math :: "int frame_math" where
  "example_frame_math = \<lparr>sprites_fm = int_math, to_size = (\<lambda>x. x), perspective = (\<lambda>w h. [w, h]), fifth = 0\<rparr>"

lemma counting_all_load: "all_load counting_api"
  by (simp add: all_load_def counting_api_def)

lemma term_leaks_and_misfrees_witness:
  "\<forall>r0 :: int renderer. \<exists>r t1 t2. renderer_init False counting_api example_frame_math \<lparr>vec_x = 0, vec_y = 0\<rparr> 640 480 False r0 [] = (Inr r, t1) \<and>
    renderer_term False False r t1 = (Inr (), t2) \<and> live_names Framebuffer t2 = {g_buffer r} \<and> card (live_names Texture t2) = 4" (is "\<forall>r0. ?Q r0")
proof
  fix r0 :: "int renderer"
  obtain r t1 t2 where r: "renderer_init False counting_api example_frame_math \<lparr>vec_x = 0, vec_y = 0\<rparr> 640 480 False r0 [] = (Inr r, t1)"
      "renderer_term False False r t1 = (Inr (), t2)"
    and l: "\<And>k. live_names k t2 = (live_names k ([] :: int trace) \<union> set (leaked r k)) - set (misfreed r k)" "\<And>k. distinct (leaked r k)"
    using term_leaks_and_misfrees [OF counting_documented counting_all_load, of False example_frame_math "\<lparr>vec_x = 0, vec_y = 0\<rparr>" 640 480 r0 "[]"]
    by blast
  have "live_names Framebuffer t2 = {g_buffer r}" "live_names Texture t2 = set (leaked r Texture)" "length (leaked r Texture) = 4"
    unfolding l(1) by (simp_all add: leaked_def misfreed_def shader_objects_def objects_def)
  then show "?Q r0" using r l(2) [of Texture] by (metis distinct_card)
qed

subsection \<open>Frames\<close>

text \<open>The calls of a frame: no object is created or deleted, and only objects of \<open>S\<close> are bound.\<close>

fun call_in :: "(gl_kind \<Rightarrow> nat set) \<Rightarrow> 'f gl_call \<Rightarrow> bool" where
  "call_in S (Bind k s n) = (n = 0 \<or> n \<in> S k)"
| "call_in S (Gl s as) = True"
| "call_in S c = False"

text \<open>The calls of \<open>C\<close> are among them, in this order.\<close>

definition frame_calls :: "'f trace \<Rightarrow> (gl_kind \<Rightarrow> nat set) \<Rightarrow> 'f gl_call list \<Rightarrow> 'f trace \<Rightarrow> bool" where
  "frame_calls t0 S C t \<longleftrightarrow> (\<exists>cs. t = t0 @ cs \<and> (\<forall>c \<in> set cs. call_in S c) \<and> subseq C cs)"

lemma frame_calls_refl: "frame_calls t S [] t"
  by (simp add: frame_calls_def)

lemma frame_calls_more: "frame_calls t0 S C t \<Longrightarrow> \<forall>c \<in> set cs. call_in S c \<Longrightarrow> frame_calls t0 S (C @ cs) (t @ cs)"
  unfolding frame_calls_def by (fastforce intro: list_emb_append_mono)

lemma emits_frame:
  assumes "frame_calls t0 S C t" and "\<forall>c \<in> set cs. call_in S c" and "\<And>t'. frame_calls t0 S (C @ cs) t' \<Longrightarrow> Q () t'"
  shows "ensures (emits cs) t Q"
  by (rule ensures_emits) (rule assms(3) [OF frame_calls_more [OF assms(1,2)]])

lemma frame_calls_weaken: "frame_calls t0 S C t \<Longrightarrow> subseq C' C \<Longrightarrow> frame_calls t0 S C' t"
  unfolding frame_calls_def using subseq_order.trans by blast

lemma subseq_left: "subseq C (C @ cs)"
  by (rule list_emb_prefix) simp

lemma shader_use_frame:
  assumes "frame_calls t0 S C t" and "\<And>t'. frame_calls t0 S (C @ [Gl ''glUseProgram'' [N (int (program_id s))]]) t' \<Longrightarrow> Q () t'"
  shows "ensures (shader_use s) t Q"
  unfolding shader_use_def
  by (rule emits_frame [OF assms(1)], simp, erule assms(2))

lemma set_uniform_frame:
  assumes "frame_calls t0 S C t" and "\<And>t'. frame_calls t0 S C t' \<Longrightarrow> Q () t'"
  shows "ensures (set_uniform u (UInt n)) t Q"
  unfolding set_uniform.simps
  by (rule emits_frame [OF assms(1)], simp, rule assms(2), erule frame_calls_weaken, rule subseq_left)

lemma uniform_frame:
  assumes "frame_calls t0 S C t" and "\<And>u t'. frame_calls t0 S C t' \<Longrightarrow> Q u t'"
  shows "ensures (uniform api name s) t Q"
  unfolding uniform_def
  by (rule ensures_bind, rule emits_frame [OF assms(1)], simp, rule ensures_return, rule assms(2),
    erule frame_calls_weaken, rule subseq_left)

lemma bind_target_frame:
  assumes "frame_calls t0 S C t" and "tex \<in> S Texture"
    and "\<And>t'. frame_calls t0 S (C @ [Gl ''glActiveTexture'' [E un], Bind Texture ''GL_TEXTURE_2D'' tex]) t' \<Longrightarrow> Q () t'"
  shows "ensures (bind_target api sh un tex name n) t Q"
  unfolding bind_target_def
  by (rule ensures_bind, rule emits_frame [OF assms(1)], simp add: assms(2), rule ensures_bind, rule uniform_frame,
    assumption, rule set_uniform_frame, assumption, erule assms(3))

lemma debug_views_in: "set bs \<subseteq> S Texture \<Longrightarrow> \<forall>c \<in> set (fst (debug_views r x width height bs y)). call_in S c"
  by (induction bs arbitrary: y) (auto simp: debug_view_def Let_def case_prod_beta)

definition pool_names :: "'f sprite_pool \<Rightarrow> gl_kind \<Rightarrow> nat set" where
  "pool_names p k = set (objects Buffer [tbo p] k @ objects Texture [tbo_tex p] k @ objects VertexArray [vao (pool_mesh p)] k)"

lemma pool_render_frame:
  assumes "pool_ok p" and "frame_calls t0 S C t" and "\<forall>k. pool_names p k \<subseteq> S k"
    and "\<And>p' n t'. pool_ok p' \<Longrightarrow> pool_names p' = pool_names p \<Longrightarrow> (visible_sprites p = - 1 \<longrightarrow> n = length (filter (sprite_visible fm bounds) (unsorted_buffer p))) \<Longrightarrow>
      frame_calls t0 S (C @ draw_calls p n) t' \<Longrightarrow> Q p' t'"
  shows "ensures (pool_render fm bounds p) t Q"
proof -
  have names: "tbo p \<in> S Buffer" "tbo_tex p \<in> S Texture" "vao (pool_mesh p) \<in> S VertexArray"
    using assms(3) by (auto simp: pool_names_def objects_def dest: spec [of _ Buffer] spec [of _ Texture] spec [of _ VertexArray])
  have draw: "\<forall>c \<in> set (draw_calls p n). call_in S c" for n using names by (simp add: draw_calls_def)
  show ?thesis
  proof (cases "visible_sprites p = - 1 \<or> prev_center p \<noteq> midpoint fm (top_left bounds) (bottom_right bounds)")
    case True
    let ?vis = "filter (sprite_visible fm bounds) (unsorted_buffer p)"
    define p' where "p' = p\<lparr>prev_center := midpoint fm (top_left bounds) (bottom_right bounds),
      visible_sprites := of_nat (length ?vis), sorted_store := map Some ?vis @ drop (length ?vis) (sorted_store p),
      beyond_size := beyond_size p \<or> ?vis \<noteq> []\<rparr>"
    obtain up where up: "upload_sprites fm p' t = (Inr (), t @ up)"
      "pool_render fm bounds p t = (Inr p', t @ up @ draw_calls p' (length ?vis))"
      using pool_render_culled [OF assms(1) True, of t] unfolding p'_def by blast
    have "\<forall>c \<in> set up. call_in S c" using up(1) names by (auto simp: upload_sprites_def emits_apply p'_def)
    moreover have d: "draw_calls p' = draw_calls p" by (simp add: fun_eq_iff draw_calls_def p'_def)
    ultimately have "\<forall>c \<in> set (up @ draw_calls p (length ?vis)). call_in S c" using draw by auto
    from frame_calls_more [OF assms(2) this]
    have "frame_calls t0 S (C @ draw_calls p (length ?vis)) (t @ up @ draw_calls p (length ?vis))"
      by (rule frame_calls_weaken) (intro list_emb_append_mono list_emb_append2, simp_all)
    moreover have "pool_ok p'"
      using assms(1) length_filter_le [of "sprite_visible fm bounds" "unsorted_buffer p"] by (simp add: pool_ok_def p'_def)
    moreover have "pool_names p' = pool_names p" by (simp add: pool_names_def fun_eq_iff p'_def)
    ultimately have "Q p' (t @ up @ draw_calls p (length ?vis))"
      by (intro assms(4) [of p' "length ?vis"]) simp_all
    then show ?thesis using up(2) d by (simp add: ensures_def)
  next
    case False
    then have "pool_render fm bounds p t = (Inr p, t @ draw_calls p (unat (visible_sprites p)))"
      using assms(1) by (intro pool_render_cached) (simp_all add: pool_ok_def)
    then show ?thesis
      using assms(4) [OF assms(1) refl _ frame_calls_more [OF assms(2) draw]] False by (simp add: ensures_def)
  qed
qed

definition frame_names :: "'f renderer \<Rightarrow> gl_kind \<Rightarrow> nat set" where
  "frame_names r k = set (objects Buffer [matrices_ubo r] k @ objects Texture [g_buffer_position r, g_buffer_normal r, g_buffer_albedo r] k @
     objects Framebuffer [g_buffer r] k @ objects VertexArray [quad_vao r] k) \<union> pool_names (renderer_pool r) k"

lemma debug_overlay_frame:
  assumes "frame_calls t0 S C t" and "frame_names r Texture \<subseteq> S Texture" and "quad_vao r \<in> S VertexArray"
    and "\<And>t'. frame_calls t0 S C t' \<Longrightarrow> Q () t'"
  shows "ensures (debug_overlay fm r) t Q"
proof -
  have emits: "ensures (emits cs) t Q"
    if "frame_calls t0 S C t" "\<forall>c \<in> set cs. call_in S c" "\<And>t'. frame_calls t0 S C t' \<Longrightarrow> Q () t'" for cs t and Q :: "unit \<Rightarrow> 'a trace \<Rightarrow> bool"
    by (rule emits_frame [OF that(1,2)], rule that(3), erule frame_calls_weaken, rule subseq_left)
  have shader: "ensures (shader_use sh) t Q" if "frame_calls t0 S C t" "\<And>t'. frame_calls t0 S C t' \<Longrightarrow> Q () t'" for sh t and Q :: "unit \<Rightarrow> 'a trace \<Rightarrow> bool"
    by (rule shader_use_frame [OF that(1)], rule that(2), erule frame_calls_weaken, rule subseq_left)
  have views: "\<forall>c \<in> set (fst (debug_views r x w h [g_buffer_position r, g_buffer_normal r, g_buffer_albedo r] y)). call_in S c" for x y w h
    using assms(2) by (intro debug_views_in) (simp add: frame_names_def objects_def)
  show ?thesis
    unfolding debug_overlay_def Let_def
    by (rule emits shader set_uniform_frame | rule ensures_bind ensures_return ensures_prod | rule assms(1) views |
        assumption | erule assms(4) | simp add: assms(3))+
qed

text \<open>
  How a frame starts, and its other essential calls: the sprites are drawn into the geometry buffer, then
  the full-screen quad with the lighting shader and the three targets as textures, and the depths are copied.
\<close>

definition frame_head :: "'f frame_math \<Rightarrow> 'f list \<Rightarrow> 'f renderer \<Rightarrow> 'f gl_call list" where
  "frame_head fm view r =
     [Gl ''glViewport'' [N 0, N 0, N (screen_width r), N (screen_height r)],
      Bind Buffer ''GL_UNIFORM_BUFFER'' (matrices_ubo r),
      Gl ''glBufferSubData'' [E ''GL_UNIFORM_BUFFER'', N 64, N 64, P (Floats view)],
      Bind Buffer ''GL_UNIFORM_BUFFER'' 0,
      Bind Framebuffer ''GL_FRAMEBUFFER'' (g_buffer r),
      Gl ''glClearColor'' (map (\<lambda>i. F (float_of_int (sprites_fm fm) i)) [0, 0, 0, 1]),
      Gl ''glClear'' [E ''GL_COLOR_BUFFER_BIT | GL_DEPTH_BUFFER_BIT''],
      Gl ''glDisable'' [E ''GL_BLEND'']]"

definition frame_order :: "'f renderer \<Rightarrow> nat \<Rightarrow> 'f gl_call list" where
  "frame_order r n =
     [Gl ''glUseProgram'' [N (int (program_id (sprite_shader r)))],
      Bind VertexArray [] (vao (pool_mesh (renderer_pool r))),
      Gl ''glDrawArraysInstanced'' [E ''GL_TRIANGLE_STRIP'', N 0, N (int (the (vert_count (pool_mesh (renderer_pool r))))), N (int n)],
      Gl ''glUseProgram'' [N (int (program_id (lighting_shader r)))],
      Bind Framebuffer ''GL_FRAMEBUFFER'' 0,
      Gl ''glActiveTexture'' [E ''GL_TEXTURE0''], Bind Texture ''GL_TEXTURE_2D'' (g_buffer_position r),
      Gl ''glActiveTexture'' [E ''GL_TEXTURE1''], Bind Texture ''GL_TEXTURE_2D'' (g_buffer_normal r),
      Gl ''glActiveTexture'' [E ''GL_TEXTURE2''], Bind Texture ''GL_TEXTURE_2D'' (g_buffer_albedo r),
      Bind VertexArray [] (quad_vao r),
      Gl ''glClear'' [E ''GL_COLOR_BUFFER_BIT | GL_DEPTH_BUFFER_BIT''],
      Gl ''glDrawArrays'' [E ''GL_TRIANGLE_STRIP'', N 0, N 4],
      Bind Framebuffer ''GL_READ_FRAMEBUFFER'' (g_buffer r),
      Bind Framebuffer ''GL_DRAW_FRAMEBUFFER'' 0,
      Gl ''glBlitFramebuffer'' [N 0, N 0, N (screen_width r), N (screen_height r),
        N 0, N 0, N (screen_width r), N (screen_height r), E ''GL_DEPTH_BUFFER_BIT'', E ''GL_NEAREST'']]"

lemma render_frame:
  fixes r :: "'f::linorder renderer"
  assumes "pool_ok (renderer_pool r)" and "\<forall>k. frame_names r k \<subseteq> S k"
  shows "ensures (renderer_render debug_build api fm bounds view r) t (\<lambda>r' t'. \<exists>n.
    pool_ok (renderer_pool r') \<and>
    (visible_sprites (renderer_pool r) = - 1 \<longrightarrow>
       n = length (filter (sprite_visible (sprites_fm fm) bounds) (unsorted_buffer (renderer_pool r)))) \<and>
    r' = r\<lparr>renderer_pool := renderer_pool r'\<rparr> \<and> frame_names r' = frame_names r \<and>
    frame_calls (t @ frame_head fm view r) S (frame_order r n) t')"
proof -
  have s: "matrices_ubo r \<in> S Buffer" "g_buffer_position r \<in> S Texture" "g_buffer_normal r \<in> S Texture" "g_buffer_albedo r \<in> S Texture"
    "g_buffer r \<in> S Framebuffer" "quad_vao r \<in> S VertexArray" "frame_names r Texture \<subseteq> S Texture" "\<forall>k. pool_names (renderer_pool r) k \<subseteq> S k"
    using assms(2) by (auto simp: frame_names_def objects_def dest: spec [of _ Buffer] spec [of _ Texture] spec [of _ Framebuffer] spec [of _ VertexArray])
  have first: "ensures (emits (frame_head fm view r)) t Q" if "frame_calls (t @ frame_head fm view r) S [] (t @ frame_head fm view r) \<Longrightarrow> Q () (t @ frame_head fm view r)" for Q
    using that frame_calls_refl by (intro ensures_emits) blast
  have start: "[Gl ''glViewport'' [N 0, N 0, N (screen_width r), N (screen_height r)],
            Bind Buffer ''GL_UNIFORM_BUFFER'' (matrices_ubo r),
            Gl ''glBufferSubData'' [E ''GL_UNIFORM_BUFFER'', N 64, N 64, P (Floats view)],
            Bind Buffer ''GL_UNIFORM_BUFFER'' 0,
            Bind Framebuffer ''GL_FRAMEBUFFER'' (g_buffer r)] @
           [Gl ''glClearColor'' (map F [float_of_int (sprites_fm fm) 0, float_of_int (sprites_fm fm) 0, float_of_int (sprites_fm fm) 0, float_of_int (sprites_fm fm) 1]),
            Gl ''glClear'' [E ''GL_COLOR_BUFFER_BIT | GL_DEPTH_BUFFER_BIT'']] @
           [Gl ''glDisable'' [E ''GL_BLEND'']] = frame_head fm view r"
    by (simp add: frame_head_def)
  show ?thesis
    unfolding renderer_render_def Let_def clear_calls_def start
    by (rule first | rule emits_frame shader_use_frame bind_target_frame debug_overlay_frame |
       rule pool_render_frame [OF assms(1)] | rule ensures_bind ensures_return ensures_if | assumption |
       rule exI, rule conjI, simp, rule conjI, assumption, rule conjI, simp, rule conjI, simp add: frame_names_def fun_eq_iff, erule frame_calls_weaken, simp add: frame_order_def draw_calls_def | simp add: s)+
qed

lemma frame_names_update: "frame_names (update_sprites sprites r) = frame_names r"
  by (simp add: frame_names_def pool_names_def update_sprites_def pool_update_def Let_def fun_eq_iff)

lemma frame_lists_update:
  "frame_head fm view (update_sprites sprites r) = frame_head fm view r"
  "frame_order (update_sprites sprites r) n = frame_order r n"
  by (simp_all add: frame_head_def frame_order_def update_sprites_def pool_update_def Let_def)

text \<open>
  C35: with documented OpenGL behaviour and shaders that compile and link, a frame of an initialised renderer returns, creates
  and deletes nothing and binds only live objects. It starts by uploading its view to the uniform buffer and clearing the geometry
  buffer; then it draws, in this order, one instance for every sprite of the last update that is in view, and the
  full-screen quad with the lighting shader and the three targets as textures, and copies the depths.
\<close>

theorem frame_draws_and_binds_live:
  fixes fm :: "'f::linorder frame_math"
  assumes "gl_documented api" and "all_load api" and "length sprites < 2 ^ 32 - 1"
  shows "\<exists>r t1 r' cs. renderer_init debug_build api fm origin w h False r0 t = (Inr r, t1) \<and>
    renderer_render debug_build api fm bounds view (update_sprites sprites r) t1 = (Inr r', t1 @ frame_head fm view r @ cs) \<and>
    (\<forall>c \<in> set (frame_head fm view r @ cs). call_in (\<lambda>k. live_names k t1) c) \<and>
    subseq (frame_order r (length (filter (sprite_visible (sprites_fm fm) bounds) sprites))) cs"
proof -
  obtain r t1 where r: "renderer_init debug_build api fm origin w h False r0 t = (Inr r, t1)"
    and g: "grows t (\<lambda>k. renderer_objects debug_build r k @ framebuffer_objects r k) t1" and p: "ready_pool (renderer_pool r)"
    using renderer_init_grows [OF assms(1,2), of debug_build fm origin w h r0 t] by (auto simp: ensures_def initialised_def)
  let ?r = "update_sprites sprites r"
  have u: "unsorted_buffer (renderer_pool ?r) = sprites" "visible_sprites (renderer_pool ?r) = - 1"
    using p by (simp_all add: update_sprites_def pool_update_simps [OF assms(3)] ready_pool_def)
  have ok: "pool_ok (renderer_pool ?r)"
    using p by (simp add: update_sprites_def ready_pool_def pool_update_ok [OF _ assms(3)])
  have "frame_names r k \<subseteq> live_names k t1" for k
    using g [unfolded grows_def, rule_format, of k]
    by (auto simp: frame_names_def pool_names_def renderer_objects_def framebuffer_objects_def pool_objects_def)
  then have names: "\<forall>k. frame_names ?r k \<subseteq> live_names k t1" by (simp add: frame_names_update)
  then have "matrices_ubo r \<in> live_names Buffer t1" "g_buffer r \<in> live_names Framebuffer t1"
    unfolding frame_names_update by (auto simp: frame_names_def objects_def dest: spec [of _ Buffer] spec [of _ Framebuffer])
  then have "\<forall>c \<in> set (frame_head fm view r). call_in (\<lambda>k. live_names k t1) c" by (simp add: frame_head_def)
  then show ?thesis
    using render_frame [OF ok names, of debug_build api fm bounds view t1] u r
    by (fastforce simp: ensures_def frame_calls_def frame_lists_update)
qed

lemma frame_draws_and_binds_live_witness:
  "\<forall>r0 :: int renderer. \<exists>r t1 r' cs. renderer_init True counting_api example_frame_math \<lparr>vec_x = 0, vec_y = 0\<rparr> 640 480 False r0 [] = (Inr r, t1) \<and>
    renderer_render True counting_api example_frame_math example_bounds [] (update_sprites [sprite_at 3, sprite_at 50, sprite_at 4] r) t1 =
      (Inr r', t1 @ frame_head example_frame_math [] r @ cs) \<and> subseq (frame_order r 2) cs" (is "\<forall>r0. ?Q r0")
proof
  fix r0 :: "int renderer"
  have v: "length (filter (sprite_visible (sprites_fm example_frame_math) example_bounds) [sprite_at 3, sprite_at 50, sprite_at 4]) = 2"
    by (simp add: sprite_visible_def int_math_def example_bounds_def sprite_at_def example_frame_math_def)
  have l: "length [sprite_at 3, sprite_at 50, sprite_at 4] < 2 ^ 32 - 1" by simp
  from frame_draws_and_binds_live [OF counting_documented counting_all_load l, of True example_frame_math "\<lparr>vec_x = 0, vec_y = 0\<rparr>" 640 480 r0 "[]"
    example_bounds "[]"]
  show "?Q r0" unfolding v by blast
qed

subsection \<open>Resizing\<close>

lemma soft_init_grows:
  assumes "gl_documented api"
  shows "ensures (renderer_init debug_build api fm origin w h True r) t (\<lambda>r' t'. grows t (framebuffer_objects r') t' \<and>
    matrices_ubo r' = matrices_ubo r \<and> renderer_pool r' = renderer_pool r)"
proof -
  have fin: "grows t (framebuffer_objects (with_targets fb a b c d r')) t'" if "grows t (\<lambda>k. [] @ framebuffer_objects (with_targets fb a b c d r') k) t'"
    for fb a b c d r' t'
    using that by simp
  show ?thesis
    unfolding renderer_init_def init_settings_def
    by (rule load_projection_grows [OF grows_refl [of t]] | rule ensures_rules assms | assumption | rule conjI, erule fin,
      simp add: with_targets_def | simp)+
qed

lemma soft_term_frees:
  "ensures (renderer_term debug_build True r) t (\<lambda>_. frees t (objects Buffer (buffers_of_term r)))"
proof -
  have "ensures (emits [Delete Buffer (matrices_ubo r), Delete Buffer (g_buffer r), Delete Buffer (g_buffer_depth r),
      Delete Buffer (g_buffer_position r), Delete Buffer (g_buffer_normal r), Delete Buffer (g_buffer_albedo r)]) t
      (\<lambda>_. frees t (objects Buffer (buffers_of_term r)))"
    by (rule emits_frees [OF frees_refl [of t], where D' = "objects Buffer (buffers_of_term r)"],
      force simp: objects_def buffers_of_term_def, simp)
  then show ?thesis unfolding renderer_term_def by (auto simp: ensures_def bindE_def)
qed

text \<open>Some frames, each with its bounds, its view and the sprites of the update before it.\<close>

fun render_frames :: "bool \<Rightarrow> 'f gl_api \<Rightarrow> 'f::linorder frame_math \<Rightarrow> ('f rect \<times> 'f list \<times> 'f sprite list) list \<Rightarrow> 'f renderer \<Rightarrow>
    ('f, 'f renderer) glm" where
  "render_frames debug_build api fm [] r = returnE r"
| "render_frames debug_build api fm ((bounds, view, sprites) # fs) r =
     bindE (renderer_render debug_build api fm bounds view (update_sprites sprites r)) (render_frames debug_build api fm fs)"

lemma live_frame: "\<forall>c \<in> set cs. call_in S c \<Longrightarrow> live_from k L cs = L"
proof (rule live_neutral, rule ballI)
  fix c
  assume "\<forall>c \<in> set cs. call_in S c" "c \<in> set cs"
  then show "neutral c" by (cases c) auto
qed

text \<open>One frame of a renderer whose pool is in order, in terms of what it keeps.\<close>

lemma one_frame:
  fixes r :: "'f::linorder renderer"
  assumes "pool_ok (renderer_pool r)" and "length sprites < 2 ^ 32 - 1"
  shows "\<exists>r' cs. renderer_render debug_build api fm bounds view (update_sprites sprites r) t = (Inr r', t @ frame_head fm view r @ cs) \<and>
    pool_ok (renderer_pool r') \<and> matrices_ubo r' = matrices_ubo r \<and> (\<forall>k. live_names k (t @ frame_head fm view r @ cs) = live_names k t)"
proof -
  let ?r = "update_sprites sprites r"
  have ok: "pool_ok (renderer_pool ?r)" using pool_update_ok [OF assms] by (simp add: update_sprites_def)
  obtain r' cs where r': "renderer_render debug_build api fm bounds view ?r t = (Inr r', t @ frame_head fm view r @ cs)"
    "pool_ok (renderer_pool r')" "r' = ?r\<lparr>renderer_pool := renderer_pool r'\<rparr>" "\<forall>c \<in> set cs. call_in (frame_names ?r) c"
    using render_frame [OF ok, of "frame_names ?r" debug_build api fm bounds view t] by (auto simp: ensures_def frame_calls_def frame_lists_update)
  have "\<forall>c \<in> set (frame_head fm view r). neutral c" by (simp add: frame_head_def)
  then have "live_names k (t @ frame_head fm view r @ cs) = live_names k t" for k
    using live_frame [OF r'(4)] live_neutral by simp
  moreover have "matrices_ubo r' = matrices_ubo r" using arg_cong [OF r'(3), of matrices_ubo] by (simp add: update_sprites_def)
  ultimately show ?thesis using r'(1,2) by blast
qed

lemma frames_keep:
  fixes r :: "'f::linorder renderer"
  assumes "\<forall>(b, v, ss) \<in> set fs. length ss < 2 ^ 32 - 1" and "pool_ok (renderer_pool r)"
  shows "\<exists>r' t'. render_frames debug_build api fm fs r t = (Inr r', t') \<and> pool_ok (renderer_pool r') \<and>
    matrices_ubo r' = matrices_ubo r \<and> (\<forall>k. live_names k t' = live_names k t)"
  using assms
proof (induction fs arbitrary: r t)
  case (Cons f fs)
  obtain bounds view sprites where f: "f = (bounds, view, sprites)" by (cases f)
  have "length sprites < 2 ^ 32 - 1" using Cons.prems(1) by (simp add: f)
  from one_frame [OF Cons.prems(2) this, of debug_build api fm bounds view t] obtain r1 cs
    where r1: "renderer_render debug_build api fm bounds view (update_sprites sprites r) t = (Inr r1, t @ frame_head fm view r @ cs)"
      "pool_ok (renderer_pool r1)" "matrices_ubo r1 = matrices_ubo r" "\<forall>k. live_names k (t @ frame_head fm view r @ cs) = live_names k t" by blast
  have "\<forall>(b, v, ss) \<in> set fs. length ss < 2 ^ 32 - 1" using Cons.prems(1) by simp
  from Cons.IH [OF this r1(2), of "t @ frame_head fm view r @ cs"] obtain r' t' where
    "render_frames debug_build api fm fs r1 (t @ frame_head fm view r @ cs) = (Inr r', t')" "pool_ok (renderer_pool r')"
    "matrices_ubo r' = matrices_ubo r1" "\<forall>k. live_names k t' = live_names k (t @ frame_head fm view r @ cs)" by blast
  then show ?case using r1 by (simp add: f bindE_def)
qed simp

text \<open>
  C37: resizing leaves the renderer without its uniform buffer. \<open>reset\<close> deletes the buffer of the
  matrices together with the buffers that have the names of the other objects, and does not make a new
  one. Whatever frames follow, each binds the deleted name and uploads its view while no
  such buffer is live; the framebuffer, the renderbuffer and the three
  textures of the old size stay alive beside the new ones.
\<close>

theorem reset_loses_uniform_buffer:
  fixes fm :: "'f::linorder frame_math"
  assumes "gl_documented api" and "all_load api" and "\<forall>(b, v, ss) \<in> set frames. length ss < 2 ^ 32 - 1" and "length sprites < 2 ^ 32 - 1"
  shows "\<exists>r t1 r' t2 r3 t3 r4 cs. renderer_init debug_build api fm origin w h False r0 t = (Inr r, t1) \<and>
    renderer_reset debug_build api fm origin w' h' r t1 = (Inr r', t2) \<and>
    render_frames debug_build api fm frames r' t2 = (Inr r3, t3) \<and>
    renderer_render debug_build api fm bounds view (update_sprites sprites r3) t3 = (Inr r4, t3 @
      [Gl ''glViewport'' [N 0, N 0, N (screen_width r3), N (screen_height r3)],
       Bind Buffer ''GL_UNIFORM_BUFFER'' (matrices_ubo r),
       Gl ''glBufferSubData'' [E ''GL_UNIFORM_BUFFER'', N 64, N 64, P (Floats view)],
       Bind Buffer ''GL_UNIFORM_BUFFER'' 0] @ cs) \<and>
    matrices_ubo r \<notin> live_names Buffer t3 \<and>
    live_names Buffer t2 = live_names Buffer t1 - set (buffers_of_term r) \<and>
    (\<forall>k. k \<noteq> Buffer \<longrightarrow> live_names k t2 = live_names k t1 \<union> set (framebuffer_objects r' k) \<and>
       set (framebuffer_objects r' k) \<inter> live_names k t1 = {})"
proof -
  obtain r t1 where r: "renderer_init debug_build api fm origin w h False r0 t = (Inr r, t1)" and p: "ready_pool (renderer_pool r)"
    using renderer_init_grows [OF assms(1,2), of debug_build fm origin w h r0 t] by (auto simp: ensures_def initialised_def)
  obtain ds where ds: "renderer_term debug_build True r t1 = (Inr (), t1 @ ds)"
    "\<And>k L. live_from k L ds = L - set (objects Buffer (buffers_of_term r) k)"
    using soft_term_frees [of debug_build r t1] by (auto simp: ensures_def frees_def)
  obtain r' t2 where r': "renderer_init debug_build api fm origin w' h' True r (t1 @ ds) = (Inr r', t2)"
    and g: "grows (t1 @ ds) (framebuffer_objects r') t2" and same: "matrices_ubo r' = matrices_ubo r" "renderer_pool r' = renderer_pool r"
    using soft_init_grows [OF assms(1), of debug_build fm origin w' h' r "t1 @ ds"] by (auto simp: ensures_def)
  have reset: "renderer_reset debug_build api fm origin w' h' r t1 = (Inr r', t2)"
    by (simp add: renderer_reset_def bindE_def ds(1) r')
  have "pool_ok (renderer_pool r')" using p by (simp add: same ready_pool_def)
  from frames_keep [OF assms(3) this, of debug_build api fm t2] obtain r3 t3
    where r3: "render_frames debug_build api fm frames r' t2 = (Inr r3, t3)" "pool_ok (renderer_pool r3)" "matrices_ubo r3 = matrices_ubo r"
      "\<forall>k. live_names k t3 = live_names k t2" unfolding same by blast
  obtain r4 cs where r4: "renderer_render debug_build api fm bounds view (update_sprites sprites r3) t3 = (Inr r4, t3 @ frame_head fm view r3 @ cs)"
    using one_frame [OF r3(2) assms(4), of debug_build api fm bounds view t3] by blast
  have k: "live_names k t2 = (live_names k t1 - set (objects Buffer (buffers_of_term r) k)) \<union> set (framebuffer_objects r' k)"
    "set (framebuffer_objects r' k) \<inter> (live_names k t1 - set (objects Buffer (buffers_of_term r) k)) = {}" for k
    using g [unfolded grows_def, rule_format, of k] by (simp_all add: ds(2))
  have b: "live_names Buffer t2 = live_names Buffer t1 - set (buffers_of_term r)"
    using k(1) [of Buffer] by (simp add: objects_def framebuffer_objects_def)
  moreover have "matrices_ubo r \<notin> live_names Buffer t3" unfolding r3(4) [rule_format] b by (simp add: buffers_of_term_def)
  moreover have "live_names k t2 = live_names k t1 \<union> set (framebuffer_objects r' k) \<and> set (framebuffer_objects r' k) \<inter> live_names k t1 = {}"
    if "k \<noteq> Buffer" for k
    using k [of k] that by (simp add: objects_def)
  moreover obtain tl where "frame_head fm view r3 @ cs = [Gl ''glViewport'' [N 0, N 0, N (screen_width r3), N (screen_height r3)],
       Bind Buffer ''GL_UNIFORM_BUFFER'' (matrices_ubo r),
       Gl ''glBufferSubData'' [E ''GL_UNIFORM_BUFFER'', N 64, N 64, P (Floats view)],
       Bind Buffer ''GL_UNIFORM_BUFFER'' 0] @ tl" by (simp add: frame_head_def r3(3))
  ultimately show ?thesis using r reset r3(1) r4 by metis
qed

lemma reset_loses_uniform_buffer_witness:
  "\<forall>r0 :: int renderer. \<exists>r t1 r' t2 r3 t3. renderer_init False counting_api example_frame_math \<lparr>vec_x = 0, vec_y = 0\<rparr> 640 480 False r0 [] = (Inr r, t1) \<and>
    renderer_reset False counting_api example_frame_math \<lparr>vec_x = 0, vec_y = 0\<rparr> 800 600 r t1 = (Inr r', t2) \<and>
    render_frames False counting_api example_frame_math [(example_bounds, [7], [sprite_at 3])] r' t2 = (Inr r3, t3) \<and>
    matrices_ubo r \<notin> live_names Buffer t3" (is "\<forall>r0. ?Q r0")
proof
  fix r0 :: "int renderer"
  have l: "\<forall>(b, v, ss) \<in> set [(example_bounds, [7], [sprite_at 3])]. length ss < 2 ^ 32 - 1" "length [sprite_at 4] < 2 ^ 32 - 1" by simp_all
  from reset_loses_uniform_buffer [OF counting_documented counting_all_load l, of False example_frame_math "\<lparr>vec_x = 0, vec_y = 0\<rparr>" 640 480 r0 "[]" 800 600
    example_bounds "[8]"]
  show "?Q r0" by blast
qed

end
