(* ===== verification/Culling.thy ===== *)
theory Culling
  imports Containers Geometry
begin

text \<open>
  Frustum culling in \<open>graphics/DeferredRenderer.cpp\<close>: \<open>sse_cull_spheres\<close>, which tests four
  spheres at a time in vector registers, and \<open>submitSprites\<close>, which removes what was culled.
  A register of four floats is a list of four values.
\<close>

subsection \<open>Registers\<close>

record 'f lane_math =
  fmul :: "'f \<Rightarrow> 'f \<Rightarrow> 'f"
  fadd :: "'f \<Rightarrow> 'f \<Rightarrow> 'f"
  fsub :: "'f \<Rightarrow> 'f \<Rightarrow> 'f"
  fzero :: 'f

text \<open>\<open>_MM_TRANSPOSE4_PS\<close>, and the lane-wise operations.\<close>

definition transpose4 :: "'f list list \<Rightarrow> 'f list list" where
  "transpose4 rows = map (\<lambda>i. map (\<lambda>r. r ! i) rows) [0, 1, 2, 3]"

definition set1 :: "'f \<Rightarrow> 'f list" where
  "set1 v = [v, v, v, v]"

abbreviation lanes :: "('a \<Rightarrow> 'b \<Rightarrow> 'c) \<Rightarrow> 'a list \<Rightarrow> 'b list \<Rightarrow> 'c list" where
  "lanes \<equiv> map2"

text \<open>
  \<open>_mm_cvtps_epi32\<close> of a comparison mask: all ones is not a number, which converts to the
  smallest integer.
\<close>

definition mask_to_int :: "bool \<Rightarrow> int" where
  "mask_to_int b = (if b then - (2 ^ 31) else 0)"

subsection \<open>Culling four spheres\<close>

definition load_spheres :: "'f vec4 list \<Rightarrow> 'f list list" where
  "load_spheres group4 = [map vec_x group4, map vec_y group4, map vec_z group4, map vec_w group4]"

definition plane_lanes :: "'f::linorder lane_math \<Rightarrow> 'f list list \<Rightarrow> 'f vec4 \<Rightarrow> bool list" where
  "plane_lanes fm regs plane =
     (let neg_radius = lanes (fsub fm) (set1 (fzero fm)) (regs ! 3);
          dot_x = lanes (fmul fm) (regs ! 0) (set1 (vec_x plane));
          dot_y = lanes (fmul fm) (regs ! 1) (set1 (vec_y plane));
          dot_z = lanes (fmul fm) (regs ! 2) (set1 (vec_z plane));
          sum_xy = lanes (fadd fm) dot_x dot_y;
          sum_zw = lanes (fadd fm) dot_z (set1 (vec_w plane));
          distance_to_plane = lanes (fadd fm) sum_xy sum_zw
      in lanes (\<le>) distance_to_plane neg_radius)"

definition cull_step :: "'f::linorder lane_math \<Rightarrow> 'f vec4 list \<Rightarrow> 'f vec4 list \<Rightarrow> bool list" where
  "cull_step fm planes group4 =
     (let regs = transpose4 (load_spheres group4)
      in foldl (\<lambda>res plane. lanes (\<or>) res (plane_lanes fm regs plane)) (replicate 4 False) planes)"

text \<open>
  The loop. The store goes to \<open>&culling_res_sse\<close>, the local pointer variable itself, so the array
  \<open>culling_res\<close> is returned as it was; the second result is what was last stored over the pointer,
  which is past its end and undefined as soon as there is a group.
\<close>

fun sse_cull_spheres :: "'f::linorder lane_math \<Rightarrow> 'f vec4 list \<Rightarrow> 'f vec4 list \<Rightarrow> int list \<Rightarrow> int list option \<Rightarrow>
    int list \<times> int list option" where
  "sse_cull_spheres fm planes (a # b # c # d # rest) culling_res over =
     sse_cull_spheres fm planes rest culling_res (Some (map mask_to_int (cull_step fm planes [a, b, c, d])))"
| "sse_cull_spheres fm planes _ culling_res over = (culling_res, over)"

subsection \<open>Submitting sprites\<close>

definition padding :: "nat \<Rightarrow> nat" where
  "padding n = (4 - n mod 4) mod 4"

lemma padding_step: "n mod 4 \<noteq> 0 \<Longrightarrow> padding n = Suc (padding (Suc n))"
proof -
  assume "n mod 4 \<noteq> 0"
  moreover have "n mod 4 < 4" by simp
  ultimately consider "n mod 4 = 1" | "n mod 4 = 2" | "n mod 4 = 3" by linarith
  then show ?thesis by cases (simp_all add: padding_def mod_Suc)
qed

lemma padding_none: "n mod 4 = 0 \<Longrightarrow> padding n = 0"
  by (simp add: padding_def)

function pad4 :: "'a \<Rightarrow> 'a list \<Rightarrow> 'a list" where
  "pad4 null xs = (if length xs mod 4 \<noteq> 0 then pad4 null (xs @ [null]) else xs)"
  by pat_completeness auto
termination
  by (relation "measure (\<lambda>(_, xs). padding (length xs))") (simp_all add: padding_step)

declare pad4.simps [simp del]

text \<open>The removal loop, from index \<open>i\<close>; removing past the end is undefined.\<close>

fun remove_culled :: "int list \<Rightarrow> nat list \<Rightarrow> 'a list \<Rightarrow> 'b list \<Rightarrow> ('a list \<times> 'b list) option" where
  "remove_culled results [] positions instances = Some (positions, instances)"
| "remove_culled results (i # is) positions instances =
     (if results ! i \<noteq> 0
      then case remove_at positions i of None \<Rightarrow> None | Some positions \<Rightarrow>
           (case remove_at instances i of None \<Rightarrow> None | Some instances \<Rightarrow>
              remove_culled results is positions instances)
      else remove_culled results is positions instances)"

record ('f, 'b) submission =
  kept_positions :: "'f vec4 list"
  kept_instances :: "'b list"
  logged_culled :: u64
  pointer_overwritten :: "int list option"

definition submit_sprites :: "'f::linorder lane_math \<Rightarrow> 'f vec4 \<Rightarrow> 'f vec4 list \<Rightarrow> 'f vec4 list \<Rightarrow> 'b list \<Rightarrow>
    ('f, 'b) submission option" where
  "submit_sprites fm null planes positions instances =
     (let num_objects = length positions;
          positions = pad4 null positions;
          (culling_results, over) = sse_cull_spheres fm planes positions (replicate (length positions) 0) None
      in case remove_culled culling_results [0..<num_objects] positions instances of
           None \<Rightarrow> None
         | Some (positions, instances) \<Rightarrow>
             Some \<lparr>kept_positions = positions, kept_instances = instances,
                   logged_culled = of_nat num_objects - of_nat (length positions), pointer_overwritten = over\<rparr>)"

subsection \<open>What it computes\<close>

lemma pad4_replicate: "pad4 null xs = xs @ replicate (padding (length xs)) null"
proof (induction null xs rule: pad4.induct)
  case (1 null xs)
  show ?case
  proof (cases "length xs mod 4 = 0")
    case False
    then show ?thesis using 1 by (subst pad4.simps) (simp add: replicate_append_same padding_step)
  qed (subst pad4.simps, simp add: padding_none)
qed

lemma pad4_length: "length (pad4 null xs) mod 4 = 0"
  by (induction null xs rule: pad4.induct) (subst pad4.simps, simp)

lemma remove_culled_append:
  "remove_culled results (is @ js) ps qs =
     (case remove_culled results is ps qs of None \<Rightarrow> None | Some (ps, qs) \<Rightarrow> remove_culled results js ps qs)"
  by (induction "is" arbitrary: ps qs) (auto split: option.split)

lemma sse_keeps_results: "fst (sse_cull_spheres fm planes spheres res over) = res"
  by (induction fm planes spheres res over rule: sse_cull_spheres.induct) simp_all

lemma remove_none: "(\<forall>i \<in> set is. results ! i = 0) \<Longrightarrow> remove_culled results is ps qs = Some (ps, qs)"
  by (induction "is") simp_all

text \<open>The test of one sphere as the comments describe it: behind one of the planes by its radius.\<close>

definition outside :: "'f::linorder lane_math \<Rightarrow> 'f vec4 list \<Rightarrow> 'f vec4 \<Rightarrow> bool" where
  "outside fm planes s \<longleftrightarrow> (\<exists>p \<in> set planes.
     fadd fm (fadd fm (fmul fm (vec_x s) (vec_x p)) (fmul fm (vec_y s) (vec_y p)))
             (fadd fm (fmul fm (vec_z s) (vec_z p)) (vec_w p)) \<le> fsub fm (fzero fm) (vec_w s))"

definition components :: "'f vec4 \<Rightarrow> 'f list" where
  "components v = [vec_x v, vec_y v, vec_z v, vec_w v]"

text \<open>The \<open>i\<close>-th sphere of the transposed group: the \<open>i\<close>-th components of all four.\<close>

definition mixed :: "'f vec4 list \<Rightarrow> nat \<Rightarrow> 'f vec4" where
  "mixed group4 i = \<lparr>vec_x = components (group4 ! 0) ! i, vec_y = components (group4 ! 1) ! i,
     vec_z = components (group4 ! 2) ! i, vec_w = components (group4 ! 3) ! i\<rparr>"

lemma fold_or_lanes:
  assumes "\<And>p. length (f p) = 4" and "length acc = 4"
  shows "foldl (\<lambda>res p. lanes (\<or>) res (f p)) acc planes = map (\<lambda>i. acc ! i \<or> (\<exists>p \<in> set planes. f p ! i)) [0, 1, 2, 3]"
  using assms(2)
proof (induction planes arbitrary: acc)
  case Nil
  then show ?case by (auto simp: length_Suc_conv numeral_eq_Suc)
next
  case (Cons p planes)
  have "length (lanes (\<or>) acc (f p)) = 4" using assms(1) Cons.prems by simp
  from Cons.IH [OF this] show ?case using assms(1) [of p] Cons.prems by simp
qed

subsection \<open>Properties\<close>

text \<open>
  C38: the culling step tests the wrong spheres. The coordinates are already gathered one per
  register when they are loaded, and the transposition undoes that: lane \<open>i\<close> tests the sphere
  whose coordinates are the \<open>i\<close>-th components of the four spheres.
\<close>

theorem culling_tests_mixed_spheres:
  assumes "length group4 = 4"
  shows "cull_step fm planes group4 = map (\<lambda>i. outside fm planes (mixed group4 i)) [0, 1, 2, 3]"
proof -
  obtain a b c d where g: "group4 = [a, b, c, d]" using assms by (auto simp: length_Suc_conv numeral_eq_Suc)
  let ?regs = "transpose4 (load_spheres group4)"
  have regs: "?regs = map components group4"
    by (simp add: g transpose4_def load_spheres_def components_def)
  have len: "length (plane_lanes fm ?regs p) = 4" for p
    unfolding regs unfolding g by (simp add: plane_lanes_def components_def set1_def Let_def)
  have lane: "plane_lanes fm ?regs p ! i \<longleftrightarrow> outside fm [p] (mixed group4 i)" if "i \<in> {0, 1, 2, 3}" for p i
    using that unfolding regs unfolding g by (auto simp: plane_lanes_def components_def set1_def Let_def outside_def mixed_def)
  have "cull_step fm planes group4 = map (\<lambda>i. replicate 4 False ! i \<or> (\<exists>p \<in> set planes. plane_lanes fm ?regs p ! i)) [0, 1, 2, 3]"
    unfolding cull_step_def Let_def by (rule fold_or_lanes) (simp_all add: len)
  also have "\<dots> = map (\<lambda>i. outside fm planes (mixed group4 i)) [0, 1, 2, 3]"
    by (simp add: lane) (simp add: outside_def)
  finally show ?thesis .
qed

definition int_lanes :: "int lane_math" where
  "int_lanes = \<lparr>fmul = (*), fadd = (+), fsub = (-), fzero = 0\<rparr>"

definition sphere_at :: "int \<Rightarrow> int vec4" where
  "sphere_at x = \<lparr>vec_x = x, vec_y = 0, vec_z = 0, vec_w = 1\<rparr>"

lemma culling_tests_mixed_spheres_witness:
  "cull_step int_lanes [sphere_at 1] [sphere_at (-9), sphere_at 0, sphere_at 0, sphere_at 0] = [True, False, False, False] \<and>
   cull_step int_lanes [sphere_at 1] [sphere_at 0, sphere_at (-9), sphere_at 0, sphere_at 0] = [False, False, False, False] \<and>
   outside int_lanes [sphere_at 1] (sphere_at (-9))"
  by (simp add: culling_tests_mixed_spheres outside_def int_lanes_def sphere_at_def mixed_def components_def)

text \<open>
  No sprite is ever culled. The results never reach the array that is tested, so \<open>submitSprites\<close>
  keeps every instance and the positions with their padding, stores past the local pointer whenever
  a sprite is submitted, and logs a count that is minus the padding, modulo \<open>2^64\<close>.
\<close>

theorem nothing_is_culled:
  "\<exists>over. submit_sprites fm null planes positions instances = Some
     \<lparr>kept_positions = positions @ replicate (padding (length positions)) null, kept_instances = instances,
      logged_culled = - of_nat (padding (length positions)), pointer_overwritten = over\<rparr> \<and>
    (over = None \<longleftrightarrow> positions = [])"
proof -
  let ?n = "length (pad4 null positions)"
  obtain over where s: "sse_cull_spheres fm planes (pad4 null positions) (replicate ?n 0) None = (replicate ?n 0, over)"
    using sse_keeps_results [of fm planes "pad4 null positions" "replicate ?n 0" None] by (metis prod.collapse)
  have "length positions \<le> ?n" by (simp add: pad4_replicate)
  then have r: "remove_culled (replicate ?n 0) [0..<length positions] (pad4 null positions) instances = Some (pad4 null positions, instances)"
    by (intro remove_none) simp
  have some: "snd (sse_cull_spheres fm planes ss res o') \<noteq> None" if "o' \<noteq> None" for ss res o'
    using that by (induction fm planes ss res o' rule: sse_cull_spheres.induct) simp_all
  have "over = None \<longleftrightarrow> positions = []"
  proof (cases "positions = []")
    case True
    then show ?thesis using s by (simp add: pad4_replicate padding_def)
  next
    case False
    have "?n mod 4 = 0" by (rule pad4_length)
    moreover have "?n \<noteq> 0" using False by (simp add: pad4_replicate)
    ultimately have "4 \<le> ?n" by (metis mod_less not_le)
    then obtain a b c d rest where "pad4 null positions = a # b # c # d # rest"
      by (auto simp: Suc_le_length_iff numeral_eq_Suc)
    then show ?thesis using some [of "Some (map mask_to_int (cull_step fm planes [a, b, c, d]))"] s False by (metis option.discI snd_conv sse_cull_spheres.simps(1))
  qed
  then show ?thesis using s r by (simp add: submit_sprites_def Let_def pad4_replicate)
qed

text \<open>
  With results in the array, the removal loop would leave the vectors. Every removal moves the
  last element into the gap and shortens the vectors, but the indices still run to the old end: when
  the first and the last of several objects are culled, the second removal is past the end.
\<close>

theorem removal_runs_past_the_end:
  assumes "length positions = n" and "length instances = n" and "2 \<le> n"
    and "results ! 0 \<noteq> 0" and "results ! (n - 1) \<noteq> 0" and "\<forall>i \<in> {1..<n - 1}. results ! i = 0"
  shows "remove_culled results [0..<n] positions instances = None"
proof -
  obtain m where m: "n = Suc (Suc m)" using assms(3) by (metis add_2_eq_Suc le_Suc_ex)
  have idx: "[0..<n] = 0 # [1..<Suc m] @ [Suc m]" unfolding m by (subst upt_conv_Cons) (simp_all del: upt_Suc add: upt_Suc_append)
  obtain ps qs where pq: "remove_at positions 0 = Some ps" "remove_at instances 0 = Some qs" "length ps = Suc m" "length qs = Suc m"
    using remove_at_Some [of 0 positions] remove_at_Some [of 0 instances] assms(1,2) m by auto
  have "remove_culled results ([1..<Suc m] @ [Suc m]) ps qs = remove_culled results [Suc m] ps qs"
    using assms(6) m by (simp add: remove_culled_append remove_none)
  also have "\<dots> = None" using assms(5) m pq(3) by (simp add: remove_at_def)
  finally show ?thesis using assms(4) pq unfolding idx by simp
qed

lemma removal_runs_past_the_end_witness:
  "remove_culled [1, 0, 0, 1] [0..<4] ''abcd'' ''wxyz'' = None"
  by (rule removal_runs_past_the_end) (auto simp: numeral_eq_Suc less_Suc_eq)

end
