(* ===== verification/Window.thy ===== *)
theory Window
  imports ConfigLaws Telemetry TileMap RendererLaws Textures
begin

text \<open>
  \<open>window/Window.cpp\<close>: reading the graphics configuration, opening the window, and the main
  loop. SDL is a parameter: its calls are recorded in the same trace as those of OpenGL, and
  what it reports (events, keys, the clock) is the input of every frame. The destructors that run
  while an exception unwinds are not modelled.
\<close>

subsection \<open>The graphics configuration\<close>

text \<open>The local structs have no initialisers: a field is \<open>None\<close> until it is written.\<close>

record graphics_config =
  resolution :: "(int \<times> int) option"
  fsaa :: "int option"
  vsync :: "bool option"
  fullscreen :: "bool option"
  debug_config :: "bool option"
  res :: "int list"

definition blank_config :: graphics_config where
  "blank_config = \<lparr>resolution = None, fsaa = None, vsync = None, fullscreen = None, debug_config = None, res = []\<rparr>"

definition resolutions :: "string \<rightharpoonup> int \<times> int" where
  "resolutions = map_of [(''720p'', (1280, 720)), (''1080p'', (1920, 1080))]"

definition fsaa_options :: "string \<rightharpoonup> int" where
  "fsaa_options = map_of [(''2x'', 2), (''4x'', 4), (''8x'', 8), (''16x'', 16), (''32x'', 32), (''Off'', 0)]"

text \<open>The decoders \<open>as<bool>\<close> and \<open>as<int>\<close> of yaml-cpp are parameters.\<close>

definition graphics_defs :: "bool \<Rightarrow> (yref \<Rightarrow> exn + bool) \<Rightarrow> (yref \<Rightarrow> exn + int) \<Rightarrow> graphics_config def list" where
  "graphics_defs debug_build as_bool as_int =
     [scalar ''fullscreen'' as_bool (\<lambda>v c. c\<lparr>fullscreen := Some v\<rparr>),
      scalar ''vsync'' as_bool (\<lambda>v c. c\<lparr>vsync := Some v\<rparr>)] @
     (if debug_build then [scalar ''debug'' as_bool (\<lambda>v c. c\<lparr>debug_config := Some v\<rparr>)] else []) @
     [one_of
       [choice ''resolution'' as_string resolutions (\<lambda>v c. c\<lparr>resolution := Some v\<rparr>),
        sequence ''resolution'' (as_vector as_int) (\<lambda>v c. c\<lparr>res := v\<rparr>)],
      choice ''fsaa'' as_string fsaa_options (\<lambda>v c. c\<lparr>fsaa := Some v\<rparr>)]"

record settings =
  set_size :: "int \<times> int"
  set_fsaa :: int
  set_vsync :: bool
  set_fullscreen :: bool
  set_debug :: bool

text \<open>
  The configuration after parsing. A resolution list is read at its first two elements whatever
  its length; every field is then used, written or not.
\<close>

definition used_config :: "bool \<Rightarrow> graphics_config \<Rightarrow> gl_fail + settings" where
  "used_config debug_build c =
     (if res c \<noteq> [] \<and> length (res c) < 2 then Inl (UndefinedAccess ''res'')
      else case (if res c \<noteq> [] then Some (res c ! 0, res c ! 1) else resolution c, fsaa c, vsync c, fullscreen c,
                 if debug_build then debug_config c else Some False) of
             (Some s, Some f, Some v, Some fs, Some d) \<Rightarrow>
               Inr \<lparr>set_size = s, set_fsaa = f, set_vsync = v, set_fullscreen = fs, set_debug = d\<rparr>
           | _ \<Rightarrow> Inl (UndefinedAccess ''config''))"

definition graphics_settings :: "bool \<Rightarrow> (yref \<Rightarrow> exn + bool) \<Rightarrow> (yref \<Rightarrow> exn + int) \<Rightarrow> yref \<Rightarrow> gl_fail + settings" where
  "graphics_settings debug_build as_bool as_int config_node =
     used_config debug_build (out (snd (parser [map_of_defs ''graphics'' (graphics_defs debug_build as_bool as_int)] config_node
       \<lparr>out = blank_config, errs = [], flags = []\<rparr>)))"

subsection \<open>Opening and closing the window\<close>

record 'f window =
  ready :: bool
  sdl_window :: nat
  viewport :: "'f vec4"
  win_width :: 'f
  win_height :: 'f

definition window_new :: "bool \<Rightarrow> 'f vec4 \<Rightarrow> 'f \<Rightarrow> ('f, 'f window) glm" where
  "window_new init_ok origin zero =
     bindE (emits [Gl ''SDL_Init'' [E ''SDL_INIT_VIDEO'']]) (\<lambda>_.
     if \<not> init_ok then throwE RuntimeError
     else returnE \<lparr>ready = True, sdl_window = 0, viewport = origin, win_width = zero, win_height = zero\<rparr>)"

definition window_delete :: "'f window \<Rightarrow> ('f, unit) glm" where
  "window_delete w =
     (if ready w
      then bindE (if sdl_window w \<noteq> 0
                  then emits [Gl ''SDL_GL_DeleteContext'' [], Gl ''SDL_DestroyWindow'' [N (int (sdl_window w))]]
                  else returnE ()) (\<lambda>_. emits [Gl ''SDL_Quit'' []])
      else returnE ())"

definition attribute :: "string \<Rightarrow> int \<Rightarrow> 'f gl_call" where
  "attribute name v = Gl ''SDL_GL_SetAttribute'' [E name, N v]"

text \<open>\<open>create\<close> is the handle that \<open>SDL_CreateWindow\<close> answers; it is not tested.\<close>

definition window_open :: "bool \<Rightarrow> (yref \<Rightarrow> exn + bool) \<Rightarrow> (yref \<Rightarrow> exn + int) \<Rightarrow> (int \<Rightarrow> 'f) \<Rightarrow> nat \<Rightarrow> string \<Rightarrow> yref \<Rightarrow>
    'f window \<Rightarrow> 'f renderer \<Rightarrow> ('f, 'f window \<times> 'f renderer) glm" where
  "window_open debug_build as_bool as_int fl create title config_node w r =
     bindE (liftE (graphics_settings debug_build as_bool as_int config_node)) (\<lambda>c.
     bindE (emits
       [attribute ''SDL_GL_CONTEXT_PROFILE_MASK'' 1,
        attribute ''SDL_GL_CONTEXT_MAJOR_VERSION'' 4,
        attribute ''SDL_GL_CONTEXT_MINOR_VERSION'' 1,
        attribute ''SDL_GL_RED_SIZE'' 8,
        attribute ''SDL_GL_GREEN_SIZE'' 8,
        attribute ''SDL_GL_BLUE_SIZE'' 8,
        attribute ''SDL_GL_ALPHA_SIZE'' 8,
        attribute ''SDL_GL_BUFFER_SIZE'' 32,
        attribute ''SDL_GL_DEPTH_SIZE'' 16,
        attribute ''SDL_GL_DOUBLEBUFFER'' 1,
        attribute ''SDL_GL_ACCELERATED_VISUAL'' 1,
        attribute ''SDL_GL_MULTISAMPLEBUFFERS'' (if set_fsaa c > 0 then 1 else 0),
        attribute ''SDL_GL_MULTISAMPLESAMPLES'' (set_fsaa c),
        Gl ''SDL_CreateWindow'' [E title, N (fst (set_size c)), N (snd (set_size c)),
          N (2 + (if set_fullscreen c then 1 else 0))],
        Gl ''SDL_GL_CreateContext'' [N (int create)],
        Gl ''glViewport'' [N 0, N 0, N (fst (set_size c)), N (snd (set_size c))],
        Gl ''SDL_GL_SetSwapInterval'' [N (if set_vsync c then 1 else 0)],
        Gl ''glewInit'' []]) (\<lambda>_.
     bindE (if set_fsaa c > 0 then emits [Gl ''glEnable'' [E ''GL_MULTISAMPLE'']] else returnE ()) (\<lambda>_.
     returnE
       (w\<lparr>sdl_window := create, win_width := fl (fst (set_size c)), win_height := fl (snd (set_size c)),
          viewport := \<lparr>vec_x = fl 0, vec_y = fl 0, vec_z = fl (fst (set_size c)), vec_w = fl (snd (set_size c))\<rparr>\<rparr>,
        set_debug_rendering debug_build (set_debug c) r))))"

subsection \<open>A frame of the main loop\<close>

datatype key = Escape | Space | OtherKey
datatype event = Quit | KeyDown key | OtherEvent

record frame_input =
  events :: "event list"
  left_shift :: bool
  up_key :: bool
  down_key :: bool
  left_key :: bool
  right_key :: bool
  clock_now :: int

text \<open>The arithmetic of the loop, the glm functions, and \<open>seconds\<close>, the length of a duration.\<close>

record 'f loop_math =
  tiles_fm :: "'f tile_math"
  frames_fm :: "'f frame_math"
  fadd :: "'f \<Rightarrow> 'f \<Rightarrow> 'f"
  fsub :: "'f \<Rightarrow> 'f \<Rightarrow> 'f"
  fmul :: "'f \<Rightarrow> 'f \<Rightarrow> 'f"
  look_at :: "'f vec3 \<Rightarrow> 'f vec3 \<Rightarrow> 'f vec3 \<Rightarrow> 'f list"
  un_project :: "'f vec3 \<Rightarrow> 'f list \<Rightarrow> 'f list \<Rightarrow> 'f vec4 \<Rightarrow> 'f vec2"
  seconds :: "int \<Rightarrow> 'f"

record 'f run_state =
  running :: bool
  frame_time :: 'f
  previous_time :: int
  current_time :: int
  camera :: "'f vec3"
  counters :: "u32 slots"
  gauges :: "'f slots"
  frames_id :: nat
  gauge_id :: nat

definition hello_map :: "int list list" where
  "hello_map =
     [[0, 0, 0, 0, 0, 0, 0, 0, 0, 0, 0, 0, 0, 0, 0, 0, 0, 0, 0, 0],
      [0, 1, 0, 1, 0, 1, 1, 1, 0, 1, 0, 0, 0, 1, 0, 0, 0, 0, 1, 0],
      [0, 1, 0, 1, 0, 1, 0, 0, 0, 1, 0, 0, 0, 1, 0, 0, 0, 1, 0, 1],
      [0, 1, 1, 1, 0, 1, 1, 1, 0, 1, 0, 0, 0, 1, 0, 0, 0, 1, 0, 1],
      [0, 1, 0, 1, 0, 1, 0, 0, 0, 1, 0, 0, 0, 1, 0, 0, 0, 1, 0, 1],
      [0, 1, 0, 1, 0, 1, 1, 1, 0, 1, 1, 1, 0, 1, 1, 1, 0, 0, 1, 0]] @ replicate 14 (replicate 20 0)"

definition hi_map :: "int list list" where
  "hi_map =
     [[0, 0, 0, 0, 0, 0, 0, 0, 0, 0, 0, 0, 0, 0, 0, 0, 0, 0, 0, 0],
      [0, 1, 0, 1, 0, 1, 1, 1, 0, 0, 0, 0, 0, 0, 0, 0, 0, 0, 0, 0],
      [0, 1, 0, 1, 0, 0, 1, 0, 0, 0, 0, 0, 0, 0, 0, 0, 0, 0, 0, 0],
      [0, 1, 1, 1, 0, 0, 1, 0, 0, 0, 0, 0, 0, 0, 0, 0, 0, 0, 0, 0],
      [0, 1, 0, 1, 0, 0, 1, 0, 0, 0, 0, 0, 0, 0, 0, 0, 0, 0, 0, 0],
      [0, 1, 0, 1, 0, 1, 1, 1, 0, 0, 0, 0, 0, 0, 0, 0, 0, 0, 0, 0]] @ replicate 14 (replicate 20 0)"

fun handle_events :: "'f loop_math \<Rightarrow> tilemap \<Rightarrow> event list \<Rightarrow> bool \<Rightarrow> ('f, bool) glm" where
  "handle_events fm tm [] run = returnE run"
| "handle_events fm tm (Quit # es) run = handle_events fm tm es False"
| "handle_events fm tm (KeyDown Escape # es) run = handle_events fm tm es False"
| "handle_events fm tm (KeyDown Space # es) run =
     bindE (tilemap_reset (map (map (whole (tiles_fm fm))) hi_map) tm) (\<lambda>_. handle_events fm tm es run)"
| "handle_events fm tm (KeyDown OtherKey # es) run = handle_events fm tm es run"
| "handle_events fm tm (OtherEvent # es) run = handle_events fm tm es run"

definition move_camera :: "'f loop_math \<Rightarrow> frame_input \<Rightarrow> 'f \<Rightarrow> 'f vec3 \<Rightarrow> 'f vec3" where
  "move_camera fm i t cam =
     (let fl = whole (tiles_fm fm);
          speed = if left_shift i then fl 3 else fl 2;
          step = fmul fm (fmul fm t (fl 5)) speed;
          cam = if up_key i then cam\<lparr>vec_y := fadd fm (vec_y cam) step\<rparr> else cam;
          cam = if down_key i then cam\<lparr>vec_y := fsub fm (vec_y cam) step\<rparr> else cam;
          cam = if left_key i then cam\<lparr>vec_x := fsub fm (vec_x cam) step\<rparr> else cam
      in if right_key i then cam\<lparr>vec_x := fadd fm (vec_x cam) step\<rparr> else cam)"

definition run_frame_loop :: "bool \<Rightarrow> 'f gl_api \<Rightarrow> 'f::linorder loop_math \<Rightarrow> 'f window \<Rightarrow> tilemap \<Rightarrow> frame_input \<Rightarrow>
    'f run_state \<times> 'f renderer \<Rightarrow> ('f, 'f run_state \<times> 'f renderer) glm" where
  "run_frame_loop debug_build api fm w tm i = (\<lambda>(s, r).
     bindE (handle_events fm tm (events i) (running s)) (\<lambda>run.
     bindE (returnE (move_camera fm i (frame_time s) (camera s))) (\<lambda>cam.
     bindE (returnE (look_at fm cam (cam\<lparr>vec_z := fsub fm (vec_z cam) (whole (tiles_fm fm) 1)\<rparr>)
              \<lparr>vec_x = whole (tiles_fm fm) 0, vec_y = whole (tiles_fm fm) 1, vec_z = whole (tiles_fm fm) 0\<rparr>)) (\<lambda>view.
     bindE (returnE
       \<lparr>top_left = un_project fm \<lparr>vec_x = vec_x (viewport w), vec_y = vec_y (viewport w), vec_z = whole (tiles_fm fm) 1\<rparr>
          view (projection_matrix r) (viewport w),
        bottom_right = un_project fm \<lparr>vec_x = vec_z (viewport w), vec_y = vec_w (viewport w), vec_z = whole (tiles_fm fm) 1\<rparr>
          view (projection_matrix r) (viewport w)\<rparr>) (\<lambda>screen_bounds.
     bindE (renderer_render debug_build api (frames_fm fm) screen_bounds view r) (\<lambda>r.
     bindE (emits [Gl ''SDL_GL_SwapWindow'' [N (int (sdl_window w))]]) (\<lambda>_.
     bindE (returnE (seconds fm (clock_now i - current_time s))) (\<lambda>t.
     returnE
       (s\<lparr>running := run, camera := cam, previous_time := current_time s, current_time := clock_now i, frame_time := t,
          gauges := gauge_set (gauge_id s) t (gauges s), counters := counter_inc (frames_id s) (counters s)\<rparr>,
        r)))))))))"

text \<open>The \<open>do\<close> loop over the inputs; \<open>None\<close> when they end while it is still running.\<close>

fun run_loop :: "bool \<Rightarrow> 'f gl_api \<Rightarrow> 'f::linorder loop_math \<Rightarrow> 'f window \<Rightarrow> tilemap \<Rightarrow> frame_input list \<Rightarrow>
    'f run_state \<times> 'f renderer \<Rightarrow> ('f, ('f run_state \<times> 'f renderer) option) glm" where
  "run_loop debug_build api fm w tm [] sr = returnE None"
| "run_loop debug_build api fm w tm (i # is) sr =
     bindE (run_frame_loop debug_build api fm w tm i sr) (\<lambda>(s, r).
     if running s then run_loop debug_build api fm w tm is (s, r) else returnE (Some (s, r)))"

subsection \<open>The main loop\<close>

definition texture_files :: "string list" where
  "texture_files = [''TEXTURES/G000M801.BMP'', ''TEXTURES/S5G0I800.BMP'', ''test.png'']"

text \<open>
  \<open>sprites\<close> are the ten thousand sprites at random places; \<open>c0\<close> and \<open>g0\<close> are what new counters
  and gauges happen to hold.
\<close>

definition window_run :: "bool \<Rightarrow> 'f gl_api \<Rightarrow> 'f::linorder loop_math \<Rightarrow> decoder \<Rightarrow> (string \<Rightarrow> u8 list) \<Rightarrow> 'f sprite list \<Rightarrow> 'f vec2 \<Rightarrow>
    u32 \<Rightarrow> 'f \<Rightarrow> u32 slots \<Rightarrow> 'f slots \<Rightarrow> int \<Rightarrow> frame_input list \<Rightarrow> 'f window \<Rightarrow> 'f renderer \<Rightarrow>
    ('f, 'f run_state option) glm" where
  "window_run debug_build api fm decode file_bytes sprites origin c0 g0 counter_table gauge_table start inputs w r =
     bindE (returnE (counter_make_or_get c0 ''frames'' counter_table, gauge_make_or_get g0 ''current-frame-time'' gauge_table))
       (\<lambda>((cid, cs), (gid, gs)).
     bindE (mesh_new api) (\<lambda>m.
     bindE (tilemap_init api (tiles_fm fm) (map (map (whole (tiles_fm fm))) hello_map) m) (\<lambda>tm.
     bindE (emits [Gl ''glActiveTexture'' [E ''GL_TEXTURE0 + 5'']]) (\<lambda>_.
     bindE (load_texture_array api decode file_bytes texture_files) (\<lambda>texture.
     bindE (emits [Bind Texture ''GL_TEXTURE_2D_ARRAY'' texture]) (\<lambda>_.
     bindE (renderer_init debug_build api (frames_fm fm) origin (win_width w) (win_height w) False r) (\<lambda>r.
     bindE (returnE (update_sprites sprites r)) (\<lambda>r.
     bindE (shader_load api ''data/shaders/model.vert'' ''data/shaders/model.frag'') (\<lambda>model_shader.
     bindE (run_loop debug_build api fm w tm inputs
       (\<lparr>running = True, frame_time = whole (tiles_fm fm) 0, previous_time = start, current_time = start,
         camera = \<lparr>vec_x = whole (tiles_fm fm) 0, vec_y = whole (tiles_fm fm) 0, vec_z = whole (tiles_fm fm) 10\<rparr>,
         counters = cs, gauges = gs, frames_id = cid, gauge_id = gid\<rparr>, r)) (\<lambda>result.
     case result of
       None \<Rightarrow> returnE None
     | Some (s, r) \<Rightarrow>
         bindE (renderer_term debug_build False r) (\<lambda>_.
         bindE (emits [Delete Texture texture]) (\<lambda>_.
         bindE (tilemap_delete tm) (\<lambda>_. returnE (Some s))))))))))))))"

end
