(* ===== verification/WindowLaws.thy ===== *)
theory WindowLaws
  imports Window
begin

text \<open>
  What the window makes of its configuration, and the main loop over the tile map, the textures,
  the renderer and the telemetry tables.
\<close>

subsection \<open>The configuration\<close>

text \<open>The value that an attribute of a map gives, when it has the right shape and decodes.\<close>

definition scalar_value :: "(ynode \<times> ynode) list \<Rightarrow> string \<Rightarrow> (yref \<Rightarrow> exn + 'v) \<Rightarrow> 'v option" where
  "scalar_value ps name conv =
     (case find_pair name ps of
        Some (YScalar str) \<Rightarrow> (case conv (Node (YScalar str)) of Inr v \<Rightarrow> Some v | Inl e \<Rightarrow> None)
      | _ \<Rightarrow> None)"

definition choice_value :: "(ynode \<times> ynode) list \<Rightarrow> string \<Rightarrow> (string \<rightharpoonup> 'v) \<Rightarrow> 'v option" where
  "choice_value ps name options = (case find_pair name ps of Some (YScalar str) \<Rightarrow> options str | _ \<Rightarrow> None)"

definition list_value :: "(ynode \<times> ynode) list \<Rightarrow> string \<Rightarrow> (yref \<Rightarrow> exn + 'v) \<Rightarrow> 'v list" where
  "list_value ps name conv =
     (case find_pair name ps of
        Some (YSeq xs) \<Rightarrow> (case as_vector conv (Node (YSeq xs)) of Inr v \<Rightarrow> v | Inl e \<Rightarrow> [])
      | _ \<Rightarrow> [])"

definition opt_assign :: "('v \<Rightarrow> 'o \<Rightarrow> 'o) \<Rightarrow> 'v option \<Rightarrow> 'o \<Rightarrow> 'o" where
  "opt_assign assign v c = (case v of None \<Rightarrow> c | Some v \<Rightarrow> assign v c)"

lemma scalar_out:
  "out (snd (scalar name conv assign default_error_handler (Node (YMap ps)) s)) =
     opt_assign assign (scalar_value ps name conv) (out s)"
  by (auto simp: scalar_def scalar_value_def opt_assign_def bindE_def catchE_def split: option.splits ynode.splits sum.splits)

lemma choice_out:
  "out (snd (choice name as_string options assign default_error_handler (Node (YMap ps)) s)) =
     opt_assign assign (choice_value ps name options) (out s)"
  by (auto simp: choice_def choice_value_def opt_assign_def bindE_def catchE_def split: option.splits ynode.splits sum.splits)

lemma one_of_out:
  "out (snd (one_of [choice name as_string options a1, sequence name (as_vector conv) a2] default_error_handler (Node (YMap ps)) s)) =
     opt_assign a1 (choice_value ps name options)
       (case find_pair name ps of
          Some (YSeq xs) \<Rightarrow> (case as_vector conv (Node (YSeq xs)) of Inr v \<Rightarrow> a2 v (out s) | Inl e \<Rightarrow> out s)
        | _ \<Rightarrow> out s)"
proof (cases "find_pair name ps")
  case None
  then show ?thesis by (simp add: one_of_def choice_def choice_value_def opt_assign_def bindE_def Let_def)
next
  case (Some n)
  then have "get_const (Node (YMap ps)) name = Inr (Node n)" by simp
  from one_of_choice_sequence [OF this, of as_string options a1 "as_vector conv" a2 s] Some show ?thesis
    by (auto simp: choice_or_sequence_def choice_value_def opt_assign_def split: ynode.split option.split sum.split)
qed

definition or_else :: "'v option \<Rightarrow> 'v option \<Rightarrow> 'v option" where
  "or_else v w = (case v of None \<Rightarrow> w | Some x \<Rightarrow> Some x)"

lemma or_else_None: "or_else v None = v"
  by (simp add: or_else_def split: option.split)

lemma opt_assign_fields:
  "opt_assign (\<lambda>v c. c\<lparr>fullscreen := Some v\<rparr>) b c = c\<lparr>fullscreen := or_else b (fullscreen c)\<rparr>"
  "opt_assign (\<lambda>v c. c\<lparr>vsync := Some v\<rparr>) b c = c\<lparr>vsync := or_else b (vsync c)\<rparr>"
  "opt_assign (\<lambda>v c. c\<lparr>debug_config := Some v\<rparr>) b c = c\<lparr>debug_config := or_else b (debug_config c)\<rparr>"
  "opt_assign (\<lambda>v c. c\<lparr>resolution := Some v\<rparr>) r c = c\<lparr>resolution := or_else r (resolution c)\<rparr>"
  "opt_assign (\<lambda>v c. c\<lparr>fsaa := Some v\<rparr>) i c = c\<lparr>fsaa := or_else i (fsaa c)\<rparr>"
  by (simp_all add: opt_assign_def or_else_def split: option.split)

lemma resolution_out:
  assumes "res (out s) = []"
  shows "out (snd (one_of [choice name as_string options (\<lambda>v c. c\<lparr>resolution := Some v\<rparr>),
      sequence name (as_vector conv) (\<lambda>v c. c\<lparr>res := v\<rparr>)] default_error_handler (Node (YMap ps)) s)) =
    (out s)\<lparr>resolution := or_else (choice_value ps name options) (resolution (out s)),
      res := list_value ps name conv\<rparr>"
proof -
  have keep: "c\<lparr>res := []\<rparr> = c" if "res c = []" for c :: graphics_config
    using that by (metis graphics_config.surjective graphics_config.update_convs(6))
  show ?thesis
    unfolding one_of_out opt_assign_fields list_value_def
    using assms by (auto simp: keep split: option.split ynode.split sum.split)
qed

lemma graphics_settings_map:
  assumes "find_pair ''graphics'' doc = Some (YMap ps)"
  shows "graphics_settings debug_build as_bool as_int (Node (YMap doc)) = used_config debug_build
    \<lparr>resolution = choice_value ps ''resolution'' resolutions, fsaa = choice_value ps ''fsaa'' fsaa_options,
     vsync = scalar_value ps ''vsync'' as_bool, fullscreen = scalar_value ps ''fullscreen'' as_bool,
     debug_config = (if debug_build then scalar_value ps ''debug'' as_bool else None),
     res = list_value ps ''resolution'' as_int\<rparr>"
proof -
  let ?s = "\<lparr>out = blank_config, errs = [], flags = []\<rparr>"
  have "snd (parser [map_of_defs ''graphics'' (graphics_defs debug_build as_bool as_int)] (Node (YMap doc)) ?s) =
    fold (\<lambda>d t. snd (d default_error_handler (Node (YMap ps)) t)) (graphics_defs debug_build as_bool as_int) ?s"
    using assms by (simp add: parser_def make_parser_fold map_present)
  then show ?thesis
    unfolding graphics_settings_def graphics_defs_def
    by (cases debug_build)
      (simp_all add: scalar_out choice_out resolution_out opt_assign_fields blank_config_def or_else_None)
qed

text \<open>
  The graphics configuration has exactly one meaning: each setting is the value of its
  attribute where that has the right shape and decodes, in whatever order the attributes come; a
  resolution list beats a named resolution.
\<close>

theorem graphics_settings_meaning:
  assumes "find_pair ''graphics'' doc = Some (YMap ps)"
  shows "graphics_settings debug_build as_bool as_int (Node (YMap doc)) = used_config debug_build
    \<lparr>resolution = choice_value ps ''resolution'' resolutions, fsaa = choice_value ps ''fsaa'' fsaa_options,
     vsync = scalar_value ps ''vsync'' as_bool, fullscreen = scalar_value ps ''fullscreen'' as_bool,
     debug_config = (if debug_build then scalar_value ps ''debug'' as_bool else None),
     res = list_value ps ''resolution'' as_int\<rparr>"
  by (rule graphics_settings_map [OF assms])

definition yes_no :: "yref \<Rightarrow> exn + bool" where
  "yes_no r = (if r = Node (YScalar ''Yes'') then Inr True else if r = Node (YScalar ''No'') then Inr False else Inl BadConversion)"

definition no_int :: "yref \<Rightarrow> exn + int" where
  "no_int r = Inl BadConversion"

definition shipped_graphics :: "(ynode \<times> ynode) list" where
  "shipped_graphics = map (\<lambda>(k, v). (YScalar k, YScalar v))
     [(''resolution'', ''720p''), (''fullscreen'', ''No''), (''vsync'', ''Yes''), (''fsaa'', ''4x''), (''debug'', ''Yes'')]"

lemma graphics_settings_meaning_witness:
  "graphics_settings True yes_no no_int (Node (YMap [(YScalar ''graphics'', YMap shipped_graphics)])) =
     Inr \<lparr>set_size = (1280, 720), set_fsaa = 4, set_vsync = True, set_fullscreen = False, set_debug = True\<rparr>"
proof -
  have "find_pair ''graphics'' [(YScalar ''graphics'', YMap shipped_graphics)] = Some (YMap shipped_graphics)" by simp
  from graphics_settings_meaning [OF this, of True yes_no no_int] show ?thesis
    by (simp add: used_config_def scalar_value_def choice_value_def list_value_def shipped_graphics_def yes_no_def
        resolutions_def fsaa_options_def)
qed

text \<open>
  A setting that the configuration leaves out is read all the same. If there is no graphics
  section, or one of the settings for full screen, vertical sync and anti-aliasing is missing in it,
  opening the window reads a variable that was never written, before any call is made.
\<close>

theorem missing_setting_is_read:
  assumes "case find_pair ''graphics'' doc of
      Some (YMap ps) \<Rightarrow> \<exists>n \<in> {''fsaa'', ''vsync'', ''fullscreen''}. find_pair n ps = None
    | _ \<Rightarrow> True"
  shows "\<exists>x. window_open debug_build as_bool as_int fl create title (Node (YMap doc)) w r t = (Inl (UndefinedAccess x), t)"
proof -
  have "\<exists>x. graphics_settings debug_build as_bool as_int (Node (YMap doc)) = Inl (UndefinedAccess x)"
  proof (cases "\<exists>ps. find_pair ''graphics'' doc = Some (YMap ps)")
    case True
    then obtain ps where g: "find_pair ''graphics'' doc = Some (YMap ps)" by blast
    with assms have "find_pair ''fsaa'' ps = None \<or> find_pair ''vsync'' ps = None \<or> find_pair ''fullscreen'' ps = None" by auto
    then show ?thesis
      unfolding graphics_settings_map [OF g] used_config_def
      by (auto simp: choice_value_def scalar_value_def split: option.split)
  next
    case False
    have "out (snd (map_of_defs ''graphics'' ds default_error_handler (Node (YMap doc)) s)) = out s" for ds and s :: "graphics_config pstate"
    proof (cases "find_pair ''graphics'' doc")
      case (Some n)
      with False show ?thesis by (cases n) (auto simp: map_of_defs_def bindE_def)
    qed (simp add: map_of_defs_def bindE_def)
    then show ?thesis
      by (simp add: graphics_settings_def parser_def make_parser_fold used_config_def blank_config_def)
  qed
  then show ?thesis by (auto simp: window_open_def bindE_def)
qed

lemma missing_setting_is_read_witness:
  "\<forall>(w :: int window) r. \<exists>x. window_open False yes_no no_int (\<lambda>i. i) 7 ''game'' (Node (YMap [])) w r [] = (Inl (UndefinedAccess x), [])"
  by (intro allI missing_setting_is_read) simp

subsection \<open>The main loop\<close>

definition quits :: "event list \<Rightarrow> bool" where
  "quits es \<longleftrightarrow> Quit \<in> set es \<or> KeyDown Escape \<in> set es"

lemma handle_events_run:
  assumes "image_id_buffer tm < length (vbos (tile_mesh tm))"
  shows "\<exists>cs. handle_events fm tm es run t = (Inr (run \<and> \<not> quits es), t @ cs)"
  using assms
proof (induction fm tm es run arbitrary: t rule: handle_events.induct)
  case (4 fm tm es run)
  obtain cs where r: "tilemap_reset (map (map (whole (tiles_fm fm))) hi_map) tm t = (Inr (), t @ cs)"
    using 4(2) by (simp add: tilemap_reset_def set_buffer_def emits_apply)
  from "4.IH" [OF 4(2), of "t @ cs"] show ?case by (auto simp: bindE_def r quits_def)
qed (auto simp: quits_def)

text \<open>The effect of one frame on the tables and the clock.\<close>

definition frame_done :: "'f loop_math \<Rightarrow> frame_input \<Rightarrow> 'f run_state \<Rightarrow> 'f run_state \<Rightarrow> bool" where
  "frame_done fm i s s' \<longleftrightarrow> running s' = (running s \<and> \<not> quits (events i)) \<and>
     counters s' = counter_inc (frames_id s) (counters s) \<and> frames_id s' = frames_id s \<and> gauge_id s' = gauge_id s \<and>
     current_time s' = clock_now i \<and> frame_time s' = seconds fm (clock_now i - current_time s) \<and>
     gauges s' = gauge_set (gauge_id s) (frame_time s') (gauges s)"

lemma run_frame_ok:
  fixes fm :: "'f::linorder loop_math"
  assumes "image_id_buffer tm < length (vbos (tile_mesh tm))" and "pool_ok (renderer_pool r)"
  shows "ensures (run_frame_loop debug_build api fm w tm i (s, r)) t (\<lambda>(s', r') t'. pool_ok (renderer_pool r') \<and> frame_done fm i s s')"
proof -
  have events: "ensures (handle_events fm tm es run) t Q" if "\<And>t'. Q (run \<and> \<not> quits es) t'" for es run t and Q :: "bool \<Rightarrow> 'f trace \<Rightarrow> bool"
    using handle_events_run [OF assms(1), of fm es run t] that by (auto simp: ensures_def)
  have render: "ensures (renderer_render debug_build api (frames_fm fm) b v r) t Q" if "\<And>r' t'. pool_ok (renderer_pool r') \<Longrightarrow> Q r' t'"
    for b v t and Q :: "'f renderer \<Rightarrow> 'f trace \<Rightarrow> bool"
    by (rule ensures_mono [OF render_frame [OF assms(2), of "frame_names r"]]) (auto intro: that)
  show ?thesis
    unfolding run_frame_loop_def prod.case
    by (rule ensures_bind events render ensures_return ensures_emits | simp add: frame_done_def)+
qed

definition frames_since :: "u32 \<Rightarrow> nat \<Rightarrow> 'f run_state \<Rightarrow> bool" where
  "frames_since v n s \<longleftrightarrow> frames_id s < length (cells (counters s)) \<and> gauge_id s < length (cells (gauges s)) \<and>
     counter_get (frames_id s) (counters s) = v + of_nat n"

lemma frame_done_counts: "frame_done fm i s s' \<Longrightarrow> frames_since v n s \<Longrightarrow>
    frames_since v (Suc n) s' \<and> gauge_get (gauge_id s') (gauges s') = frame_time s'"
  by (simp add: frame_done_def frames_since_def counter_inc_def counter_get_def gauge_set_def gauge_get_def)

lemma run_loop_ends:
  fixes fm :: "'f::linorder loop_math"
  assumes "image_id_buffer tm < length (vbos (tile_mesh tm))" and "\<forall>i \<in> set pre. \<not> quits (events i)" and "quits (events stop)"
    and "pool_ok (renderer_pool r)" and "running s" and "frames_since v n s"
  shows "ensures (run_loop debug_build api fm w tm (pre @ stop # rest) (s, r)) t (\<lambda>result t'. \<exists>s' r'. result = Some (s', r') \<and>
    \<not> running s' \<and> frames_since v (n + Suc (length pre)) s' \<and> frames_id s' = frames_id s \<and> gauge_id s' = gauge_id s \<and>
    gauge_get (gauge_id s') (gauges s') = seconds fm (clock_now stop - (if pre = [] then current_time s else clock_now (last pre))))"
  using assms(2,4-6)
proof (induction pre arbitrary: s r t n)
  case Nil
  obtain s' r' t' where f: "run_frame_loop debug_build api fm w tm stop (s, r) t = (Inr (s', r'), t')" and d: "frame_done fm stop s s'"
    using run_frame_ok [OF assms(1) Nil(2), of debug_build api fm w stop s t] by (auto simp: ensures_def)
  then show ?case
    using frame_done_counts [OF d Nil(4)] assms(3) by (auto simp: ensures_def bindE_def frame_done_def)
next
  case (Cons i pre)
  obtain s1 r1 t1 where f: "run_frame_loop debug_build api fm w tm i (s, r) t = (Inr (s1, r1), t1)" and d: "frame_done fm i s s1"
    and ok: "pool_ok (renderer_pool r1)"
    using run_frame_ok [OF assms(1) Cons.prems(2), of debug_build api fm w i s t] by (auto simp: ensures_def)
  have run: "running s1" "current_time s1 = clock_now i" "frames_id s1 = frames_id s" "gauge_id s1 = gauge_id s"
    using d Cons.prems(1,3) by (simp_all add: frame_done_def)
  have "run_loop debug_build api fm w tm ((i # pre) @ stop # rest) (s, r) t = run_loop debug_build api fm w tm (pre @ stop # rest) (s1, r1) t1"
    by (simp add: bindE_def f run(1))
  then have e: "ensures (run_loop debug_build api fm w tm ((i # pre) @ stop # rest) (s, r)) t Q =
    ensures (run_loop debug_build api fm w tm (pre @ stop # rest) (s1, r1)) t1 Q" for Q
    unfolding ensures_def by simp
  have since: "frames_since v (Suc n) s1" using frame_done_counts [OF d Cons.prems(4)] by simp
  show ?case
    unfolding e
    by (rule ensures_mono [OF Cons.IH [OF _ ok run(1) since]]) (use Cons.prems(1) run in auto)
qed

lemma make_or_get_cells:
  assumes "slots_ok ct" and "slots_ok gt"
  shows "fst (counter_make_or_get c0 name ct) < length (cells (snd (counter_make_or_get c0 name ct)))"
    and "fst (gauge_make_or_get g0 name' gt) < length (cells (snd (gauge_make_or_get g0 name' gt)))"
  using slots_ok_bound [OF assms(1), of name] slots_ok_bound [OF assms(2), of name']
  by (simp_all add: counter_make_or_get_def gauge_make_or_get_def Let_def split: option.split)

lemma hello_map_rows: "\<forall>row \<in> set hello_map. length row = 20" "length hello_map = 20"
  by (simp_all add: hello_map_def)

lemma tilemap_ensures:
  fixes fm :: "'f tile_math"
  assumes "all_load api" and "\<And>tm t'. image_id_buffer tm < length (vbos (tile_mesh tm)) \<Longrightarrow> Q tm t'"
  shows "ensures (tilemap_init api fm (map (map (whole fm)) hello_map) m) t Q"
proof -
  have l: "loads api" using assms(1) by (simp add: loads_def all_load_def Let_def)
  have "\<forall>row \<in> set (map (map (whole fm)) hello_map). length row = 20" using hello_map_rows(1) by simp
  moreover have "map (map (whole fm)) hello_map \<noteq> []" "length (map (map (whole fm)) hello_map) * 20 < 2 ^ 29"
      "length (map (map (whole fm)) hello_map) < 2 ^ 31" "(20::nat) < 2 ^ 31"
    using hello_map_rows(2) by auto
  ultimately show ?thesis
    using tilemap_init_ok [OF l, of "map (map (whole fm)) hello_map" 20 fm m t] assms(2) by (auto simp: ensures_def)
qed

lemma textures_ensures:
  assumes "\<forall>f \<in> set texture_files. decode (file_bytes f) 4 \<noteq> None" and "\<And>tex t'. Q tex t'"
  shows "ensures (load_texture_array api decode file_bytes texture_files) t Q"
proof -
  have files: "texture_files = [''TEXTURES/G000M801.BMP'', ''TEXTURES/S5G0I800.BMP''] @ [''test.png'']" by (simp add: texture_files_def)
  obtain im where im: "decode (file_bytes ''test.png'') 4 = Some im" using assms(1) by (auto simp: texture_files_def)
  show ?thesis
    using load_texture_array_ok [where decode = decode and file_bytes = file_bytes and fs = "[''TEXTURES/G000M801.BMP'', ''TEXTURES/S5G0I800.BMP'']"
      and f = "''test.png''", OF assms(1) [unfolded files] im, where api = api and t = t] assms(2) unfolding files by (auto simp: ensures_def)
qed

lemma tilemap_delete_ensures: "(\<And>t'. Q () t') \<Longrightarrow> ensures (tilemap_delete tm) t Q"
  by (simp add: ensures_def tilemap_delete_def shader_unload_def mesh_delete_def emits_apply bindE_def)

lemma window_run_ends:
  fixes fm :: "'f::linorder loop_math"
  assumes "gl_documented api" and "all_load api" and "\<forall>f \<in> set texture_files. decode (file_bytes f) 4 \<noteq> None"
    and "length sprites < 2 ^ 32 - 1" and "slots_ok counter_table" and "slots_ok gauge_table"
    and "\<forall>i \<in> set pre. \<not> quits (events i)" and "quits (events stop)"
  shows "\<exists>s t'. window_run debug_build api fm decode file_bytes sprites origin c0 g0 counter_table gauge_table start
      (pre @ stop # rest) w r t = (Inr (Some s), t') \<and> \<not> running s \<and>
    counter_get (frames_id s) (counters s) =
      counter_get (fst (counter_make_or_get c0 ''frames'' counter_table)) (snd (counter_make_or_get c0 ''frames'' counter_table)) +
      of_nat (Suc (length pre)) \<and>
    gauge_get (gauge_id s) (gauges s) = seconds fm (clock_now stop - (if pre = [] then start else clock_now (last pre)))"
proof -
  obtain cid cs where c: "counter_make_or_get c0 ''frames'' counter_table = (cid, cs)" by (cases "counter_make_or_get c0 ''frames'' counter_table")
  obtain gid gs where g: "gauge_make_or_get g0 ''current-frame-time'' gauge_table = (gid, gs)"
    by (cases "gauge_make_or_get g0 ''current-frame-time'' gauge_table")
  have cells: "cid < length (cells cs)" "gid < length (cells gs)"
    using make_or_get_cells(1) [OF assms(5,6), of c0 "''frames''"] make_or_get_cells(2) [OF assms(5,6), of g0 "''current-frame-time''"]
    by (simp_all add: c g)
  have mesh: "ensures (mesh_new api) t Q" if "\<And>m t'. Q m t'" for t and Q :: "mesh \<Rightarrow> 'f trace \<Rightarrow> bool"
    using that by (simp add: ensures_def mesh_new_def eff_simps)
  have init: "ensures (renderer_init debug_build api (frames_fm fm) origin wd ht False r) t Q"
    if "\<And>r' t'. ready_pool (renderer_pool r') \<Longrightarrow> Q r' t'" for wd ht t and Q :: "'f renderer \<Rightarrow> 'f trace \<Rightarrow> bool"
    by (rule ensures_mono [OF renderer_init_grows [OF assms(1,2)]]) (simp add: initialised_def that)
  have shader: "ensures (shader_load api v f) t Q" if "\<And>s t'. Q s t'" for v f t and Q :: "shader \<Rightarrow> 'f trace \<Rightarrow> bool"
    by (rule shader_grows [OF assms(1,2) grows_refl]) (rule that)
  have loop: "ensures (run_loop debug_build api fm w tm (pre @ stop # rest) (s, update_sprites sprites r)) t Q"
    if "image_id_buffer tm < length (vbos (tile_mesh tm))" "ready_pool (renderer_pool r)" "running s" "frames_since v 0 s"
      "\<And>s' r' t'. \<not> running s' \<Longrightarrow> frames_since v (Suc (length pre)) s' \<Longrightarrow> frames_id s' = frames_id s \<Longrightarrow> gauge_id s' = gauge_id s \<Longrightarrow>
         gauge_get (gauge_id s') (gauges s') = seconds fm (clock_now stop - (if pre = [] then current_time s else clock_now (last pre))) \<Longrightarrow>
         Q (Some (s', r')) t'" for tm s r v t Q
  proof -
    have "pool_ok (renderer_pool (update_sprites sprites r))"
      using that(2) by (simp add: update_sprites_def ready_pool_def pool_update_ok [OF _ assms(4)])
    from run_loop_ends [OF that(1) assms(7,8) this that(3,4)] show ?thesis
      by (rule ensures_mono) (use that(5) in auto)
  qed
  have teardown: "ensures (renderer_term debug_build False r) t Q" if "\<And>t'. Q () t'" for r t and Q :: "unit \<Rightarrow> 'f trace \<Rightarrow> bool"
    by (rule ensures_mono [OF renderer_term_frees]) (simp add: that)
  have "ensures (window_run debug_build api fm decode file_bytes sprites origin c0 g0 counter_table gauge_table start
      (pre @ stop # rest) w r) t (\<lambda>result t'. \<exists>s. result = Some s \<and> \<not> running s \<and>
        counter_get (frames_id s) (counters s) = counter_get cid cs + of_nat (Suc (length pre)) \<and>
        gauge_get (gauge_id s) (gauges s) = seconds fm (clock_now stop - (if pre = [] then start else clock_now (last pre))))"
    unfolding window_run_def c g bindE_Inr prod.case
    by (rule mesh tilemap_ensures [OF assms(2)] textures_ensures [where decode = decode and file_bytes = file_bytes, OF assms(3)]
        init shader teardown tilemap_delete_ensures loop [where v = "counter_get cid cs"]
      | rule ensures_bind ensures_emits ensures_return | assumption | simp only: option.case prod.case
      | simp add: frames_since_def cells)+
  then show ?thesis unfolding c g by (auto simp: ensures_def)
qed

text \<open>
  C34: the main loop runs until the first frame with a quit event or the escape key and ends after that
  frame, and \<open>run\<close> returns: if all the shaders and textures load, the
  counter of frames has gone up by the number of frames (modulo \<open>2^32\<close>) from what it happened to
  hold, and the frame time gauge holds the time of the last frame.
\<close>

theorem window_runs_until_quit:
  fixes fm :: "'f::linorder loop_math"
  assumes "gl_documented api" and "all_load api" and "\<forall>f \<in> set texture_files. decode (file_bytes f) 4 \<noteq> None"
    and "length sprites < 2 ^ 32 - 1" and "slots_ok counter_table" and "slots_ok gauge_table"
    and "\<forall>i \<in> set pre. \<not> quits (events i)" and "quits (events stop)"
  shows "\<exists>s t'. window_run debug_build api fm decode file_bytes sprites origin c0 g0 counter_table gauge_table start
      (pre @ stop # rest) w r t = (Inr (Some s), t') \<and> \<not> running s \<and>
    counter_get (frames_id s) (counters s) =
      counter_get (fst (counter_make_or_get c0 ''frames'' counter_table)) (snd (counter_make_or_get c0 ''frames'' counter_table)) +
      of_nat (Suc (length pre)) \<and>
    gauge_get (gauge_id s) (gauges s) = seconds fm (clock_now stop - (if pre = [] then start else clock_now (last pre)))"
  using assms by (rule window_run_ends)

definition int_loop_math :: "int loop_math" where
  "int_loop_math = \<lparr>tiles_fm = int_tile_math, frames_fm = example_frame_math, fadd = (+), fsub = (-), fmul = (*),
     look_at = (\<lambda>eye centre up. [vec_x eye, vec_y eye, vec_z eye]),
     un_project = (\<lambda>p view proj vp. \<lparr>vec_x = vec_x p, vec_y = vec_y p\<rparr>), seconds = (\<lambda>t. t)\<rparr>"

definition input_at :: "int \<Rightarrow> event list \<Rightarrow> frame_input" where
  "input_at now es = \<lparr>events = es, left_shift = False, up_key = True, down_key = False, left_key = False, right_key = False, clock_now = now\<rparr>"

lemma window_runs_until_quit_witness:
  "\<forall>r :: int renderer. \<exists>s t'. window_run False counting_api int_loop_math two_files (\<lambda>f. []) [sprite_at 3] \<lparr>vec_x = 0, vec_y = 0\<rparr> 5 0 empty_slots empty_slots 100
      [input_at 110 [KeyDown Space], input_at 117 [Quit], input_at 130 []]
      \<lparr>ready = True, sdl_window = 1, viewport = \<lparr>vec_x = 0, vec_y = 0, vec_z = 640, vec_w = 480\<rparr>, win_width = 640, win_height = 480\<rparr> r [] =
      (Inr (Some s), t') \<and> counter_get (frames_id s) (counters s) = 7 \<and> gauge_get (gauge_id s) (gauges s) = 7" (is "\<forall>r. ?Q r")
proof
  fix r :: "int renderer"
  let ?w = "\<lparr>ready = True, sdl_window = 1, viewport = \<lparr>vec_x = 0, vec_y = 0, vec_z = 640, vec_w = 480\<rparr>, win_width = 640, win_height = 480 :: int\<rparr>"
  have files: "\<forall>f \<in> set texture_files. two_files ((\<lambda>f. []) f) 4 \<noteq> None" by (simp add: two_files_def)
  have sprites: "length [sprite_at 3] < 2 ^ 32 - 1" by simp
  have pre: "\<forall>i \<in> set [input_at 110 [KeyDown Space]]. \<not> quits (events i)" and stop: "quits (events (input_at 117 [Quit]))"
    by (simp_all add: quits_def input_at_def)
  have c0: "counter_get (fst (counter_make_or_get 5 ''frames'' empty_slots)) (snd (counter_make_or_get 5 ''frames'' empty_slots)) = 5"
    by (simp add: counter_make_or_get_def counter_get_def empty_slots_def Let_def)
  from window_runs_until_quit [where decode = two_files and file_bytes = "\<lambda>f. []", OF counting_documented counting_all_load files sprites slots_ok_empty slots_ok_empty pre stop,
    where debug_build = False and fm = int_loop_math and origin = "\<lparr>vec_x = 0, vec_y = 0\<rparr>" and ?c0.0 = 5 and ?g0.0 = 0 and
      start = 100 and rest = "[input_at 130 []]" and w = ?w and r = r and t = "[]", unfolded c0]
  show "?Q r" by (auto simp: int_loop_math_def input_at_def)
qed

end
