(* ===== verification/Physics.thy ===== *)
theory Physics
  imports Prelude
begin

text \<open>
  \<open>physics/bullet/BulletEngine.cpp\<close>: the physics engine as a client of the heap. The objects
  of the Bullet library are represented by their kind and address; deleting a world does not delete
  the bodies in it, as the library documents. The last kind is for the systems that \<open>main\<close> allocates.
\<close>

subsection \<open>The heap\<close>

datatype object_kind =
    CollisionConfiguration | Dispatcher | Broadphase | Solver | DynamicsWorld | PhysicsData
  | CollisionShape | MotionState | RigidBody | SpriteRenderSystem

record heap =
  next_address :: nat
  allocated :: "(nat \<times> object_kind) list"

datatype heap_fail = NullAccess

type_synonym 'a heap_m = "(heap_fail, heap, 'a) comp"

definition new_object :: "object_kind \<Rightarrow> nat heap_m" where
  "new_object k = runE (\<lambda>h. (next_address h, \<lparr>next_address = Suc (next_address h), allocated = allocated h @ [(next_address h, k)]\<rparr>))"

definition delete_object :: "nat \<Rightarrow> unit heap_m" where
  "delete_object a = modifyE (\<lambda>h. h\<lparr>allocated := filter (\<lambda>(b, k). b \<noteq> a) (allocated h)\<rparr>)"

subsection \<open>The engine\<close>

text \<open>\<open>bodies\<close> is what has been added to the dynamics world.\<close>

record physics_data =
  data_address :: nat
  collision_configuration :: nat
  dispatcher :: nat
  broadphase :: nat
  solver :: nat
  dynamics_world :: nat
  gravity :: "int list"
  collision_shapes :: "nat list"
  bodies :: "nat list"

type_synonym engine = "physics_data option"

definition engine_new :: engine where
  "engine_new = None"

definition engine_init :: "engine \<Rightarrow> engine heap_m" where
  "engine_init data =
     bindE (new_object PhysicsData) (\<lambda>d.
     bindE (new_object CollisionConfiguration) (\<lambda>c.
     bindE (new_object Dispatcher) (\<lambda>dp.
     bindE (new_object Broadphase) (\<lambda>b.
     bindE (new_object Solver) (\<lambda>s.
     bindE (new_object DynamicsWorld) (\<lambda>w.
     returnE (Some \<lparr>data_address = d, collision_configuration = c, dispatcher = dp, broadphase = b, solver = s, dynamics_world = w,
       gravity = [0, -10, 0], collision_shapes = [], bodies = []\<rparr>)))))))"

definition engine_delete :: "engine \<Rightarrow> unit heap_m" where
  "engine_delete data =
     (case data of
        None \<Rightarrow> returnE ()
      | Some d \<Rightarrow>
          bindE (delete_object (dynamics_world d)) (\<lambda>_.
          bindE (delete_object (solver d)) (\<lambda>_.
          bindE (delete_object (broadphase d)) (\<lambda>_.
          bindE (delete_object (dispatcher d)) (\<lambda>_.
          bindE (delete_object (collision_configuration d)) (\<lambda>_.
          delete_object (data_address d)))))))"

definition engine_step :: "'f \<Rightarrow> engine \<Rightarrow> engine" where
  "engine_step dt data = data"

text \<open>A body of mass zero: it is static, so its inertia is not computed.\<close>

definition add_body :: "engine \<Rightarrow> engine heap_m" where
  "add_body data =
     bindE (new_object CollisionShape) (\<lambda>shape.
     case data of
       None \<Rightarrow> throwE NullAccess
     | Some d \<Rightarrow>
         bindE (new_object MotionState) (\<lambda>motion.
         bindE (new_object RigidBody) (\<lambda>body.
         returnE (Some (d\<lparr>collision_shapes := collision_shapes d @ [shape], bodies := bodies d @ [body]\<rparr>)))))"

fun add_bodies :: "nat \<Rightarrow> engine \<Rightarrow> engine heap_m" where
  "add_bodies 0 data = returnE data"
| "add_bodies (Suc n) data = bindE (add_body data) (add_bodies n)"

subsection \<open>What is left behind\<close>

definition heap_ok :: "heap \<Rightarrow> bool" where
  "heap_ok h \<longleftrightarrow> (\<forall>(a, k) \<in> set (allocated h). a < next_address h)"

lemma new_object_apply: "new_object k h = (Inr (next_address h),
    \<lparr>next_address = Suc (next_address h), allocated = allocated h @ [(next_address h, k)]\<rparr>)"
  by (simp add: new_object_def runE_apply)

definition body_objects :: "nat \<Rightarrow> (nat \<times> object_kind) list" where
  "body_objects a = [(a, CollisionShape), (a + 1, MotionState), (a + 2, RigidBody)]"

lemma add_bodies_apply:
  "\<exists>d'. add_bodies n (Some d) h = (Inr (Some d'), \<lparr>next_address = next_address h + 3 * n,
      allocated = allocated h @ concat (map (\<lambda>i. body_objects (next_address h + 3 * i)) [0..<n])\<rparr>) \<and>
    d' = d\<lparr>collision_shapes := collision_shapes d', bodies := bodies d'\<rparr>"
proof (induction n arbitrary: d h)
  case 0
  then show ?case by simp
next
  case (Suc n)
  let ?a = "next_address h"
  let ?d = "d\<lparr>collision_shapes := collision_shapes d @ [?a], bodies := bodies d @ [?a + 2]\<rparr>"
  let ?h = "\<lparr>next_address = ?a + 3, allocated = allocated h @ body_objects ?a\<rparr>"
  have "add_body (Some d) h = (Inr (Some ?d), ?h)"
    by (simp add: add_body_def bindE_def new_object_apply body_objects_def numeral_eq_Suc)
  moreover obtain d' where "add_bodies n (Some ?d) ?h = (Inr (Some d'), \<lparr>next_address = next_address ?h + 3 * n,
      allocated = allocated ?h @ concat (map (\<lambda>i. body_objects (next_address ?h + 3 * i)) [0..<n])\<rparr>)"
    "d' = ?d\<lparr>collision_shapes := collision_shapes d', bodies := bodies d'\<rparr>"
    using Suc.IH [of ?d ?h] by blast
  ultimately show ?case
    by (simp add: bindE_def map_upt_Suc algebra_simps del: upt_Suc)
qed

text \<open>What \<open>init\<close> allocates, in its order.\<close>

definition engine_objects :: "nat \<Rightarrow> (nat \<times> object_kind) list" where
  "engine_objects a = [(a, PhysicsData), (a + 1, CollisionConfiguration), (a + 2, Dispatcher), (a + 3, Broadphase), (a + 4, Solver),
     (a + 5, DynamicsWorld)]"

lemma engine_init_apply:
  "\<exists>d. engine_init e h = (Inr (Some d), \<lparr>next_address = next_address h + 6, allocated = allocated h @ engine_objects (next_address h)\<rparr>) \<and>
    {dynamics_world d, solver d, broadphase d, dispatcher d, collision_configuration d, data_address d} = {next_address h..<next_address h + 6}"
  by (auto simp: engine_init_def engine_objects_def bindE_def new_object_apply numeral_eq_Suc atLeastLessThanSuc)

lemma engine_delete_apply:
  "engine_delete (Some d) h = (Inr (), h\<lparr>allocated := filter (\<lambda>(b, k). b \<notin>
     {dynamics_world d, solver d, broadphase d, dispatcher d, collision_configuration d, data_address d}) (allocated h)\<rparr>)"
proof -
  have "filter (\<lambda>(b, k). b \<noteq> x6) (filter (\<lambda>(b, k). b \<noteq> x5) (filter (\<lambda>(b, k). b \<noteq> x4) (filter (\<lambda>(b, k). b \<noteq> x3)
      (filter (\<lambda>(b, k). b \<noteq> x2) (filter (\<lambda>(b, k). b \<noteq> x1) xs))))) =
    filter (\<lambda>(b, k). b \<notin> {x1, x2, x3, x4, x5, x6}) xs" for x1 x2 x3 x4 x5 x6 and xs :: "(nat \<times> object_kind) list"
    by (induction xs) auto
  then show ?thesis by (simp add: engine_delete_def bindE_def delete_object_def)
qed

text \<open>
  C40: the physics engine does not release its bodies. Whatever bodies are added between \<open>init\<close> and
  the destructor, the heap then holds what it held before and, for every body, its shape, its motion
  state and the body itself; everything else that \<open>init\<close> allocated is gone.
\<close>

theorem engine_leaks_bodies:
  assumes "heap_ok h"
  shows "\<exists>h'. bindE (engine_init engine_new) (\<lambda>e. bindE (add_bodies n e) engine_delete) h = (Inr (), h') \<and>
    allocated h' = allocated h @ concat (map (\<lambda>i. body_objects (next_address h + 6 + 3 * i)) [0..<n])"
proof -
  let ?a = "next_address h"
  let ?new = "[(?a, PhysicsData), (?a + 1, CollisionConfiguration), (?a + 2, Dispatcher), (?a + 3, Broadphase), (?a + 4, Solver), (?a + 5, DynamicsWorld)]"
  let ?h = "\<lparr>next_address = ?a + 6, allocated = allocated h @ ?new\<rparr>"
  let ?bodies = "concat (map (\<lambda>i. body_objects (?a + 6 + 3 * i)) [0..<n])"
  obtain d where i: "engine_init engine_new h = (Inr (Some d), ?h)" and
    d: "{dynamics_world d, solver d, broadphase d, dispatcher d, collision_configuration d, data_address d} = {?a..<?a + 6}"
    using engine_init_apply [of engine_new h] by (auto simp: engine_objects_def)
  obtain d' where b: "add_bodies n (Some d) ?h = (Inr (Some d'), \<lparr>next_address = ?a + 6 + 3 * n, allocated = allocated h @ ?new @ ?bodies\<rparr>)"
    and d': "d' = d\<lparr>collision_shapes := collision_shapes d', bodies := bodies d'\<rparr>"
    using add_bodies_apply [of n d ?h] by auto
  have "{dynamics_world d', solver d', broadphase d', dispatcher d', collision_configuration d', data_address d'} = {?a..<?a + 6}"
    using d by (subst (1 2 3 4 5 6) d') simp
  then have del: "engine_delete (Some d') g = (Inr (), g\<lparr>allocated := filter (\<lambda>(b, k). b \<notin> {?a..<?a + 6}) (allocated g)\<rparr>)" for g
    by (simp only: engine_delete_apply)
  have "filter (\<lambda>(b, k). b \<notin> {?a..<?a + 6}) (allocated h) = allocated h"
    using assms by (auto simp: heap_ok_def filter_id_conv)
  moreover have "filter (\<lambda>(b, k). b \<notin> {?a..<?a + 6}) ?bodies = ?bodies"
    by (auto simp: filter_id_conv body_objects_def)
  moreover have "filter (\<lambda>(b, k). b \<notin> {?a..<?a + 6}) ?new = []" by simp
  ultimately have "allocated h @ ?bodies = filter (\<lambda>(b, k). b \<notin> {?a..<?a + 6}) (allocated h @ ?new @ ?bodies)"
    by simp
  then show ?thesis unfolding bindE_def i prod.case sum.case b del by (auto simp only: simp_thms heap.simps)
qed

lemma engine_leaks_bodies_witness:
  "\<exists>h'. bindE (engine_init engine_new) (\<lambda>e. bindE (add_bodies 2 e) engine_delete) \<lparr>next_address = 0, allocated = []\<rparr> = (Inr (), h') \<and>
     map snd (allocated h') = [CollisionShape, MotionState, RigidBody, CollisionShape, MotionState, RigidBody]"
proof -
  have "heap_ok \<lparr>next_address = 0, allocated = []\<rparr>" by (simp add: heap_ok_def)
  from engine_leaks_bodies [OF this, of 2] show ?thesis by (auto simp: body_objects_def upt_rec)
qed

end
