(* ===== verification/EngineMain.thy ===== *)
theory EngineMain
  imports WindowLaws Physics LoaderLaws
begin

text \<open>
  \<open>core/main.cpp\<close> and \<open>util/Logging.cpp\<close>: starting the log, mounting the game, and the order in
  which \<open>main\<close> builds the parts, runs them and takes them down again, also when an exception leaves
  the game. Files, PhysFS and spdlog are parameters or recorded calls.
\<close>

subsection \<open>The log\<close>

datatype log_level = Trace | Debug | Info | Warn | Err | Critical | Off

definition log_levels :: "string \<rightharpoonup> log_level" where
  "log_levels = map_of [(''trace'', Trace), (''debug'', Debug), (''info'', Info), (''warn'', Warn), (''error'', Err), (''No'', Off)]"

definition logging_defs :: "(yref \<Rightarrow> exn + bool) \<Rightarrow> (string \<times> bool) def list" where
  "logging_defs as_bool =
     [map_of_defs ''telemetry''
        [scalar ''logging'' as_string (\<lambda>v (level, profiling). (v, profiling)),
         optional [scalar ''profiling'' as_bool (\<lambda>v (level, profiling). (level, v))]]]"

text \<open>
  An error report goes to the logger, which does not exist before this function has returned. A
  name that is not in the map of levels is inserted there with the first level. The second
  component is \<open>Profile::profiling_enabled\<close> (\<open>False\<close> to begin with).
\<close>

definition init_logging :: "bool \<Rightarrow> (yref \<Rightarrow> exn + bool) \<Rightarrow> yref \<Rightarrow> gl_fail + log_level \<times> bool" where
  "init_logging debug_build as_bool config_node =
     (let s = snd (parser (logging_defs as_bool) config_node \<lparr>out = ([], False), errs = [], flags = []\<rparr>)
      in if errs s \<noteq> [] then Inl (UndefinedAccess ''Logging::logger'')
         else let level = (case log_levels (fst (out s)) of Some l \<Rightarrow> l | None \<Rightarrow> Trace)
              in Inr (level, debug_build \<and> level \<noteq> Off \<and> snd (out s)))"

subsection \<open>The game's configuration\<close>

definition game_string :: "string \<Rightarrow> yref \<Rightarrow> string" where
  "game_string name node =
     out (snd (parser [map_of_defs ''game'' [scalar name as_string (\<lambda>v _. v)]] node \<lparr>out = [], errs = [], flags = []\<rparr>))"

definition game_sources :: "yref \<Rightarrow> string list" where
  "game_sources node =
     out (snd (parser [map_of_defs ''game'' [sequence ''sources'' (as_vector as_string) (\<lambda>v _. v)]] node
       \<lparr>out = [], errs = [], flags = []\<rparr>))"

subsection \<open>The process\<close>

text \<open>
  \<open>main_heap\<close> has the objects that the code of \<open>main.cpp\<close> and of the physics engine allocates with \<open>new\<close>. What the other
  parts allocate is not on it: the atomics of the telemetry, which are never freed, are the slots of its two tables; the
  sprite pool, which \<open>term\<close> of the renderer frees, but which stays if an exception ends the window's loop before it, is a field of
  the renderer; and the log of a shader that fails to compile, which \<open>fatal\<close> leaks, is not modelled.
\<close>

record ('f, 'r, 'p) process =
  calls :: "'f trace"
  main_heap :: heap
  game_world :: "('r, 'p) world pstate"
  main_log :: "(log_level \<times> bool) option"
  main_renderer :: "'f renderer"
  main_window :: "'f window"
  main_engine :: engine

text \<open>
  What can go wrong: an exception of the parser or the loader, a failure of the code that
  calls OpenGL and SDL, undefined behaviour of the loader or the engine, and inputs that end before
  the game does.
\<close>

datatype main_fail = Exception exn | Library gl_fail | Undefined string | Unfinished

type_synonym ('f, 'r, 'p, 'a) main = "(main_fail, ('f, 'r, 'p) process, 'a) comp"

definition on_calls :: "('f, 'a) glm \<Rightarrow> ('f, 'r, 'p, 'a) main" where
  "on_calls m s = (case m (calls s) of
      (Inl e, t) \<Rightarrow> (Inl (Library e), s\<lparr>calls := t\<rparr>) | (Inr a, t) \<Rightarrow> (Inr a, s\<lparr>calls := t\<rparr>))"

definition on_heap :: "'a heap_m \<Rightarrow> ('f, 'r, 'p, 'a) main" where
  "on_heap m s = (case m (main_heap s) of
      (Inl e, h) \<Rightarrow> (Inl (Undefined ''data''), s\<lparr>main_heap := h\<rparr>) | (Inr a, h) \<Rightarrow> (Inr a, s\<lparr>main_heap := h\<rparr>))"

definition on_world :: "('r, 'p, unit) ld \<Rightarrow> ('f, 'r, 'p, unit) main" where
  "on_world m s = (case m (game_world s) of
      (r, w) \<Rightarrow> (if fault (out w) \<noteq> None then Inl (Undefined ''loader'')
                 else case r of Inl e \<Rightarrow> Inl (Exception e) | Inr a \<Rightarrow> Inr a, s\<lparr>game_world := w\<rparr>))"

definition get_state :: "(('f, 'r, 'p) process \<Rightarrow> 'a) \<Rightarrow> ('f, 'r, 'p, 'a) main" where
  "get_state f s = (Inr (f s), s)"

text \<open>
  The exceptions that the handler of \<open>main\<close> catches: those of yaml-cpp and \<open>fatal\<close> derive from
  \<open>std::runtime_error\<close>, \<open>std::out_of_range\<close> does not.
\<close>

fun caught :: "main_fail \<Rightarrow> bool" where
  "caught (Exception e) = (e \<in> {InvalidNode, BadSubscript, BadConversion})"
| "caught (Library e) = (e = RuntimeError)"
| "caught (Undefined x) = False"
| "caught Unfinished = False"

text \<open>A local object: its destructor runs when the scope ends and when a caught exception leaves it.\<close>

definition scoped :: "('f, 'r, 'p, unit) main \<Rightarrow> ('f, 'r, 'p, unit) main \<Rightarrow> ('f, 'r, 'p, unit) main \<Rightarrow> ('f, 'r, 'p, unit) main" where
  "scoped ctor dtor body = bindE ctor (\<lambda>_ s. case body s of
      (Inr u, s') \<Rightarrow> dtor s'
    | (Inl e, s') \<Rightarrow> if caught e then (case dtor s' of (Inr u, s'') \<Rightarrow> (Inl e, s'') | (Inl d, s'') \<Rightarrow> (Inl d, s'')) else (Inl e, s'))"

subsection \<open>The main program\<close>

text \<open>What the game is given, apart from the arguments that only one part needs.\<close>

record ('f, 'r, 'p) given =
  is_debug :: bool
  argv0 :: string
  open_file :: "string \<Rightarrow> exn + ynode"
  read_yaml :: "string \<Rightarrow> exn + ynode"
  as_bool_of :: "yref \<Rightarrow> exn + bool"
  as_int_of :: "yref \<Rightarrow> exn + int"
  float_of :: "int \<Rightarrow> 'f"
  sdl_works :: bool
  window_handle :: nat
  load_depth :: nat
  load_env :: "('r, 'p, 'f) env"
  gl_of :: "'f gl_api"
  loop_fm :: "'f loop_math"
  decode_image :: decoder
  image_bytes :: "string \<Rightarrow> u8 list"
  random_sprites :: "'f sprite list"
  new_counter :: u32
  new_gauge :: 'f
  counter_table :: "u32 slots"
  gauge_table :: "'f slots"
  start_clock :: int
  frame_inputs :: "frame_input list"

definition setup_mounts :: "string \<Rightarrow> yref \<Rightarrow> ('f, 'r, 'p, unit) main" where
  "setup_mounts arg config =
     bindE (on_calls (emits [Gl ''PHYSFS_init'' [E arg]])) (\<lambda>_.
     on_calls (emits (map (\<lambda>path. Gl ''PHYSFS_mount'' [E path, E ''/'', N 1]) (game_sources config))))"

definition load_game_config :: "('f, 'r, 'p) given \<Rightarrow> yref \<Rightarrow> ('f, 'r, 'p, yref) main" where
  "load_game_config g config =
     liftE (case read_yaml g (game_string ''game_config'' config) of Inl e \<Rightarrow> Inl (Exception e) | Inr n \<Rightarrow> Inr (Node n))"

definition open_window :: "('f, 'r, 'p) given \<Rightarrow> yref \<Rightarrow> yref \<Rightarrow> ('f, 'r, 'p, unit) main" where
  "open_window g config game_config =
     bindE (get_state (\<lambda>s. (main_window s, main_renderer s))) (\<lambda>(w, r).
     bindE (on_calls (window_open (is_debug g) (as_bool_of g) (as_int_of g) (float_of g) (window_handle g)
       (game_string ''name'' game_config) config w r)) (\<lambda>(w, r).
     modifyE (\<lambda>s. s\<lparr>main_window := w, main_renderer := r\<rparr>)))"

text \<open>The two systems are allocated and neither kept nor run.\<close>

definition start_systems :: "('f, 'r, 'p, unit) main" where
  "start_systems =
     bindE (on_heap (new_object SpriteRenderSystem)) (\<lambda>_.
     bindE (on_heap (new_object SpriteRenderSystem)) (\<lambda>_. returnE ()))"

definition configure_game :: "('f, 'r, 'p) given \<Rightarrow> yref \<Rightarrow> ('f, 'r, 'p, unit) main" where
  "configure_game g config =
     bindE (load_game_config g config) (\<lambda>game_config.
     bindE (open_window g config game_config) (\<lambda>_.
     bindE (get_state main_engine) (\<lambda>e.
     bindE (on_heap (engine_init e)) (\<lambda>e.
     bindE (modifyE (\<lambda>s. s\<lparr>main_engine := e\<rparr>)) (\<lambda>_.
     bindE start_systems (\<lambda>_.
     on_world (load (load_depth g) (load_env g) game_config)))))))"

definition run_window :: "('f::linorder, 'r, 'p) given \<Rightarrow> ('f, 'r, 'p, unit) main" where
  "run_window g =
     bindE (get_state (\<lambda>s. (main_window s, main_renderer s))) (\<lambda>(w, r).
     bindE (on_calls (window_run (is_debug g) (gl_of g) (loop_fm g) (decode_image g) (image_bytes g) (random_sprites g)
       \<lparr>vec_x = float_of g 0, vec_y = float_of g 0\<rparr> (new_counter g) (new_gauge g) (counter_table g) (gauge_table g) (start_clock g)
       (frame_inputs g) w r)) (\<lambda>result.
     case result of None \<Rightarrow> throwE Unfinished | Some s \<Rightarrow> returnE ()))"

definition window_scope :: "('f, 'r, 'p) given \<Rightarrow> ('f, 'r, 'p, unit) main \<Rightarrow> ('f, 'r, 'p, unit) main" where
  "window_scope g = scoped
     (bindE (on_calls (window_new (sdl_works g) \<lparr>vec_x = float_of g 0, vec_y = float_of g 0, vec_z = float_of g 0, vec_w = float_of g 0\<rparr> (float_of g 0)))
       (\<lambda>w. modifyE (\<lambda>s. s\<lparr>main_window := w\<rparr>)))
     (bindE (get_state main_window) (\<lambda>w. on_calls (window_delete w)))"

definition engine_scope :: "('f, 'r, 'p, unit) main \<Rightarrow> ('f, 'r, 'p, unit) main" where
  "engine_scope = scoped (modifyE (\<lambda>s. s\<lparr>main_engine := engine_new\<rparr>)) (bindE (get_state main_engine) (\<lambda>e. on_heap (engine_delete e)))"

definition play :: "('f::linorder, 'r, 'p) given \<Rightarrow> yref \<Rightarrow> ('f, 'r, 'p, unit) main" where
  "play g config =
     bindE (modifyE (\<lambda>s. s\<lparr>main_renderer := set_debug_rendering (is_debug g) False (main_renderer s)\<rparr>)) (\<lambda>_.
     window_scope g (engine_scope (bindE (configure_game g config) (\<lambda>_. run_window g))))"

definition catch_runtime_error :: "('f, 'r, 'p, unit) main \<Rightarrow> ('f, 'r, 'p, unit) main" where
  "catch_runtime_error m s = (case m s of
      (Inl e, s') \<Rightarrow> if caught e then on_calls (emits [Gl ''error'' [E ''Terminating due to'']]) s' else (Inl e, s')
    | (Inr u, s') \<Rightarrow> (Inr u, s'))"

definition main_program :: "('f::linorder, 'r, 'p) given \<Rightarrow> ('f, 'r, 'p, int) main" where
  "main_program g =
     bindE (liftE (case open_file g ''config.yml'' of Inl e \<Rightarrow> Inl (Exception e) | Inr n \<Rightarrow> Inr (Node n))) (\<lambda>config.
     bindE (on_calls (liftE (init_logging (is_debug g) (as_bool_of g) config))) (\<lambda>log.
     bindE (modifyE (\<lambda>s. s\<lparr>main_log := Some log\<rparr>)) (\<lambda>_.
     bindE (setup_mounts (argv0 g) config) (\<lambda>_.
     bindE (catch_runtime_error (play g config)) (\<lambda>_.
     bindE (on_calls (emits [Gl ''PHYSFS_deinit'' [], Gl ''spdlog_drop_all'' []])) (\<lambda>_.
     returnE 0))))))"

subsection \<open>What is left when the program returns\<close>

lemma on_calls_keeps [simp]:
  "main_heap (snd (on_calls m s)) = main_heap s" "main_engine (snd (on_calls m s)) = main_engine s"
  by (simp_all add: on_calls_def split: prod.split sum.split)

lemma on_world_keeps [simp]:
  "main_heap (snd (on_world m s)) = main_heap s" "main_engine (snd (on_world m s)) = main_engine s"
  by (simp_all add: on_world_def split: prod.split)

lemma open_window_keeps:
  "main_heap (snd (open_window g c gc s)) = main_heap s" "main_engine (snd (open_window g c gc s)) = main_engine s"
  by (auto simp: open_window_def bindE_def get_state_def on_calls_def split: prod.split sum.split)

lemma run_window_keeps:
  "main_heap (snd (run_window g s)) = main_heap s" "main_engine (snd (run_window g s)) = main_engine s"
  by (auto simp: run_window_def bindE_def get_state_def on_calls_def split: prod.split sum.split option.split)

text \<open>The heap and the engine while the game runs: nothing yet, or the engine and the two systems.\<close>

definition system_objects :: "nat \<Rightarrow> (nat \<times> object_kind) list" where
  "system_objects a = [(a, SpriteRenderSystem), (a + 1, SpriteRenderSystem)]"

definition game_heap :: "heap \<Rightarrow> main_fail + unit \<Rightarrow> ('f, 'r, 'p) process \<Rightarrow> bool" where
  "game_heap h r s \<longleftrightarrow> ((\<exists>e. r = Inl e) \<and> main_engine s = None \<and> main_heap s = h) \<or>
     (\<exists>d. main_engine s = Some d \<and>
        {dynamics_world d, solver d, broadphase d, dispatcher d, collision_configuration d, data_address d} = {next_address h..<next_address h + 6} \<and>
        main_heap s = \<lparr>next_address = next_address h + 8,
          allocated = allocated h @ engine_objects (next_address h) @ system_objects (next_address h + 6)\<rparr>)"

lemma configure_game_heap:
  assumes "main_engine s = None"
  shows "game_heap (main_heap s) (fst (configure_game g config s)) (snd (configure_game g config s))"
proof (cases "read_yaml g (game_string ''game_config'' config)")
  case (Inl e)
  then show ?thesis using assms by (simp add: configure_game_def load_game_config_def game_heap_def)
next
  case (Inr n)
  obtain r1 s1 where w: "open_window g config (Node n) s = (r1, s1)" by (cases "open_window g config (Node n) s")
  have k: "main_heap s1 = main_heap s" "main_engine s1 = None"
    using open_window_keeps [of g config "Node n" s] assms by (simp_all add: w)
  show ?thesis
  proof (cases r1)
    case (Inl e)
    then show ?thesis using k Inr w by (simp add: configure_game_def load_game_config_def bindE_def game_heap_def)
  next
    case r1: (Inr u)
    obtain d where d: "engine_init None (main_heap s) = (Inr (Some d), \<lparr>next_address = next_address (main_heap s) + 6,
        allocated = allocated (main_heap s) @ engine_objects (next_address (main_heap s))\<rparr>)"
      "{dynamics_world d, solver d, broadphase d, dispatcher d, collision_configuration d, data_address d} =
        {next_address (main_heap s)..<next_address (main_heap s) + 6}"
      using engine_init_apply [of None "main_heap s"] by blast
    have "configure_game g config s = on_world (load (load_depth g) (load_env g) (Node n)) (s1\<lparr>main_engine := Some d,
        main_heap := \<lparr>next_address = 8 + next_address (main_heap s),
          allocated = allocated (main_heap s) @ engine_objects (next_address (main_heap s)) @ system_objects (next_address (main_heap s) + 6)\<rparr>\<rparr>)"
      using Inr w r1 k d(1)
      by (simp add: configure_game_def load_game_config_def bindE_def get_state_def on_heap_def start_systems_def new_object_apply system_objects_def)
    then show ?thesis using d(2) by (simp add: game_heap_def add.commute)
  qed
qed

lemma game_keeps_heap:
  assumes "main_engine s = None"
  shows "(\<lambda>(r, s'). game_heap (main_heap s) r s') (bindE (configure_game g config) (\<lambda>_. run_window g) s)"
proof (cases "configure_game g config s")
  case (Pair r s1)
  have h: "game_heap (main_heap s) r s1" using configure_game_heap [OF assms, of g config] by (simp add: Pair)
  then show ?thesis
    using Pair run_window_keeps [of g s1] by (cases r; cases "run_window g s1") (auto simp: bindE_def game_heap_def)
qed

lemma scoped_ends:
  assumes "ctor s = (Inr (), s1)" and "body s1 = (r1, s2)" and "dtor s2 = (Inr (), s3)"
  shows "scoped ctor dtor body s = (if (case r1 of Inl e \<Rightarrow> caught e | Inr u \<Rightarrow> True) then (r1, s3) else (r1, s2))"
  using assms by (cases r1) (simp_all add: scoped_def bindE_def)


lemma engine_scope_heap:
  assumes "heap_ok (main_heap s)" and "\<And>s. main_engine s = None \<Longrightarrow> (\<lambda>(r, s'). game_heap (main_heap s) r s') (body s)"
    and "engine_scope body s = (r, s')" and "case r of Inl e \<Rightarrow> caught e | Inr u \<Rightarrow> True"
  shows "((\<exists>e. r = Inl e) \<and> allocated (main_heap s') = allocated (main_heap s)) \<or>
    allocated (main_heap s') = allocated (main_heap s) @ system_objects (next_address (main_heap s) + 6)"
proof -
  let ?h = "main_heap s" and ?s = "s\<lparr>main_engine := None\<rparr>"
  obtain r1 s1 where b: "body ?s = (r1, s1)" by (cases "body ?s")
  have g: "game_heap ?h r1 s1" using assms(2) [of ?s] by (simp add: b)
  have old: "filter (\<lambda>(b, k). b \<notin> {next_address ?h..<next_address ?h + 6}) (allocated ?h) = allocated ?h"
    using assms(1) by (auto simp: heap_ok_def filter_id_conv)
  define dtor :: "('a, 'b, 'c, unit) main" where "dtor = bindE (get_state main_engine) (\<lambda>e. on_heap (engine_delete e))"
  obtain s2 where del: "dtor s1 = (Inr (), s2)" and heap: "((\<exists>e. r1 = Inl e) \<and> allocated (main_heap s2) = allocated ?h) \<or>
      allocated (main_heap s2) = allocated ?h @ system_objects (next_address ?h + 6)"
    using g
  proof (unfold game_heap_def, elim disjE exE conjE)
    fix e
    assume "r1 = Inl e" "main_engine s1 = None" "main_heap s1 = ?h"
    then show ?thesis by (intro that [of s1]) (simp_all add: dtor_def bindE_def get_state_def on_heap_def engine_delete_def)
  next
    fix d
    assume d: "main_engine s1 = Some d"
      "{dynamics_world d, solver d, broadphase d, dispatcher d, collision_configuration d, data_address d} = {next_address ?h..<next_address ?h + 6}"
      "main_heap s1 = \<lparr>next_address = next_address ?h + 8,
          allocated = allocated ?h @ engine_objects (next_address ?h) @ system_objects (next_address ?h + 6)\<rparr>"
    have "filter (\<lambda>(b, k). b \<notin> {next_address ?h..<next_address ?h + 6})
        (allocated ?h @ engine_objects (next_address ?h) @ system_objects (next_address ?h + 6)) =
        allocated ?h @ system_objects (next_address ?h + 6)"
    proof -
      have "filter (\<lambda>(b, k). b \<notin> {next_address ?h..<next_address ?h + 6}) (engine_objects (next_address ?h)) = []"
        "filter (\<lambda>(b, k). b \<notin> {next_address ?h..<next_address ?h + 6}) (system_objects (next_address ?h + 6)) = system_objects (next_address ?h + 6)"
        by (simp_all add: engine_objects_def system_objects_def)
      then show ?thesis by (simp only: filter_append old append_Nil)
    qed
    then show ?thesis
      by (intro that [of "s1\<lparr>main_heap := \<lparr>next_address = next_address ?h + 8, allocated = allocated ?h @ system_objects (next_address ?h + 6)\<rparr>\<rparr>"])
        (simp_all add: dtor_def bindE_def get_state_def on_heap_def d(1,3) engine_delete_apply d(2) del: atLeastLessThan_iff)
  qed
  have "engine_scope body s = (if (case r1 of Inl e \<Rightarrow> caught e | Inr u \<Rightarrow> True) then (r1, s2) else (r1, s1))"
    unfolding engine_scope_def dtor_def [symmetric]
    by (rule scoped_ends [where body = body and ?s1.0 = "?s" and ?s2.0 = s1 and ?s3.0 = s2]) (simp_all add: engine_new_def del b)
  then show ?thesis using assms(3,4) heap by (auto split: if_splits)
qed

text \<open>The window stays ready once SDL works, so its destructor shuts SDL down.\<close>

definition keeps_ready :: "('f, 'r, 'p, 'a) main \<Rightarrow> bool" where
  "keeps_ready m \<longleftrightarrow> (\<forall>s. ready (main_window (snd (m s))) = ready (main_window s))"

lemma keeps_ready_bind:
  assumes "keeps_ready m" and "\<And>a. keeps_ready (k a)"
  shows "keeps_ready (bindE m k)"
  unfolding keeps_ready_def
proof
  fix s
  obtain r s1 where m: "m s = (r, s1)" by (cases "m s")
  then show "ready (main_window (snd (bindE m k s))) = ready (main_window s)"
    using assms(1) [unfolded keeps_ready_def, rule_format, of s] assms(2) [unfolded keeps_ready_def, rule_format, of _ s1]
    by (cases r) (simp_all add: bindE_def)
qed

lemma keeps_ready_basic:
  "keeps_ready (on_world m)" "keeps_ready (on_calls n)" "keeps_ready (on_heap h)" "keeps_ready (get_state f)" "keeps_ready (liftE r)"
  "keeps_ready (modifyE (\<lambda>s. s\<lparr>main_engine := e\<rparr>))"
  by (auto simp: keeps_ready_def on_world_def on_calls_def on_heap_def get_state_def split: prod.split sum.split)

lemma keeps_ready_cases:
  "(\<And>a b. keeps_ready (k a b)) \<Longrightarrow> keeps_ready (case p of (a, b) \<Rightarrow> k a b)"
  "keeps_ready m \<Longrightarrow> (\<And>a. keeps_ready (l a)) \<Longrightarrow> keeps_ready (case x of None \<Rightarrow> m | Some a \<Rightarrow> l a)"
  by (auto split: prod.split option.split)

lemma window_open_ready: "window_open db ab ai fl create title c w r t = (Inr (w', r'), t') \<Longrightarrow> ready w' = ready w"
  by (auto simp: window_open_def bindE_def emits_apply split: sum.splits if_splits)

lemma open_window_ready: "keeps_ready (open_window g config gc)"
  by (auto simp: keeps_ready_def open_window_def bindE_def get_state_def on_calls_def dest: window_open_ready split: prod.split sum.split)

lemma game_keeps_ready: "keeps_ready (bindE (configure_game g config) (\<lambda>_. run_window g))"
  unfolding configure_game_def load_game_config_def start_systems_def run_window_def
  by (intro keeps_ready_bind keeps_ready_basic open_window_ready keeps_ready_cases)

lemma engine_scope_ready: "keeps_ready body \<Longrightarrow> keeps_ready (engine_scope body)"
proof -
  assume b: "keeps_ready body"
  have d: "keeps_ready (bindE (get_state main_engine) (\<lambda>e. on_heap (engine_delete e)) :: ('a, 'b, 'c, unit) main)"
    by (intro keeps_ready_bind keeps_ready_basic)
  have s: "keeps_ready (\<lambda>s. case body s of (Inr u, s') \<Rightarrow> dtor s'
      | (Inl e, s') \<Rightarrow> if caught e then (case dtor s' of (Inr u, s'') \<Rightarrow> (Inl e, s'') | (Inl d, s'') \<Rightarrow> (Inl d, s'')) else (Inl e, s'))"
    if dt: "keeps_ready dtor" for dtor :: "('a, 'b, 'c, unit) main"
    unfolding keeps_ready_def
  proof
    fix s
    obtain r1 s1 r2 s2 where "body s = (r1, s1)" "dtor s1 = (r2, s2)" by (cases "body s") fastforce
    then show "ready (main_window (snd (case body s of (Inr u, s') \<Rightarrow> dtor s'
        | (Inl e, s') \<Rightarrow> if caught e then (case dtor s' of (Inr u, s'') \<Rightarrow> (Inl e, s'') | (Inl d, s'') \<Rightarrow> (Inl d, s'')) else (Inl e, s')))) =
        ready (main_window s)"
      using b [unfolded keeps_ready_def, rule_format, of s] dt [unfolded keeps_ready_def, rule_format, of s1]
      by (cases r1; cases r2) simp_all
  qed
  show ?thesis
    unfolding engine_scope_def scoped_def by (intro keeps_ready_bind keeps_ready_basic s d)
qed

lemma window_delete_quits: "ready w \<Longrightarrow> \<exists>pre. window_delete w t = (Inr (), pre @ [Gl ''SDL_Quit'' []])"
  by (cases "sdl_window w = 0") (simp_all add: window_delete_def bindE_def emits_apply)

text \<open>The end of the game: the window's destructor ran last, or SDL never worked.\<close>

lemma play_ends:
  assumes "heap_ok (main_heap s)" and "play g config s = (r, s')" and "case r of Inl e \<Rightarrow> caught e | Inr u \<Rightarrow> True"
  shows "(((\<exists>e. r = Inl e) \<and> allocated (main_heap s') = allocated (main_heap s)) \<or>
      allocated (main_heap s') = allocated (main_heap s) @ system_objects (next_address (main_heap s) + 6)) \<and>
    (if sdl_works g then \<exists>pre. calls s' = pre @ [Gl ''SDL_Quit'' []]
     else r = Inl (Library RuntimeError) \<and> main_heap s' = main_heap s \<and> calls s' = calls s @ [Gl ''SDL_Init'' [E ''SDL_INIT_VIDEO'']])"
proof (cases "sdl_works g")
  case False
  then show ?thesis
    using assms(2) by (auto simp: play_def window_scope_def scoped_def bindE_def on_calls_def window_new_def emits_apply)
next
  case True
  let ?game = "bindE (configure_game g config) (\<lambda>_. run_window g)"
  define w where "w = \<lparr>ready = True, sdl_window = 0,
     viewport = \<lparr>vec_x = float_of g 0, vec_y = float_of g 0, vec_z = float_of g 0, vec_w = float_of g 0\<rparr>, win_width = float_of g 0, win_height = float_of g 0\<rparr>"
  define s1 where "s1 = s\<lparr>main_renderer := set_debug_rendering (is_debug g) False (main_renderer s),
    calls := calls s @ [Gl ''SDL_Init'' [E ''SDL_INIT_VIDEO'']], main_window := w\<rparr>"
  obtain r1 s2 where b: "engine_scope ?game s1 = (r1, s2)" by (cases "engine_scope ?game s1")
  have ready: "ready (main_window s2)"
    using engine_scope_ready [OF game_keeps_ready, of g config, unfolded keeps_ready_def, rule_format, of s1] b by (simp add: s1_def w_def)
  obtain pre where d: "bindE (get_state main_window) (\<lambda>w. on_calls (window_delete w)) s2 = (Inr (), s2\<lparr>calls := pre @ [Gl ''SDL_Quit'' []]\<rparr>)"
    using window_delete_quits [OF ready, of "calls s2"] by (auto simp: bindE_def get_state_def on_calls_def)
  have p: "play g config s = (if (case r1 of Inl e \<Rightarrow> caught e | Inr u \<Rightarrow> True)
      then (r1, s2\<lparr>calls := pre @ [Gl ''SDL_Quit'' []]\<rparr>) else (r1, s2))"
    unfolding play_def window_scope_def bindE_return [OF modifyE_apply]
    by (rule scoped_ends [where body = "engine_scope ?game" and ?s1.0 = s1 and ?s2.0 = s2], use True in
        \<open>simp add: bindE_def on_calls_def window_new_def emits_apply s1_def w_def\<close>, rule b, rule d)
  have h: "heap_ok (main_heap s1)" "main_heap s1 = main_heap s" using assms(1) by (simp_all add: s1_def)
  show ?thesis
    using engine_scope_heap [OF h(1) game_keeps_heap b] assms(2,3) True unfolding p h(2) by (auto split: if_splits)
qed

text \<open>
  C33: how \<open>main\<close> takes the game down. No \<open>std::runtime_error\<close> of what it does in its \<open>try\<close> leaves it: either it
  ends in undefined behaviour, in another exception, in one of the two steps before the \<open>try\<close> (the exception of a
  configuration file that cannot be loaded escapes), or
  with the inputs still coming, or it returns 0. Then the last calls shut down SDL, if it ever
  worked, and PhysFS and the log, whether the game ended by itself or by an exception, which is
  reported between them; and of what \<open>main\<close> itself and the physics engine have allocated with \<open>new\<close>, only the two systems
  are left, or nothing if it failed before they were made.
\<close>

theorem main_takes_down:
  assumes "heap_ok (main_heap s)"
  shows "case main_program g s of
      (Inr c, s') \<Rightarrow> c = 0 \<and> (\<exists>pre report. report \<in> {[], [Gl ''error'' [E ''Terminating due to'']]} \<and>
        calls s' = pre @ (if sdl_works g then [Gl ''SDL_Quit'' []] else []) @ report @ [Gl ''PHYSFS_deinit'' [], Gl ''spdlog_drop_all'' []] \<and>
        (allocated (main_heap s') = allocated (main_heap s) @ system_objects (next_address (main_heap s) + 6) \<or>
         report \<noteq> [] \<and> allocated (main_heap s') = allocated (main_heap s)))
    | (Inl e, s') \<Rightarrow> \<not> caught e \<or> open_file g ''config.yml'' = Inl (case e of Exception x \<Rightarrow> x | _ \<Rightarrow> OutOfRange)"
proof (cases "open_file g ''config.yml''")
  case (Inl x)
  then show ?thesis by (simp add: main_program_def)
next
  case (Inr doc)
  show ?thesis
  proof (cases "init_logging (is_debug g) (as_bool_of g) (Node doc)")
    case (Inl e)
    then have "e = UndefinedAccess ''Logging::logger''" by (auto simp: init_logging_def Let_def split: if_splits)
    with Inl Inr show ?thesis by (simp add: main_program_def bindE_def on_calls_def)
  next
    case log: (Inr l)
    define s1 where "s1 = snd (setup_mounts (argv0 g) (Node doc) (s\<lparr>main_log := Some l\<rparr>))"
    obtain r s2 where p: "play g (Node doc) s1 = (r, s2)" by (cases "play g (Node doc) s1")
    have s1: "setup_mounts (argv0 g) (Node doc) (s\<lparr>main_log := Some l\<rparr>) = (Inr (), s1)" "main_heap s1 = main_heap s"
      by (simp_all add: s1_def setup_mounts_def bindE_def on_calls_def emits_apply)
    have m: "main_program g s = bindE (catch_runtime_error (\<lambda>s. (r, s2))) (\<lambda>_.
        bindE (on_calls (emits [Gl ''PHYSFS_deinit'' [], Gl ''spdlog_drop_all'' []])) (\<lambda>_. returnE 0)) s1"
      using Inr log s1(1) p by (simp add: main_program_def bindE_def on_calls_def [of "liftE _"] catch_runtime_error_def)
    show ?thesis
    proof (cases "case r of Inl e \<Rightarrow> caught e | Inr u \<Rightarrow> True")
      case True
      define quit :: "'a trace" where "quit = (if sdl_works g then [Gl ''SDL_Quit'' []] else [])"
      define report :: "'a trace" where "report = (case r of Inl e \<Rightarrow> [Gl ''error'' [E ''Terminating due to'']] | Inr u \<Rightarrow> [])"
      obtain pre where pre: "calls s2 = pre @ quit" and
        heap: "allocated (main_heap s2) = allocated (main_heap s) @ system_objects (next_address (main_heap s) + 6) \<or>
          report \<noteq> [] \<and> allocated (main_heap s2) = allocated (main_heap s)"
        using play_ends [OF _ p True] assms s1(2) by (cases "sdl_works g") (auto simp: quit_def report_def)
      obtain s' where s': "main_program g s = (Inr 0, s')" "main_heap s' = main_heap s2"
          "calls s' = calls s2 @ report @ [Gl ''PHYSFS_deinit'' [], Gl ''spdlog_drop_all'' []]"
        using True unfolding m by (cases r) (auto simp: bindE_def catch_runtime_error_def on_calls_def emits_apply report_def)
      moreover have "report \<in> {[], [Gl ''error'' [E ''Terminating due to'']]}" by (simp add: report_def split: sum.split)
      moreover have "calls s' = pre @ quit @ report @ [Gl ''PHYSFS_deinit'' [], Gl ''spdlog_drop_all'' []]" using pre s'(3) by simp
      moreover have "allocated (main_heap s') = allocated (main_heap s) @ system_objects (next_address (main_heap s) + 6) \<or>
          report \<noteq> [] \<and> allocated (main_heap s') = allocated (main_heap s)" using heap s'(2) by simp
      ultimately show ?thesis
        unfolding s'(1) prod.case sum.case quit_def [symmetric]
        by (intro conjI refl exI [of _ pre] exI [of _ report])
    next
      case False
      then show ?thesis unfolding m by (auto simp: bindE_def catch_runtime_error_def split: sum.splits)
    qed
  qed
qed

subsection \<open>A game that is played to its end\<close>







text \<open>A small game: one mount, no scenes, two frames.\<close>

definition small_config :: ynode where
  "small_config = YMap
     [(YScalar ''telemetry'', YMap [(YScalar ''logging'', YScalar ''info'')]),
      (YScalar ''graphics'', YMap shipped_graphics),
      (YScalar ''game'', YMap [(YScalar ''sources'', YSeq [YScalar ''data'']), (YScalar ''game_config'', YScalar ''game.yml'')])]"

definition small_game :: ynode where
  "small_game = YMap [(YScalar ''game'', YMap [(YScalar ''name'', YScalar ''A game''), (YScalar ''scenes'', YSeq [])])]"

definition small_given :: "('r, 'p, int) env \<Rightarrow> bool \<Rightarrow> (int, 'r, 'p) given" where
  "small_given env sdl =
     \<lparr>is_debug = True, argv0 = ''sophia'', open_file = (\<lambda>f. Inr small_config), read_yaml = (\<lambda>f. Inr small_game),
      as_bool_of = yes_no, as_int_of = no_int, float_of = (\<lambda>i. i), sdl_works = sdl, window_handle = 7, load_depth = 1, load_env = env,
      gl_of = counting_api, loop_fm = int_loop_math, decode_image = two_files, image_bytes = (\<lambda>f. []), random_sprites = [],
      new_counter = 0, new_gauge = 0, counter_table = empty_slots, gauge_table = empty_slots, start_clock = 0,
      frame_inputs = [input_at 10 [], input_at 20 [Quit]]\<rparr>"

lemma small_config_log: "init_logging True yes_no (Node small_config) = Inr (Info, False)"
  by (simp add: init_logging_def logging_defs_def small_config_def parser_def cfg_simps map_of_defs_def scalar_def optional_def bindE_def catchE_def
      log_levels_def Let_def)



definition small_process :: "int renderer \<Rightarrow> int window \<Rightarrow> 'r \<Rightarrow> (int, 'r, 'p) process" where
  "small_process r w registry =
     \<lparr>calls = [], main_heap = \<lparr>next_address = 0, allocated = []\<rparr>,
      game_world = \<lparr>out = \<lparr>reg = registry, entities = Map.empty, found = [], fault = None\<rparr>, errs = [], flags = []\<rparr>,
      main_log = None, main_renderer = r, main_window = w, main_engine = None\<rparr>"

lemma main_takes_down_witness:
  "\<forall>(r :: int renderer) w (env :: (unit, unit, int) env). \<exists>s' pre report. main_program (small_given env False) (small_process r w ()) = (Inr 0, s') \<and>
     report \<in> {[], [Gl ''error'' [E ''Terminating due to'']]} \<and> calls s' = pre @ report @ [Gl ''PHYSFS_deinit'' [], Gl ''spdlog_drop_all'' []]"
proof (intro allI)
  fix r :: "int renderer" and w and env :: "(unit, unit, int) env"
  have h: "heap_ok (main_heap (small_process r w ()))" by (simp add: heap_ok_def small_process_def)
  obtain s' where "main_program (small_given env False) (small_process r w ()) = (Inr 0, s')"
    by (simp add: main_program_def small_given_def small_config_log bindE_def on_calls_def catch_runtime_error_def play_def window_scope_def
        scoped_def window_new_def emits_apply setup_mounts_def)
  then show "\<exists>s' pre report. main_program (small_given env False) (small_process r w ()) = (Inr 0, s') \<and>
     report \<in> {[], [Gl ''error'' [E ''Terminating due to'']]} \<and> calls s' = pre @ report @ [Gl ''PHYSFS_deinit'' [], Gl ''spdlog_drop_all'' []]"
    using main_takes_down [OF h, of "small_given env False"] by (auto simp: small_given_def)
qed


subsection \<open>What the log makes of its configuration\<close>

text \<open>Whether an attribute is there and is reported: it is no scalar, or it does not decode.\<close>

definition reported :: "(ynode \<times> ynode) list \<Rightarrow> string \<Rightarrow> (yref \<Rightarrow> exn + 'v) \<Rightarrow> bool" where
  "reported ps name conv =
     (case find_pair name ps of
        None \<Rightarrow> False
      | Some (YScalar str) \<Rightarrow> (case conv (Node (YScalar str)) of Inr v \<Rightarrow> False | Inl e \<Rightarrow> True)
      | Some n \<Rightarrow> True)"

lemma scalar_errs:
  assumes "cb \<in> {default_error_handler, optional_cb default_error_handler}"
  shows "errs (snd (scalar name conv assign cb (Node (YMap ps)) s)) \<noteq> [] \<longleftrightarrow> errs s \<noteq> [] \<or> reported ps name conv"
    and "out (snd (scalar name conv assign cb (Node (YMap ps)) s)) = opt_assign assign (scalar_value ps name conv) (out s)"
  using assms
  by (auto simp: scalar_def reported_def scalar_value_def opt_assign_def bindE_def catchE_def default_error_handler_def optional_cb_def
      split: option.splits ynode.splits sum.splits)

text \<open>
  The log's configuration. The level is the one that the attribute names, and the lowest one for
  an unknown name or none at all; profiling is on in a debug build where its attribute says so and
  the level is not \<open>No\<close>. But an attribute that cannot be used does not fall back: its error is
  reported to the logger that this function is about to create, a null pointer.
\<close>

theorem logging_meaning:
  assumes "find_pair ''telemetry'' doc = Some (YMap ps)"
  shows "init_logging debug_build as_bool (Node (YMap doc)) =
    (if reported ps ''logging'' as_string \<or> reported ps ''profiling'' as_bool then Inl (UndefinedAccess ''Logging::logger'')
     else let level = (case scalar_value ps ''logging'' as_string of
                         None \<Rightarrow> Trace | Some name \<Rightarrow> (case log_levels name of None \<Rightarrow> Trace | Some l \<Rightarrow> l))
          in Inr (level, debug_build \<and> level \<noteq> Off \<and> scalar_value ps ''profiling'' as_bool = Some True))"
proof -
  let ?s = "\<lparr>out = ([], False), errs = [], flags = []\<rparr>"
  let ?l = "scalar ''logging'' as_string (\<lambda>v (level, profiling). (v, profiling))"
  let ?p = "scalar ''profiling'' as_bool (\<lambda>v (level, profiling). (level, v))"
  define s1 where "s1 = snd (?l default_error_handler (Node (YMap ps)) ?s)"
  define s2 where "s2 = snd (?p (optional_cb default_error_handler) (Node (YMap ps)) s1)"
  have "snd (parser (logging_defs as_bool) (Node (YMap doc)) ?s) = snd (optional [?p] default_error_handler (Node (YMap ps)) s1)"
    using assms by (simp add: parser_def logging_defs_def make_parser_fold map_present s1_def)
  also have "\<dots> = s2"
    by (simp add: optional_def s2_def bindE_def catchE_def split: prod.split sum.split)
  finally have p: "snd (parser (logging_defs as_bool) (Node (YMap doc)) ?s) = s2" .
  have o: "out s2 = (case scalar_value ps ''logging'' as_string of None \<Rightarrow> [] | Some v \<Rightarrow> v,
      case scalar_value ps ''profiling'' as_bool of None \<Rightarrow> False | Some v \<Rightarrow> v)"
    and e: "errs s2 \<noteq> [] \<longleftrightarrow> reported ps ''logging'' as_string \<or> reported ps ''profiling'' as_bool"
    by (simp_all add: s2_def s1_def scalar_errs opt_assign_def split: option.split)
  have "log_levels [] = None" by (simp add: log_levels_def)
  then show ?thesis
    unfolding init_logging_def p Let_def e o by (auto split: option.splits)
qed

lemma logging_meaning_witness:
  "init_logging True yes_no (Node (YMap [(YScalar ''telemetry'', YMap [(YScalar ''logging'', YScalar ''warning''), (YScalar ''profiling'', YScalar ''Yes'')])])) =
     Inr (Trace, True) \<and>
   init_logging True yes_no (Node (YMap [(YScalar ''telemetry'', YMap [(YScalar ''logging'', YSeq [])])])) = Inl (UndefinedAccess ''Logging::logger'')"
proof -
  have "find_pair ''telemetry'' [(YScalar ''telemetry'', YMap ps)] = Some (YMap ps)" for ps by simp
  from logging_meaning [OF this, of True yes_no] show ?thesis
    by (simp add: reported_def scalar_value_def yes_no_def log_levels_def)
qed

end
