(* ===== verification/Spec2Isabelle.thy ===== *)
theory Spec2Isabelle
  imports Containers ConfigLaws Sync Telemetry Geometry ResourcePool Systems LoaderLaws ZlibLaws ZlibFormat BmpSafe Pnm PngBits PngFaults PicLaws LoadLaws
    Mesh ShaderProgram SpritePool TileMap RendererLaws Culling EngineMain
begin

text \<open>
  A verification library for the Sophia game engine.

  \<^bold>\<open>The program.\<close> The engine is C++17 under \<open>src/\<close> and \<open>include/\<close>. \<open>src/core/main.cpp\<close> starts the log,
  mounts the game with PhysFS, reads its YAML configuration, opens a window, starts the physics and runs the main
  loop until the window is left. The window reads the graphics settings, loads textures
  (through the image decoder \<open>include/util/stb_image.h\<close>), shaders, a sprite pool and a tile map, and draws a frame
  with the deferred renderer. Beside this path the engine has an entity loader, which turns
  YAML scenes into entities of an entt registry, entity systems that run over the registry, managed
  resources behind handles, counters and gauges, and a try-lock.

  \<^bold>\<open>How the code is modelled.\<close> The definitions follow the code function by function. State is a record or, where
  the code only calls a library, the trace of the calls. Code that can throw or fail is an
  effect (\<open>Prelude\<close>: a state with either an error or a result, composed by \<open>bindE\<close>). What the languages leave
  undefined (an index out of range, a signed overflow, a read of memory that was never written where it
  matters) is an error value of its own, so a theorem that a function returns says that none of it
  happens. Integers are words, or \<open>int\<close> and \<open>nat\<close> with their bounds written out. Libraries that are not
  sources (OpenGL, SDL, entt, Bullet, PhysFS, spdlog, the file system, floating point arithmetic) are parameters
  or recorded calls.

  \<^bold>\<open>Theories.\<close>
  \<^item> \<open>Prelude\<close>: machine types, the effect type with its triples \<open>ensures\<close> and \<open>safely\<close>, list lemmas, the
    collections of simplification and introduction rules.
  \<^item> \<open>Containers\<close>: the vector templates of \<open>include/util/Helpers.h\<close>.
  \<^item> \<open>YamlNode\<close>: the node accessors of yaml-cpp that the engine calls. \<open>ConfigParser\<close>, \<open>ConfigLaws\<close>: the parser
    combinators of \<open>include/util/Config.h\<close> and \<open>src/util/Config.cpp\<close>; a parser never throws, \<open>one_of\<close> takes
    whichever form a node has. The locale \<open>state_frame\<close> proves once what every combinator keeps.
  \<^item> \<open>Loader\<close>, \<open>LoaderLaws\<close>: \<open>include/ecs/Loader.h\<close>, \<open>src/ecs/Loader.cpp\<close> and the component constructors.
    The registry is described by what entt documents (\<open>registry_laws\<close>, with nothing assumed of an assignment outside it);
    \<open>instantiate\<close> builds the hierarchy of a blueprint, the transform constructor fills its defaults, and
    a depth above the nesting of the document gives the same as any larger one. Of the logging in debug builds only
    the lookup of the comments is modelled, which can throw.
  \<^item> \<open>Sync\<close>, \<open>Telemetry\<close>: the try-lock of \<open>include/lib.h\<close> and the gauges of \<open>include/util/Telemetry.h\<close> as step
    relations over threads, with mutual exclusion and no lost update; the named tables, whose contract is
    the locale \<open>named_slots\<close>.
  \<^item> \<open>Geometry\<close>: \<open>include/math/Types.h\<close> and \<open>include/math/AABB.h\<close>.
  \<^item> \<open>Resources\<close>, \<open>ResourcePool\<close>: the handle tables of \<open>include/world/Scene.h\<close>, refined to a finite map through the
    locale \<open>handle_pool\<close>; the table invariant over all reachable states; the faults of the garbage
    collector.
  \<^item> \<open>Systems\<close>: \<open>include/ecs/systems/System.h\<close> and \<open>sprite_render.h\<close>, with the reports of the added and removed entities.
  \<^item> \<open>ImageReader\<close>: the byte source of the image decoder over memory, callbacks and files. The locales
    \<open>byte_source\<close> and \<open>block_source\<close> state what the decoders rely on; the interpretations for memory and for
    files show that any program of reads, blocks and skips forward has the same result on both. They do not agree on
    \<open>at_eof\<close>, after a rewind, after a block that is not there, and on empty data.
  \<^item> \<open>Zlib\<close>, \<open>ZlibBits\<close>, \<open>ZlibCodes\<close>, \<open>ZlibTables\<close>, \<open>ZlibSafe\<close>, \<open>ZlibLaws\<close>, \<open>ZlibFormat\<close>: the zlib decoder.
    The bit reader is a third instance of \<open>byte_source\<close> and divides a number; the Huffman tables decode the
    canonical code; every access is in range but for four named faults; an encoder of the format
    is inverted, for stored blocks and for blocks of Huffman codes; one truncated stream keeps the
    decoder busy for ever.
  \<^item> \<open>ImageFormats\<close>, \<open>PngPixels\<close>, \<open>Png\<close>, \<open>PngFilters\<close>, \<open>PngLaws\<close>, \<open>PngBits\<close>, \<open>PngFaults\<close>: sample conversion and the
    PNG decoder; what it makes of 8-bit pictures with any filters, of pictures with one channel of 1, 2 or 4
    bits, and of interlaced pictures with 16 bits, which are read past their end.
  \<^item> \<open>Bmp\<close>, \<open>BmpLaws\<close>, \<open>BmpMasks\<close>, \<open>BmpSafe\<close>: the BMP decoder, its round trip, its bit tricks and its memory
    safety. \<open>Pnm\<close>: the PGM and PPM decoder. \<open>Tga\<close>, \<open>TgaLaws\<close>: the TGA decoder and the round trip of run-length
    encoded files. \<open>Psd\<close>, \<open>PsdLaws\<close>, \<open>Pic\<close>, \<open>PicLaws\<close>: the Photoshop and Softimage decoders, the round trips of
    their run-length encodings, and what a run past the picture and a refused file do.
  \<^item> \<open>ImageLoad\<close>, \<open>LoadLaws\<close>: the entry points, the order of the formats and the flip; a PNG file is loaded as
    its picture, and becomes the texture with these pixels if it has one, three or four channels and rows of a multiple of
    four bytes.
  \<^item> \<open>Gl\<close>, \<open>Mesh\<close>, \<open>ShaderProgram\<close>, \<open>SpritePool\<close>, \<open>TileMap\<close>, \<open>DeferredRenderer\<close>, \<open>Culling\<close>, \<open>RendererLaws\<close>: the sources
    of the same names under \<open>include/graphics\<close> and \<open>src/graphics\<close> as producers of OpenGL calls; which objects
    are created, bound and released, what is drawn, and what the vector code for culling computes.
  \<^item> \<open>Textures\<close>, \<open>Window\<close>, \<open>WindowLaws\<close>: \<open>src/window/Window.cpp\<close>: textures, the configuration, the main loop.
  \<^item> \<open>Physics\<close>: \<open>src/physics/bullet/BulletEngine.cpp\<close> as a client of the heap.
  \<^item> \<open>EngineMain\<close>: \<open>src/core/main.cpp\<close> and \<open>src/util/Logging.cpp\<close>, the whole run with its scopes and its
    catch clauses; its heap has what \<open>main\<close> and the physics engine allocate.

  \<^bold>\<open>Fuel and bounds.\<close> Loops that may run for ever are \<open>partial_function (option)\<close> or carry fuel, and running out is an
  error of its own (\<open>OutOfFuel\<close>), so every theorem that a result comes out also says that the
  fuel was enough: the nesting depth of a document for the loader, the number of chunks plus two for PNG files, one
  more than the number of tokens for a block of Huffman codes. The main loop is bounded by the frames it is given
  and theorems about it assume a frame that quits. The round trips bound the pictures so that the sizes
  stay below the limits of \<open>int\<close>, as their hypotheses say; the code checks some of these limits
  itself and fails with an error.

  \<^bold>\<open>Not modelled.\<close>
  \<^item> The scene tree of \<open>include/world/Scene.h\<close> from line 153 on does not compile, and
    \<open>src/graphics/Model.cpp\<close> is under \<open>#if 0\<close>, as is a part of \<open>src/ecs/Loader.cpp\<close>.
  \<^item> The profiling and clock headers are macros over vendored libraries and the system clock;
    \<open>checkErrors\<close> only queries and logs; \<open>readToString\<close> is file input.
  \<^item> What other parts allocate with \<open>new\<close> is not on the heap of \<open>EngineMain\<close>: the atomics of the telemetry are in
    its tables, the sprite pool is a field of the renderer, and the logs of shaders that fail are left out.
  \<^item> The destructors that run while an exception leaves \<open>Window::run\<close>.
  \<^item> The decoders of JPEG, GIF and HDR files and the entry points for floats and 16-bit
    samples: their tests are modelled, the decoders are parameters of \<open>load_main\<close>.
  \<^item> yaml-cpp beyond its node accessors, and the other libraries under \<open>depends/\<close>.
\<close>

end
